(* ===== verification/Jbd2_Prelude.thy ===== *)
theory Jbd2_Prelude
  imports Main "HOL-Library.Word"
begin

unbundle bit_operations_syntax

text \<open>
  What the theories of the development share: names for the kernel's integer types, the
  result type in which a failed assertion or a use of a freed object is a value, the error
  numbers the code returns, the big-endian encoding of the on-disk structures, and the lemmas
  on lists, options and byte blocks the component proofs use.
\<close>

section \<open>Names for the kernel's types\<close>

type_synonym byte = "8 word"
type_synonym u16 = "16 word"
type_synonym u32 = "32 word"
type_synonym u64 = "64 word"
type_synonym ulong = "64 word"
type_synonym block_data = "byte list"

section \<open>Results\<close>

text \<open>
  \<open>BUG\<close> is a failed \<open>J_ASSERT\<close> or \<open>BUG_ON\<close>. \<open>UAF\<close> is an access through a pointer to an
  object that has been freed, \<open>OOPS\<close> an access through a null pointer, and \<open>PANIC\<close> a call of \<open>panic\<close>.
\<close>

datatype jerror = BUG | UAF | OOPS | PANIC

type_synonym 'a res = "jerror + 'a"

definition bind_res :: "'a res \<Rightarrow> ('a \<Rightarrow> 'b res) \<Rightarrow> 'b res" where
  "bind_res m f = (case m of Inl e \<Rightarrow> Inl e | Inr x \<Rightarrow> f x)"

definition J_ASSERT :: "bool \<Rightarrow> 'a res \<Rightarrow> 'a res" where
  "J_ASSERT P m = (if P then m else Inl BUG)"

definition deref :: "'a option \<Rightarrow> jerror \<Rightarrow> ('a \<Rightarrow> 'b res) \<Rightarrow> 'b res" where
  "deref p e f = (case p of None \<Rightarrow> Inl e | Some x \<Rightarrow> f x)"

named_theorems res_simps \<open>unfolding of results: binds, assertions, dereferences\<close>

lemma bind_res_simps [simp, res_simps]:
  "bind_res (Inl e) f = Inl e"
  "bind_res (Inr x) f = f x"
  by (simp_all add: bind_res_def)

lemma J_ASSERT_simps [simp, res_simps]:
  "J_ASSERT True m = m"
  "J_ASSERT False m = Inl BUG"
  by (simp_all add: J_ASSERT_def)

lemma deref_simps [simp, res_simps]:
  "deref None e f = Inl e"
  "deref (Some x) e f = f x"
  by (simp_all add: deref_def)

lemma bind_res_Inr [res_simps]: "bind_res m f = Inr y \<longleftrightarrow> (\<exists>x. m = Inr x \<and> f x = Inr y)"
  by (cases m) auto

lemma J_ASSERT_Inr [res_simps]: "J_ASSERT P m = Inr y \<longleftrightarrow> P \<and> m = Inr y"
  by (cases P) auto

lemma deref_Inr [res_simps]: "deref p e f = Inr y \<longleftrightarrow> (\<exists>x. p = Some x \<and> f x = Inr y)"
  by (cases p) auto

lemma bind_res_assoc: "bind_res (bind_res m f) g = bind_res m (\<lambda>x. bind_res (f x) g)"
  by (cases m) auto

text \<open>
  \<open>wp m E Q\<close> says how a computation ends: an error of it satisfies \<open>E\<close> and a result satisfies
  \<open>Q\<close>. With \<open>E = any_err\<close> this is a statement about results only, with \<open>E = no_err\<close> it also
  says that the computation returns. The rules push \<open>wp\<close> through the ways computations are
  composed, so that a proof about an operation follows its text.
\<close>

definition wp :: "'a res \<Rightarrow> (jerror \<Rightarrow> bool) \<Rightarrow> ('a \<Rightarrow> bool) \<Rightarrow> bool" where
  "wp m E Q = (case m of Inl e \<Rightarrow> E e | Inr x \<Rightarrow> Q x)"

abbreviation any_err :: "jerror \<Rightarrow> bool" where "any_err \<equiv> (\<lambda>_. True)"
abbreviation no_err :: "jerror \<Rightarrow> bool" where "no_err \<equiv> (\<lambda>_. False)"

named_theorems wp_simps \<open>how a composed computation ends\<close>

lemma wp_res [simp, wp_simps]: "wp (Inl e) E Q = E e" "wp (Inr x) E Q = Q x"
  by (simp_all add: wp_def)

lemma wp_bind [wp_simps]: "wp (bind_res m f) E Q = wp m E (\<lambda>x. wp (f x) E Q)"
  by (cases m) auto

lemma wp_assert [wp_simps]: "wp (J_ASSERT P m) E Q = (if P then wp m E Q else E BUG)"
  by (simp add: J_ASSERT_def)

lemma wp_deref [wp_simps]:
  "wp (deref p e f) E Q = (case p of None \<Rightarrow> E e | Some x \<Rightarrow> wp (f x) E Q)"
  by (cases p) auto

lemma wp_if [wp_simps]: "wp (if b then m else n) E Q = (if b then wp m E Q else wp n E Q)"
  by simp

lemma wp_option [wp_simps]:
  "wp (case p of None \<Rightarrow> m | Some x \<Rightarrow> f x) E Q = (case p of None \<Rightarrow> wp m E Q | Some x \<Rightarrow> wp (f x) E Q)"
  by (cases p) auto

lemma wp_list [wp_simps]:
  "wp (case p of [] \<Rightarrow> m | x # xs \<Rightarrow> f x xs) E Q =
     (case p of [] \<Rightarrow> wp m E Q | x # xs \<Rightarrow> wp (f x xs) E Q)"
  by (cases p) auto

lemma wp_prod [wp_simps]:
  "wp (case p of (x, y) \<Rightarrow> f x y) E Q = (case p of (x, y) \<Rightarrow> wp (f x y) E Q)"
  by (cases p) auto

lemma wp_mono: "wp m E P \<Longrightarrow> (\<And>x. P x \<Longrightarrow> Q x) \<Longrightarrow> wp m E Q"
  by (cases m) auto

lemma wp_weaken: "wp m E P \<Longrightarrow> (\<And>e. E e \<Longrightarrow> F e) \<Longrightarrow> (\<And>x. P x \<Longrightarrow> Q x) \<Longrightarrow> wp m F Q"
  by (cases m) auto

lemma wp_conj: "wp m E P \<Longrightarrow> wp m E Q \<Longrightarrow> wp m E (\<lambda>x. P x \<and> Q x)"
  by (cases m) auto

lemma wp_conj_any: "wp m no_err P \<Longrightarrow> wp m any_err Q \<Longrightarrow> wp m no_err (\<lambda>x. P x \<and> Q x)"
  by (auto simp: wp_def split: sum.splits)

lemma wp_InrD: "wp m E Q \<Longrightarrow> m = Inr y \<Longrightarrow> Q y"
  by simp

lemma wp_returns: "wp m no_err Q \<longleftrightarrow> (\<exists>y. m = Inr y \<and> Q y)"
  by (cases m) auto

lemma wp_any: "wp m any_err Q \<longleftrightarrow> (\<forall>y. m = Inr y \<longrightarrow> Q y)"
  by (cases m) auto

text \<open>
  A computation that may run forever has a result in \<open>'a res option\<close>, \<open>None\<close> when it does not
  return. \<open>bind_ro\<close> sequences such computations.
\<close>

definition bind_ro :: "'a res option \<Rightarrow> ('a \<Rightarrow> 'b res option) \<Rightarrow> 'b res option" where
  "bind_ro m f = (case m of None \<Rightarrow> None | Some (Inl e) \<Rightarrow> Some (Inl e) | Some (Inr x) \<Rightarrow> f x)"

lemma bind_ro_simps [simp]:
  "bind_ro None f = None"
  "bind_ro (Some (Inl e)) f = Some (Inl e)"
  "bind_ro (Some (Inr x)) f = f x"
  by (simp_all add: bind_ro_def)

lemma bind_ro_Some: "bind_ro (Some m) f = (case m of Inl e \<Rightarrow> Some (Inl e) | Inr x \<Rightarrow> f x)"
  by (simp add: bind_ro_def)

section \<open>Error numbers\<close>

abbreviation EIO :: int where "EIO \<equiv> 5"
abbreviation ENOMEM :: int where "ENOMEM \<equiv> 12"
abbreviation EBUSY :: int where "EBUSY \<equiv> 16"
abbreviation EINVAL :: int where "EINVAL \<equiv> 22"
abbreviation ENOSPC :: int where "ENOSPC \<equiv> 28"
abbreviation EROFS :: int where "EROFS \<equiv> 30"
abbreviation EBADMSG :: int where "EBADMSG \<equiv> 74"
abbreviation EUCLEAN :: int where "EUCLEAN \<equiv> 117"

section \<open>Byte blocks\<close>

text \<open>
  \<open>be_enc n v\<close> is \<open>v\<close> as \<open>n\<close> bytes, most significant first (\<open>cpu_to_be32\<close> with
  \<open>n = 4\<close>, \<open>cpu_to_be64\<close> with \<open>n = 8\<close>), and \<open>be_dec\<close> reads such bytes. \<open>store_bytes\<close>
  overwrites a block at an offset and \<open>load_bytes\<close> reads from one.
\<close>

fun be_enc :: "nat \<Rightarrow> nat \<Rightarrow> byte list" where
  "be_enc 0 v = []"
| "be_enc (Suc n) v = be_enc n (v div 256) @ [of_nat v]"

definition be_dec :: "byte list \<Rightarrow> nat" where
  "be_dec bs = foldl (\<lambda>a b. a * 256 + unat b) 0 bs"

definition store_bytes :: "block_data \<Rightarrow> nat \<Rightarrow> byte list \<Rightarrow> block_data" where
  "store_bytes d off bs = take off d @ bs @ drop (off + length bs) d"

definition load_bytes :: "block_data \<Rightarrow> nat \<Rightarrow> nat \<Rightarrow> byte list" where
  "load_bytes d off n = take n (drop off d)"

named_theorems block_simps \<open>reading and writing byte blocks\<close>

lemma length_be_enc [simp, block_simps]: "length (be_enc n v) = n"
  by (induction n arbitrary: v) auto

lemma be_dec_append1 [simp]: "be_dec (bs @ [b]) = be_dec bs * 256 + unat b"
  by (simp add: be_dec_def)

lemma unat_of_nat_byte: "unat (of_nat v :: byte) = v mod 256"
  by (simp add: unat_of_nat)

lemma be_dec_enc_mod: "be_dec (be_enc n v) = v mod 256 ^ n"
proof (induction n arbitrary: v)
  case 0
  show ?case by (simp add: be_dec_def)
next
  case (Suc n)
  have "v mod (256 ^ n * 256) = v mod 256 + 256 * (v div 256 mod 256 ^ n)"
    by (metis mod_mult2_eq mult.commute add.commute)
  with Suc show ?case by (simp add: unat_of_nat_byte mult.commute)
qed

lemma be_dec_enc [block_simps]: "v < 256 ^ n \<Longrightarrow> be_dec (be_enc n v) = v"
  by (simp add: be_dec_enc_mod)

lemma be_dec_enc_u32 [simp, block_simps]: "be_dec (be_enc 4 (unat (w :: u32))) = unat w"
  using unsigned_less [of w, where 'a = nat] by (simp add: be_dec_enc)

lemma be_dec_enc_u64 [simp, block_simps]: "be_dec (be_enc 8 (unat (w :: u64))) = unat w"
  using unsigned_less [of w, where 'a = nat] by (simp add: be_dec_enc)

lemma length_store_bytes [simp, block_simps]:
  "off + length bs \<le> length d \<Longrightarrow> length (store_bytes d off bs) = length d"
  by (simp add: store_bytes_def)

lemma load_store_same [block_simps]:
  "off \<le> length d \<Longrightarrow> load_bytes (store_bytes d off bs) off (length bs) = bs"
  by (simp add: load_bytes_def store_bytes_def)

lemma load_store_before [block_simps]:
  assumes "i + n \<le> off" and "off \<le> length d"
  shows "load_bytes (store_bytes d off bs) i n = load_bytes d i n"
  using assms
  by (simp add: load_bytes_def store_bytes_def drop_take min_absorb1 min_absorb2)

lemma load_store_after [block_simps]:
  assumes "off + length bs \<le> i" and "off \<le> length d"
  shows "load_bytes (store_bytes d off bs) i n = load_bytes d i n"
proof -
  obtain k where i: "i = off + length bs + k" using assms(1) le_Suc_ex by blast
  show ?thesis using assms(2)
    by (simp add: load_bytes_def store_bytes_def i min_absorb2 add.commute)
qed

lemma drop_load_bytes: "drop m (load_bytes d off (m + n)) = load_bytes d (off + m) n"
  by (simp add: load_bytes_def drop_take add.commute)

lemma be_enc_add: "be_enc (m + n) v = be_enc m (v div 256 ^ n) @ be_enc n v"
proof (induction n arbitrary: v)
  case 0
  then show ?case by simp
next
  case (Suc n)
  have "v div 256 div 256 ^ n = v div (256 * 256 ^ n)" by (simp add: div_mult2_eq)
  then show ?case using Suc [of "v div 256"] by simp
qed

section \<open>Words\<close>

lemma uint_ucast64 [simp]: "uint (ucast (w :: u32) :: u64) = uint w"
  by (rule uint_up_ucast) (simp add: is_up)

lemma unat_ucast64 [simp]: "unat (ucast (w :: u32) :: u64) = unat w"
  by (metis uint_ucast64 nat_uint_eq)

lemma unat_of_nat_small: "n < 2 ^ LENGTH('a :: len) \<Longrightarrow> unat (of_nat n :: 'a word) = n"
  by (simp add: unat_of_nat)

lemma unat_add_small:
  "unat (x :: 'a :: len word) + unat y < 2 ^ LENGTH('a) \<Longrightarrow> unat (x + y) = unat x + unat y"
  by (simp add: unat_word_ariths)

section \<open>Lists\<close>

lemma sum_list_map_update:
  fixes f :: "'a \<Rightarrow> nat"
  assumes "i < length xs"
  shows "sum_list (map f (xs[i := x])) + f (xs ! i) = sum_list (map f xs) + f x"
  using assms
proof (induction xs arbitrary: i)
  case Nil
  then show ?case by simp
next
  case (Cons a xs)
  then show ?case by (cases i) auto
qed

end
