(* ===== verification/Jbd2_Tid.thy ===== *)
theory Jbd2_Tid
  imports Jbd2_Prelude
begin

text \<open>
  Transaction identifiers (\<open>tid_t\<close> of \<open>include/linux/journal-head.h\<close>) and the comparisons
  \<open>tid_gt\<close> and \<open>tid_geq\<close> of \<open>include/linux/jbd2.h\<close>, which compare modulo \<open>2 ^ 32\<close>. The locale
  \<open>tid_window\<close> collects what the clients (the revoke table, the log tail, the commit requests)
  rely on: on identifiers that lie within half the number space of a base, the comparisons
  are those of the distances from the base.
\<close>

type_synonym tid_t = u32

definition tid_gt :: "tid_t \<Rightarrow> tid_t \<Rightarrow> bool" where
  "tid_gt x y = (0 < sint (x - y))"

definition tid_geq :: "tid_t \<Rightarrow> tid_t \<Rightarrow> bool" where
  "tid_geq x y = (0 \<le> sint (x - y))"

section \<open>Identifiers near a base\<close>

text \<open>\<open>tid_dist base x\<close> is how many transactions \<open>x\<close> is after \<open>base\<close>, counting wraps.\<close>

definition tid_dist :: "tid_t \<Rightarrow> tid_t \<Rightarrow> nat" where
  "tid_dist base x = unat (x - base)"

definition in_window :: "tid_t \<Rightarrow> tid_t \<Rightarrow> bool" where
  "in_window base x = (tid_dist base x < 2 ^ 31)"

lemma uint_small: "unat (a :: u32) < 2 ^ 31 \<Longrightarrow> uint a < 2 ^ 31"
  by (metis of_nat_less_iff of_nat_numeral of_nat_power uint_nat)

lemma signed_take_bit_small:
  assumes "- (2 ^ 31) \<le> k" and "k < (2 ^ 31 :: int)"
  shows "signed_take_bit 31 k = k"
  using assms by (rule signed_take_bit_int_eq_self)

lemma sint_diff_small:
  fixes a b :: u32
  assumes "uint a < 2 ^ 31" and "uint b < 2 ^ 31"
  shows "sint (a - b) = uint a - uint b"
proof -
  have range: "- (2 ^ 31) \<le> uint a" "- (2 ^ 31) \<le> uint b"
    by (rule order_trans [OF _ uint_ge_0], simp)+
  have "sint a = uint a" and "sint b = uint b"
    using signed_take_bit_small [OF range(1) assms(1)] signed_take_bit_small [OF range(2) assms(2)]
    by (simp_all add: sint_uint)
  then have "sint (a - b) = signed_take_bit 31 (uint a - uint b)"
    by (simp add: sint_word_diff)
  also have "\<dots> = uint a - uint b"
    by (rule signed_take_bit_small) (use assms uint_ge_0 [of a] uint_ge_0 [of b] in linarith)+
  finally show ?thesis .
qed

lemma sint_diff_dist:
  fixes base x y :: tid_t
  assumes "in_window base x" and "in_window base y"
  shows "sint (x - y) = int (tid_dist base x) - int (tid_dist base y)"
proof -
  have "uint (x - base) < 2 ^ 31" and "uint (y - base) < 2 ^ 31"
    using assms by (simp_all only: in_window_def tid_dist_def uint_small)
  then have "sint ((x - base) - (y - base)) = uint (x - base) - uint (y - base)"
    by (rule sint_diff_small)
  then show ?thesis by (simp add: tid_dist_def)
qed

locale tid_window =
  fixes gt geq :: "'t \<Rightarrow> 't \<Rightarrow> bool"
    and dist :: "'t \<Rightarrow> 't \<Rightarrow> nat"
    and near :: "'t \<Rightarrow> 't \<Rightarrow> bool"
  assumes gt_dist: "near base x \<Longrightarrow> near base y \<Longrightarrow> gt x y \<longleftrightarrow> dist base y < dist base x"
    and geq_dist: "near base x \<Longrightarrow> near base y \<Longrightarrow> geq x y \<longleftrightarrow> dist base y \<le> dist base x"
    and dist_inj: "dist base x = dist base y \<Longrightarrow> x = y"
begin

lemma gt_trans: "near b x \<Longrightarrow> near b y \<Longrightarrow> near b z \<Longrightarrow> gt x y \<Longrightarrow> gt y z \<Longrightarrow> gt x z"
  using gt_dist [of b] by fastforce

lemma gt_irrefl: "near b x \<Longrightarrow> \<not> gt x x"
  using gt_dist [of b] by blast

lemma gt_linear: "near b x \<Longrightarrow> near b y \<Longrightarrow> gt x y \<or> x = y \<or> gt y x"
  using gt_dist [of b] dist_inj [of b] by (meson linorder_neqE_nat)

lemma geq_iff_not_gt: "near b x \<Longrightarrow> near b y \<Longrightarrow> geq x y \<longleftrightarrow> \<not> gt y x"
  using gt_dist [of b] geq_dist [of b] by auto

lemma geq_iff: "near b x \<Longrightarrow> near b y \<Longrightarrow> geq x y \<longleftrightarrow> gt x y \<or> x = y"
  using geq_iff_not_gt [of b x y] gt_linear [of b x y] gt_irrefl [of b x] gt_trans [of b x y x]
  by blast

end

interpretation tid: tid_window tid_gt tid_geq tid_dist in_window
proof unfold_locales
  fix base x y :: tid_t
  assume "in_window base x" and "in_window base y"
  then have "sint (x - y) = int (tid_dist base x) - int (tid_dist base y)"
    by (rule sint_diff_dist)
  then show "tid_gt x y \<longleftrightarrow> tid_dist base y < tid_dist base x"
    and "tid_geq x y \<longleftrightarrow> tid_dist base y \<le> tid_dist base x"
    by (simp_all add: tid_gt_def tid_geq_def)
next
  fix base x y :: tid_t
  assume "tid_dist base x = tid_dist base y"
  then have "x - base = y - base" by (simp only: tid_dist_def word_unat_eq_iff)
  then show "x = y" by simp
qed

lemma in_window_base [simp]: "in_window b b"
  by (simp add: in_window_def tid_dist_def)

lemma tid_geq_refl [simp]: "tid_geq x x"
  by (simp add: tid_geq_def)

lemma tid_gt_irrefl [simp]: "\<not> tid_gt x x"
  by (simp add: tid_gt_def)

end
