(* ===== verification/Jbd2_Types.thy ===== *)
theory Jbd2_Types
  imports Jbd2_Tid
begin

text \<open>
  The data model of the journal: the structures of \<open>include/linux/jbd2.h\<close> and
  \<open>include/linux/journal-head.h\<close> as records, and the one state \<open>jstate\<close> all operations of
  \<open>kernel/fs/jbd2\<close> act on.

  \<^item> A \<open>buffer_head\<close> is named by a number of type \<open>bhp\<close>. The \<open>journal_head\<close> attached to a
    buffer (\<open>b_private\<close>, back pointer \<open>b_bh\<close>) is named by the same number: \<open>jhs s b\<close> is that
    journal head, and \<open>None\<close> when there is none (bit \<open>BH_JBD\<close> clear, journal head freed). So
    \<open>jh2bh\<close> and \<open>bh2jh\<close> are the identity, and an access to a freed journal head is the error
    \<open>UAF\<close>.
  \<^item> A transaction is named by a number of type \<open>trp\<close>; \<open>trs s t\<close> is \<open>None\<close> once it is freed.
    \<open>next_tr\<close> is the name the next transaction allocated will have.
  \<^item> The circular doubly linked lists (\<open>b_tnext\<close>/\<open>b_tprev\<close>, \<open>b_cpnext\<close>/\<open>b_cpprev\<close>,
    \<open>t_cpnext\<close>/\<open>t_cpprev\<close>) are lists of such numbers, the element the head pointer points at
    first. The theory \<open>Jbd2_Blist\<close> justifies this for the pointer code.
  \<^item> \<open>j_flags\<close> and the bits of \<open>b_state\<close> are sets of flags and booleans. Log positions keep
    their 64-bit width and transaction identifiers their 32-bit width; the atomic credit
    counters are integers.
  \<^item> Spin locks and the state lock are not part of the state: an operation is one atomic step.
  \<^item> What the environment decides (the clock, the outcome of a write of the superblock, the
    block the file system maps a journal block to) are fields of the state that no operation
    changes. The calls to code outside \<open>kernel/fs/jbd2\<close> are the fields of a record \<open>env\<close>, a
    parameter of the operations that make them.
  \<^item> \<open>sb_written\<close> and \<open>log_written\<close> list what has been submitted to the journal device, newest
    first: superblocks, and blocks of the log with their numbers.
\<close>

type_synonym bhp = nat
type_synonym trp = nat
type_synonym inop = nat

section \<open>Buffers and journal heads\<close>

datatype jlist = BJ_None | BJ_Metadata | BJ_Forget | BJ_Shadow | BJ_Reserved

record buffer_head =
  b_blocknr :: u64
  b_data :: block_data
  b_count :: int
  bh_dirty :: bool
  bh_jbddirty :: bool
  bh_jwrite :: bool
  bh_freed :: bool
  bh_revoked :: bool
  bh_revokevalid :: bool
  bh_shadow :: bool
  bh_locked :: bool
  bh_uptodate :: bool
  bh_write_io_error :: bool
  bh_mapped :: bool
  bh_page_mapping :: bool

record journal_head =
  b_jcount :: int
  b_jlist :: jlist
  b_modified :: bool
  b_frozen_data :: "block_data option"
  b_committed_data :: "block_data option"
  b_transaction :: "trp option"
  b_next_transaction :: "trp option"
  b_cp_transaction :: "trp option"
  b_triggers :: "nat option"
  b_frozen_triggers :: "nat option"
  jh_ino :: ulong

section \<open>Transactions, handles and inodes\<close>

datatype tstate = T_RUNNING | T_LOCKED | T_FLUSH | T_COMMIT | T_COMMIT_DFLUSH
  | T_COMMIT_JFLUSH | T_COMMIT_CALLBACK | T_FINISHED

record transaction_t =
  t_tid :: tid_t
  t_state :: tstate
  t_log_start :: ulong
  t_nr_buffers :: int
  t_reserved_list :: "bhp list"
  t_buffers :: "bhp list"
  t_forget :: "bhp list"
  t_checkpoint_list :: "bhp list"
  t_checkpoint_io_list :: "bhp list"
  t_shadow_list :: "bhp list"
  t_inode_list :: "inop list"
  t_start :: ulong
  t_requested :: ulong
  t_expires :: ulong
  cs_chp_time :: ulong
  cs_forced_to_close :: u32
  cs_written :: u32
  cs_dropped :: u32
  t_updates :: int
  t_outstanding_credits :: int
  t_handle_count :: int
  t_synchronous_commit :: bool
  t_need_data_flush :: bool
  ino_sync :: ulong

text \<open>The counts of credits and handles of transactions and handles are numbers without a bound; the source has them as \<open>int\<close> and \<open>atomic_t\<close>.\<close>

record handle_t =
  h_transaction :: "trp option"
  h_rsv_credits :: "int option"
  h_buffer_credits :: int
  h_ref :: int
  h_sync :: bool
  h_reserved :: bool
  h_aborted :: bool
  h_requested_credits :: int

record jbd2_inode =
  i_transaction :: "trp option"
  i_next_transaction :: "trp option"
  ji_commit_running :: bool
  ji_write_data :: bool
  ji_wait_data :: bool

section \<open>The revoke table\<close>

record revoke_record =
  rr_sequence :: tid_t
  rr_blocknr :: u64

record revoke_table =
  hash_size :: nat
  hash_shift :: nat
  hash_table :: "revoke_record list list"

section \<open>The journal\<close>

datatype jflag = JBD2_UNMOUNT | JBD2_ABORT | JBD2_ACK_ERR | JBD2_FLUSHED | JBD2_LOADED
  | JBD2_BARRIER | JBD2_ABORT_ON_SYNCDATA_ERR | JBD2_REC_ERR

record journal_superblock =
  s_magic :: u32
  s_blocktype :: u32
  s_blocksize :: u32
  s_maxlen :: u32
  s_first :: u32
  s_sequence :: u32
  s_start :: u32
  s_errno :: int
  s_feature_compat :: u32
  s_feature_incompat :: u32
  s_feature_ro_compat :: u32
  s_uuid :: "byte list"
  s_checksum_type :: byte
  s_checksum :: u32

record journal_t =
  j_flags :: "jflag set"
  j_errno :: int
  j_sb_buffer :: bool
  j_sb_uptodate :: bool
  j_sb_verified :: bool
  j_superblock :: journal_superblock
  j_format_version :: int
  j_barrier_count :: int
  j_running_transaction :: "trp option"
  j_committing_transaction :: "trp option"
  j_checkpoint_transactions :: "trp list"
  j_head :: ulong
  j_tail :: ulong
  j_free :: ulong
  j_first :: ulong
  j_last :: ulong
  j_blocksize :: nat
  j_dev_is_fs_dev :: bool
  j_maxlen :: u32
  j_reserved_credits :: int
  j_bmap :: "(ulong \<Rightarrow> u64) option"
  j_tail_sequence :: tid_t
  j_transaction_sequence :: tid_t
  j_commit_sequence :: tid_t
  j_commit_request :: tid_t
  j_uuid :: "byte list"
  j_task :: bool
  j_max_transaction_buffers :: int
  j_commit_interval :: ulong
  j_revoke_table0 :: "revoke_table option"
  j_revoke_table1 :: "revoke_table option"
  j_revoke :: "bool option"
  j_wbufsize :: nat
  j_average_commit_time :: u64
  j_failed_commit :: u32
  j_chksum_driver :: bool
  j_csum_seed :: u32

record jstate = journal_t +
  trs :: "trp \<rightharpoonup> transaction_t"
  jhs :: "bhp \<rightharpoonup> journal_head"
  bhs :: "bhp \<Rightarrow> buffer_head"
  inodes :: "inop \<rightharpoonup> jbd2_inode"
  next_tr :: trp
  sb_written :: "journal_superblock list"
  log_written :: "(u64 \<times> block_data) list"
  jiffies :: ulong
  sb_write_result :: "nat \<Rightarrow> int"

text \<open>
  What the journal calls outside \<open>kernel/fs/jbd2\<close>: the checksum driver on a superblock and on
  bytes and \<open>crc32_be\<close>, whether \<open>__getblk\<close> yields a buffer for a block of the journal device and
  of the file system's device, the buffer \<open>__find_get_block\<close> finds for a block of the file
  system, whether a memory allocation succeeds, what is read from a block of the journal device
  (\<open>None\<close> if reading fails), whether the buffer of such a block is a new one, and the results of
  \<open>sync_blockdev\<close> and \<open>blkdev_issue_flush\<close>. \<open>resched_bh\<close> and \<open>resched_tr\<close> say whether
  \<open>need_resched\<close> holds after a buffer, or after one of the two lists of a transaction, has been
  handled, and \<open>write_error\<close> whether the write of a buffer fails. \<open>sb_read\<close> says whether reading
  the superblock succeeds, \<open>shash_alloc\<close> is 0 or the error of loading the checksum driver,
  \<open>pf_memalloc\<close> the flag of the current task, and \<open>frozen_trigger\<close> what the callback of a
  trigger type does to the data of a buffer. \<open>submit_bh\<close> is the result of submitting the commit
  block at a block of the journal device and \<open>log_io_ok\<close> whether the write of such a block
  succeeds, \<open>submit_data\<close> and \<open>wait_data\<close> are the results of writing out the data of an inode
  and of waiting for it, and the last three are the time of the commit and its duration.
\<close>

record env =
  sb_csum :: "journal_superblock \<Rightarrow> u32"
  chksum :: "u32 \<Rightarrow> byte list \<Rightarrow> u32"
  crc32_be :: "u32 \<Rightarrow> byte list \<Rightarrow> u32"
  getblk :: "u64 \<Rightarrow> bool"
  fs_getblk :: "u64 \<Rightarrow> bool"
  find_get_block :: "u64 \<Rightarrow> bhp option"
  mem_alloc :: bool
  dev_read :: "u64 \<Rightarrow> block_data option"
  dev_new :: "u64 \<Rightarrow> bool"
  sync_blockdev :: int
  issue_flush :: int
  resched_bh :: "bhp \<Rightarrow> bool"
  resched_tr :: "trp \<Rightarrow> bool \<Rightarrow> bool"
  write_error :: "bhp \<Rightarrow> bool"
  sb_read :: bool
  shash_alloc :: int
  pf_memalloc :: bool
  frozen_trigger :: "nat \<Rightarrow> block_data \<Rightarrow> block_data"
  submit_bh :: "u64 \<Rightarrow> int"
  log_io_ok :: "u64 \<Rightarrow> bool"
  submit_data :: "inop \<Rightarrow> int"
  wait_data :: "inop \<Rightarrow> int"
  now_sec :: u64
  now_nsec :: u32
  elapsed_ns :: u64

section \<open>Updating the stores\<close>

definition upd_jh :: "bhp \<Rightarrow> (journal_head \<Rightarrow> journal_head) \<Rightarrow> jstate \<Rightarrow> jstate" where
  "upd_jh b f s = s\<lparr>jhs := (jhs s)(b := map_option f (jhs s b))\<rparr>"

definition upd_bh :: "bhp \<Rightarrow> (buffer_head \<Rightarrow> buffer_head) \<Rightarrow> jstate \<Rightarrow> jstate" where
  "upd_bh b f s = s\<lparr>bhs := (bhs s)(b := f (bhs s b))\<rparr>"

definition upd_tr :: "trp \<Rightarrow> (transaction_t \<Rightarrow> transaction_t) \<Rightarrow> jstate \<Rightarrow> jstate" where
  "upd_tr t f s = s\<lparr>trs := (trs s)(t := map_option f (trs s t))\<rparr>"

definition upd_inode :: "inop \<Rightarrow> (jbd2_inode \<Rightarrow> jbd2_inode) \<Rightarrow> jstate \<Rightarrow> jstate" where
  "upd_inode i f s = s\<lparr>inodes := (inodes s)(i := map_option f (inodes s i))\<rparr>"

definition buffer_jbd :: "jstate \<Rightarrow> bhp \<Rightarrow> bool" where
  "buffer_jbd s b = (jhs s b \<noteq> None)"

definition is_journal_aborted :: "('a) journal_t_scheme \<Rightarrow> bool" where
  "is_journal_aborted s = (JBD2_ABORT \<in> j_flags s)"

lemma upd_jh_simps [simp]:
  "jhs (upd_jh b f s) = (jhs s)(b := map_option f (jhs s b))"
  "trs (upd_jh b f s) = trs s"
  "bhs (upd_jh b f s) = bhs s"
  "inodes (upd_jh b f s) = inodes s"
  by (simp_all add: upd_jh_def)

lemma upd_bh_simps [simp]:
  "jhs (upd_bh b g s) = jhs s"
  "trs (upd_bh b g s) = trs s"
  "bhs (upd_bh b g s) = (bhs s)(b := g (bhs s b))"
  "inodes (upd_bh b g s) = inodes s"
  by (simp_all add: upd_bh_def)

lemma upd_tr_simps [simp]:
  "jhs (upd_tr t h s) = jhs s"
  "trs (upd_tr t h s) = (trs s)(t := map_option h (trs s t))"
  "bhs (upd_tr t h s) = bhs s"
  "inodes (upd_tr t h s) = inodes s"
  by (simp_all add: upd_tr_def)

text \<open>An update of a store leaves the journal's own fields as they are.\<close>

lemma upd_jh_journal [simp]:
  "j_flags (upd_jh b f s) = j_flags s"
  "j_errno (upd_jh b f s) = j_errno s"
  "j_superblock (upd_jh b f s) = j_superblock s"
  "j_format_version (upd_jh b f s) = j_format_version s"
  "j_running_transaction (upd_jh b f s) = j_running_transaction s"
  "j_committing_transaction (upd_jh b f s) = j_committing_transaction s"
  "j_checkpoint_transactions (upd_jh b f s) = j_checkpoint_transactions s"
  "j_head (upd_jh b f s) = j_head s"
  "j_tail (upd_jh b f s) = j_tail s"
  "j_free (upd_jh b f s) = j_free s"
  "j_first (upd_jh b f s) = j_first s"
  "j_last (upd_jh b f s) = j_last s"
  "j_blocksize (upd_jh b f s) = j_blocksize s"
  "j_maxlen (upd_jh b f s) = j_maxlen s"
  "j_reserved_credits (upd_jh b f s) = j_reserved_credits s"
  "j_bmap (upd_jh b f s) = j_bmap s"
  "j_tail_sequence (upd_jh b f s) = j_tail_sequence s"
  "j_transaction_sequence (upd_jh b f s) = j_transaction_sequence s"
  "j_commit_sequence (upd_jh b f s) = j_commit_sequence s"
  "j_commit_request (upd_jh b f s) = j_commit_request s"
  "j_uuid (upd_jh b f s) = j_uuid s"
  "j_max_transaction_buffers (upd_jh b f s) = j_max_transaction_buffers s"
  "j_revoke_table0 (upd_jh b f s) = j_revoke_table0 s"
  "j_revoke_table1 (upd_jh b f s) = j_revoke_table1 s"
  "j_revoke (upd_jh b f s) = j_revoke s"
  "j_wbufsize (upd_jh b f s) = j_wbufsize s"
  "j_chksum_driver (upd_jh b f s) = j_chksum_driver s"
  "j_csum_seed (upd_jh b f s) = j_csum_seed s"
  "next_tr (upd_jh b f s) = next_tr s"
  "sb_written (upd_jh b f s) = sb_written s"
  "log_written (upd_jh b f s) = log_written s"
  "jiffies (upd_jh b f s) = jiffies s"
  by (simp_all add: upd_jh_def)

lemma upd_bh_journal [simp]:
  "j_flags (upd_bh b g s) = j_flags s"
  "j_errno (upd_bh b g s) = j_errno s"
  "j_superblock (upd_bh b g s) = j_superblock s"
  "j_format_version (upd_bh b g s) = j_format_version s"
  "j_running_transaction (upd_bh b g s) = j_running_transaction s"
  "j_committing_transaction (upd_bh b g s) = j_committing_transaction s"
  "j_checkpoint_transactions (upd_bh b g s) = j_checkpoint_transactions s"
  "j_head (upd_bh b g s) = j_head s"
  "j_tail (upd_bh b g s) = j_tail s"
  "j_free (upd_bh b g s) = j_free s"
  "j_first (upd_bh b g s) = j_first s"
  "j_last (upd_bh b g s) = j_last s"
  "j_blocksize (upd_bh b g s) = j_blocksize s"
  "j_maxlen (upd_bh b g s) = j_maxlen s"
  "j_reserved_credits (upd_bh b g s) = j_reserved_credits s"
  "j_bmap (upd_bh b g s) = j_bmap s"
  "j_tail_sequence (upd_bh b g s) = j_tail_sequence s"
  "j_transaction_sequence (upd_bh b g s) = j_transaction_sequence s"
  "j_commit_sequence (upd_bh b g s) = j_commit_sequence s"
  "j_commit_request (upd_bh b g s) = j_commit_request s"
  "j_uuid (upd_bh b g s) = j_uuid s"
  "j_max_transaction_buffers (upd_bh b g s) = j_max_transaction_buffers s"
  "j_revoke_table0 (upd_bh b g s) = j_revoke_table0 s"
  "j_revoke_table1 (upd_bh b g s) = j_revoke_table1 s"
  "j_revoke (upd_bh b g s) = j_revoke s"
  "j_wbufsize (upd_bh b g s) = j_wbufsize s"
  "j_chksum_driver (upd_bh b g s) = j_chksum_driver s"
  "j_csum_seed (upd_bh b g s) = j_csum_seed s"
  "next_tr (upd_bh b g s) = next_tr s"
  "sb_written (upd_bh b g s) = sb_written s"
  "log_written (upd_bh b g s) = log_written s"
  "jiffies (upd_bh b g s) = jiffies s"
  by (simp_all add: upd_bh_def)

lemma upd_tr_journal [simp]:
  "j_flags (upd_tr t h s) = j_flags s"
  "j_errno (upd_tr t h s) = j_errno s"
  "j_superblock (upd_tr t h s) = j_superblock s"
  "j_format_version (upd_tr t h s) = j_format_version s"
  "j_running_transaction (upd_tr t h s) = j_running_transaction s"
  "j_committing_transaction (upd_tr t h s) = j_committing_transaction s"
  "j_checkpoint_transactions (upd_tr t h s) = j_checkpoint_transactions s"
  "j_head (upd_tr t h s) = j_head s"
  "j_tail (upd_tr t h s) = j_tail s"
  "j_free (upd_tr t h s) = j_free s"
  "j_first (upd_tr t h s) = j_first s"
  "j_last (upd_tr t h s) = j_last s"
  "j_blocksize (upd_tr t h s) = j_blocksize s"
  "j_maxlen (upd_tr t h s) = j_maxlen s"
  "j_reserved_credits (upd_tr t h s) = j_reserved_credits s"
  "j_bmap (upd_tr t h s) = j_bmap s"
  "j_tail_sequence (upd_tr t h s) = j_tail_sequence s"
  "j_transaction_sequence (upd_tr t h s) = j_transaction_sequence s"
  "j_commit_sequence (upd_tr t h s) = j_commit_sequence s"
  "j_commit_request (upd_tr t h s) = j_commit_request s"
  "j_uuid (upd_tr t h s) = j_uuid s"
  "j_max_transaction_buffers (upd_tr t h s) = j_max_transaction_buffers s"
  "j_revoke_table0 (upd_tr t h s) = j_revoke_table0 s"
  "j_revoke_table1 (upd_tr t h s) = j_revoke_table1 s"
  "j_revoke (upd_tr t h s) = j_revoke s"
  "j_wbufsize (upd_tr t h s) = j_wbufsize s"
  "j_chksum_driver (upd_tr t h s) = j_chksum_driver s"
  "j_csum_seed (upd_tr t h s) = j_csum_seed s"
  "next_tr (upd_tr t h s) = next_tr s"
  "sb_written (upd_tr t h s) = sb_written s"
  "log_written (upd_tr t h s) = log_written s"
  "jiffies (upd_tr t h s) = jiffies s"
  by (simp_all add: upd_tr_def)

lemma is_journal_aborted_upd [simp]:
  "is_journal_aborted (upd_jh b f s) = is_journal_aborted s"
  "is_journal_aborted (upd_bh b g s) = is_journal_aborted s"
  "is_journal_aborted (upd_tr t h s) = is_journal_aborted s"
  by (simp_all add: is_journal_aborted_def)


definition same_journal :: "jstate \<Rightarrow> jstate \<Rightarrow> bool" where
  "same_journal s s' = (journal_t.truncate s = journal_t.truncate s')"

lemma truncate_upd [simp]:
  "journal_t.truncate (upd_jh b f s) = journal_t.truncate s"
  "journal_t.truncate (upd_bh b g s) = journal_t.truncate s"
  "journal_t.truncate (upd_tr t h s) = journal_t.truncate s"
  "journal_t.truncate (upd_inode i k s) = journal_t.truncate s"
  by (simp_all add: upd_jh_def upd_bh_def upd_tr_def upd_inode_def journal_t.defs)

section \<open>Features of the journal format\<close>

abbreviation JBD2_MAGIC_NUMBER :: u32 where "JBD2_MAGIC_NUMBER \<equiv> 0xc03b3998"
abbreviation JBD2_DESCRIPTOR_BLOCK :: u32 where "JBD2_DESCRIPTOR_BLOCK \<equiv> 1"
abbreviation JBD2_COMMIT_BLOCK :: u32 where "JBD2_COMMIT_BLOCK \<equiv> 2"
abbreviation JBD2_SUPERBLOCK_V1 :: u32 where "JBD2_SUPERBLOCK_V1 \<equiv> 3"
abbreviation JBD2_SUPERBLOCK_V2 :: u32 where "JBD2_SUPERBLOCK_V2 \<equiv> 4"
abbreviation JBD2_REVOKE_BLOCK :: u32 where "JBD2_REVOKE_BLOCK \<equiv> 5"

abbreviation JBD2_FEATURE_COMPAT_CHECKSUM :: u32 where "JBD2_FEATURE_COMPAT_CHECKSUM \<equiv> 1"
abbreviation JBD2_FEATURE_INCOMPAT_REVOKE :: u32 where "JBD2_FEATURE_INCOMPAT_REVOKE \<equiv> 1"
abbreviation JBD2_FEATURE_INCOMPAT_64BIT :: u32 where "JBD2_FEATURE_INCOMPAT_64BIT \<equiv> 2"
abbreviation JBD2_FEATURE_INCOMPAT_ASYNC_COMMIT :: u32
  where "JBD2_FEATURE_INCOMPAT_ASYNC_COMMIT \<equiv> 4"
abbreviation JBD2_FEATURE_INCOMPAT_CSUM_V2 :: u32 where "JBD2_FEATURE_INCOMPAT_CSUM_V2 \<equiv> 8"
abbreviation JBD2_FEATURE_INCOMPAT_CSUM_V3 :: u32 where "JBD2_FEATURE_INCOMPAT_CSUM_V3 \<equiv> 16"

definition jbd2_has_compat_feature :: "u32 \<Rightarrow> ('a) journal_t_scheme \<Rightarrow> bool" where
  "jbd2_has_compat_feature m j =
     (j_format_version j \<ge> 2 \<and> s_feature_compat (j_superblock j) AND m \<noteq> 0)"

definition jbd2_has_incompat_feature :: "u32 \<Rightarrow> ('a) journal_t_scheme \<Rightarrow> bool" where
  "jbd2_has_incompat_feature m j =
     (j_format_version j \<ge> 2 \<and> s_feature_incompat (j_superblock j) AND m \<noteq> 0)"

abbreviation jbd2_has_feature_checksum :: "('a) journal_t_scheme \<Rightarrow> bool" where
  "jbd2_has_feature_checksum \<equiv> jbd2_has_compat_feature JBD2_FEATURE_COMPAT_CHECKSUM"
abbreviation jbd2_has_feature_64bit :: "('a) journal_t_scheme \<Rightarrow> bool" where
  "jbd2_has_feature_64bit \<equiv> jbd2_has_incompat_feature JBD2_FEATURE_INCOMPAT_64BIT"
abbreviation jbd2_has_feature_async_commit :: "('a) journal_t_scheme \<Rightarrow> bool" where
  "jbd2_has_feature_async_commit \<equiv> jbd2_has_incompat_feature JBD2_FEATURE_INCOMPAT_ASYNC_COMMIT"
abbreviation jbd2_has_feature_csum2 :: "('a) journal_t_scheme \<Rightarrow> bool" where
  "jbd2_has_feature_csum2 \<equiv> jbd2_has_incompat_feature JBD2_FEATURE_INCOMPAT_CSUM_V2"
abbreviation jbd2_has_feature_csum3 :: "('a) journal_t_scheme \<Rightarrow> bool" where
  "jbd2_has_feature_csum3 \<equiv> jbd2_has_incompat_feature JBD2_FEATURE_INCOMPAT_CSUM_V3"

definition jbd2_journal_has_csum_v2or3_feature :: "('a) journal_t_scheme \<Rightarrow> bool" where
  "jbd2_journal_has_csum_v2or3_feature j = (jbd2_has_feature_csum2 j \<or> jbd2_has_feature_csum3 j)"

definition jbd2_journal_has_csum_v2or3 :: "('a) journal_t_scheme \<Rightarrow> bool" where
  "jbd2_journal_has_csum_v2or3 j = j_chksum_driver j"

text \<open>
  The sizes of \<open>journal_block_tag3_t\<close> (16), \<open>journal_block_tag_t\<close> (12), the checksum tail
  (4), the block header (12) and the revoke header (16).
\<close>

definition journal_vmsep_tag_bytes :: "('a) journal_t_scheme \<Rightarrow> nat" where
  "journal_vmsep_tag_bytes j =
     (if jbd2_has_feature_csum3 j then 16
      else let sz = 12 + (if jbd2_has_feature_csum2 j then 2 else 0)
           in if jbd2_has_feature_64bit j then sz else sz - 4)"

lemma journal_vmsep_tag_bytes_range:
  "8 \<le> journal_vmsep_tag_bytes j \<and> journal_vmsep_tag_bytes j \<le> 16"
  by (simp add: journal_vmsep_tag_bytes_def Let_def)

end
