(* ===== verification/Jbd2_Log.thy ===== *)
theory Jbd2_Log
  imports Jbd2_Types
begin

text \<open>
  The log of \<open>kernel/fs/jbd2/journal.c\<close>: aborting the journal, writing its superblock,
  requesting commits, handing out log blocks (\<open>j_head\<close>, \<open>j_free\<close>), finding and moving the
  tail of the log, and the space computations of \<open>include/linux/jbd2.h\<close>. The invariant
  \<open>log_wf\<close> says that \<open>j_free\<close> is the distance from the head round to the tail.
\<close>

section \<open>Requesting a commit\<close>

definition log_start_commit_raw :: "jstate \<Rightarrow> tid_t \<Rightarrow> ulong \<Rightarrow> (int \<times> jstate) res" where
  "log_start_commit_raw s target ino =
     (if j_commit_request s = target then Inr (0, s)
      else case j_running_transaction s of
        None \<Rightarrow> Inr (0, s)
      | Some t \<Rightarrow> deref (trs s t) UAF (\<lambda>tr.
          if t_tid tr = target
          then Inr (1, upd_tr t (\<lambda>x. x\<lparr>t_requested := jiffies s, ino_sync := ino\<rparr>)
                         (s\<lparr>j_commit_request := target\<rparr>))
          else Inr (0, s)))"

definition jbd2_vmsep_log_start_commit :: "jstate \<Rightarrow> tid_t \<Rightarrow> ulong \<Rightarrow> (int \<times> jstate) res" where
  "jbd2_vmsep_log_start_commit s tid ino = log_start_commit_raw s tid ino"

section \<open>Aborting the journal and writing the superblock\<close>

definition journal_abort_hard :: "jstate \<Rightarrow> jstate res" where
  "journal_abort_hard s =
     (if JBD2_ABORT \<in> j_flags s then Inr s
      else let s = s\<lparr>j_flags := insert JBD2_ABORT (j_flags s)\<rparr> in
        case j_running_transaction s of
          None \<Rightarrow> Inr s
        | Some t \<Rightarrow> deref (trs s t) UAF (\<lambda>tr.
            bind_res (log_start_commit_raw s (t_tid tr) 0) (\<lambda>(r, s). Inr s)))"

text \<open>
  \<open>write_superblock_io\<close> is \<open>jbd2_write_superblock\<close> up to its error branch: the superblock is
  given a checksum by the parameter \<open>csum\<close> when the checksum driver is loaded, and submitted;
  the result of the \<open>n\<close>-th submission is \<open>sb_write_result s n\<close>. The error branch calls
  \<open>jbd2_vmsep_journal_abort\<close>, which itself records the error through another superblock
  write: in that nested call the journal is aborted already, so the error branch of the nested
  call does nothing.
\<close>

definition write_superblock_io ::
    "(journal_superblock \<Rightarrow> u32) \<Rightarrow> jstate \<Rightarrow> int \<times> jstate" where
  "write_superblock_io csum s =
     (let sb = j_superblock s;
          sb = (if jbd2_journal_has_csum_v2or3 s then sb\<lparr>s_checksum := csum (sb\<lparr>s_checksum := 0\<rparr>)\<rparr>
                else sb);
          ret = sb_write_result s (length (sb_written s))
      in (ret, s\<lparr>j_superblock := sb, sb_written := sb # sb_written s\<rparr>))"

definition update_sb_errno_io :: "(journal_superblock \<Rightarrow> u32) \<Rightarrow> jstate \<Rightarrow> jstate" where
  "update_sb_errno_io csum s =
     snd (write_superblock_io csum (s\<lparr>j_superblock := (j_superblock s)\<lparr>s_errno := j_errno s\<rparr>\<rparr>))"

definition journal_abort_soft ::
    "(journal_superblock \<Rightarrow> u32) \<Rightarrow> jstate \<Rightarrow> int \<Rightarrow> jstate res" where
  "journal_abort_soft csum s errno =
     (if JBD2_ABORT \<in> j_flags s then Inr s
      else bind_res (journal_abort_hard (if j_errno s = 0 then s\<lparr>j_errno := errno\<rparr> else s)) (\<lambda>s.
        if errno \<noteq> 0
        then let s = update_sb_errno_io csum s
             in Inr (s\<lparr>j_flags := insert JBD2_REC_ERR (j_flags s)\<rparr>)
        else Inr s))"

definition jbd2_vmsep_journal_abort ::
    "(journal_superblock \<Rightarrow> u32) \<Rightarrow> jstate \<Rightarrow> int \<Rightarrow> jstate res" where
  "jbd2_vmsep_journal_abort csum s errno = journal_abort_soft csum s errno"

definition jbd2_write_superblock ::
    "(journal_superblock \<Rightarrow> u32) \<Rightarrow> jstate \<Rightarrow> (int \<times> jstate) res" where
  "jbd2_write_superblock csum s =
     (let (ret, s) = write_superblock_io csum s
      in if ret \<noteq> 0
         then bind_res (jbd2_vmsep_journal_abort csum s ret) (\<lambda>s. Inr (ret, s))
         else Inr (ret, s))"

definition jbd2_vmsep_journal_update_sb_log_tail ::
    "(journal_superblock \<Rightarrow> u32) \<Rightarrow> jstate \<Rightarrow> tid_t \<Rightarrow> ulong \<Rightarrow> (int \<times> jstate) res" where
  "jbd2_vmsep_journal_update_sb_log_tail csum s tail_tid tail_block =
     (let s = s\<lparr>j_superblock := (j_superblock s)\<lparr>s_sequence := tail_tid,
                                                  s_start := ucast tail_block\<rparr>\<rparr>
      in bind_res (jbd2_write_superblock csum s) (\<lambda>(ret, s).
           if ret \<noteq> 0 then Inr (ret, s)
           else Inr (ret, s\<lparr>j_flags := j_flags s - {JBD2_FLUSHED}\<rparr>)))"

definition jbd2_mark_journal_empty ::
    "(journal_superblock \<Rightarrow> u32) \<Rightarrow> jstate \<Rightarrow> jstate res" where
  "jbd2_mark_journal_empty csum s =
     (if s_start (j_superblock s) = 0 then Inr s
      else let s = s\<lparr>j_superblock := (j_superblock s)\<lparr>s_sequence := j_tail_sequence s,
                                                       s_start := 0\<rparr>\<rparr>
           in bind_res (jbd2_write_superblock csum s) (\<lambda>(ret, s).
                Inr (s\<lparr>j_flags := insert JBD2_FLUSHED (j_flags s)\<rparr>)))"

definition jbd2_vmsep_journal_errno :: "jstate \<Rightarrow> int" where
  "jbd2_vmsep_journal_errno s = (if JBD2_ABORT \<in> j_flags s then - EROFS else j_errno s)"

definition jbd2_vmsep_journal_clear_err :: "jstate \<Rightarrow> int \<times> jstate" where
  "jbd2_vmsep_journal_clear_err s =
     (if JBD2_ABORT \<in> j_flags s then (- EROFS, s) else (0, s\<lparr>j_errno := 0\<rparr>))"

definition jbd2_vmsep_journal_ack_err :: "jstate \<Rightarrow> jstate" where
  "jbd2_vmsep_journal_ack_err s =
     (if j_errno s \<noteq> 0 then s\<lparr>j_flags := insert JBD2_ACK_ERR (j_flags s)\<rparr> else s)"

section \<open>Log blocks\<close>

definition jbd2_vmsep_journal_bmap ::
    "(journal_superblock \<Rightarrow> u32) \<Rightarrow> jstate \<Rightarrow> ulong \<Rightarrow> (int \<times> u64 \<times> jstate) res" where
  "jbd2_vmsep_journal_bmap csum s blocknr =
     (case j_bmap s of
        Some f \<Rightarrow> let ret = f blocknr in
          if ret \<noteq> 0 then Inr (0, ret, s)
          else bind_res (journal_abort_soft csum s (- EIO)) (\<lambda>s. Inr (- EIO, 0, s))
      | None \<Rightarrow> Inr (0, blocknr, s))"

definition take_log_block :: "jstate \<Rightarrow> jstate" where
  "take_log_block s =
     (let s = s\<lparr>j_head := j_head s + 1, j_free := j_free s - 1\<rparr>
      in if j_head s = j_last s then s\<lparr>j_head := j_first s\<rparr> else s)"

definition jbd2_vmsep_journal_next_log_block ::
    "(journal_superblock \<Rightarrow> u32) \<Rightarrow> jstate \<Rightarrow> (int \<times> u64 \<times> jstate) res" where
  "jbd2_vmsep_journal_next_log_block csum s =
     J_ASSERT (j_free s > 1)
       (jbd2_vmsep_journal_bmap csum (take_log_block s) (j_head s))"

section \<open>The tail of the log\<close>

definition jbd2_vmsep_journal_get_log_tail :: "jstate \<Rightarrow> (bool \<times> tid_t \<times> ulong) res" where
  "jbd2_vmsep_journal_get_log_tail s =
     bind_res
       (case j_checkpoint_transactions s of
          t # _ \<Rightarrow> deref (trs s t) UAF (\<lambda>tr. Inr (t_tid tr, t_log_start tr))
        | [] \<Rightarrow> (case j_committing_transaction s of
            Some t \<Rightarrow> deref (trs s t) UAF (\<lambda>tr. Inr (t_tid tr, t_log_start tr))
          | None \<Rightarrow> (case j_running_transaction s of
              Some t \<Rightarrow> deref (trs s t) UAF (\<lambda>tr. Inr (t_tid tr, j_head s))
            | None \<Rightarrow> Inr (j_transaction_sequence s, j_head s))))
       (\<lambda>(tid, block). Inr (tid_gt tid (j_tail_sequence s), tid, block))"

definition log_freed :: "jstate \<Rightarrow> ulong \<Rightarrow> ulong" where
  "log_freed s block =
     (let freed = block - j_tail s
      in if block < j_tail s then freed + (j_last s - j_first s) else freed)"

definition move_log_tail :: "jstate \<Rightarrow> tid_t \<Rightarrow> ulong \<Rightarrow> jstate" where
  "move_log_tail s tid block =
     s\<lparr>j_free := j_free s + log_freed s block, j_tail_sequence := tid, j_tail := block\<rparr>"

definition update_log_tail_raw ::
    "(journal_superblock \<Rightarrow> u32) \<Rightarrow> jstate \<Rightarrow> tid_t \<Rightarrow> ulong \<Rightarrow> (int \<times> jstate) res" where
  "update_log_tail_raw csum s tid block =
     bind_res (jbd2_vmsep_journal_update_sb_log_tail csum s tid block) (\<lambda>(ret, s).
       if ret \<noteq> 0 then Inr (ret, s)
       else Inr (ret, move_log_tail s tid block))"

definition jbd2_vmsep_update_log_tail ::
    "(journal_superblock \<Rightarrow> u32) \<Rightarrow> jstate \<Rightarrow> tid_t \<Rightarrow> ulong \<Rightarrow> jstate res" where
  "jbd2_vmsep_update_log_tail csum s tid block =
     (if tid_gt tid (j_tail_sequence s)
      then bind_res (update_log_tail_raw csum s tid block) (\<lambda>(ret, s). Inr s)
      else Inr s)"

text \<open>\<open>jbd2_vmsep_cleanup_journal_tail\<close> of \<open>checkpoint.c\<close>; its cache flush has no effect here.\<close>

definition jbd2_vmsep_cleanup_journal_tail ::
    "(journal_superblock \<Rightarrow> u32) \<Rightarrow> jstate \<Rightarrow> (int \<times> jstate) res" where
  "jbd2_vmsep_cleanup_journal_tail csum s =
     (if is_journal_aborted s then Inr (- EIO, s)
      else bind_res (jbd2_vmsep_journal_get_log_tail s) (\<lambda>(ok, first_tid, blocknr).
        if \<not> ok then Inr (1, s)
        else J_ASSERT (blocknr \<noteq> 0) (update_log_tail_raw csum s first_tid blocknr)))"

section \<open>Space in the log\<close>

definition jbd2_space_needed :: "('a) journal_t_scheme \<Rightarrow> int" where
  "jbd2_space_needed j =
     j_max_transaction_buffers j + drop_bit 5 (j_max_transaction_buffers j)"

definition jbd2_log_space_left :: "jstate \<Rightarrow> ulong res" where
  "jbd2_log_space_left s =
     (let free = j_free s - 32 in
      case j_committing_transaction s of
        None \<Rightarrow> Inr free
      | Some t \<Rightarrow> deref (trs s t) UAF (\<lambda>tr.
          let committing = word_of_int (t_outstanding_credits tr)
          in Inr (free - (committing + drop_bit 5 committing))))"

section \<open>Resetting the log when it is loaded\<close>

definition journal_fail_superblock :: "jstate \<Rightarrow> jstate" where
  "journal_fail_superblock s = s\<lparr>j_sb_buffer := False\<rparr>"

text \<open>
  \<open>thread_err\<close> is what starting the commit thread returns: 0, or the error of
  \<open>kthread_run\<close>.
\<close>

definition jbd2_journal_start_thread :: "int \<Rightarrow> jstate \<Rightarrow> int \<times> jstate" where
  "jbd2_journal_start_thread thread_err s =
     (if thread_err \<noteq> 0 then (thread_err, s) else (0, s\<lparr>j_task := True\<rparr>))"

definition journal_reset ::
    "(journal_superblock \<Rightarrow> u32) \<Rightarrow> int \<Rightarrow> jstate \<Rightarrow> (int \<times> jstate) res" where
  "journal_reset csum thread_err s =
     (let sb = j_superblock s;
          first = ucast (s_first sb); last = ucast (s_maxlen sb)
      in if first + 1024 > last + 1 then Inr (- EINVAL, journal_fail_superblock s)
         else let s = s\<lparr>j_first := first, j_last := last, j_head := first, j_tail := first,
                         j_free := last - first,
                         j_tail_sequence := j_transaction_sequence s,
                         j_commit_sequence := j_transaction_sequence s - 1,
                         j_commit_request := j_transaction_sequence s - 1,
                         j_max_transaction_buffers := uint (j_maxlen s) div 4\<rparr>
              in bind_res
                   (if s_start sb = 0
                    then Inr (s\<lparr>j_flags := insert JBD2_FLUSHED (j_flags s)\<rparr>)
                    else bind_res (jbd2_vmsep_journal_update_sb_log_tail csum s
                                     (j_tail_sequence s) (j_tail s)) (\<lambda>(ret, s). Inr s))
                   (\<lambda>s. Inr (jbd2_journal_start_thread thread_err s)))"

section \<open>The log as a queue of blocks\<close>

text \<open>
  \<open>log_region s\<close> lists the journal blocks between the tail and the head, oldest first,
  wrapping from \<open>j_last\<close> to \<open>j_first\<close>; \<open>log_cap s\<close> is the number of blocks of the log.
\<close>

definition log_cap :: "('a) journal_t_scheme \<Rightarrow> nat" where
  "log_cap s = unat (j_last s) - unat (j_first s)"

definition log_pos :: "('a) journal_t_scheme \<Rightarrow> nat \<Rightarrow> nat" where
  "log_pos s i = unat (j_first s) + (unat (j_tail s) - unat (j_first s) + i) mod log_cap s"

definition log_region :: "('a) journal_t_scheme \<Rightarrow> nat list" where
  "log_region s = map (log_pos s) [0 ..< log_cap s - unat (j_free s)]"

definition log_wf :: "('a) journal_t_scheme \<Rightarrow> bool" where
  "log_wf s =
     (unat (j_first s) < unat (j_last s) \<and>
      unat (j_first s) \<le> unat (j_tail s) \<and> unat (j_tail s) < unat (j_last s) \<and>
      0 < unat (j_free s) \<and> unat (j_free s) \<le> log_cap s \<and>
      unat (j_head s) = log_pos s (log_cap s - unat (j_free s)))"

lemma add_mod_inj:
  fixes i j n a :: nat
  assumes "i < n" and "j < n" and eq: "(a + i) mod n = (a + j) mod n"
  shows "i = j"
proof (rule ccontr)
  assume "i \<noteq> j"
  have "int (a + i) mod int n = int (a + j) mod int n"
    using eq by (metis of_nat_mod)
  then have "int n dvd int i - int j"
    by (simp add: mod_eq_dvd_iff)
  then have "\<bar>int n\<bar> \<le> \<bar>int i - int j\<bar>"
    using \<open>i \<noteq> j\<close> by (intro dvd_imp_le_int) auto
  with assms show False by linarith
qed

lemma log_pos_inj:
  "i < log_cap s \<Longrightarrow> j < log_cap s \<Longrightarrow> log_pos s i = log_pos s j \<Longrightarrow> i = j"
  by (auto simp: log_pos_def dest: add_mod_inj)

lemma log_pos_less:
  "unat (j_first s) < unat (j_last s) \<Longrightarrow> log_pos s i < unat (j_last s)"
  using mod_less_divisor [of "log_cap s" "unat (j_tail s) - unat (j_first s) + i"]
  unfolding log_pos_def log_cap_def by linarith

lemma log_wf_head: "log_wf s \<Longrightarrow> unat (j_head s) < unat (j_last s)"
  by (simp add: log_wf_def log_pos_less)

lemma unat_succ: "unat (a :: u64) < unat (b :: u64) \<Longrightarrow> unat (a + 1) = unat a + 1"
  using unsigned_less [of b, where 'a = nat] by (simp add: unat_word_ariths)

lemma unat_pred: "1 < (a :: u64) \<Longrightarrow> unat (a - 1) = unat a - 1"
  by (rule unat_minus_one) auto

lemma take_log_block_simps [simp]:
  "j_first (take_log_block s) = j_first s"
  "j_last (take_log_block s) = j_last s"
  "j_tail (take_log_block s) = j_tail s"
  "j_free (take_log_block s) = j_free s - 1"
  "j_flags (take_log_block s) = j_flags s"
  "j_bmap (take_log_block s) = j_bmap s"
  "log_cap (take_log_block s) = log_cap s"
  "log_pos (take_log_block s) i = log_pos s i"
  by (simp_all add: take_log_block_def Let_def log_cap_def log_pos_def)

text \<open>The head moves round the log.\<close>

lemma take_log_block_head:
  assumes "log_wf s"
  shows "unat (j_head (take_log_block s)) = log_pos s (log_cap s - unat (j_free s) + 1)"
proof -
  define a where "a = unat (j_tail s) - unat (j_first s) + (log_cap s - unat (j_free s))"
  have f: "unat (j_first s) < unat (j_last s)" and c: "0 < log_cap s"
    using assms by (auto simp: log_wf_def log_cap_def)
  have h: "unat (j_head s) = unat (j_first s) + a mod log_cap s"
    using assms by (simp add: log_wf_def log_pos_def a_def)
  have h1: "unat (j_head s + 1) = unat (j_head s) + 1"
    using log_wf_head [OF assms] by (rule unat_succ)
  have "unat (j_head (take_log_block s)) = unat (j_first s) + (a + 1) mod log_cap s"
  proof (cases "j_head s + 1 = j_last s")
    case True
    then have "unat (j_head s) + 1 = unat (j_last s)" using h1 by simp
    then have "Suc (a mod log_cap s) = log_cap s" using h f by (simp add: log_cap_def)
    then show ?thesis using True by (simp add: take_log_block_def mod_Suc)
  next
    case False
    then have "unat (j_head s) + 1 \<noteq> unat (j_last s)"
      using h1 by (simp add: word_unat_eq_iff)
    then have "Suc (a mod log_cap s) \<noteq> log_cap s" using h f by (simp add: log_cap_def)
    then show ?thesis using False h h1 by (simp add: take_log_block_def mod_Suc)
  qed
  then show ?thesis by (simp add: log_pos_def a_def add.assoc)
qed

lemma take_log_block_wf:
  assumes "log_wf s" and "1 < j_free s"
  shows "log_wf (take_log_block s)"
proof -
  have "1 < unat (j_free s)" using assms(2) by (simp add: word_less_nat_alt)
  moreover have "unat (j_free s - 1) = unat (j_free s) - 1" by (rule unat_pred [OF assms(2)])
  ultimately show ?thesis
    using assms(1) take_log_block_head [OF assms(1)] by (auto simp: log_wf_def Suc_diff_le)
qed

lemma take_log_block_region:
  assumes "log_wf s" and "1 < j_free s"
  shows "log_region (take_log_block s) = log_region s @ [unat (j_head s)]"
proof -
  have "1 < unat (j_free s)" using assms(2) by (simp add: word_less_nat_alt)
  then have "log_cap s - unat (j_free s - 1) = Suc (log_cap s - unat (j_free s))"
    using assms(1) unat_pred [OF assms(2)] by (simp add: log_wf_def Suc_diff_le)
  then show ?thesis
    using assms(1) by (simp add: log_region_def log_wf_def cong: map_cong)
qed

lemma log_region_bound:
  assumes "log_wf s" and "n \<in> set (log_region s)"
  shows "n < 2 ^ 64"
proof -
  obtain i where i: "n = log_pos s i" using assms(2) by (auto simp: log_region_def)
  have cap: "0 < log_cap s" using assms(1) by (simp add: log_wf_def log_cap_def)
  have "n < unat (j_first s) + log_cap s" unfolding i log_pos_def using cap by simp
  also have "\<dots> = unat (j_last s)" using assms(1) by (simp add: log_wf_def log_cap_def)
  also have "\<dots> < 2 ^ 64" using unsigned_less [of "j_last s"] by simp
  finally show ?thesis .
qed

lemma log_head_fresh:
  assumes "log_wf s"
  shows "unat (j_head s) \<notin> set (log_region s)"
proof
  assume "unat (j_head s) \<in> set (log_region s)"
  then obtain i where i: "i < log_cap s - unat (j_free s)"
      and "log_pos s i = log_pos s (log_cap s - unat (j_free s))"
    using assms by (auto simp: log_region_def log_wf_def)
  then have "i = log_cap s - unat (j_free s)"
    using assms by (intro log_pos_inj [of i s]) (auto simp: log_wf_def)
  with i show False by simp
qed

lemma log_free_region: "log_wf s \<Longrightarrow> unat (j_free s) + length (log_region s) = log_cap s"
  by (simp add: log_region_def log_wf_def)

text \<open>Moving the tail forward by \<open>k\<close> blocks frees exactly these \<open>k\<close> blocks.\<close>

lemma log_freed_pos:
  assumes wf: "log_wf s" and k: "k \<le> length (log_region s)" and b: "unat block = log_pos s k"
  shows "unat (log_freed s block) = k"
proof -
  define t where "t = unat (j_tail s) - unat (j_first s)"
  have f: "unat (j_first s) < unat (j_last s)" "unat (j_first s) \<le> unat (j_tail s)"
      "unat (j_tail s) < unat (j_last s)"
    using wf by (simp_all add: log_wf_def)
  have "k \<le> log_cap s - unat (j_free s)" using k by (simp add: log_region_def)
  then have kn: "k < log_cap s" using wf by (simp only: log_wf_def) linarith
  have tn: "t < log_cap s" using f by (simp add: t_def log_cap_def)
  have b': "unat block = unat (j_first s) + (t + k) mod log_cap s"
    using b by (simp add: log_pos_def t_def)
  have k64: "k < 2 ^ 64"
    using kn unsigned_less [of "j_last s", where 'a = nat] by (simp add: log_cap_def)
  show ?thesis
  proof (cases "t + k < log_cap s")
    case True
    then have "unat block = unat (j_tail s) + k" using b' f by (simp add: t_def)
    then show ?thesis by (simp add: log_freed_def Let_def word_less_nat_alt unat_sub_if')
  next
    case False
    then have "(t + k) mod log_cap s = t + k - log_cap s"
      using kn tn by (simp add: mod_if)
    then have eq: "unat block + unat (j_last s) = unat (j_tail s) + unat (j_first s) + k"
      using b' f False by (simp add: t_def log_cap_def)
    then have lt: "block < j_tail s" using kn f by (simp add: word_less_nat_alt log_cap_def)
    have "(of_nat (unat block + unat (j_last s)) :: u64)
        = of_nat (unat (j_tail s) + unat (j_first s) + k)"
      by (simp only: eq)
    then have "block + j_last s = j_tail s + j_first s + of_nat k" by simp
    then have "block - j_tail s + (j_last s - j_first s) = of_nat k"
      by (simp add: algebra_simps)
    then show ?thesis using lt k64 by (simp add: log_freed_def Let_def unat_of_nat)
  qed
qed

lemma move_log_tail_simps [simp]:
  "j_first (move_log_tail s tid block) = j_first s"
  "j_last (move_log_tail s tid block) = j_last s"
  "j_tail (move_log_tail s tid block) = block"
  "j_head (move_log_tail s tid block) = j_head s"
  "j_free (move_log_tail s tid block) = j_free s + log_freed s block"
  "j_tail_sequence (move_log_tail s tid block) = tid"
  "log_cap (move_log_tail s tid block) = log_cap s"
  by (simp_all add: move_log_tail_def log_cap_def)

lemma move_log_tail_pos:
  "unat block = log_pos s k \<Longrightarrow> log_pos (move_log_tail s tid block) i = log_pos s (k + i)"
  by (simp add: log_pos_def mod_add_left_eq add.assoc)

lemma move_log_tail_free:
  assumes "log_wf s" and "k \<le> length (log_region s)" and "unat block = log_pos s k"
  shows "unat (j_free (move_log_tail s tid block)) = unat (j_free s) + k"
proof -
  have "unat (j_free s) + k \<le> log_cap s"
    using assms(2) log_free_region [OF assms(1)] by simp
  then have "unat (j_free s) + k < 2 ^ 64"
    using unsigned_less [of "j_last s", where 'a = nat] by (simp add: log_cap_def)
  then show ?thesis using log_freed_pos [OF assms] by (simp add: unat_word_ariths)
qed

lemma move_log_tail_wf:
  assumes "log_wf s" and "k \<le> length (log_region s)" and "unat block = log_pos s k"
  shows "log_wf (move_log_tail s tid block)"
proof -
  have k: "k \<le> log_cap s - unat (j_free s)" using assms(2) by (simp add: log_region_def)
  have free: "unat (j_free s) \<le> log_cap s" using assms(1) by (simp add: log_wf_def)
  have "log_cap s - unat (j_free s) = k + (log_cap s - (unat (j_free s) + k))"
    using k by simp
  moreover have "unat (j_free s) + k \<le> log_cap s" using k free by simp
  moreover have "unat (j_first s) \<le> unat block" "unat block < unat (j_last s)"
    using assms(1,3) log_pos_less [of s k] by (auto simp: log_wf_def log_pos_def)
  ultimately show ?thesis
    using assms(1) move_log_tail_free [OF assms, of tid] move_log_tail_pos [OF assms(3), of tid]
    by (simp add: log_wf_def)
qed

lemma move_log_tail_region:
  assumes "log_wf s" and "k \<le> length (log_region s)" and "unat block = log_pos s k"
  shows "log_region (move_log_tail s tid block) = drop k (log_region s)"
proof (rule nth_equalityI)
  have free: "unat (j_free (move_log_tail s tid block)) = unat (j_free s) + k"
    by (rule move_log_tail_free [OF assms])
  then show "length (log_region (move_log_tail s tid block)) = length (drop k (log_region s))"
    by (simp add: log_region_def del: move_log_tail_simps(5))
  fix i
  assume "i < length (log_region (move_log_tail s tid block))"
  then show "log_region (move_log_tail s tid block) ! i = drop k (log_region s) ! i"
    using free move_log_tail_pos [OF assms(3), of tid i]
    by (simp add: log_region_def del: move_log_tail_simps(5))
qed

section \<open>The interface of the log to its clients\<close>

text \<open>
  A bounded queue of positions: \<open>push\<close> takes the next position, \<open>pop\<close> moves the start of the
  queue to a position of the queue or to the next position. What the commit code needs follows
  from these laws: with more than \<open>n\<close> free positions it can take \<open>n\<close> positions in a row, all
  different and none of them in use.
\<close>

locale log_queue =
  fixes region :: "'s \<Rightarrow> nat list" and next_pos :: "'s \<Rightarrow> nat" and free cap :: "'s \<Rightarrow> nat"
    and push :: "'s \<Rightarrow> 's" and pop :: "'s \<Rightarrow> 'p \<Rightarrow> 's" and pos :: "'p \<Rightarrow> nat"
    and wf :: "'s \<Rightarrow> bool"
  assumes push_region: "wf s \<Longrightarrow> 1 < free s \<Longrightarrow> region (push s) = region s @ [next_pos s]"
    and push_wf: "wf s \<Longrightarrow> 1 < free s \<Longrightarrow> wf (push s)"
    and push_cap: "cap (push s) = cap s"
    and fresh: "wf s \<Longrightarrow> next_pos s \<notin> set (region s)"
    and free_region: "wf s \<Longrightarrow> free s + length (region s) = cap s"
    and region_distinct: "wf s \<Longrightarrow> distinct (region s)"
    and pop_region: "wf s \<Longrightarrow> k \<le> length (region s) \<Longrightarrow>
      pos p = (region s @ [next_pos s]) ! k \<Longrightarrow> region (pop s p) = drop k (region s)"
    and pop_wf: "wf s \<Longrightarrow> pos p \<in> set (region s @ [next_pos s]) \<Longrightarrow> wf (pop s p)"
    and pop_cap: "cap (pop s p) = cap s"
begin

lemma push_free: "wf s \<Longrightarrow> 1 < free s \<Longrightarrow> free (push s) = free s - 1"
  using free_region [of s] free_region [OF push_wf, of s] push_region [of s] push_cap [of s]
  by simp

lemma pushes:
  assumes "wf s" and "n < free s"
  shows "wf ((push ^^ n) s) \<and> free ((push ^^ n) s) = free s - n \<and>
    (\<exists>new. region ((push ^^ n) s) = region s @ new \<and> length new = n)"
  using assms
proof (induction n)
  case 0
  then show ?case by simp
next
  case (Suc n)
  then have IH: "wf ((push ^^ n) s)" "free ((push ^^ n) s) = free s - n"
    and "\<exists>new. region ((push ^^ n) s) = region s @ new \<and> length new = n"
    by auto
  then obtain new where new: "region ((push ^^ n) s) = region s @ new" "length new = n"
    by blast
  have "1 < free ((push ^^ n) s)" using Suc.prems IH(2) by simp
  then show ?case
    using IH new push_wf [OF IH(1)] push_free [OF IH(1)] push_region [OF IH(1)] by auto
qed

lemma pushes_fresh:
  assumes "wf s" and "n < free s" and "region ((push ^^ n) s) = region s @ new"
  shows "distinct new \<and> set new \<inter> set (region s) = {}"
  using pushes [OF assms(1,2)] region_distinct [of "(push ^^ n) s"] assms(3) by auto

lemma pop_suffix:
  assumes "wf s" and "pos p \<in> set (region s @ [next_pos s])"
  shows "\<exists>k. region (pop s p) = drop k (region s) \<and> free (pop s p) = free s + k"
proof -
  obtain k where k: "k \<le> length (region s)" "pos p = (region s @ [next_pos s]) ! k"
    using assms(2) by (metis in_set_conv_nth length_append_singleton less_Suc_eq_le)
  have "region (pop s p) = drop k (region s)" by (rule pop_region [OF assms(1) k])
  moreover from this have "free (pop s p) = free s + k"
    using free_region [OF assms(1)] free_region [OF pop_wf [OF assms]] k(1) pop_cap [of s p]
    by simp
  ultimately show ?thesis by blast
qed

end

lemma log_region_distinct: "log_wf s \<Longrightarrow> distinct (log_region s)"
  by (auto simp: log_region_def distinct_map inj_on_def log_wf_def intro: log_pos_inj [of _ s])

lemma log_region_next:
  "log_wf s \<Longrightarrow> k \<le> length (log_region s) \<Longrightarrow>
    (log_region s @ [unat (j_head s)]) ! k = log_pos s k"
  by (auto simp: nth_append log_region_def log_wf_def)

interpretation lq: log_queue log_region "\<lambda>s. unat (j_head s)" "\<lambda>s. unat (j_free s)" log_cap
  take_log_block "\<lambda>s (tid, block). move_log_tail s tid block" "\<lambda>(tid, block). unat block" log_wf
proof unfold_locales
  fix s :: jstate and k :: nat and p :: "tid_t \<times> ulong"
  obtain tid block where p: "p = (tid, block)" by fastforce
  show "log_region (case p of (tid, block) \<Rightarrow> move_log_tail s tid block) = drop k (log_region s)"
    if "log_wf s" "k \<le> length (log_region s)"
      "(case p of (tid, block) \<Rightarrow> unat block) = (log_region s @ [unat (j_head s)]) ! k"
    using that by (simp add: p log_region_next move_log_tail_region)
  show "log_wf (case p of (tid, block) \<Rightarrow> move_log_tail s tid block)"
    if wf: "log_wf s"
      and mem: "(case p of (tid, block) \<Rightarrow> unat block) \<in> set (log_region s @ [unat (j_head s)])"
  proof -
    obtain i where "i < length (log_region s @ [unat (j_head s)])"
        "(log_region s @ [unat (j_head s)]) ! i = unat block"
      using mem p by (auto simp only: in_set_conv_nth prod.case)
    then show ?thesis
      using wf log_region_next [of s i] move_log_tail_wf [of s i block tid] by (simp add: p)
  qed
qed (auto simp: take_log_block_region take_log_block_wf log_head_fresh log_free_region
      log_region_distinct word_less_nat_alt split: prod.splits)

section \<open>What aborting and superblock writes leave alone\<close>

text \<open>Neither an abort nor a superblock write moves the head or the tail of the log.\<close>

definition same_log :: "jstate \<Rightarrow> jstate \<Rightarrow> bool" where
  "same_log s s' =
     (j_first s' = j_first s \<and> j_last s' = j_last s \<and> j_head s' = j_head s \<and>
      j_tail s' = j_tail s \<and> j_free s' = j_free s \<and> j_tail_sequence s' = j_tail_sequence s)"

lemma same_log_refl [simp]: "same_log s s"
  by (simp add: same_log_def)

lemma same_log_trans: "same_log s s' \<Longrightarrow> same_log s' s'' \<Longrightarrow> same_log s s''"
  by (simp add: same_log_def)

lemma same_logD:
  assumes "same_log s s'"
  shows "log_wf s' = log_wf s" "log_region s' = log_region s" "log_cap s' = log_cap s"
proof -
  have cap: "log_cap s' = log_cap s" using assms by (simp add: same_log_def log_cap_def)
  moreover have pos: "log_pos s' = log_pos s"
    using assms cap by (intro ext) (simp add: same_log_def log_pos_def)
  ultimately show "log_wf s' = log_wf s" "log_region s' = log_region s" "log_cap s' = log_cap s"
    using assms by (simp_all add: same_log_def log_wf_def log_region_def)
qed

lemma log_start_commit_same_log:
  "wp (log_start_commit_raw s target ino) any_err (\<lambda>(r, s').
     same_log s s' \<and> j_flags s' = j_flags s \<and> sb_written s' = sb_written s)"
  by (auto simp: log_start_commit_raw_def wp_simps same_log_def upd_tr_def split: option.splits)

lemma journal_abort_hard_same_log:
  "wp (journal_abort_hard s) any_err (\<lambda>s'. same_log s s' \<and>
     j_flags s' = insert JBD2_ABORT (j_flags s) \<and> sb_written s' = sb_written s)"
proof -
  define s1 where "s1 = s\<lparr>j_flags := insert JBD2_ABORT (j_flags s)\<rparr>"
  have s1: "same_log s s1" "j_flags s1 = insert JBD2_ABORT (j_flags s)" "sb_written s1 = sb_written s"
    by (simp_all add: s1_def same_log_def)
  have "wp (log_start_commit_raw s1 tid 0) any_err (\<lambda>(r, s'). same_log s s' \<and>
     j_flags s' = insert JBD2_ABORT (j_flags s) \<and> sb_written s' = sb_written s)" for tid
    by (rule wp_mono [OF log_start_commit_same_log]) (auto simp: s1 dest: same_log_trans [OF s1(1)])
  then show ?thesis
    using s1 by (auto simp: journal_abort_hard_def Let_def s1_def [symmetric] wp_simps insert_absorb
        split: option.splits)
qed

lemma update_sb_errno_io_simps [simp]:
  "same_log s (update_sb_errno_io csum s)"
  "j_flags (update_sb_errno_io csum s) = j_flags s"
  by (simp_all add: update_sb_errno_io_def write_superblock_io_def Let_def same_log_def)

lemma journal_abort_soft_same_log:
  "wp (journal_abort_soft csum s errno) any_err (\<lambda>s'. same_log s s' \<and>
     insert JBD2_ABORT (j_flags s) \<subseteq> j_flags s')"
proof -
  define s1 where "s1 = (if j_errno s = 0 then s\<lparr>j_errno := errno\<rparr> else s)"
  have s1: "same_log s s1" "j_flags s1 = j_flags s" by (simp_all add: s1_def same_log_def)
  have upd: "same_log s1 s2 \<Longrightarrow> same_log s ((update_sb_errno_io csum s2)\<lparr>j_flags := F\<rparr>)" for s2 F
    using s1(1) update_sb_errno_io_simps(1) [of s2 csum] by (simp add: same_log_def)
  show ?thesis
    apply (simp add: journal_abort_soft_def s1_def [symmetric] wp_simps Let_def s1(2))
    apply (rule impI)
    apply (rule wp_mono [OF journal_abort_hard_same_log])
    apply (auto simp: s1(2) intro: upd same_log_trans [OF s1(1)])
    done
qed

text \<open>
  Writing the superblock submits what it holds at that moment, and an error leaves the
  journal aborted.
\<close>

definition sb_names_tail :: "jstate \<Rightarrow> jstate \<Rightarrow> u32 \<Rightarrow> u32 \<Rightarrow> bool" where
  "sb_names_tail s s' start seqn = (\<exists>sb. sb_written s' = sb # sb_written s \<and>
     s_start sb = start \<and> s_sequence sb = seqn)"

lemma jbd2_write_superblock_result:
  "wp (jbd2_write_superblock csum s) any_err (\<lambda>(ret, s'). same_log s s' \<and>
     (if ret = 0
      then j_flags s' = j_flags s \<and>
        sb_names_tail s s' (s_start (j_superblock s)) (s_sequence (j_superblock s))
      else insert JBD2_ABORT (j_flags s) \<subseteq> j_flags s'))"
proof -
  define s1 where "s1 = snd (write_superblock_io csum s)"
  define r where "r = fst (write_superblock_io csum s)"
  have io: "write_superblock_io csum s = (r, s1)" by (simp add: r_def s1_def)
  have s1: "same_log s s1" "j_flags s1 = j_flags s"
      "sb_names_tail s s1 (s_start (j_superblock s)) (s_sequence (j_superblock s))"
    by (simp_all add: s1_def write_superblock_io_def Let_def same_log_def sb_names_tail_def)
  show ?thesis
    apply (simp add: jbd2_write_superblock_def io jbd2_vmsep_journal_abort_def wp_simps s1)
    apply (rule impI)
    apply (rule wp_mono [OF journal_abort_soft_same_log])
    apply (auto simp: s1(2) intro: same_log_trans [OF s1(1)])
    done
qed

lemma update_sb_log_tail_result:
  "wp (jbd2_vmsep_journal_update_sb_log_tail csum s tid block) any_err (\<lambda>(ret, s'). same_log s s' \<and>
     (if ret = 0
      then j_flags s' = j_flags s - {JBD2_FLUSHED} \<and> sb_names_tail s s' (ucast block) tid
      else insert JBD2_ABORT (j_flags s) \<subseteq> j_flags s'))"
proof -
  define s1 where "s1 = s\<lparr>j_superblock := (j_superblock s)\<lparr>s_sequence := tid,
    s_start := ucast block\<rparr>\<rparr>"
  have s1: "same_log s s1" "j_flags s1 = j_flags s" "s_start (j_superblock s1) = ucast block"
      "s_sequence (j_superblock s1) = tid" "sb_names_tail s1 = sb_names_tail s"
    by (auto simp: s1_def same_log_def sb_names_tail_def fun_eq_iff)
  have fl: "same_log s2 (s2\<lparr>j_flags := F\<rparr>)"
      "sb_names_tail s (s2\<lparr>j_flags := F\<rparr>) = sb_names_tail s s2" for s2 F
    by (simp_all add: same_log_def sb_names_tail_def fun_eq_iff)
  show ?thesis
    unfolding jbd2_vmsep_journal_update_sb_log_tail_def Let_def s1_def [symmetric] wp_simps
    apply (rule wp_mono [OF jbd2_write_superblock_result])
    apply (auto simp: s1 fl
        intro: same_log_trans [OF s1(1)] same_log_trans [OF same_log_trans [OF s1(1)] fl(1)]
        split: if_splits)
    done
qed

lemma move_log_tail_same_log:
  "same_log s s1 \<Longrightarrow> same_log (move_log_tail s tid block) (move_log_tail s1 tid block)"
  by (simp add: same_log_def log_freed_def Let_def)

lemma move_log_tail_rest [simp]:
  "j_flags (move_log_tail s tid block) = j_flags s"
  "sb_names_tail s0 (move_log_tail s tid block) = sb_names_tail s0 s"
  by (simp_all add: move_log_tail_def sb_names_tail_def fun_eq_iff)

lemma update_log_tail_raw_result:
  "wp (update_log_tail_raw csum s tid block) any_err (\<lambda>(ret, s').
     if ret = 0
     then same_log (move_log_tail s tid block) s' \<and> j_flags s' = j_flags s - {JBD2_FLUSHED} \<and>
       sb_names_tail s s' (ucast block) tid
     else same_log s s' \<and> insert JBD2_ABORT (j_flags s) \<subseteq> j_flags s')"
  unfolding update_log_tail_raw_def wp_simps
  by (rule wp_mono [OF update_sb_log_tail_result])
    (auto intro: move_log_tail_same_log split: if_splits)

text \<open>The block of the device on which a block of the log is.\<close>

definition jmap :: "jstate \<Rightarrow> ulong \<Rightarrow> u64" where
  "jmap s n = (case j_bmap s of None \<Rightarrow> n | Some f \<Rightarrow> f n)"

lemma bmap_same_log:
  "wp (jbd2_vmsep_journal_bmap csum s blocknr) any_err (\<lambda>(err, pblock, s').
     same_log s s' \<and> (if j_bmap s \<noteq> None \<and> jmap s blocknr = 0 then err = - EIO \<and> JBD2_ABORT \<in> j_flags s'
       else err = 0 \<and> j_flags s' = j_flags s \<and> pblock = jmap s blocknr))"
  unfolding jbd2_vmsep_journal_bmap_def Let_def wp_simps
  by (auto simp: jmap_def split: option.split intro: wp_mono [OF journal_abort_soft_same_log])

section \<open>Properties of the log\<close>

text \<open>
  \<open>init_state\<close> is a freshly loaded log of 2048 blocks starting at block 1: the example on
  which the properties are applied.
\<close>

definition ex_superblock :: journal_superblock where
  "ex_superblock = \<lparr>s_magic = JBD2_MAGIC_NUMBER, s_blocktype = JBD2_SUPERBLOCK_V2,
     s_blocksize = 1024, s_maxlen = 2048, s_first = 1, s_sequence = 7, s_start = 1, s_errno = 0,
     s_feature_compat = 0, s_feature_incompat = 1, s_feature_ro_compat = 0, s_uuid = [],
     s_checksum_type = 0, s_checksum = 0\<rparr>"

definition ex_buffer :: buffer_head where
  "ex_buffer = \<lparr>b_blocknr = 0, b_data = [], b_count = 1, bh_dirty = False, bh_jbddirty = False,
     bh_jwrite = False, bh_freed = False, bh_revoked = False, bh_revokevalid = False,
     bh_shadow = False, bh_locked = False, bh_uptodate = True, bh_write_io_error = False,
     bh_mapped = True, bh_page_mapping = True\<rparr>"

definition ex_transaction :: transaction_t where
  "ex_transaction = \<lparr>t_tid = 7, t_state = T_RUNNING, t_log_start = 0, t_nr_buffers = 0,
     t_reserved_list = [], t_buffers = [], t_forget = [], t_checkpoint_list = [],
     t_checkpoint_io_list = [], t_shadow_list = [], t_inode_list = [], t_start = 0,
     t_requested = 0, t_expires = 0, cs_chp_time = 0, cs_forced_to_close = 0, cs_written = 0,
     cs_dropped = 0, t_updates = 0, t_outstanding_credits = 0, t_handle_count = 0,
     t_synchronous_commit = False, t_need_data_flush = False, ino_sync = 0\<rparr>"

definition init_state :: jstate where
  "init_state = \<lparr>j_flags = {}, j_errno = 0, j_sb_buffer = True, j_sb_uptodate = True,
     j_sb_verified = True, j_superblock = ex_superblock,
     j_format_version = 2, j_barrier_count = 0, j_running_transaction = Some 0,
     j_committing_transaction = None, j_checkpoint_transactions = [], j_head = 3, j_tail = 1,
     j_free = 2045, j_first = 1, j_last = 2048, j_blocksize = 1024, j_dev_is_fs_dev = True,
     j_maxlen = 2048, j_reserved_credits = 0, j_bmap = None, j_tail_sequence = 5,
     j_transaction_sequence = 8, j_commit_sequence = 6, j_commit_request = 6, j_uuid = [],
     j_task = True, j_max_transaction_buffers = 512, j_commit_interval = 1250,
     j_revoke_table0 = None, j_revoke_table1 = None, j_revoke = None, j_wbufsize = 64,
     j_average_commit_time = 0, j_failed_commit = 0, j_chksum_driver = False, j_csum_seed = 0,
     trs = [0 \<mapsto> ex_transaction], jhs = Map.empty, bhs = (\<lambda>_. ex_buffer), inodes = Map.empty,
     next_tr = 1, sb_written = [], log_written = [], jiffies = 100, sb_write_result = (\<lambda>_. 0)\<rparr>"

definition ex_env :: env where
  "ex_env = \<lparr>sb_csum = \<lambda>_. 0, chksum = \<lambda>_ _. 0, crc32_be = \<lambda>_ _. 0, getblk = \<lambda>_. True,
     fs_getblk = \<lambda>_. True, find_get_block = \<lambda>_. None, mem_alloc = True, dev_read = \<lambda>_. None,
     dev_new = \<lambda>_. False, sync_blockdev = 0, issue_flush = 0, resched_bh = \<lambda>_. False,
     resched_tr = \<lambda>_ _. False, write_error = \<lambda>_. False,
     sb_read = True, shash_alloc = 0, pf_memalloc = False, frozen_trigger = \<lambda>_ d. d,
     submit_bh = \<lambda>_. 0, log_io_ok = \<lambda>_. True, submit_data = \<lambda>_. 0, wait_data = \<lambda>_. 0, now_sec = 0,
     now_nsec = 0, elapsed_ns = 0\<rparr>"

lemmas ex_defs = ex_env_def init_state_def ex_superblock_def ex_buffer_def ex_transaction_def

lemma init_state_wf: "log_wf init_state"
  by (simp add: log_wf_def log_cap_def log_pos_def ex_defs)

lemma init_state_region: "log_region init_state = [1, 2]"
  by (simp add: log_region_def log_cap_def log_pos_def ex_defs upt_rec)

text \<open>C39: \<open>jbd2_vmsep_journal_next_log_block\<close> returns a block that is not in use. Whenever it returns, the block at the
  head is appended to the log in use, which did not have it, and the invariant of the log is kept. The block that is returned is the one
  on which the device has the head of the log; if the mapping of the log is injective, it is none of those that hold
  the log in use. If the mapping fails, \<open>-EIO\<close> is returned and the journal is aborted.\<close>

theorem next_log_block_fresh:
  assumes "log_wf s" and "jbd2_vmsep_journal_next_log_block csum s = Inr (err, pblock, s')"
  shows "unat (j_head s) \<notin> set (log_region s) \<and>
    log_region s' = log_region s @ [unat (j_head s)] \<and> log_wf s' \<and>
    unat (j_free s') = unat (j_free s) - 1 \<and>
    (if j_bmap s \<noteq> None \<and> jmap s (j_head s) = 0 then err = - EIO \<and> JBD2_ABORT \<in> j_flags s'
     else err = 0 \<and> j_flags s' = j_flags s \<and> pblock = jmap s (j_head s) \<and>
       (inj (jmap s) \<longrightarrow> pblock \<notin> (\<lambda>n. jmap s (of_nat n)) ` set (log_region s)))"
proof -
  have free: "1 < j_free s"
      and bmap: "jbd2_vmsep_journal_bmap csum (take_log_block s) (j_head s) = Inr (err, pblock, s')"
    using assms(2) by (simp_all add: jbd2_vmsep_journal_next_log_block_def J_ASSERT_Inr)
  have same: "same_log (take_log_block s) s'"
      and res: "if j_bmap s \<noteq> None \<and> jmap s (j_head s) = 0 then err = - EIO \<and> JBD2_ABORT \<in> j_flags s'
        else err = 0 \<and> j_flags s' = j_flags s \<and> pblock = jmap s (j_head s)"
    using wp_InrD [OF bmap_same_log bmap] by (auto simp: jmap_def)
  note fresh = log_head_fresh [OF assms(1)]
  have "jmap s (j_head s) \<noteq> jmap s (of_nat n)" if "inj (jmap s)" "n \<in> set (log_region s)" for n
  proof
    assume "jmap s (j_head s) = jmap s (of_nat n)"
    then have "j_head s = of_nat n" using that(1) by (simp add: inj_eq)
    moreover have "n < 2 ^ 64" using log_region_bound [OF assms(1) that(2)] .
    ultimately have "unat (j_head s) = n" by (simp add: unat_of_nat_small)
    then show False using fresh that(2) by simp
  qed
  then show ?thesis
    using free take_log_block_wf [OF assms(1) free] take_log_block_region [OF assms(1) free] fresh unat_pred [OF free] same res
    by (auto simp: same_logD) (auto simp: same_log_def)
qed

lemma ex_next_log_block:
  "jbd2_vmsep_journal_next_log_block (\<lambda>_. 0) init_state = Inr (0, 3, take_log_block init_state)"
  unfolding jbd2_vmsep_journal_next_log_block_def jbd2_vmsep_journal_bmap_def
  by (subst take_log_block_simps(6)) (simp only: ex_defs jstate.simps journal_t.simps
      option.case J_ASSERT_def word_less_nat_alt, simp)

theorem next_log_block_fresh_witness:
  "jbd2_vmsep_journal_next_log_block (\<lambda>_. 0) init_state = Inr (0, 3, take_log_block init_state) \<and>
    log_region (take_log_block init_state) = [1, 2, 3] \<and> (3 :: u64) \<notin> (\<lambda>n. jmap init_state (of_nat n)) ` set (log_region init_state)"
proof -
  have id: "jmap init_state n = n" "j_bmap init_state = None" for n by (simp_all add: jmap_def ex_defs)
  then have "inj (jmap init_state)" by (simp add: inj_def)
  then have "log_region (take_log_block init_state) = log_region init_state @ [unat (j_head init_state)] \<and>
      (3 :: u64) \<notin> (\<lambda>n. jmap init_state (of_nat n)) ` set (log_region init_state)"
    using next_log_block_fresh [OF init_state_wf ex_next_log_block, unfolded id(2) simp_thms if_False] by blast
  moreover have "unat (j_head init_state) = 3" by (simp add: ex_defs)
  ultimately show ?thesis using ex_next_log_block by (simp only: init_state_region append.simps simp_thms)
qed

text \<open>A commit that finds more than \<open>n\<close> free blocks can take \<open>n\<close> blocks in a row: no
  assertion of \<open>jbd2_vmsep_journal_next_log_block\<close> fails on the way, and the blocks are all
  different and none of them holds a block of the log in use.\<close>

theorem next_log_blocks_disjoint:
  assumes "log_wf s" and "n < unat (j_free s)"
  shows "log_wf ((take_log_block ^^ n) s) \<and> unat (j_free ((take_log_block ^^ n) s)) = unat (j_free s) - n \<and>
    (\<exists>new. log_region ((take_log_block ^^ n) s) = log_region s @ new \<and> length new = n \<and>
      distinct new \<and> set new \<inter> set (log_region s) = {})"
  using lq.pushes [OF assms] lq.pushes_fresh [OF assms] by blast

theorem next_log_blocks_disjoint_witness:
  "log_wf ((take_log_block ^^ 4) init_state)"
  using next_log_blocks_disjoint [OF init_state_wf, of 4] by (simp add: ex_defs)

text \<open>C37: \<open>__jbd2_vmsep_update_log_tail\<close> either moves the tail to a position of the log, freeing
  exactly the blocks before it and only after a superblock naming the new tail has been written,
  or it fails, and then the tail and the blocks in use are as before and the journal is
  aborted.\<close>

theorem update_log_tail_safe:
  assumes "log_wf s" and "unat block \<in> set (log_region s @ [unat (j_head s)])"
    and "update_log_tail_raw csum s tid block = Inr (ret, s')"
  shows "log_wf s' \<and>
    (if ret = 0
     then sb_names_tail s s' (ucast block) tid \<and> j_tail s' = block \<and> j_tail_sequence s' = tid \<and>
       (\<exists>k. log_region s' = drop k (log_region s) \<and> unat (j_free s') = unat (j_free s) + k)
     else log_region s' = log_region s \<and> j_tail s' = j_tail s \<and>
       j_tail_sequence s' = j_tail_sequence s \<and> JBD2_ABORT \<in> j_flags s')"
proof (cases "ret = 0")
  case True
  have r: "same_log (move_log_tail s tid block) s'" "sb_names_tail s s' (ucast block) tid"
    using wp_InrD [OF update_log_tail_raw_result assms(3)] True
    by (simp_all only: prod.case if_True refl)
  have free: "j_free s' = j_free (move_log_tail s tid block)" "j_tail s' = block"
      "j_tail_sequence s' = tid"
    using r(1) by (simp_all add: same_log_def)
  have "log_wf (move_log_tail s tid block)"
    using lq.pop_wf [OF assms(1), of "(tid, block)"] assms(2) by simp
  moreover have "\<exists>k. log_region (move_log_tail s tid block) = drop k (log_region s) \<and>
      unat (j_free (move_log_tail s tid block)) = unat (j_free s) + k"
    using lq.pop_suffix [OF assms(1), of "(tid, block)"] assms(2) by (simp only: prod.case)
  ultimately show ?thesis
    using True r(2) same_logD [OF r(1)] free by (simp only: if_True refl)
next
  case False
  then have r: "same_log s s'" "JBD2_ABORT \<in> j_flags s'"
    using wp_InrD [OF update_log_tail_raw_result assms(3)]
    by (simp_all only: prod.case if_False insert_subset)
  then show ?thesis using False assms(1) same_logD [OF r(1)] by (simp add: same_log_def)
qed

lemma ex_update_log_tail:
  "wp (update_log_tail_raw (\<lambda>_. 0) init_state 7 3) no_err (\<lambda>(ret, s'). ret = 0)"
  by (simp add: update_log_tail_raw_def jbd2_vmsep_journal_update_sb_log_tail_def
      jbd2_write_superblock_def write_superblock_io_def jbd2_journal_has_csum_v2or3_def Let_def
      wp_simps ex_defs)

theorem update_log_tail_safe_witness:
  "\<exists>s'. update_log_tail_raw (\<lambda>_. 0) init_state 7 3 = Inr (0, s') \<and> log_wf s' \<and> j_tail s' = 3"
proof -
  obtain s' where s': "update_log_tail_raw (\<lambda>_. 0) init_state 7 3 = Inr (0, s')"
    using ex_update_log_tail by (auto simp: wp_returns)
  have "unat (3 :: ulong) \<in> set (log_region init_state @ [unat (j_head init_state)])"
    by (simp add: ex_defs)
  note safe = update_log_tail_safe [OF init_state_wf this s', unfolded if_P [OF refl]]
  show ?thesis by (rule exI [of _ s'], intro conjI) (rule s', use safe in blast, use safe in blast)
qed

text \<open>\<open>__jbd2_log_start_commit\<close> records the inode whose metadata the commit shall write only
  for the first request for a transaction: a later request for the same transaction on behalf
  of another inode changes nothing, so the commit separates for the first inode.\<close>

theorem second_commit_request_ignored:
  assumes "log_start_commit_raw s tid ino = Inr (1, s1)"
  shows "log_start_commit_raw s1 tid ino2 = Inr (0, s1) \<and>
    (\<exists>t tr. j_running_transaction s1 = Some t \<and> trs s1 t = Some tr \<and> t_tid tr = tid \<and>
      ino_sync tr = ino)"
proof -
  have "wp (log_start_commit_raw s tid ino) any_err (\<lambda>(r, s1). r = 1 \<longrightarrow>
      j_commit_request s1 = tid \<and>
      (\<exists>t tr. j_running_transaction s1 = Some t \<and> trs s1 t = Some tr \<and> t_tid tr = tid \<and>
        ino_sync tr = ino))"
    unfolding log_start_commit_raw_def wp_simps by (simp add: upd_tr_def split: option.split)
  from wp_InrD [OF this assms] show ?thesis by (simp add: log_start_commit_raw_def)
qed

theorem second_commit_request_ignored_witness:
  "\<exists>s1. log_start_commit_raw init_state 7 12 = Inr (1, s1) \<and> log_start_commit_raw s1 7 13 = Inr (0, s1)"
proof -
  have "wp (log_start_commit_raw init_state 7 12) no_err (\<lambda>(r, s1). r = 1)"
    unfolding log_start_commit_raw_def wp_simps by (simp add: ex_defs)
  then obtain s1 where "log_start_commit_raw init_state 7 12 = Inr (1, s1)"
    by (auto simp: wp_returns)
  from this second_commit_request_ignored [OF this, of 13] show ?thesis by blast
qed

text \<open>
  What \<open>jbd2_log_space_left\<close> has to leave to the committing transaction, and its result: there is no guard before the subtractions, so
  that the result wraps round when the reserve of 32 blocks and that space are not free.
\<close>

definition committing_need :: "jstate \<Rightarrow> nat" where
  "committing_need s = (case j_committing_transaction s of None \<Rightarrow> 0
     | Some t \<Rightarrow> (let n = nat (t_outstanding_credits (the (trs s t))) in n + n div 32))"

definition committing_ok :: "jstate \<Rightarrow> bool" where
  "committing_ok s = (\<forall>t. j_committing_transaction s = Some t \<longrightarrow>
     (\<exists>tr. trs s t = Some tr \<and> 0 \<le> t_outstanding_credits tr \<and> t_outstanding_credits tr < 2 ^ 31))"

lemma committing_need_bound: "committing_ok s \<Longrightarrow> committing_need s < 2 ^ 32"
  by (auto simp: committing_ok_def committing_need_def Let_def nat_less_iff split: option.split)

lemma log_space_left_value:
  assumes "committing_ok s"
  shows "jbd2_log_space_left s = Inr (j_free s - (32 + of_nat (committing_need s)))"
proof (cases "j_committing_transaction s")
  case None
  then show ?thesis by (simp add: jbd2_log_space_left_def committing_need_def)
next
  case (Some t)
  then obtain tr where tr: "trs s t = Some tr" "0 \<le> t_outstanding_credits tr" "t_outstanding_credits tr < 2 ^ 31"
    using assms by (auto simp: committing_ok_def)
  let ?n = "nat (t_outstanding_credits tr)"
  have c: "(word_of_int (t_outstanding_credits tr) :: ulong) = of_nat ?n" using tr(2) by simp
  have "?n < 2 ^ 31" using tr(2,3) by (simp add: nat_less_iff)
  then have "?n < 2 ^ LENGTH(64)" "?n div 32 < 2 ^ LENGTH(64)" by simp_all
  note u = this [THEN unat_of_nat_small [where 'a = 64]]
  have "drop_bit 5 (of_nat ?n :: ulong) = of_nat (?n div 32)"
    unfolding word_unat_eq_iff unat_drop_bit_eq u by (simp add: drop_bit_eq_div)
  then show ?thesis using Some tr(1) c by (simp add: jbd2_log_space_left_def committing_need_def Let_def)
qed

lemma start_thread_same_log: "same_log s (snd (jbd2_journal_start_thread e s))"
  by (simp add: jbd2_journal_start_thread_def same_log_def)

text \<open>\<open>journal_reset\<close> refuses a journal of fewer than 1024 blocks with \<open>-EINVAL\<close> and leaves
  the log as it was; otherwise it starts with the empty log, all of whose blocks are free, in
  the invariant of the log, and with the next transaction as the first of the log.\<close>

theorem journal_reset_wf:
  assumes "journal_reset csum e s = Inr (ret, s')"
  shows "if unat (s_first (j_superblock s)) + 1024 > unat (s_maxlen (j_superblock s)) + 1
    then ret = - EINVAL \<and> same_log s s' \<and> \<not> j_sb_buffer s'
    else log_wf s' \<and> log_region s' = [] \<and> j_tail_sequence s' = j_transaction_sequence s"
proof -
  define f l :: ulong where "f = ucast (s_first (j_superblock s))"
    and "l = ucast (s_maxlen (j_superblock s))"
  have u: "unat f = unat (s_first (j_superblock s))" "unat l = unat (s_maxlen (j_superblock s))"
    by (simp_all add: f_def l_def)
  have guard: "f + 1024 > l + 1 \<longleftrightarrow> unat f + 1024 > unat l + 1"
    using unsigned_less [of "s_first (j_superblock s)", where 'a = nat]
      unsigned_less [of "s_maxlen (j_superblock s)", where 'a = nat]
    by (simp add: word_less_nat_alt unat_word_ariths u)
  define s1 where "s1 = s\<lparr>j_first := f, j_last := l, j_head := f, j_tail := f, j_free := l - f,
    j_tail_sequence := j_transaction_sequence s, j_commit_sequence := j_transaction_sequence s - 1,
    j_commit_request := j_transaction_sequence s - 1,
    j_max_transaction_buffers := uint (j_maxlen s) div 4\<rparr>"
  have s1: "unat f + 1024 \<le> unat l + 1 \<Longrightarrow>
      log_wf s1 \<and> log_region s1 = [] \<and> j_tail_sequence s1 = j_transaction_sequence s"
    by (simp add: s1_def log_wf_def log_region_def log_pos_def log_cap_def unat_sub_if')
  have sl: "same_log s1 s2 \<Longrightarrow> same_log s1 (snd (jbd2_journal_start_thread e s2))" for s2
    using same_log_trans start_thread_same_log by blast
  have fl: "same_log s1 (s1\<lparr>j_flags := F\<rparr>)" for F by (simp add: same_log_def)
  have upd: "wp (jbd2_vmsep_journal_update_sb_log_tail csum s1 tid b) any_err
      (\<lambda>(ret, s2). same_log s1 (snd (jbd2_journal_start_thread e s2)))" for tid b
    by (rule wp_mono [OF update_sb_log_tail_result]) (auto intro: sl)
  have "wp (journal_reset csum e s) any_err (\<lambda>(ret, s'). if f + 1024 > l + 1
      then ret = - EINVAL \<and> same_log s s' \<and> \<not> j_sb_buffer s' else same_log s1 s')"
    unfolding journal_reset_def Let_def f_def [symmetric] l_def [symmetric] s1_def [symmetric]
      wp_simps
    using upd sl [OF fl] by (simp add: case_prod_beta journal_fail_superblock_def same_log_def)
  from wp_InrD [OF this assms] show ?thesis
    using guard s1 same_logD [of s1 s'] by (auto simp: u same_log_def split: if_splits)
qed

theorem journal_reset_wf_witness:
  "\<exists>ret s'. journal_reset (\<lambda>_. 0) 0 init_state = Inr (ret, s') \<and> log_wf s' \<and> log_region s' = []"
proof -
  have "wp (journal_reset (\<lambda>_. 0) 0 init_state) no_err (\<lambda>_. True)"
    by (simp add: journal_reset_def jbd2_vmsep_journal_update_sb_log_tail_def
      jbd2_write_superblock_def write_superblock_io_def jbd2_journal_has_csum_v2or3_def Let_def
      wp_simps ex_defs)
  then obtain ret s' where r: "journal_reset (\<lambda>_. 0) 0 init_state = Inr (ret, s')"
    by (auto simp: wp_returns)
  have g: "\<not> (unat (s_first (j_superblock init_state)) + 1024
      > unat (s_maxlen (j_superblock init_state)) + 1)"
    by (simp add: ex_defs)
  from r journal_reset_wf [OF r, unfolded if_not_P [OF g]] show ?thesis by blast
qed

end
