(* ===== verification/Jbd2_Buffers.thy ===== *)
theory Jbd2_Buffers
  imports Jbd2_Log
begin

text \<open>
  Journal heads and the buffer lists of a transaction: attaching, referencing and releasing the
  journal head of a buffer (\<open>kernel/fs/jbd2/journal.c\<close>), and filing, unfiling and refiling
  buffers (\<open>kernel/fs/jbd2/transaction.c\<close>). The invariant \<open>lists_wf\<close> ties the list a journal
  head says it is on to the lists of its transaction.
\<close>

section \<open>Access to the stores\<close>

abbreviation with_jh :: "jstate \<Rightarrow> bhp \<Rightarrow> (journal_head \<Rightarrow> 'a res) \<Rightarrow> 'a res" where
  "with_jh s b f \<equiv> deref (jhs s b) UAF f"

abbreviation with_tr :: "jstate \<Rightarrow> trp \<Rightarrow> (transaction_t \<Rightarrow> 'a res) \<Rightarrow> 'a res" where
  "with_tr s t f \<equiv> deref (trs s t) UAF f"

section \<open>Journal heads\<close>

definition new_journal_head :: journal_head where
  "new_journal_head = \<lparr>b_jcount = 0, b_jlist = BJ_None, b_modified = False, b_frozen_data = None,
     b_committed_data = None, b_transaction = None, b_next_transaction = None,
     b_cp_transaction = None, b_triggers = None, b_frozen_triggers = None, jh_ino = 0\<rparr>"

definition jbd2_vmsep_journal_add_journal_head :: "jstate \<Rightarrow> bhp \<Rightarrow> jstate res" where
  "jbd2_vmsep_journal_add_journal_head s b =
     (if buffer_jbd s b then Inr (upd_jh b (\<lambda>jh. jh\<lparr>b_jcount := b_jcount jh + 1\<rparr>) s)
      else J_ASSERT (b_count (bhs s b) > 0 \<or> bh_page_mapping (bhs s b))
        (let s = s\<lparr>jhs := (jhs s)(b \<mapsto> new_journal_head)\<rparr>;
             s = upd_bh b (\<lambda>bh. bh\<lparr>b_count := b_count bh + 1\<rparr>) s
         in Inr (upd_jh b (\<lambda>jh. jh\<lparr>b_jcount := b_jcount jh + 1\<rparr>) s)))"

definition jbd2_vmsep_journal_grab_journal_head :: "jstate \<Rightarrow> bhp \<Rightarrow> bool \<times> jstate" where
  "jbd2_vmsep_journal_grab_journal_head s b =
     (if buffer_jbd s b then (True, upd_jh b (\<lambda>jh. jh\<lparr>b_jcount := b_jcount jh + 1\<rparr>) s)
      else (False, s))"

definition journal_remove_journal_head :: "jstate \<Rightarrow> bhp \<Rightarrow> jstate res" where
  "journal_remove_journal_head s b =
     with_jh s b (\<lambda>jh.
       J_ASSERT (b_jcount jh \<ge> 0) (J_ASSERT (b_transaction jh = None)
         (J_ASSERT (b_next_transaction jh = None) (J_ASSERT (b_cp_transaction jh = None)
           (J_ASSERT (b_jlist jh = BJ_None) (Inr (s\<lparr>jhs := (jhs s)(b := None)\<rparr>)))))))"

definition jbd2_vmsep_journal_put_journal_head :: "jstate \<Rightarrow> bhp \<Rightarrow> jstate res" where
  "jbd2_vmsep_journal_put_journal_head s b =
     with_jh s b (\<lambda>jh. J_ASSERT (b_jcount jh > 0)
       (let s = upd_jh b (\<lambda>jh. jh\<lparr>b_jcount := b_jcount jh - 1\<rparr>) s in
        if b_jcount jh - 1 = 0
        then bind_res (journal_remove_journal_head s b) (\<lambda>s.
               Inr (upd_bh b (\<lambda>bh. bh\<lparr>b_count := b_count bh - 1\<rparr>) s))
        else Inr s))"

section \<open>The lists of a transaction\<close>

text \<open>
  \<open>blist_add_buffer\<close> appends at the tail and \<open>blist_del_buffer\<close> unlinks; the pointer code is in the
  theory \<open>Jbd2_Blist\<close>. \<open>upd_list l f\<close> applies \<open>f\<close> to the list of kind \<open>l\<close>.
\<close>

definition blist_add_buffer :: "bhp \<Rightarrow> bhp list \<Rightarrow> bhp list" where
  "blist_add_buffer b xs = xs @ [b]"

definition blist_del_buffer :: "bhp \<Rightarrow> bhp list \<Rightarrow> bhp list" where
  "blist_del_buffer b xs = remove1 b xs"

fun upd_list :: "jlist \<Rightarrow> (bhp list \<Rightarrow> bhp list) \<Rightarrow> transaction_t \<Rightarrow> transaction_t" where
  "upd_list BJ_None f tr = tr"
| "upd_list BJ_Metadata f tr = tr\<lparr>t_buffers := f (t_buffers tr)\<rparr>"
| "upd_list BJ_Forget f tr = tr\<lparr>t_forget := f (t_forget tr)\<rparr>"
| "upd_list BJ_Shadow f tr = tr\<lparr>t_shadow_list := f (t_shadow_list tr)\<rparr>"
| "upd_list BJ_Reserved f tr = tr\<lparr>t_reserved_list := f (t_reserved_list tr)\<rparr>"

definition mark_buffer_dirty :: "bhp \<Rightarrow> jstate \<Rightarrow> jstate" where
  "mark_buffer_dirty b s = upd_bh b (\<lambda>bh. bh\<lparr>bh_dirty := True\<rparr>) s"

text \<open>The end of \<open>__jbd2_journal_temp_unlink_buffer\<close>: what becomes of the journal's dirty bit.\<close>

definition unlink_dirty :: "bhp \<Rightarrow> jstate \<Rightarrow> jstate" where
  "unlink_dirty b s =
     (if is_journal_aborted s then upd_bh b (\<lambda>bh. bh\<lparr>bh_jbddirty := False\<rparr>) s
      else if bh_jbddirty (bhs s b)
      then mark_buffer_dirty b (upd_bh b (\<lambda>bh. bh\<lparr>bh_jbddirty := False\<rparr>) s)
      else s)"

definition temp_unlink_buffer :: "jstate \<Rightarrow> bhp \<Rightarrow> jstate res" where
  "temp_unlink_buffer s b =
     with_jh s b (\<lambda>jh.
       if b_jlist jh = BJ_None then Inr s
       else deref (b_transaction jh) BUG (\<lambda>t. with_tr s t (\<lambda>tr.
         let nr = (if b_jlist jh = BJ_Metadata then t_nr_buffers tr - 1 else t_nr_buffers tr) in
         J_ASSERT (b_jlist jh = BJ_Metadata \<longrightarrow> nr \<ge> 0)
           (let s = upd_tr t (\<lambda>tr. upd_list (b_jlist jh) (blist_del_buffer b) (tr\<lparr>t_nr_buffers := nr\<rparr>)) s;
                s = upd_jh b (\<lambda>jh. jh\<lparr>b_jlist := BJ_None\<rparr>) s
            in Inr (unlink_dirty b s)))))"

definition unfile_buffer :: "jstate \<Rightarrow> bhp \<Rightarrow> jstate res" where
  "unfile_buffer s b =
     bind_res (temp_unlink_buffer s b) (\<lambda>s.
       jbd2_vmsep_journal_put_journal_head (upd_jh b (\<lambda>jh. jh\<lparr>b_transaction := None\<rparr>) s) b)"

text \<open>\<open>jbd2_vmsep_journal_unfile_buffer\<close> holds a reference to the buffer around the call.\<close>

definition jbd2_vmsep_journal_unfile_buffer :: "jstate \<Rightarrow> bhp \<Rightarrow> jstate res" where
  "jbd2_vmsep_journal_unfile_buffer s b =
     bind_res (unfile_buffer (upd_bh b (\<lambda>bh. bh\<lparr>b_count := b_count bh + 1\<rparr>) s) b) (\<lambda>s.
       Inr (upd_bh b (\<lambda>bh. bh\<lparr>b_count := b_count bh - 1\<rparr>) s))"

text \<open>
  The test-and-clear of the dirty bits in \<open>__jbd2_vmsep_journal_file_buffer\<close>: the second one is
  not reached when the first finds its bit set.
\<close>

definition take_dirty :: "bhp \<Rightarrow> jstate \<Rightarrow> bool \<times> jstate" where
  "take_dirty b s =
     (if bh_dirty (bhs s b) then (True, upd_bh b (\<lambda>bh. bh\<lparr>bh_dirty := False\<rparr>) s)
      else if bh_jbddirty (bhs s b) then (True, upd_bh b (\<lambda>bh. bh\<lparr>bh_jbddirty := False\<rparr>) s)
      else (False, s))"

definition file_buffer :: "jstate \<Rightarrow> bhp \<Rightarrow> trp \<Rightarrow> jlist \<Rightarrow> jstate res" where
  "file_buffer s b t l =
     with_jh s b (\<lambda>jh. with_tr s t (\<lambda>_.
       J_ASSERT (b_transaction jh = Some t \<or> b_transaction jh = None)
         (if b_transaction jh \<noteq> None \<and> b_jlist jh = l then Inr s
          else let (was_dirty, s) = (if l \<noteq> BJ_None then take_dirty b s else (False, s)) in
            bind_res (if b_transaction jh \<noteq> None then temp_unlink_buffer s b
                      else Inr (snd (jbd2_vmsep_journal_grab_journal_head s b))) (\<lambda>s.
              let s = upd_jh b (\<lambda>jh. jh\<lparr>b_transaction := Some t\<rparr>) s in
              if l = BJ_None
              then J_ASSERT (b_committed_data jh = None) (J_ASSERT (b_frozen_data jh = None) (Inr s))
              else let s = upd_tr t (\<lambda>tr. upd_list l (blist_add_buffer b)
                         (if l = BJ_Metadata then tr\<lparr>t_nr_buffers := t_nr_buffers tr + 1\<rparr> else tr)) s;
                       s = upd_jh b (\<lambda>jh. jh\<lparr>b_jlist := l\<rparr>) s
                   in Inr (if was_dirty then upd_bh b (\<lambda>bh. bh\<lparr>bh_jbddirty := True\<rparr>) s else s)))))"

definition refile_buffer :: "jstate \<Rightarrow> bhp \<Rightarrow> jstate res" where
  "refile_buffer s b =
     with_jh s b (\<lambda>jh.
       case b_next_transaction jh of
         None \<Rightarrow> unfile_buffer s b
       | Some t \<Rightarrow>
           let was_dirty = bh_jbddirty (bhs s b);
               s = upd_bh b (\<lambda>bh. bh\<lparr>bh_jbddirty := False\<rparr>) s
           in bind_res (temp_unlink_buffer s b) (\<lambda>s.
             let s = upd_jh b (\<lambda>jh. jh\<lparr>b_transaction := Some t, b_next_transaction := None\<rparr>) s;
                 l = (if bh_freed (bhs s b) then BJ_Forget
                      else if b_modified jh then BJ_Metadata else BJ_Reserved)
             in bind_res (file_buffer s b t l) (\<lambda>s. with_tr s t (\<lambda>tr.
                  J_ASSERT (t_state tr = T_RUNNING)
                    (Inr (if was_dirty then upd_bh b (\<lambda>bh. bh\<lparr>bh_jbddirty := True\<rparr>) s else s))))))"

definition jbd2_vmsep_journal_refile_buffer :: "jstate \<Rightarrow> bhp \<Rightarrow> jstate res" where
  "jbd2_vmsep_journal_refile_buffer s b =
     bind_res (refile_buffer (upd_bh b (\<lambda>bh. bh\<lparr>b_count := b_count bh + 1\<rparr>) s) b) (\<lambda>s.
       Inr (upd_bh b (\<lambda>bh. bh\<lparr>b_count := b_count bh - 1\<rparr>) s))"

end
