(* ===== verification/Jbd2_Checkpoint.thy ===== *)
theory Jbd2_Checkpoint
  imports Jbd2_Buffers
begin

text \<open>
  Checkpointing, \<open>kernel/fs/jbd2/checkpoint.c\<close>: the checkpoint lists of a transaction, dropping a
  transaction whose buffers are all written back, cleaning the lists, the checkpoint itself, and
  waiting for space in the log; and waiting for a commit (\<open>kernel/fs/jbd2/journal.c\<close>). A
  parameter \<open>K\<close> is what other threads (the commit thread, holders of handles) do to the state
  while a thread waits.
  The loops that wait may not end and are partial functions.
\<close>

section \<open>Waiting for a commit\<close>

text \<open>\<open>wait_until K P\<close> is \<open>wait_event\<close> on the condition \<open>P\<close>: other threads run until it holds.\<close>

partial_function (option) wait_until ::
    "(jstate \<Rightarrow> jstate res) \<Rightarrow> (jstate \<Rightarrow> bool) \<Rightarrow> jstate \<Rightarrow> jstate res option" where
  "wait_until K P s =
     (if P s then Some (Inr s)
      else case K s of Inl e \<Rightarrow> Some (Inl e) | Inr s \<Rightarrow> wait_until K P s)"

definition jbd2_vmsep_log_wait_commit ::
    "(jstate \<Rightarrow> jstate res) \<Rightarrow> jstate \<Rightarrow> tid_t \<Rightarrow> (int \<times> jstate) res option" where
  "jbd2_vmsep_log_wait_commit K s tid =
     bind_ro (wait_until K (\<lambda>s. \<not> tid_gt tid (j_commit_sequence s)) s) (\<lambda>s.
       Some (Inr (if is_journal_aborted s then - EIO else 0, s)))"

text \<open>\<open>tid_is s p tid\<close>: the transaction pointer \<open>p\<close> is not null and has this identifier.\<close>

definition tid_is :: "jstate \<Rightarrow> trp option \<Rightarrow> tid_t \<Rightarrow> bool res" where
  "tid_is s p tid =
     (case p of None \<Rightarrow> Inr False | Some t \<Rightarrow> with_tr s t (\<lambda>tr. Inr (t_tid tr = tid)))"

definition jbd2_vmsep_complete_transaction ::
    "(jstate \<Rightarrow> jstate res) \<Rightarrow> jstate \<Rightarrow> tid_t \<Rightarrow> ulong \<Rightarrow> (int \<times> jstate) res option" where
  "jbd2_vmsep_complete_transaction K s tid ino =
     bind_ro (Some (tid_is s (j_running_transaction s) tid)) (\<lambda>running.
       if running
       then if j_commit_request s \<noteq> tid
            then bind_ro (Some (jbd2_vmsep_log_start_commit s tid ino)) (\<lambda>(_, s).
              jbd2_vmsep_log_wait_commit K s tid)
            else jbd2_vmsep_log_wait_commit K s tid
       else bind_ro (Some (tid_is s (j_committing_transaction s) tid)) (\<lambda>committing.
         if \<not> committing then Some (Inr (0, s)) else jbd2_vmsep_log_wait_commit K s tid))"

section \<open>Checkpoint lists\<close>

definition jbd2_time_diff :: "ulong \<Rightarrow> ulong \<Rightarrow> ulong" where
  "jbd2_time_diff start end_time =
     (if end_time \<ge> start then end_time - start else end_time + (0x3ffffffffffffffe - start))"

definition buffer_unlink :: "bhp \<Rightarrow> transaction_t \<Rightarrow> transaction_t" where
  "buffer_unlink b tr = tr\<lparr>t_checkpoint_list := remove1 b (t_checkpoint_list tr),
     t_checkpoint_io_list := remove1 b (t_checkpoint_io_list tr)\<rparr>"

definition buffer_relink_io :: "bhp \<Rightarrow> transaction_t \<Rightarrow> transaction_t" where
  "buffer_relink_io b tr = tr\<lparr>t_checkpoint_list := remove1 b (t_checkpoint_list tr),
     t_checkpoint_io_list := b # t_checkpoint_io_list tr\<rparr>"

definition jbd2_vmsep_journal_free_transaction :: "jstate \<Rightarrow> trp \<Rightarrow> jstate" where
  "jbd2_vmsep_journal_free_transaction s t = s\<lparr>trs := (trs s)(t := None)\<rparr>"

definition drop_transaction :: "jstate \<Rightarrow> trp \<Rightarrow> jstate res" where
  "drop_transaction s t =
     with_tr s t (\<lambda>tr.
       let s = s\<lparr>j_checkpoint_transactions := remove1 t (j_checkpoint_transactions s)\<rparr> in
       J_ASSERT (t_state tr = T_FINISHED) (J_ASSERT (t_buffers tr = [])
         (J_ASSERT (t_forget tr = []) (J_ASSERT (t_shadow_list tr = [])
           (J_ASSERT (t_checkpoint_list tr = []) (J_ASSERT (t_checkpoint_io_list tr = [])
             (J_ASSERT (t_updates tr = 0) (J_ASSERT (j_committing_transaction s \<noteq> Some t)
               (J_ASSERT (j_running_transaction s \<noteq> Some t) (Inr s))))))))))"

definition remove_checkpoint :: "jstate \<Rightarrow> bhp \<Rightarrow> (bool \<times> jstate) res" where
  "remove_checkpoint s b =
     with_jh s b (\<lambda>jh.
       case b_cp_transaction jh of
         None \<Rightarrow> Inr (False, s)
       | Some t \<Rightarrow> with_tr s t (\<lambda>_.
           let s = upd_jh b (\<lambda>jh. jh\<lparr>b_cp_transaction := None\<rparr>) (upd_tr t (buffer_unlink b) s) in
           bind_res (jbd2_vmsep_journal_put_journal_head s b) (\<lambda>s. with_tr s t (\<lambda>tr.
             if t_checkpoint_list tr \<noteq> [] \<or> t_checkpoint_io_list tr \<noteq> [] then Inr (False, s)
             else if t_state tr \<noteq> T_FINISHED then Inr (False, s)
             else let s = (if cs_chp_time tr \<noteq> 0
                           then upd_tr t (\<lambda>tr. tr\<lparr>cs_chp_time := jbd2_time_diff (cs_chp_time tr) (jiffies s)\<rparr>) s
                           else s)
                  in bind_res (drop_transaction s t) (\<lambda>s.
                       Inr (True, jbd2_vmsep_journal_free_transaction s t))))))"

definition insert_checkpoint :: "jstate \<Rightarrow> bhp \<Rightarrow> trp \<Rightarrow> jstate res" where
  "insert_checkpoint s b t =
     with_jh s b (\<lambda>jh.
       J_ASSERT (bh_dirty (bhs s b) \<or> bh_jbddirty (bhs s b)) (J_ASSERT (b_cp_transaction jh = None)
         (with_tr s t (\<lambda>_.
           let s = snd (jbd2_vmsep_journal_grab_journal_head s b);
               s = upd_jh b (\<lambda>jh. jh\<lparr>b_cp_transaction := Some t\<rparr>) s
           in Inr (upd_tr t (\<lambda>tr. tr\<lparr>t_checkpoint_list := b # t_checkpoint_list tr\<rparr>) s)))))"

section \<open>Cleaning the lists\<close>

text \<open>The result is 0 (not released), 1 (released) or 2 (its transaction released too).\<close>

definition try_to_free_cp_buf :: "jstate \<Rightarrow> bhp \<Rightarrow> (nat \<times> jstate) res" where
  "try_to_free_cp_buf s b =
     with_jh s b (\<lambda>jh.
       if b_transaction jh = None \<and> \<not> bh_locked (bhs s b) \<and> \<not> bh_dirty (bhs s b) \<and>
          \<not> bh_write_io_error (bhs s b)
       then bind_res (remove_checkpoint s b) (\<lambda>(freed, s). Inr (if freed then 2 else 1, s))
       else Inr (0, s))"

fun clean_one_cp_list :: "env \<Rightarrow> bool \<Rightarrow> jstate \<Rightarrow> bhp list \<Rightarrow> (bool \<times> jstate) res" where
  "clean_one_cp_list E destroy s [] = Inr (False, s)"
| "clean_one_cp_list E destroy s (b # bs) =
     bind_res (if \<not> destroy then try_to_free_cp_buf s b
               else bind_res (remove_checkpoint s b) (\<lambda>(freed, s). Inr (if freed then 2 else 1, s)))
       (\<lambda>(ret, s).
         if ret = 0 then Inr (False, s)
         else if ret = 2 then Inr (True, s)
         else if resched_bh E b then Inr (False, s)
         else clean_one_cp_list E destroy s bs)"

fun clean_transactions :: "env \<Rightarrow> bool \<Rightarrow> jstate \<Rightarrow> trp list \<Rightarrow> jstate res" where
  "clean_transactions E destroy s [] = Inr s"
| "clean_transactions E destroy s (t # ts) =
     with_tr s t (\<lambda>tr. bind_res (clean_one_cp_list E destroy s (t_checkpoint_list tr)) (\<lambda>(ret, s).
       if resched_tr E t False then Inr s
       else if ret then clean_transactions E destroy s ts
       else with_tr s t (\<lambda>tr.
         bind_res (clean_one_cp_list E destroy s (t_checkpoint_io_list tr)) (\<lambda>(ret, s).
           if resched_tr E t True then Inr s
           else if \<not> ret then Inr s
           else clean_transactions E destroy s ts))))"

definition clean_checkpoint_list :: "env \<Rightarrow> jstate \<Rightarrow> bool \<Rightarrow> jstate res" where
  "clean_checkpoint_list E s destroy = clean_transactions E destroy s (j_checkpoint_transactions s)"

partial_function (option) jbd2_vmsep_journal_destroy_checkpoint ::
    "env \<Rightarrow> jstate \<Rightarrow> jstate res option" where
  "jbd2_vmsep_journal_destroy_checkpoint E s =
     (if j_checkpoint_transactions s = [] then Some (Inr s)
      else case clean_checkpoint_list E s True of
        Inl e \<Rightarrow> Some (Inl e)
      | Inr s \<Rightarrow> jbd2_vmsep_journal_destroy_checkpoint E s)"

section \<open>Writing back buffers\<close>

text \<open>
  \<open>write_dirty_buffer\<close> submits a dirty buffer, which is locked until the write is over, and
  \<open>wait_on_buffer\<close> waits for that; the outcome of the write is \<open>write_error E\<close>.
\<close>

definition write_dirty_buffer :: "bhp \<Rightarrow> jstate \<Rightarrow> jstate" where
  "write_dirty_buffer b s =
     (if bh_dirty (bhs s b) then upd_bh b (\<lambda>bh. bh\<lparr>bh_dirty := False, bh_locked := True\<rparr>) s else s)"

definition wait_on_buffer :: "env \<Rightarrow> bhp \<Rightarrow> jstate \<Rightarrow> jstate" where
  "wait_on_buffer E b s =
     (if bh_locked (bhs s b)
      then upd_bh b (\<lambda>bh. bh\<lparr>bh_locked := False,
             bh_write_io_error := (write_error E b \<or> bh_write_io_error bh)\<rparr>) s
      else s)"

definition get_bh :: "bhp \<Rightarrow> jstate \<Rightarrow> jstate" where
  "get_bh b s = upd_bh b (\<lambda>bh. bh\<lparr>b_count := b_count bh + 1\<rparr>) s"

definition brelse :: "bhp \<Rightarrow> jstate \<Rightarrow> jstate" where
  "brelse b s = upd_bh b (\<lambda>bh. bh\<lparr>b_count := b_count bh - 1\<rparr>) s"

definition flush_batch :: "bhp list \<Rightarrow> jstate \<Rightarrow> jstate" where
  "flush_batch batch s = fold brelse batch (fold write_dirty_buffer batch s)"

section \<open>The checkpoint of one transaction\<close>

abbreviation JBD2_NR_BATCH :: nat where "JBD2_NR_BATCH \<equiv> 64"

text \<open>
  The local state of \<open>jbd2_vmsep_log_do_checkpoint\<close>: the journal, the batch of buffers to flush and
  the result. One step of its first loop goes round again, to the label \<open>retry\<close> (flush, then
  check that the transaction is still the first one), to the second loop, or out.
\<close>

record checkpointer =
  ck_state :: jstate
  ck_batch :: "bhp list"
  ck_result :: int

datatype ck_next = Ck_again checkpointer | Ck_retry checkpointer | Ck_io checkpointer
  | Ck_out checkpointer

definition ck_io_error :: "bhp \<Rightarrow> checkpointer \<Rightarrow> checkpointer" where
  "ck_io_error b c =
     (if bh_write_io_error (bhs (ck_state c) b) \<and> ck_result c = 0 then c\<lparr>ck_result := - EIO\<rparr> else c)"

definition ck_step ::
    "env \<Rightarrow> (jstate \<Rightarrow> jstate res) \<Rightarrow> trp \<Rightarrow> checkpointer \<Rightarrow> ck_next res option" where
  "ck_step E K t c =
     (let s = ck_state c in
      bind_ro (Some (with_tr s t (\<lambda>tr. Inr (t_checkpoint_list tr)))) (\<lambda>list.
        case list of
          [] \<Rightarrow> Some (Inr (if ck_batch c \<noteq> [] then Ck_retry c else Ck_io c))
        | b # _ \<Rightarrow>
            bind_ro (Some (with_jh s b (\<lambda>jh. Inr jh))) (\<lambda>jh.
              if bh_locked (bhs s b)
              then Some (Inr (Ck_retry (c\<lparr>ck_state := brelse b (wait_on_buffer E b (get_bh b s))\<rparr>)))
              else case b_transaction jh of
                Some t2 \<Rightarrow>
                  bind_ro (Some (with_tr s t2 (\<lambda>tr2. Inr (t_tid tr2)))) (\<lambda>tid.
                    let s = upd_tr t (\<lambda>tr. tr\<lparr>cs_forced_to_close := cs_forced_to_close tr + 1\<rparr>) s in
                    bind_ro (Some (jbd2_vmsep_log_start_commit s tid 0)) (\<lambda>(_, s).
                      bind_ro (jbd2_vmsep_log_wait_commit K s tid) (\<lambda>(_, s).
                        Some (Inr (Ck_retry (c\<lparr>ck_state := s\<rparr>))))))
              | None \<Rightarrow>
                  if \<not> bh_dirty (bhs s b)
                  then let c = ck_io_error b c in
                       bind_ro (Some (remove_checkpoint s b)) (\<lambda>(freed, s).
                         let c = c\<lparr>ck_state := s\<rparr> in
                         Some (Inr (if freed then Ck_out c else Ck_again c)))
                  else Some (J_ASSERT (\<not> bh_jwrite (bhs s b))
                    (let s = get_bh b s;
                         s = upd_tr t (\<lambda>tr. (buffer_relink_io b tr)\<lparr>cs_written := cs_written tr + 1\<rparr>) s;
                         c = c\<lparr>ck_state := s, ck_batch := ck_batch c @ [b]\<rparr>
                     in Inr (if length (ck_batch c) = JBD2_NR_BATCH \<or> resched_bh E b
                             then Ck_retry c else Ck_again c))))))"

text \<open>The check at the labels \<open>restart\<close> and \<open>restart2\<close>: is the transaction still the first one?\<close>

definition ck_current :: "trp \<Rightarrow> tid_t \<Rightarrow> jstate \<Rightarrow> bool res" where
  "ck_current t tid s =
     (case j_checkpoint_transactions s of
        [] \<Rightarrow> Inr False
      | t' # _ \<Rightarrow> if t' \<noteq> t then Inr False else with_tr s t (\<lambda>tr. Inr (t_tid tr = tid)))"

definition ck_flush :: "checkpointer \<Rightarrow> checkpointer" where
  "ck_flush c = c\<lparr>ck_state := flush_batch (ck_batch c) (ck_state c), ck_batch := []\<rparr>"

partial_function (option) ck_loop ::
    "env \<Rightarrow> (jstate \<Rightarrow> jstate res) \<Rightarrow> trp \<Rightarrow> tid_t \<Rightarrow> checkpointer \<Rightarrow> (bool \<times> checkpointer) res option" where
  "ck_loop E K t tid c =
     (case ck_step E K t c of
        None \<Rightarrow> None
      | Some (Inl e) \<Rightarrow> Some (Inl e)
      | Some (Inr (Ck_again c)) \<Rightarrow> ck_loop E K t tid c
      | Some (Inr (Ck_out c)) \<Rightarrow> Some (Inr (False, c))
      | Some (Inr (Ck_io c)) \<Rightarrow> Some (Inr (True, c))
      | Some (Inr (Ck_retry c)) \<Rightarrow>
          (case ck_current t tid (ck_state (ck_flush c)) of
             Inl e \<Rightarrow> Some (Inl e)
           | Inr current \<Rightarrow> if current then ck_loop E K t tid (ck_flush c)
                            else Some (Inr (False, ck_flush c))))"

text \<open>The second loop, over the buffers out for I/O; \<open>recheck\<close> is set at the label \<open>restart2\<close>.\<close>

partial_function (option) ck_io_loop ::
    "env \<Rightarrow> trp \<Rightarrow> tid_t \<Rightarrow> bool \<Rightarrow> checkpointer \<Rightarrow> checkpointer res option" where
  "ck_io_loop E t tid recheck c =
     (case (if recheck then ck_current t tid (ck_state c) else Inr True) of
        Inl e \<Rightarrow> Some (Inl e)
      | Inr current \<Rightarrow>
          if \<not> current then Some (Inr c)
          else
          (case trs (ck_state c) t of
             None \<Rightarrow> Some (Inl UAF)
           | Some tr \<Rightarrow>
               (case t_checkpoint_io_list tr of
                  [] \<Rightarrow> Some (Inr c)
                | b # _ \<Rightarrow>
                    if bh_locked (bhs (ck_state c) b)
                    then ck_io_loop E t tid True
                           (c\<lparr>ck_state := brelse b (wait_on_buffer E b (get_bh b (ck_state c)))\<rparr>)
                    else (case remove_checkpoint (ck_state c) b of
                            Inl e \<Rightarrow> Some (Inl e)
                          | Inr (freed, s) \<Rightarrow>
                              if freed then Some (Inr ((ck_io_error b c)\<lparr>ck_state := s\<rparr>))
                              else ck_io_loop E t tid False ((ck_io_error b c)\<lparr>ck_state := s\<rparr>)))))"

definition ck_finish :: "env \<Rightarrow> checkpointer \<Rightarrow> (int \<times> jstate) res" where
  "ck_finish E c =
     (if ck_result c < 0
      then bind_res (jbd2_vmsep_journal_abort (sb_csum E) (ck_state c) (ck_result c)) (\<lambda>s.
             Inr (ck_result c, s))
      else bind_res (jbd2_vmsep_cleanup_journal_tail (sb_csum E) (ck_state c)) (\<lambda>(result, s).
             Inr (if result < 0 then result else 0, s)))"

definition jbd2_vmsep_log_do_checkpoint ::
    "env \<Rightarrow> (jstate \<Rightarrow> jstate res) \<Rightarrow> jstate \<Rightarrow> (int \<times> jstate) res option" where
  "jbd2_vmsep_log_do_checkpoint E K s =
     bind_ro (Some (jbd2_vmsep_cleanup_journal_tail (sb_csum E) s)) (\<lambda>(result, s).
       if result \<le> 0 then Some (Inr (result, s))
       else case j_checkpoint_transactions s of
         [] \<Rightarrow> Some (ck_finish E \<lparr>ck_state = s, ck_batch = [], ck_result = 0\<rparr>)
       | t # _ \<Rightarrow>
           bind_ro (Some (with_tr s t (\<lambda>tr. Inr (t_tid tr)))) (\<lambda>tid.
             let s = upd_tr t (\<lambda>tr. if cs_chp_time tr = 0 then tr\<lparr>cs_chp_time := jiffies s\<rparr> else tr) s in
             bind_ro (ck_loop E K t tid \<lparr>ck_state = s, ck_batch = [], ck_result = 0\<rparr>) (\<lambda>(io, c).
               if io then bind_ro (ck_io_loop E t tid True c) (\<lambda>c. Some (ck_finish E c))
               else Some (ck_finish E c))))"

section \<open>Waiting for space in the log\<close>

text \<open>
  The comparison \<open>jbd2_log_space_left(journal) < nblocks\<close> is one of unsigned longs; the one
  inside the loop is of ints, to which the space left is truncated.
\<close>

definition space_step ::
    "env \<Rightarrow> (jstate \<Rightarrow> jstate res) \<Rightarrow> jstate \<Rightarrow> (bool \<times> jstate) res option" where
  "space_step E K s =
     (if JBD2_ABORT \<in> j_flags s then Some (Inr (False, s))
      else bind_ro (Some (jbd2_log_space_left s)) (\<lambda>left.
        if sint (ucast left :: u32) < jbd2_space_needed s
        then bind_ro (Some (case j_committing_transaction s of
               None \<Rightarrow> Inr 0 | Some t \<Rightarrow> with_tr s t (\<lambda>tr. Inr (t_tid tr)))) (\<lambda>tid.
             if j_checkpoint_transactions s \<noteq> []
             then bind_ro (jbd2_vmsep_log_do_checkpoint E K s) (\<lambda>(_, s). Some (Inr (True, s)))
             else bind_ro (Some (jbd2_vmsep_cleanup_journal_tail (sb_csum E) s)) (\<lambda>(ret, s).
               if ret = 0 then Some (Inr (True, s))
               else if tid \<noteq> 0
               then bind_ro (jbd2_vmsep_log_wait_commit K s tid) (\<lambda>(_, s). Some (Inr (True, s)))
               else bind_ro (Some (jbd2_vmsep_journal_abort (sb_csum E) s 0)) (\<lambda>s.
                 Some (Inr (True, s)))))
        else Some (Inr (True, s))))"

partial_function (option) log_wait_for_space ::
    "env \<Rightarrow> (jstate \<Rightarrow> jstate res) \<Rightarrow> jstate \<Rightarrow> jstate res option" where
  "log_wait_for_space E K s =
     (case jbd2_log_space_left s of
        Inl e \<Rightarrow> Some (Inl e)
      | Inr left \<Rightarrow>
          if left < word_of_int (jbd2_space_needed s)
          then (case space_step E K s of
                  None \<Rightarrow> None
                | Some (Inl e) \<Rightarrow> Some (Inl e)
                | Some (Inr (again, s)) \<Rightarrow> if again then log_wait_for_space E K s else Some (Inr s))
          else Some (Inr s))"

end
