(* ===== verification/Jbd2_Revoke.thy ===== *)
theory Jbd2_Revoke
  imports Jbd2_Log
begin

text \<open>
  The revoke tables of \<open>kernel/fs/jbd2/revoke.c\<close>: the hash of \<open>include/linux/hash.h\<close>, the
  hash table of revoke records with its operations, the two tables of a journal, cancelling a
  revoke, and writing the revoke records of a committing transaction to the log. The table
  refines a map from blocks to transaction identifiers; the locale \<open>revoke_map\<close> states what
  recovery relies on.
\<close>

unbundle bit_operations_syntax

section \<open>The hash\<close>

abbreviation GOLDEN_RATIO_64 :: u64 where "GOLDEN_RATIO_64 \<equiv> 0x61C8864680B583EB"

definition hash_64 :: "u64 \<Rightarrow> nat \<Rightarrow> u32" where
  "hash_64 val bits = ucast (drop_bit (64 - bits) (val * GOLDEN_RATIO_64))"

definition hash :: "revoke_table \<Rightarrow> u64 \<Rightarrow> nat" where
  "hash t block = unat (hash_64 block (hash_shift t))"

section \<open>One table\<close>

text \<open>The parameter \<open>mem\<close> says whether the allocation of a record succeeds.\<close>

definition insert_revoke_hash ::
    "bool \<Rightarrow> revoke_table \<Rightarrow> u64 \<Rightarrow> tid_t \<Rightarrow> int \<times> revoke_table" where
  "insert_revoke_hash mem t blocknr seqn =
     (if \<not> mem then (- ENOMEM, t)
      else let i = hash t blocknr;
               rec = \<lparr>rr_sequence = seqn, rr_blocknr = blocknr\<rparr>
           in (0, t\<lparr>hash_table := (hash_table t)[i := rec # hash_table t ! i]\<rparr>))"

fun find_in_bucket :: "u64 \<Rightarrow> revoke_record list \<Rightarrow> revoke_record option" where
  "find_in_bucket blocknr [] = None"
| "find_in_bucket blocknr (r # rs) =
     (if rr_blocknr r = blocknr then Some r else find_in_bucket blocknr rs)"

definition find_revoke_record :: "revoke_table \<Rightarrow> u64 \<Rightarrow> revoke_record option" where
  "find_revoke_record t blocknr = find_in_bucket blocknr (hash_table t ! hash t blocknr)"

text \<open>
  A record found is a pointer into its bucket: \<open>upd_found\<close> assigns through it and \<open>del_found\<close>
  is \<open>list_del\<close> of it.
\<close>

fun upd_found :: "u64 \<Rightarrow> (revoke_record \<Rightarrow> revoke_record) \<Rightarrow> revoke_record list \<Rightarrow> revoke_record list" where
  "upd_found blocknr f [] = []"
| "upd_found blocknr f (r # rs) =
     (if rr_blocknr r = blocknr then f r # rs else r # upd_found blocknr f rs)"

fun del_found :: "u64 \<Rightarrow> revoke_record list \<Rightarrow> revoke_record list" where
  "del_found blocknr [] = []"
| "del_found blocknr (r # rs) =
     (if rr_blocknr r = blocknr then rs else r # del_found blocknr rs)"

definition upd_bucket ::
    "revoke_table \<Rightarrow> u64 \<Rightarrow> (revoke_record list \<Rightarrow> revoke_record list) \<Rightarrow> revoke_table" where
  "upd_bucket t blocknr f =
     (let i = hash t blocknr in t\<lparr>hash_table := (hash_table t)[i := f (hash_table t ! i)]\<rparr>)"

definition set_revoke_tbl ::
    "bool \<Rightarrow> revoke_table \<Rightarrow> u64 \<Rightarrow> tid_t \<Rightarrow> int \<times> revoke_table" where
  "set_revoke_tbl mem t blocknr seqn =
     (case find_revoke_record t blocknr of
        Some r \<Rightarrow>
          (0, if tid_gt seqn (rr_sequence r)
              then upd_bucket t blocknr (upd_found blocknr (\<lambda>r. r\<lparr>rr_sequence := seqn\<rparr>))
              else t)
      | None \<Rightarrow> insert_revoke_hash mem t blocknr seqn)"

definition test_revoke_tbl :: "revoke_table \<Rightarrow> u64 \<Rightarrow> tid_t \<Rightarrow> bool" where
  "test_revoke_tbl t blocknr seqn =
     (case find_revoke_record t blocknr of
        None \<Rightarrow> False
      | Some r \<Rightarrow> if tid_gt seqn (rr_sequence r) then False else True)"

definition clear_revoke_tbl :: "revoke_table \<Rightarrow> revoke_table" where
  "clear_revoke_tbl t = t\<lparr>hash_table := map (\<lambda>_. []) (hash_table t)\<rparr>"

section \<open>Making and destroying tables\<close>

fun shift_loop :: "nat \<Rightarrow> nat \<Rightarrow> nat" where
  "shift_loop tmp shift =
     (if tmp div 2 \<noteq> 0 then shift_loop (tmp div 2) (shift + 1) else shift)"

declare shift_loop.simps [simp del]

definition is_power_of_2 :: "nat \<Rightarrow> bool" where
  "is_power_of_2 n = (n \<noteq> 0 \<and> n AND (n - 1) = 0)"

text \<open>\<open>mem\<close> and \<open>mem'\<close> are the outcomes of the two allocations.\<close>

definition jbd2_journal_init_revoke_table :: "bool \<Rightarrow> bool \<Rightarrow> nat \<Rightarrow> revoke_table option" where
  "jbd2_journal_init_revoke_table mem mem' sz =
     (if \<not> mem then None
      else let shift = shift_loop sz 0 in
        if \<not> mem' then None
        else Some \<lparr>hash_size = sz, hash_shift = shift, hash_table = replicate sz []\<rparr>)"

definition jbd2_journal_destroy_revoke_table :: "revoke_table \<Rightarrow> unit res" where
  "jbd2_journal_destroy_revoke_table t =
     J_ASSERT (\<forall>i < hash_size t. hash_table t ! i = []) (Inr ())"

section \<open>The two tables of a journal\<close>

definition revoke_table_of :: "jstate \<Rightarrow> bool \<Rightarrow> revoke_table option" where
  "revoke_table_of s i = (if i then j_revoke_table1 s else j_revoke_table0 s)"

definition set_revoke_table_of :: "jstate \<Rightarrow> bool \<Rightarrow> revoke_table option \<Rightarrow> jstate" where
  "set_revoke_table_of s i t =
     (if i then s\<lparr>j_revoke_table1 := t\<rparr> else s\<lparr>j_revoke_table0 := t\<rparr>)"

text \<open>Apply an operation of one table to the table \<open>j_revoke\<close> points at.\<close>

definition with_revoke ::
    "jstate \<Rightarrow> (revoke_table \<Rightarrow> 'a \<times> revoke_table) \<Rightarrow> ('a \<times> jstate) res" where
  "with_revoke s f =
     deref (j_revoke s) OOPS (\<lambda>i. deref (revoke_table_of s i) OOPS (\<lambda>t.
       let (r, t') = f t in Inr (r, set_revoke_table_of s i (Some t'))))"

definition jbd2_vmsep_journal_set_revoke ::
    "bool \<Rightarrow> jstate \<Rightarrow> u64 \<Rightarrow> tid_t \<Rightarrow> (int \<times> jstate) res" where
  "jbd2_vmsep_journal_set_revoke mem s blocknr seqn =
     with_revoke s (\<lambda>t. set_revoke_tbl mem t blocknr seqn)"

definition jbd2_vmsep_journal_test_revoke :: "jstate \<Rightarrow> u64 \<Rightarrow> tid_t \<Rightarrow> bool res" where
  "jbd2_vmsep_journal_test_revoke s blocknr seqn =
     deref (j_revoke s) OOPS (\<lambda>i. deref (revoke_table_of s i) OOPS (\<lambda>t.
       Inr (test_revoke_tbl t blocknr seqn)))"

definition jbd2_vmsep_journal_clear_revoke :: "jstate \<Rightarrow> jstate res" where
  "jbd2_vmsep_journal_clear_revoke s =
     bind_res (with_revoke s (\<lambda>t. ((), clear_revoke_tbl t))) (\<lambda>(_, s). Inr s)"

text \<open>\<open>mem\<close> gives the outcomes of the allocations of each of the two tables.\<close>

definition jbd2_vmsep_journal_init_revoke ::
    "(bool \<Rightarrow> bool \<times> bool) \<Rightarrow> jstate \<Rightarrow> nat \<Rightarrow> (int \<times> jstate) res" where
  "jbd2_vmsep_journal_init_revoke mem s sz =
     J_ASSERT (j_revoke_table0 s = None) (J_ASSERT (is_power_of_2 sz)
       (let s = s\<lparr>j_revoke_table0 :=
              jbd2_journal_init_revoke_table (fst (mem False)) (snd (mem False)) sz\<rparr>
        in case j_revoke_table0 s of
          None \<Rightarrow> Inr (- ENOMEM, s)
        | Some t0 \<Rightarrow>
            let s = s\<lparr>j_revoke_table1 :=
                  jbd2_journal_init_revoke_table (fst (mem True)) (snd (mem True)) sz\<rparr>
            in case j_revoke_table1 s of
              None \<Rightarrow> bind_res (jbd2_journal_destroy_revoke_table t0) (\<lambda>_.
                Inr (- ENOMEM, s\<lparr>j_revoke_table0 := None\<rparr>))
            | Some t1 \<Rightarrow> Inr (0, s\<lparr>j_revoke := Some True\<rparr>)))"

definition jbd2_vmsep_journal_destroy_revoke :: "jstate \<Rightarrow> jstate res" where
  "jbd2_vmsep_journal_destroy_revoke s =
     (let s = s\<lparr>j_revoke := None\<rparr>;
          destroy = (\<lambda>t. case t of None \<Rightarrow> Inr ()
                               | Some t \<Rightarrow> jbd2_journal_destroy_revoke_table t)
      in bind_res (destroy (j_revoke_table0 s)) (\<lambda>_.
           bind_res (destroy (j_revoke_table1 s)) (\<lambda>_. Inr s)))"

definition jbd2_vmsep_journal_switch_revoke_table :: "jstate \<Rightarrow> jstate res" where
  "jbd2_vmsep_journal_switch_revoke_table s =
     (let s = s\<lparr>j_revoke := Some (j_revoke s = Some False)\<rparr>
      in bind_res (with_revoke s (\<lambda>t. ((), clear_revoke_tbl t))) (\<lambda>(_, s). Inr s))"

definition test_set_buffer_revokevalid :: "bhp \<Rightarrow> jstate \<Rightarrow> bool \<times> jstate" where
  "test_set_buffer_revokevalid b s =
     (bh_revokevalid (bhs s b), upd_bh b (\<lambda>x. x\<lparr>bh_revokevalid := True\<rparr>) s)"

definition clear_buffer_revoked :: "bhp \<Rightarrow> jstate \<Rightarrow> jstate" where
  "clear_buffer_revoked b s = upd_bh b (\<lambda>x. x\<lparr>bh_revoked := False\<rparr>) s"

definition cancel_in_table :: "u64 \<Rightarrow> revoke_table \<Rightarrow> bool \<times> revoke_table" where
  "cancel_in_table blocknr t =
     (case find_revoke_record t blocknr of
        None \<Rightarrow> (False, t)
      | Some r \<Rightarrow> (True, upd_bucket t blocknr (del_found blocknr)))"

definition jbd2_vmsep_journal_cancel_revoke :: "env \<Rightarrow> jstate \<Rightarrow> bhp \<Rightarrow> (bool \<times> jstate) res" where
  "jbd2_vmsep_journal_cancel_revoke E s b =
     (let (valid, s) = test_set_buffer_revokevalid b s;
          need_cancel = (if valid then bh_revoked (bhs s b) else True);
          s = clear_buffer_revoked b s;
          blocknr = b_blocknr (bhs s b)
      in if \<not> need_cancel then Inr (False, s)
         else bind_res (with_revoke s (cancel_in_table blocknr)) (\<lambda>(did_revoke, s).
           case find_get_block E blocknr of
             None \<Rightarrow> Inr (did_revoke, s)
           | Some b2 \<Rightarrow> Inr (did_revoke, if b2 \<noteq> b then clear_buffer_revoked b2 s else s)))"

definition clear_revoked_of_record :: "env \<Rightarrow> revoke_record \<Rightarrow> jstate \<Rightarrow> jstate" where
  "clear_revoked_of_record E r s =
     (case find_get_block E (rr_blocknr r) of
        None \<Rightarrow> s
      | Some b \<Rightarrow> clear_buffer_revoked b s)"

definition jbd2_vmsep_clear_buffer_revoked_flags :: "env \<Rightarrow> jstate \<Rightarrow> jstate res" where
  "jbd2_vmsep_clear_buffer_revoked_flags E s =
     deref (j_revoke s) OOPS (\<lambda>i. deref (revoke_table_of s i) OOPS (\<lambda>t.
       Inr (fold (clear_revoked_of_record E) (concat (hash_table t)) s)))"

section \<open>Descriptor blocks\<close>

text \<open>
  A descriptor buffer is its block number in the log and its data. \<open>log_bufs\<close>, the list on which
  the commit waits for descriptor buffers, holds their block numbers.
\<close>

type_synonym descriptor = "u64 \<times> block_data"

definition journal_header :: "u32 \<Rightarrow> tid_t \<Rightarrow> byte list" where
  "journal_header blocktype tid =
     be_enc 4 (unat JBD2_MAGIC_NUMBER) @ be_enc 4 (unat blocktype) @ be_enc 4 (unat tid)"

definition jbd2_vmsep_journal_get_descriptor_buffer ::
    "env \<Rightarrow> jstate \<Rightarrow> tid_t \<Rightarrow> u32 \<Rightarrow> (descriptor option \<times> jstate) res" where
  "jbd2_vmsep_journal_get_descriptor_buffer E s tid blocktype =
     bind_res (jbd2_vmsep_journal_next_log_block (sb_csum E) s) (\<lambda>(err, blocknr, s).
       if err \<noteq> 0 then Inr (None, s)
       else if \<not> getblk E blocknr then Inr (None, s)
       else Inr (Some (blocknr, store_bytes (replicate (j_blocksize s) 0) 0
                                  (journal_header blocktype tid)), s))"

definition jbd2_vmsep_descriptor_block_csum_set :: "env \<Rightarrow> jstate \<Rightarrow> block_data \<Rightarrow> block_data" where
  "jbd2_vmsep_descriptor_block_csum_set E s d =
     (if \<not> jbd2_journal_has_csum_v2or3 s then d
      else let tail = j_blocksize s - 4;
               d = store_bytes d tail (be_enc 4 0)
           in store_bytes d tail (be_enc 4 (unat (chksum E (j_csum_seed s) d))))"

section \<open>Writing the revoke records of the committing transaction\<close>

definition flush_descriptor :: "env \<Rightarrow> jstate \<Rightarrow> descriptor \<Rightarrow> nat \<Rightarrow> jstate" where
  "flush_descriptor E s desc offset =
     (if is_journal_aborted s then s
      else let d = store_bytes (snd desc) 12 (be_enc 4 offset);
               d = jbd2_vmsep_descriptor_block_csum_set E s d
           in s\<lparr>log_written := (fst desc, d) # log_written s\<rparr>)"

record revoke_writer =
  rw_state :: jstate
  rw_descriptor :: "descriptor option"
  rw_offset :: nat
  rw_log_bufs :: "u64 list"

definition revoke_record_size :: "jstate \<Rightarrow> nat" where
  "revoke_record_size s = (if jbd2_has_feature_64bit s then 8 else 4)"

definition revoke_block_limit :: "jstate \<Rightarrow> nat" where
  "revoke_block_limit s = j_blocksize s - (if jbd2_journal_has_csum_v2or3 s then 4 else 0)"

text \<open>The stores of the record, once there is a descriptor with space left.\<close>

definition put_revoke_record ::
    "jstate \<Rightarrow> descriptor \<Rightarrow> nat \<Rightarrow> u64 list \<Rightarrow> u64 \<Rightarrow> revoke_writer" where
  "put_revoke_record s desc offset bufs blocknr =
     \<lparr>rw_state = s,
      rw_descriptor = Some (fst desc, store_bytes (snd desc) offset
        (be_enc (revoke_record_size s) (unat blocknr))),
      rw_offset = offset + revoke_record_size s,
      rw_log_bufs = bufs\<rparr>"

definition write_one_revoke_record ::
    "env \<Rightarrow> tid_t \<Rightarrow> revoke_writer \<Rightarrow> revoke_record \<Rightarrow> revoke_writer res" where
  "write_one_revoke_record E tid w r =
     (let s = rw_state w; offset = rw_offset w in
      if is_journal_aborted s then Inr w
      else case rw_descriptor w of
        Some desc \<Rightarrow>
          if offset + revoke_record_size s > revoke_block_limit s
          then let s = flush_descriptor E s desc offset
               in bind_res (jbd2_vmsep_journal_get_descriptor_buffer E s tid JBD2_REVOKE_BLOCK)
                    (\<lambda>(desc', s). case desc' of
                       None \<Rightarrow> Inr (w\<lparr>rw_state := s\<rparr>)
                     | Some desc \<Rightarrow> Inr (put_revoke_record s desc 16 (rw_log_bufs w @ [fst desc])
                                           (rr_blocknr r)))
          else Inr (put_revoke_record s desc offset (rw_log_bufs w) (rr_blocknr r))
      | None \<Rightarrow>
          bind_res (jbd2_vmsep_journal_get_descriptor_buffer E s tid JBD2_REVOKE_BLOCK)
            (\<lambda>(desc', s). case desc' of
               None \<Rightarrow> Inr (w\<lparr>rw_state := s\<rparr>)
             | Some desc \<Rightarrow> Inr (put_revoke_record s desc 16 (rw_log_bufs w @ [fst desc])
                                   (rr_blocknr r))))"

fun write_revoke_loop ::
    "env \<Rightarrow> tid_t \<Rightarrow> revoke_writer \<Rightarrow> revoke_record list \<Rightarrow> revoke_writer res" where
  "write_revoke_loop E tid w [] = Inr w"
| "write_revoke_loop E tid w (r # rs) =
     bind_res (write_one_revoke_record E tid w r) (\<lambda>w. write_revoke_loop E tid w rs)"

definition jbd2_vmsep_journal_write_revoke_records ::
    "env \<Rightarrow> jstate \<Rightarrow> tid_t \<Rightarrow> u64 list \<Rightarrow> (u64 list \<times> jstate) res" where
  "jbd2_vmsep_journal_write_revoke_records E s tid log_bufs =
     (let i = (j_revoke s = Some False) in
      deref (revoke_table_of s i) OOPS (\<lambda>t.
        bind_res (write_revoke_loop E tid
            \<lparr>rw_state = s, rw_descriptor = None, rw_offset = 0, rw_log_bufs = log_bufs\<rparr>
            (concat (hash_table t))) (\<lambda>w.
          let s = set_revoke_table_of (rw_state w) i (Some (clear_revoke_tbl t));
              s = (case rw_descriptor w of
                     None \<Rightarrow> s
                   | Some desc \<Rightarrow> flush_descriptor E s desc (rw_offset w))
          in Inr (rw_log_bufs w, s))))"

section \<open>The table refines a map\<close>

text \<open>
  In a well-formed table the size is a power of two that fits the shift (a shift of 0 would be
  a shift by 64 in \<open>hash_64\<close>, which C leaves undefined), and every record is in the bucket of its
  block. \<open>revoke_map\<close> is what a lookup sees.
\<close>

definition revoke_wf :: "revoke_table \<Rightarrow> bool" where
  "revoke_wf t = (length (hash_table t) = hash_size t \<and> hash_size t = 2 ^ hash_shift t \<and>
     0 < hash_shift t \<and>
     (\<forall>i < hash_size t. \<forall>r \<in> set (hash_table t ! i). hash t (rr_blocknr r) = i))"

definition revoke_map :: "revoke_table \<Rightarrow> u64 \<rightharpoonup> tid_t" where
  "revoke_map t b = map_option rr_sequence (find_revoke_record t b)"

lemma unat_drop_bit_less:
  assumes "bits \<le> 64"
  shows "unat (drop_bit (64 - bits) (w :: u64)) < 2 ^ bits"
proof -
  have "unat (drop_bit (64 - bits) w) = unat w div 2 ^ (64 - bits)"
    unfolding unat_drop_bit_eq by (rule drop_bit_eq_div)
  moreover have "unat w < 2 ^ bits * 2 ^ (64 - bits)"
    using unsigned_less [of w, where 'a = nat] assms by (simp add: power_add [symmetric])
  ultimately show ?thesis by (simp add: less_mult_imp_div_less)
qed

lemma unat_ucast32_le: "unat (ucast (w :: u64) :: u32) \<le> unat w"
  by (simp add: unsigned_ucast_eq take_bit_nat_less_eq_self)

lemma hash_64_less: "unat (hash_64 val bits) < 2 ^ bits"
proof (cases "bits \<le> 64")
  case True
  then show ?thesis
    using unat_drop_bit_less [OF True] unat_ucast32_le order_le_less_trans
    unfolding hash_64_def by blast
next
  case False
  have "unat (hash_64 val bits) < 2 ^ 32"
    using unsigned_less [of "hash_64 val bits", where 'a = nat] by simp
  also have "(2 :: nat) ^ 32 \<le> 2 ^ bits" using False by (intro power_increasing) auto
  finally show ?thesis .
qed

lemma hash_less: "revoke_wf t \<Longrightarrow> hash t b < length (hash_table t)"
  using hash_64_less by (simp add: revoke_wf_def hash_def)

lemma hash_upd [simp]: "hash (t\<lparr>hash_table := x\<rparr>) = hash t"
  by (simp add: hash_def fun_eq_iff)

lemma find_upd_found:
  assumes "\<And>r. rr_blocknr (f r) = rr_blocknr r"
  shows "find_in_bucket b (upd_found b' f rs) =
    (if b = b' then map_option f (find_in_bucket b rs) else find_in_bucket b rs)"
  by (induction rs) (auto simp: assms)

lemma upd_found_blocks:
  assumes "\<And>r. rr_blocknr (f r) = rr_blocknr r"
  shows "map rr_blocknr (upd_found b f rs) = map rr_blocknr rs"
  by (induction rs) (auto simp: assms)

lemma find_del_found_other: "b \<noteq> b' \<Longrightarrow> find_in_bucket b (del_found b' rs) = find_in_bucket b rs"
  by (induction rs) auto

lemma find_in_bucket_None: "find_in_bucket b rs = None \<longleftrightarrow> b \<notin> rr_blocknr ` set rs"
  by (induction rs) auto

lemma set_del_found: "set (del_found b rs) \<subseteq> set rs"
  by (induction rs) auto

lemma upd_bucket_wf:
  assumes "revoke_wf t"
    and "\<forall>r \<in> set (f (hash_table t ! hash t b)). hash t (rr_blocknr r) = hash t b"
  shows "revoke_wf (upd_bucket t b f)"
proof -
  have "hash t (rr_blocknr r) = i"
    if "i < hash_size t" "r \<in> set ((hash_table t)[hash t b := f (hash_table t ! hash t b)] ! i)"
    for i r
    using assms hash_less [OF assms(1), of b] that
    by (cases "i = hash t b") (auto simp: revoke_wf_def)
  then show ?thesis using assms by (simp add: revoke_wf_def upd_bucket_def Let_def)
qed

lemma find_upd_bucket:
  assumes "revoke_wf t"
  shows "find_revoke_record (upd_bucket t b f) b' =
    (if hash t b' = hash t b then find_in_bucket b' (f (hash_table t ! hash t b))
     else find_revoke_record t b')"
  using hash_less [OF assms] by (simp add: find_revoke_record_def upd_bucket_def Let_def)

lemma insert_as_upd_bucket:
  "snd (insert_revoke_hash True t b q) =
     upd_bucket t b (\<lambda>rs. \<lparr>rr_sequence = q, rr_blocknr = b\<rparr> # rs)"
  by (simp add: insert_revoke_hash_def upd_bucket_def Let_def)

lemma bucket_hash:
  assumes "revoke_wf t" and "r \<in> set (hash_table t ! hash t b)"
  shows "hash t (rr_blocknr r) = hash t b"
  using assms hash_less [OF assms(1), of b] by (simp add: revoke_wf_def)

lemma insert_revoke_hash_wf: "revoke_wf t \<Longrightarrow> revoke_wf (snd (insert_revoke_hash True t b q))"
  unfolding insert_as_upd_bucket by (rule upd_bucket_wf) (auto intro: bucket_hash)

lemma insert_revoke_hash_map:
  "revoke_wf t \<Longrightarrow> revoke_map (snd (insert_revoke_hash True t b q)) = (revoke_map t)(b \<mapsto> q)"
  unfolding insert_as_upd_bucket
  by (auto simp: revoke_map_def find_upd_bucket fun_eq_iff) (auto simp: find_revoke_record_def)

lemma set_revoke_tbl_wf:
  assumes "revoke_wf t"
  shows "revoke_wf (snd (set_revoke_tbl True t b q))"
proof (cases "find_revoke_record t b")
  case None
  then show ?thesis using insert_revoke_hash_wf [OF assms] by (simp add: set_revoke_tbl_def)
next
  case (Some r)
  let ?f = "upd_found b (\<lambda>r. r\<lparr>rr_sequence := q\<rparr>)"
  have "rr_blocknr ` set (?f rs) = rr_blocknr ` set rs" for rs
    using arg_cong [OF upd_found_blocks [of "\<lambda>r. r\<lparr>rr_sequence := q\<rparr>" b rs], of set] by simp
  then have "\<exists>r' \<in> set (hash_table t ! hash t b). rr_blocknr r = rr_blocknr r'"
    if "r \<in> set (?f (hash_table t ! hash t b))" for r
    using that by (metis (no_types, lifting) imageE imageI)
  then have "revoke_wf (upd_bucket t b ?f)"
    using bucket_hash [OF assms] by (intro upd_bucket_wf [OF assms]) fastforce
  then show ?thesis using Some assms by (simp add: set_revoke_tbl_def)
qed

lemma set_revoke_tbl_map:
  assumes "revoke_wf t"
  shows "revoke_map (snd (set_revoke_tbl True t b q)) =
    (revoke_map t)(b \<mapsto> (case revoke_map t b of None \<Rightarrow> q
                        | Some p \<Rightarrow> if tid_gt q p then q else p))"
proof (cases "find_revoke_record t b")
  case None
  then show ?thesis
    using insert_revoke_hash_map [OF assms] by (simp add: set_revoke_tbl_def revoke_map_def)
next
  case (Some r)
  have "revoke_map (upd_bucket t b (upd_found b (\<lambda>r. r\<lparr>rr_sequence := q\<rparr>))) = (revoke_map t)(b \<mapsto> q)"
    using Some
    by (auto simp: revoke_map_def find_upd_bucket [OF assms] find_upd_found fun_eq_iff)
      (auto simp: find_revoke_record_def)
  then show ?thesis using Some by (auto simp: set_revoke_tbl_def revoke_map_def fun_eq_iff)
qed

lemma test_revoke_tbl_map:
  "test_revoke_tbl t b q = (case revoke_map t b of None \<Rightarrow> False | Some p \<Rightarrow> \<not> tid_gt q p)"
  by (simp add: test_revoke_tbl_def revoke_map_def split: option.split)

lemma clear_revoke_tbl_wf: "revoke_wf t \<Longrightarrow> revoke_wf (clear_revoke_tbl t)"
  by (simp add: revoke_wf_def clear_revoke_tbl_def)

lemma clear_revoke_tbl_map: "revoke_wf t \<Longrightarrow> revoke_map (clear_revoke_tbl t) = Map.empty"
  using hash_less [of t]
  by (simp add: revoke_map_def find_revoke_record_def clear_revoke_tbl_def fun_eq_iff)

section \<open>What recovery relies on\<close>

text \<open>
  A store of revokes: \<open>keep\<close> keeps for a block the latest identifier it was given. Scanning a
  log whose transactions lie within half the identifier space of a base, a block is found
  revoked for a transaction exactly if the scan met a revoke of it by that transaction or a
  later one.
\<close>

locale revoke_store =
  fixes inv :: "'t \<Rightarrow> bool" and look :: "'t \<Rightarrow> 'b \<rightharpoonup> tid_t" and keep :: "'t \<Rightarrow> 'b \<Rightarrow> tid_t \<Rightarrow> 't"
  assumes keep_inv: "inv t \<Longrightarrow> inv (keep t b q)"
    and keep_look: "inv t \<Longrightarrow> look (keep t b q) =
      (look t)(b \<mapsto> (case look t b of None \<Rightarrow> q | Some p \<Rightarrow> if tid_gt q p then q else p))"
begin

lemma scan_inv: "inv t \<Longrightarrow> inv (fold (\<lambda>(b, q) t. keep t b q) rs t)"
  by (induction rs arbitrary: t) (auto simp: keep_inv)

text \<open>After a scan the store holds for a block the newest revoke of it.\<close>

lemma scan_newest:
  assumes "inv t" and "look t = Map.empty" and "\<forall>(b, q) \<in> set rs. in_window base q"
  shows "case look (fold (\<lambda>(b, q) t. keep t b q) rs t) b of
      None \<Rightarrow> \<forall>q. (b, q) \<notin> set rs
    | Some p \<Rightarrow> (b, p) \<in> set rs \<and> (\<forall>q. (b, q) \<in> set rs \<longrightarrow> tid_geq p q)"
  using assms(3)
proof (induction rs rule: rev_induct)
  case Nil
  then show ?case using assms(2) by simp
next
  case (snoc x rs)
  obtain c q where x: "x = (c, q)" by fastforce
  define T where "T = fold (\<lambda>(b, q) t. keep t b q) rs t"
  have look: "look (fold (\<lambda>(b, q) t. keep t b q) (rs @ [x]) t) =
      (look T)(c \<mapsto> (case look T c of None \<Rightarrow> q | Some p \<Rightarrow> if tid_gt q p then q else p))"
    using keep_look [OF scan_inv [OF assms(1)]] by (simp add: x T_def)
  have win: "in_window base q" "\<And>q'. (b, q') \<in> set rs \<Longrightarrow> in_window base q'"
    using snoc.prems x by auto
  have IH: "case look T b of None \<Rightarrow> \<forall>q. (b, q) \<notin> set rs
    | Some p \<Rightarrow> (b, p) \<in> set rs \<and> (\<forall>q. (b, q) \<in> set rs \<longrightarrow> tid_geq p q)"
    using snoc by (auto simp: T_def)
  have new: "tid_geq q q'" if "(b, p) \<in> set rs" "tid_geq p q'" "tid_gt q p" "(b, q') \<in> set rs"
    for p q'
    using tid.gt_dist [OF win(1) win(2) [OF that(1)]] tid.geq_dist [OF win(1) win(2) [OF that(4)]]
      tid.geq_dist [OF win(2) [OF that(1)] win(2) [OF that(4)]] that by auto
  have old: "tid_geq p q" if "(b, p) \<in> set rs" "\<not> tid_gt q p" for p
    using tid.geq_iff_not_gt [OF win(2) [OF that(1)] win(1)] that by simp
  show ?case unfolding look
    using IH new old by (cases "c = b"; cases "look T b") (auto simp: x)
qed

lemma scan_revoked:
  assumes "inv t" and "look t = Map.empty" and "\<forall>(b, q) \<in> set rs. in_window base q"
    and "in_window base seqn"
  shows "(case look (fold (\<lambda>(b, q) t. keep t b q) rs t) b of
      None \<Rightarrow> False | Some p \<Rightarrow> \<not> tid_gt seqn p) \<longleftrightarrow> (\<exists>q. (b, q) \<in> set rs \<and> tid_geq q seqn)"
proof (cases "look (fold (\<lambda>(b, q) t. keep t b q) rs t) b")
  case None
  then show ?thesis using scan_newest [OF assms(1-3), of b] by simp
next
  case (Some p)
  then have p: "(b, p) \<in> set rs" "\<And>q. (b, q) \<in> set rs \<Longrightarrow> tid_geq p q"
    using scan_newest [OF assms(1-3), of b] by auto
  have win: "in_window base q" if "(b, q) \<in> set rs" for q using assms(3) that by auto
  have "\<not> tid_gt seqn p \<longleftrightarrow> tid_geq p seqn"
    using tid.geq_iff_not_gt [OF win [OF p(1)] assms(4)] by simp
  moreover have "tid_geq p seqn" if "(b, q) \<in> set rs" "tid_geq q seqn" for q
    using tid.geq_dist [OF win [OF p(1)] win [OF that(1)]] tid.geq_dist [OF win [OF p(1)] assms(4)]
      tid.geq_dist [OF win [OF that(1)] assms(4)] p(2) [OF that(1)] that(2) by auto
  ultimately show ?thesis using Some p by auto
qed

end

interpretation rt: revoke_store revoke_wf revoke_map "\<lambda>t b q. snd (set_revoke_tbl True t b q)"
  by unfold_locales (simp_all add: set_revoke_tbl_wf set_revoke_tbl_map)

section \<open>Well-formed tables are made\<close>

lemma shift_loop_pow: "shift_loop (2 ^ k) c = c + k"
proof (induction k arbitrary: c)
  case 0
  show ?case by (simp add: shift_loop.simps)
next
  case (Suc k)
  have "(2 :: nat) ^ Suc k div 2 = 2 ^ k" by simp
  then show ?case using Suc [of "c + 1"] by (subst shift_loop.simps) simp
qed

lemma is_power_of_2_pow: "is_power_of_2 n \<Longrightarrow> \<exists>k. n = 2 ^ k"
proof (induction n rule: less_induct)
  case (less n)
  show ?case
  proof (cases "even n")
    case True
    then obtain m where m: "n = 2 * m" by blast
    have "0 < m" using less.prems m by (simp add: is_power_of_2_def)
    then have "n - 1 = 2 * (m - 1) + 1" using m by simp
    then have "n AND (n - 1) = 2 * (m AND (m - 1))"
      using m by (simp add: and_rec [of "2 * m"])
    then have "is_power_of_2 m" using less.prems \<open>0 < m\<close> by (simp add: is_power_of_2_def)
    then show ?thesis using less.IH [of m] \<open>0 < m\<close> m by (metis less_add_same_cancel1 mult_2 power_Suc)
  next
    case False
    then obtain m where m: "n = 2 * m + 1" by (metis oddE)
    then have "n AND (n - 1) = 2 * m" by (simp add: and_rec [of "Suc (2 * m)"])
    then have "n = 1" using less.prems m by (simp add: is_power_of_2_def)
    then show ?thesis by (metis power_0)
  qed
qed

lemma init_revoke_table_wf:
  assumes "is_power_of_2 sz" and "1 < sz"
    and "jbd2_journal_init_revoke_table mem mem' sz = Some t"
  shows "revoke_wf t \<and> revoke_map t = Map.empty"
proof -
  obtain k where k: "sz = 2 ^ k" using is_power_of_2_pow [OF assms(1)] by blast
  have t: "t = \<lparr>hash_size = sz, hash_shift = k, hash_table = replicate sz []\<rparr>"
    using assms(3) by (simp add: jbd2_journal_init_revoke_table_def k shift_loop_pow Let_def
        split: if_splits)
  have "0 < k" using assms(2) k by (cases k) auto
  then have wf: "revoke_wf t" using k by (simp add: revoke_wf_def t)
  then show ?thesis
    using hash_less [OF wf] by (simp add: revoke_map_def find_revoke_record_def fun_eq_iff t)
qed

section \<open>Cancelling a revoke\<close>

definition revoke_unique :: "revoke_table \<Rightarrow> bool" where
  "revoke_unique t = list_all (\<lambda>rs. distinct (map rr_blocknr rs)) (hash_table t)"

lemma find_del_found_same:
  "distinct (map rr_blocknr rs) \<Longrightarrow> find_in_bucket b (del_found b rs) = None"
  by (induction rs) (auto simp: find_in_bucket_None)

lemma cancel_in_table_map:
  assumes "revoke_wf t" and "revoke_unique t"
  shows "revoke_map (snd (cancel_in_table b t)) = (revoke_map t)(b := None)"
proof (cases "find_revoke_record t b")
  case None
  then show ?thesis by (simp add: cancel_in_table_def revoke_map_def fun_eq_iff)
next
  case (Some r)
  have "distinct (map rr_blocknr (hash_table t ! hash t b))"
    using assms hash_less [of t b] by (simp add: revoke_unique_def list_all_length)
  then have "find_in_bucket b (del_found b (hash_table t ! hash t b)) = None"
    by (rule find_del_found_same)
  then show ?thesis
    using Some by (auto simp: cancel_in_table_def revoke_map_def find_upd_bucket [OF assms(1)]
        find_del_found_other fun_eq_iff) (auto simp: find_revoke_record_def)
qed

lemma cancel_in_table_wf: "revoke_wf t \<Longrightarrow> revoke_wf (snd (cancel_in_table b t))"
  using set_del_found
  by (auto simp: cancel_in_table_def split: option.split intro!: upd_bucket_wf)
    (metis bucket_hash subsetD)

lemma cancel_in_table_did: "fst (cancel_in_table b t) \<longleftrightarrow> revoke_map t b \<noteq> None"
  by (simp add: cancel_in_table_def revoke_map_def split: option.split)

lemma with_revoke_wp:
  "wp (with_revoke s f) E Q \<longleftrightarrow>
    (case j_revoke s of None \<Rightarrow> E OOPS
     | Some i \<Rightarrow> (case revoke_table_of s i of None \<Rightarrow> E OOPS
       | Some t \<Rightarrow> Q (fst (f t), set_revoke_table_of s i (Some (snd (f t))))))"
  by (simp add: with_revoke_def wp_simps case_prod_beta split: option.split)

lemma revoke_table_of_simps [simp]:
  "revoke_table_of (set_revoke_table_of s i t) i = t"
  "i \<noteq> j \<Longrightarrow> revoke_table_of (set_revoke_table_of s i t) j = revoke_table_of s j"
  "bhs (set_revoke_table_of s i t) = bhs s"
  "j_revoke (set_revoke_table_of s i t) = j_revoke s"
  "revoke_table_of (upd_bh b f s) = revoke_table_of s"
  "j_revoke (upd_bh b f s) = j_revoke s"
  by (auto simp: revoke_table_of_def set_revoke_table_of_def upd_bh_def fun_eq_iff)

section \<open>Properties of the revoke tables\<close>

text \<open>C40: After a scan of the log has entered its revoke records with
  \<open>jbd2_vmsep_journal_set_revoke\<close>, \<open>jbd2_vmsep_journal_test_revoke\<close> finds a block revoked for a
  transaction exactly if the scan met a revoke of that block by the same or a later transaction,
  in whatever order the records came and also across a wrap of the transaction identifiers.\<close>

theorem revoke_scan_exact:
  assumes "revoke_wf t" and "revoke_map t = Map.empty"
    and "\<forall>(b, q) \<in> set rs. in_window base q" and "in_window base seqn"
  shows "test_revoke_tbl (fold (\<lambda>(b, q) t. snd (set_revoke_tbl True t b q)) rs t) b seqn
    \<longleftrightarrow> (\<exists>q. (b, q) \<in> set rs \<and> tid_geq q seqn)"
  unfolding test_revoke_tbl_map by (rule rt.scan_revoked [OF assms])

definition ex_revoke_table :: revoke_table where
  "ex_revoke_table = \<lparr>hash_size = 2, hash_shift = 1, hash_table = [[], []]\<rparr>"

lemma ex_revoke_table_wf: "revoke_wf ex_revoke_table" "revoke_map ex_revoke_table = Map.empty"
proof -
  have "shift_loop 2 0 = 1" using shift_loop_pow [of 1 0] by simp
  then have "jbd2_journal_init_revoke_table True True 2 = Some ex_revoke_table"
    by (simp add: jbd2_journal_init_revoke_table_def ex_revoke_table_def numeral_2_eq_2)
  moreover have "is_power_of_2 2" by (simp add: is_power_of_2_def)
  ultimately show "revoke_wf ex_revoke_table" "revoke_map ex_revoke_table = Map.empty"
    using init_revoke_table_wf [of 2 True True ex_revoke_table] by simp_all
qed

theorem revoke_scan_exact_witness:
  "test_revoke_tbl (fold (\<lambda>(b, q) t. snd (set_revoke_tbl True t b q))
     [(7, 0), (9, 1), (7, - 1)] ex_revoke_table) 7 0 \<and>
   \<not> test_revoke_tbl (fold (\<lambda>(b, q) t. snd (set_revoke_tbl True t b q))
     [(7, 0), (9, 1), (7, - 1)] ex_revoke_table) 7 1"
proof -
  let ?rs = "[(7, 0), (9, 1), (7, - 1)] :: (u64 \<times> tid_t) list"
  have w: "\<forall>(b, q) \<in> set ?rs. in_window (- 2) q" "in_window (- 2) 0" "in_window (- 2) 1"
    by (simp_all add: in_window_def tid_dist_def)
  show ?thesis
    using revoke_scan_exact [OF ex_revoke_table_wf w(1,2), of 7]
      revoke_scan_exact [OF ex_revoke_table_wf w(1,3), of 7]
    by (auto simp: tid_geq_def)
qed

text \<open>\<open>jbd2_vmsep_journal_cancel_revoke\<close> removes the pending revoke of a buffer's block and
  nothing else from the table, reports whether there was one, and leaves the buffer with a valid,
  cleared revoked flag. It trusts the flag only when it is valid: the hypothesis is that a
  valid cleared flag means that there is no record.\<close>

theorem cancel_revoke_exact:
  assumes "j_revoke s = Some i" and "revoke_table_of s i = Some t"
    and "revoke_wf t" and "revoke_unique t"
    and "bh_revokevalid (bhs s b) \<Longrightarrow> \<not> bh_revoked (bhs s b) \<Longrightarrow> revoke_map t (b_blocknr (bhs s b)) = None"
  shows "\<exists>did s' t'. jbd2_vmsep_journal_cancel_revoke E s b = Inr (did, s') \<and>
    revoke_table_of s' i = Some t' \<and> revoke_wf t' \<and>
    revoke_map t' = (revoke_map t)(b_blocknr (bhs s b) := None) \<and>
    (did \<longleftrightarrow> revoke_map t (b_blocknr (bhs s b)) \<noteq> None) \<and>
    bh_revokevalid (bhs s' b) \<and> \<not> bh_revoked (bhs s' b)"
proof -
  have "wp (jbd2_vmsep_journal_cancel_revoke E s b) no_err (\<lambda>(did, s'). \<exists>t'.
    revoke_table_of s' i = Some t' \<and> revoke_wf t' \<and>
    revoke_map t' = (revoke_map t)(b_blocknr (bhs s b) := None) \<and>
    (did \<longleftrightarrow> revoke_map t (b_blocknr (bhs s b)) \<noteq> None) \<and>
    bh_revokevalid (bhs s' b) \<and> \<not> bh_revoked (bhs s' b))"
    using assms cancel_in_table_map [OF assms(3,4)] cancel_in_table_wf [OF assms(3)]
    by (auto simp: jbd2_vmsep_journal_cancel_revoke_def test_set_buffer_revokevalid_def
        clear_buffer_revoked_def Let_def wp_simps with_revoke_wp cancel_in_table_did fun_upd_idem
        split: option.split)
  then show ?thesis unfolding wp_returns by fastforce
qed

definition ex_revoke_state :: jstate where
  "ex_revoke_state = init_state\<lparr>j_revoke := Some True, j_revoke_table0 := Some ex_revoke_table,
     j_revoke_table1 := Some (snd (insert_revoke_hash True ex_revoke_table 0 7))\<rparr>"

lemma ex_hash: "hash ex_revoke_table 0 = 0"
  by (simp add: hash_def hash_64_def ex_revoke_table_def)

lemma ex_revoke_unique: "revoke_unique (snd (insert_revoke_hash True ex_revoke_table 0 7))"
  by (simp add: revoke_unique_def insert_revoke_hash_def ex_hash) (simp add: ex_revoke_table_def)

theorem cancel_revoke_exact_witness:
  "\<exists>s' t'. jbd2_vmsep_journal_cancel_revoke ex_env ex_revoke_state 4 = Inr (True, s') \<and>
    revoke_table_of s' True = Some t' \<and> revoke_map t' 0 = None"
proof -
  let ?t = "snd (insert_revoke_hash True ex_revoke_table 0 7)"
  have h: "j_revoke ex_revoke_state = Some True" "revoke_table_of ex_revoke_state True = Some ?t"
      "b_blocknr (bhs ex_revoke_state 4) = 0" "\<not> bh_revokevalid (bhs ex_revoke_state 4)"
    by (simp_all add: ex_revoke_state_def revoke_table_of_def ex_defs)
  have m: "revoke_map ?t 0 = Some 7"
    by (simp add: insert_revoke_hash_map [OF ex_revoke_table_wf(1)])
  show ?thesis
    using cancel_revoke_exact [OF h(1,2) insert_revoke_hash_wf [OF ex_revoke_table_wf(1)]
        ex_revoke_unique, of 4] h(3,4) m by fastforce
qed

text \<open>\<open>jbd2_vmsep_journal_init_revoke\<close> gives a journal two empty well-formed tables of the size
  asked for and makes the second one current, or fails with \<open>-ENOMEM\<close> and leaves no current
  table and no first table; it does not fail an assertion for a power of two.\<close>

theorem init_revoke_tables:
  assumes "j_revoke_table0 s = None" and "j_revoke s = None" and "is_power_of_2 sz" and "1 < sz"
  shows "\<exists>ret s'. jbd2_vmsep_journal_init_revoke mem s sz = Inr (ret, s') \<and>
    (if mem False = (True, True) \<and> mem True = (True, True)
     then ret = 0 \<and> j_revoke s' = Some True \<and>
       (\<forall>i. \<exists>t. revoke_table_of s' i = Some t \<and> revoke_wf t \<and> revoke_map t = Map.empty \<and> hash_size t = sz)
     else ret = - ENOMEM \<and> j_revoke s' = None \<and> j_revoke_table0 s' = None)"
proof -
  define T where "T = \<lparr>hash_size = sz, hash_shift = shift_loop sz 0, hash_table = replicate sz []\<rparr>"
  have tbl: "jbd2_journal_init_revoke_table m m' sz = (if m \<and> m' then Some T else None)" for m m'
    by (simp add: jbd2_journal_init_revoke_table_def T_def Let_def)
  have T: "revoke_wf T" "revoke_map T = Map.empty" "hash_size T = sz"
    using init_revoke_table_wf [OF assms(3,4) tbl [of True True, simplified]]
    by (simp_all add: T_def)
  have T0: "jbd2_journal_destroy_revoke_table T = Inr ()"
    by (simp add: jbd2_journal_destroy_revoke_table_def T_def)
  have "wp (jbd2_vmsep_journal_init_revoke mem s sz) no_err (\<lambda>(ret, s').
    (if mem False = (True, True) \<and> mem True = (True, True)
     then ret = 0 \<and> j_revoke s' = Some True \<and>
       (\<forall>i. \<exists>t. revoke_table_of s' i = Some t \<and> revoke_wf t \<and> revoke_map t = Map.empty \<and> hash_size t = sz)
     else ret = - ENOMEM \<and> j_revoke s' = None \<and> j_revoke_table0 s' = None))"
    using T assms
    by (cases "mem False"; cases "mem True")
      (auto simp: jbd2_vmsep_journal_init_revoke_def wp_simps Let_def tbl T0 revoke_table_of_def)
  then show ?thesis unfolding wp_returns by fastforce
qed

theorem init_revoke_tables_witness:
  "\<exists>s'. jbd2_vmsep_journal_init_revoke (\<lambda>_. (True, True)) init_state 256 = Inr (0, s') \<and>
     j_revoke s' = Some True"
proof -
  have h: "j_revoke_table0 init_state = None" "j_revoke init_state = None" "is_power_of_2 256"
      "1 < (256 :: nat)"
    by (simp_all add: ex_defs is_power_of_2_def)
  show ?thesis using init_revoke_tables [OF h, of "\<lambda>_. (True, True)"] by fastforce
qed

end
