(* ===== verification/Jbd2_Recovery.thy ===== *)
theory Jbd2_Recovery
  imports Jbd2_Revoke
begin

text \<open>
  Recovery, \<open>kernel/fs/jbd2/recovery.c\<close>: reading journal blocks, counting and reading the tags of
  a descriptor block, verifying checksums, scanning a revoke block, and the passes over the log.
  One iteration of the loop of \<open>do_one_pass\<close> is \<open>pass_step\<close>; the loop itself may run forever on a
  corrupted log and is a partial function, whose value is \<open>None\<close> when it does not return. A
  \<open>break\<close> inside the \<open>switch\<close> of the C code leaves the \<open>switch\<close> only, so it goes on with the
  next iteration.
\<close>

unbundle bit_operations_syntax

section \<open>Reading the journal\<close>

definition readahead_max :: "jstate \<Rightarrow> u32 \<Rightarrow> u32" where
  "readahead_max s start =
     (let max = start + of_nat (128 * 1024 div j_blocksize s)
      in if max > j_maxlen s then j_maxlen s else max)"

fun readahead_loop :: "env \<Rightarrow> jstate \<Rightarrow> u32 list \<Rightarrow> (int \<times> jstate) res" where
  "readahead_loop E s [] = Inr (0, s)"
| "readahead_loop E s (n # ns) =
     bind_res (jbd2_vmsep_journal_bmap (sb_csum E) s (ucast n)) (\<lambda>(err, blocknr, s).
       if err \<noteq> 0 then Inr (err, s)
       else if \<not> getblk E blocknr then Inr (- ENOMEM, s)
       else readahead_loop E s ns)"

definition do_readahead :: "env \<Rightarrow> jstate \<Rightarrow> u32 \<Rightarrow> (int \<times> jstate) res" where
  "do_readahead E s start =
     readahead_loop E s (map of_nat [unat start ..< unat (readahead_max s start)])"

definition jread :: "env \<Rightarrow> jstate \<Rightarrow> u32 \<Rightarrow> (int \<times> block_data \<times> jstate) res" where
  "jread E s offset =
     (if offset \<ge> j_maxlen s then Inr (- EUCLEAN, [], s)
      else bind_res (jbd2_vmsep_journal_bmap (sb_csum E) s (ucast offset)) (\<lambda>(err, blocknr, s).
        if err \<noteq> 0 then Inr (err, [], s)
        else if \<not> getblk E blocknr then Inr (- ENOMEM, [], s)
        else bind_res (if dev_new E blocknr then do_readahead E s offset else Inr (0, s)) (\<lambda>(_, s).
          case dev_read E blocknr of
            None \<Rightarrow> Inr (- EIO, [], s)
          | Some d \<Rightarrow> Inr (0, d, s))))"

definition log_wrap :: "('a) journal_t_scheme \<Rightarrow> ulong \<Rightarrow> ulong" where
  "log_wrap j var = (if var \<ge> j_last j then var - (j_last j - j_first j) else var)"

section \<open>Block formats\<close>

definition be32_at :: "block_data \<Rightarrow> nat \<Rightarrow> u32" where
  "be32_at d off = of_nat (be_dec (load_bytes d off 4))"

definition be16_at :: "block_data \<Rightarrow> nat \<Rightarrow> u16" where
  "be16_at d off = of_nat (be_dec (load_bytes d off 2))"

abbreviation JBD2_FLAG_ESCAPE :: u16 where "JBD2_FLAG_ESCAPE \<equiv> 1"
abbreviation JBD2_FLAG_SAME_UUID :: u16 where "JBD2_FLAG_SAME_UUID \<equiv> 2"
abbreviation JBD2_FLAG_LAST_TAG :: u16 where "JBD2_FLAG_LAST_TAG \<equiv> 8"

definition csum_size :: "('a) journal_t_scheme \<Rightarrow> nat" where
  "csum_size j = (if jbd2_journal_has_csum_v2or3 j then 4 else 0)"

definition jbd2_descriptor_block_csum_verify :: "env \<Rightarrow> jstate \<Rightarrow> block_data \<Rightarrow> bool" where
  "jbd2_descriptor_block_csum_verify E s d =
     (if \<not> jbd2_journal_has_csum_v2or3 s then True
      else let tail = j_blocksize s - 4;
               provided = load_bytes d tail 4;
               calculated = chksum E (j_csum_seed s) (store_bytes d tail (be_enc 4 0))
           in provided = be_enc 4 (unat calculated))"

text \<open>\<open>tag_flags\<close> is the field \<open>t_flags\<close> of the tag at an offset, and \<open>next_tag\<close> where the tag after it
  starts: a tag without the same-UUID flag is followed by 16 bytes of UUID.\<close>

definition tag_flags :: "block_data \<Rightarrow> nat \<Rightarrow> u16" where
  "tag_flags d off = be16_at d (off + 6)"

definition next_tag :: "('a) journal_t_scheme \<Rightarrow> block_data \<Rightarrow> nat \<Rightarrow> nat" where
  "next_tag j d off =
     off + journal_vmsep_tag_bytes j + (if tag_flags d off AND JBD2_FLAG_SAME_UUID = 0 then 16 else 0)"

lemma next_tag_greater: "off < next_tag j d off"
  using journal_vmsep_tag_bytes_range [of j] by (auto simp: next_tag_def)

lemma next_tag_measure:
  assumes "off + journal_vmsep_tag_bytes j \<le> j_blocksize j - csum_size j"
  shows "j_blocksize j - next_tag j d off < j_blocksize j - off"
  using assms next_tag_greater [of off j d] journal_vmsep_tag_bytes_range [of j] by linarith

function count_tags_loop :: "('a) journal_t_scheme \<Rightarrow> block_data \<Rightarrow> nat \<Rightarrow> nat \<Rightarrow> nat" where
  "count_tags_loop j d off nr =
     (if off + journal_vmsep_tag_bytes j \<le> j_blocksize j - csum_size j
      then if tag_flags d off AND JBD2_FLAG_LAST_TAG \<noteq> 0 then nr + 1
           else count_tags_loop j d (next_tag j d off) (nr + 1)
      else nr)"
  by pat_completeness auto

termination
  by (relation "measure (\<lambda>(j, d, off, nr). j_blocksize j - off)") (simp_all add: next_tag_measure)

declare count_tags_loop.simps [simp del]

definition count_tags :: "('a) journal_t_scheme \<Rightarrow> block_data \<Rightarrow> nat" where
  "count_tags j d = count_tags_loop j d 12 0"

definition read_tag_block :: "('a) journal_t_scheme \<Rightarrow> block_data \<Rightarrow> nat \<Rightarrow> u64" where
  "read_tag_block j d off =
     (let block = ucast (be32_at d off)
      in if jbd2_has_feature_64bit j
         then block OR push_bit 32 (ucast (be32_at d (off + 8))) else block)"

definition jbd2_commit_block_csum_verify :: "env \<Rightarrow> jstate \<Rightarrow> block_data \<Rightarrow> bool" where
  "jbd2_commit_block_csum_verify E s d =
     (if \<not> jbd2_journal_has_csum_v2or3 s then True
      else let provided = load_bytes d 16 4;
               calculated = chksum E (j_csum_seed s) (store_bytes d 16 (be_enc 4 0))
           in provided = be_enc 4 (unat calculated))"

definition tag_csum :: "env \<Rightarrow> jstate \<Rightarrow> block_data \<Rightarrow> u32 \<Rightarrow> u32" where
  "tag_csum E s buf seqn =
     chksum E (chksum E (j_csum_seed s) (be_enc 4 (unat seqn))) buf"

definition jbd2_block_tag_csum_verify ::
    "env \<Rightarrow> jstate \<Rightarrow> block_data \<Rightarrow> nat \<Rightarrow> block_data \<Rightarrow> u32 \<Rightarrow> bool" where
  "jbd2_block_tag_csum_verify E s d off buf seqn =
     (if \<not> jbd2_journal_has_csum_v2or3 s then True
      else let csum32 = tag_csum E s buf seqn
           in if jbd2_has_feature_csum3 s then be32_at d (off + 12) = csum32
              else be16_at d (off + 4) = ucast csum32)"

section \<open>The state of a pass\<close>

record recovery_info =
  start_transaction :: tid_t
  end_transaction :: tid_t
  nr_replays :: int
  nr_revokes :: int
  nr_revoke_hits :: int

datatype passtype = PASS_SCAN | PASS_REVOKE | PASS_REPLAY

text \<open>
  The journal, the recovery information and the local variables of \<open>do_one_pass\<close>. \<open>ps_fs\<close> lists the
  blocks of the file system the pass has put into buffers and marked dirty, newest first.
\<close>

record pass_state =
  ps_state :: jstate
  ps_info :: recovery_info
  ps_commit_ID :: tid_t
  ps_log_block :: ulong
  ps_crc32_sum :: u32
  ps_success :: int
  ps_block_error :: bool
  ps_fs :: "(u64 \<times> block_data) list"

datatype step_result = Continue pass_state | Done pass_state | Failed int pass_state

text \<open>\<open>next_block\<close> is the block at \<open>next_log_block\<close>, which moves on by one and wraps.\<close>

definition next_block :: "pass_state \<Rightarrow> u32 \<times> pass_state" where
  "next_block st = (ucast (ps_log_block st),
     st\<lparr>ps_log_block := log_wrap (ps_state st) (ps_log_block st + 1)\<rparr>)"

definition ps_jread :: "env \<Rightarrow> pass_state \<Rightarrow> u32 \<Rightarrow> (int \<times> block_data \<times> pass_state) res" where
  "ps_jread E st offset = bind_res (jread E (ps_state st) offset)
     (\<lambda>(err, d, s). Inr (err, d, st\<lparr>ps_state := s\<rparr>))"

fun calc_chksums_loop :: "env \<Rightarrow> nat \<Rightarrow> pass_state \<Rightarrow> (bool \<times> pass_state) res" where
  "calc_chksums_loop E 0 st = Inr (False, st)"
| "calc_chksums_loop E (Suc n) st =
     (let (io_block, st) = next_block st in
      bind_res (ps_jread E st io_block) (\<lambda>(err, obh, st).
        if err \<noteq> 0 then Inr (True, st)
        else calc_chksums_loop E n (st\<lparr>ps_crc32_sum := crc32_be E (ps_crc32_sum st) obh\<rparr>)))"

definition calc_chksums :: "env \<Rightarrow> block_data \<Rightarrow> pass_state \<Rightarrow> (bool \<times> pass_state) res" where
  "calc_chksums E d st =
     calc_chksums_loop E (count_tags (ps_state st) d)
       (st\<lparr>ps_crc32_sum := crc32_be E (ps_crc32_sum st) d\<rparr>)"

section \<open>Revoke blocks\<close>

function scan_revoke_loop ::
    "env \<Rightarrow> jstate \<Rightarrow> block_data \<Rightarrow> tid_t \<Rightarrow> nat \<Rightarrow> nat \<Rightarrow> pass_state \<Rightarrow> (int \<times> pass_state) res" where
  "scan_revoke_loop E j d seqn mx offset st =
     (if offset + revoke_record_size j \<le> mx
      then bind_res (jbd2_vmsep_journal_set_revoke (mem_alloc E) (ps_state st)
               (of_nat (be_dec (load_bytes d offset (revoke_record_size j)))) seqn) (\<lambda>(err, s).
             let st = st\<lparr>ps_state := s\<rparr> in
             if err \<noteq> 0 then Inr (err, st)
             else scan_revoke_loop E j d seqn mx (offset + revoke_record_size j)
                    (st\<lparr>ps_info := (ps_info st)\<lparr>nr_revokes := nr_revokes (ps_info st) + 1\<rparr>\<rparr>))
      else Inr (0, st))"
  by pat_completeness auto

termination
  by (relation "measure (\<lambda>(E, j, d, seqn, mx, offset, st). mx - offset)")
    (auto simp: revoke_record_size_def)

declare scan_revoke_loop.simps [simp del]

definition scan_revoke_records ::
    "env \<Rightarrow> block_data \<Rightarrow> tid_t \<Rightarrow> pass_state \<Rightarrow> (int \<times> pass_state) res" where
  "scan_revoke_records E d seqn st =
     (let s = ps_state st; rcount = unat (be32_at d 12) in
      if \<not> jbd2_descriptor_block_csum_verify E s d then Inr (- EBADMSG, st)
      else if rcount > j_blocksize s - csum_size s then Inr (- EINVAL, st)
      else scan_revoke_loop E s d seqn rcount 16 st)"

section \<open>Replaying the blocks of a descriptor block\<close>

text \<open>
  One iteration of the loop over the tags: the block at \<open>next_log_block\<close> is written to its place
  in the file system unless it cannot be read, is revoked, or has a wrong checksum. The only
  failure that ends the pass is that there is no buffer for the file system's block.
\<close>

definition replay_tag ::
    "env \<Rightarrow> block_data \<Rightarrow> nat \<Rightarrow> pass_state \<Rightarrow> (int \<times> pass_state) res" where
  "replay_tag E d off st =
     (let (io_block, st) = next_block st in
      bind_res (ps_jread E st io_block) (\<lambda>(err, obh, st).
        if err \<noteq> 0 then Inr (0, st\<lparr>ps_success := err\<rparr>)
        else let s = ps_state st; blocknr = read_tag_block s d off in
          bind_res (jbd2_vmsep_journal_test_revoke s blocknr (ps_commit_ID st)) (\<lambda>revoked.
            if revoked
            then Inr (0, st\<lparr>ps_info := (ps_info st)\<lparr>nr_revoke_hits := nr_revoke_hits (ps_info st) + 1\<rparr>\<rparr>)
            else if \<not> jbd2_block_tag_csum_verify E s d off obh (be32_at d 8)
            then Inr (0, st\<lparr>ps_success := - EBADMSG, ps_block_error := True\<rparr>)
            else if \<not> fs_getblk E blocknr then Inr (- ENOMEM, st)
            else let data = (if tag_flags d off AND JBD2_FLAG_ESCAPE \<noteq> 0
                             then store_bytes obh 0 (be_enc 4 (unat JBD2_MAGIC_NUMBER)) else obh)
                 in Inr (0, st\<lparr>ps_fs := (blocknr, data) # ps_fs st,
                               ps_info := (ps_info st)\<lparr>nr_replays := nr_replays (ps_info st) + 1\<rparr>\<rparr>))))"

function replay_loop ::
    "env \<Rightarrow> jstate \<Rightarrow> block_data \<Rightarrow> nat \<Rightarrow> pass_state \<Rightarrow> (int \<times> pass_state) res" where
  "replay_loop E j d off st =
     (if off + journal_vmsep_tag_bytes j \<le> j_blocksize j - csum_size j
      then bind_res (replay_tag E d off st) (\<lambda>(err, st).
             if err \<noteq> 0 then Inr (err, st)
             else if tag_flags d off AND JBD2_FLAG_LAST_TAG \<noteq> 0 then Inr (0, st)
             else replay_loop E j d (next_tag j d off) st)
      else Inr (0, st))"
  by pat_completeness auto

termination
  by (relation "measure (\<lambda>(E, j, d, off, st). j_blocksize j - off)") (simp_all add: next_tag_measure)

declare replay_loop.simps [simp del]

section \<open>One pass over the log\<close>

text \<open>The cases of the \<open>switch\<close> on the block type, for a block with the expected sequence number.\<close>

definition descriptor_step ::
    "env \<Rightarrow> passtype \<Rightarrow> block_data \<Rightarrow> pass_state \<Rightarrow> step_result res" where
  "descriptor_step E pass d st =
     (let s = ps_state st in
      if jbd2_journal_has_csum_v2or3 s \<and> \<not> jbd2_descriptor_block_csum_verify E s d
      then Inr (Failed (- EBADMSG) st)
      else if pass \<noteq> PASS_REPLAY
      then if pass = PASS_SCAN \<and> jbd2_has_feature_checksum s \<and> end_transaction (ps_info st) = 0
           then bind_res (calc_chksums E d st) (\<lambda>(_, st). Inr (Continue st))
           else Inr (Continue (st\<lparr>ps_log_block :=
                  log_wrap s (ps_log_block st + of_nat (count_tags s d))\<rparr>))
      else bind_res (replay_loop E s d 12 st) (\<lambda>(err, st).
             if err \<noteq> 0 then Inr (Failed err st) else Inr (Continue st)))"

text \<open>
  \<open>commit_chksum_step\<close> is the check of the version 1 checksum of a commit block, and
  \<open>commit_block_step\<close> what follows it. The result \<open>None\<close> is a \<open>break\<close> out of the \<open>switch\<close>.
\<close>

definition set_end :: "tid_t \<Rightarrow> pass_state \<Rightarrow> pass_state" where
  "set_end tid st = st\<lparr>ps_info := (ps_info st)\<lparr>end_transaction := tid\<rparr>\<rparr>"

definition set_failed_commit :: "tid_t \<Rightarrow> pass_state \<Rightarrow> pass_state" where
  "set_failed_commit tid st = st\<lparr>ps_state := (ps_state st)\<lparr>j_failed_commit := tid\<rparr>\<rparr>"

definition commit_chksum_step :: "block_data \<Rightarrow> pass_state \<Rightarrow> bool \<times> pass_state" where
  "commit_chksum_step d st =
     (let found_chksum = be32_at d 16; chksum_type = d ! 12; chksum_size = d ! 13;
          tid = ps_commit_ID st in
      if end_transaction (ps_info st) \<noteq> 0
      then (True, set_failed_commit (end_transaction (ps_info st)) st)
      else let chksum_err =
             (if ps_crc32_sum st = found_chksum \<and> chksum_type = 1 \<and> chksum_size = 4 then False
              else \<not> (chksum_type = 0 \<and> chksum_size = 0 \<and> found_chksum = 0))
           in if chksum_err
              then let st = set_end tid st in
                   if \<not> jbd2_has_feature_async_commit (ps_state st)
                   then (True, set_failed_commit tid st)
                   else (False, st\<lparr>ps_crc32_sum := - 1\<rparr>)
              else (False, st\<lparr>ps_crc32_sum := - 1\<rparr>))"

definition commit_block_step :: "env \<Rightarrow> passtype \<Rightarrow> block_data \<Rightarrow> pass_state \<Rightarrow> pass_state" where
  "commit_block_step E pass d st =
     (if pass = PASS_SCAN \<and> \<not> jbd2_commit_block_csum_verify E (ps_state st) d
      then let tid = ps_commit_ID st; st = set_end tid st in
           if \<not> jbd2_has_feature_async_commit (ps_state st) then set_failed_commit tid st
           else st\<lparr>ps_commit_ID := ps_commit_ID st + 1\<rparr>
      else st\<lparr>ps_commit_ID := ps_commit_ID st + 1\<rparr>)"

definition commit_step :: "env \<Rightarrow> passtype \<Rightarrow> block_data \<Rightarrow> pass_state \<Rightarrow> pass_state" where
  "commit_step E pass d st =
     (if pass = PASS_SCAN \<and> jbd2_has_feature_checksum (ps_state st)
      then let (stop, st) = commit_chksum_step d st
           in if stop then st else commit_block_step E pass d st
      else commit_block_step E pass d st)"

definition pass_step :: "env \<Rightarrow> passtype \<Rightarrow> pass_state \<Rightarrow> step_result res" where
  "pass_step E pass st =
     (if pass \<noteq> PASS_SCAN \<and> tid_geq (ps_commit_ID st) (end_transaction (ps_info st))
      then Inr (Done st)
      else bind_res (ps_jread E st (ucast (ps_log_block st))) (\<lambda>(err, d, st).
        if err \<noteq> 0 then Inr (Failed err st)
        else let (_, st) = next_block st; blocktype = be32_at d 4 in
          if be32_at d 0 \<noteq> JBD2_MAGIC_NUMBER then Inr (Done st)
          else if be32_at d 8 \<noteq> ps_commit_ID st then Inr (Done st)
          else if blocktype = JBD2_DESCRIPTOR_BLOCK then descriptor_step E pass d st
          else if blocktype = JBD2_COMMIT_BLOCK then Inr (Continue (commit_step E pass d st))
          else if blocktype = JBD2_REVOKE_BLOCK
          then if pass \<noteq> PASS_REVOKE then Inr (Continue st)
               else bind_res (scan_revoke_records E d (ps_commit_ID st) st) (\<lambda>(err, st).
                 if err \<noteq> 0 then Inr (Failed err st) else Inr (Continue st))
          else Inr (Done st)))"

text \<open>What follows the loop: the label \<open>done\<close>, or the label \<open>failed\<close>.\<close>

definition pass_done :: "passtype \<Rightarrow> pass_state \<Rightarrow> int \<times> pass_state" where
  "pass_done pass st =
     (let st = (if pass = PASS_SCAN
                then if end_transaction (ps_info st) = 0 then set_end (ps_commit_ID st) st else st
                else if end_transaction (ps_info st) \<noteq> ps_commit_ID st \<and> ps_success st = 0
                then st\<lparr>ps_success := - EIO\<rparr> else st)
      in (if ps_block_error st \<and> ps_success st = 0 then - EIO else ps_success st, st))"

partial_function (option) pass_loop ::
    "env \<Rightarrow> passtype \<Rightarrow> pass_state \<Rightarrow> (int \<times> pass_state) res option" where
  "pass_loop E pass st =
     (case pass_step E pass st of
        Inl e \<Rightarrow> Some (Inl e)
      | Inr (Continue st) \<Rightarrow> pass_loop E pass st
      | Inr (Done st) \<Rightarrow> Some (Inr (pass_done pass st))
      | Inr (Failed err st) \<Rightarrow> Some (Inr (err, st)))"

definition pass_start :: "passtype \<Rightarrow> jstate \<Rightarrow> recovery_info \<Rightarrow> (u64 \<times> block_data) list \<Rightarrow> pass_state" where
  "pass_start pass s info fs =
     (let first_commit_ID = s_sequence (j_superblock s)
      in \<lparr>ps_state = s,
          ps_info = (if pass = PASS_SCAN then info\<lparr>start_transaction := first_commit_ID\<rparr> else info),
          ps_commit_ID = first_commit_ID, ps_log_block = ucast (s_start (j_superblock s)),
          ps_crc32_sum = - 1, ps_success = 0, ps_block_error = False, ps_fs = fs\<rparr>)"

definition do_one_pass ::
    "env \<Rightarrow> jstate \<Rightarrow> recovery_info \<Rightarrow> (u64 \<times> block_data) list \<Rightarrow> passtype \<Rightarrow>
      (int \<times> pass_state) res option" where
  "do_one_pass E s info fs pass = pass_loop E pass (pass_start pass s info fs)"

section \<open>Recovery\<close>

definition info0 :: recovery_info where
  "info0 = \<lparr>start_transaction = 0, end_transaction = 0, nr_replays = 0, nr_revokes = 0,
     nr_revoke_hits = 0\<rparr>"

text \<open>The next pass runs if the passes before it returned 0.\<close>

definition then_pass ::
    "env \<Rightarrow> passtype \<Rightarrow> (int \<times> pass_state) res option \<Rightarrow> (int \<times> pass_state) res option" where
  "then_pass E pass r =
     (case r of
        Some (Inr (err, st)) \<Rightarrow>
          if err = 0 then do_one_pass E (ps_state st) (ps_info st) (ps_fs st) pass else r
      | _ \<Rightarrow> r)"

definition recover_finish :: "env \<Rightarrow> int \<Rightarrow> pass_state \<Rightarrow> (int \<times> pass_state) res" where
  "recover_finish E err st =
     (let st = set_end (end_transaction (ps_info st) + 1) st;
          s = (ps_state st)\<lparr>j_transaction_sequence := end_transaction (ps_info st)\<rparr>
      in bind_res (jbd2_vmsep_journal_clear_revoke s) (\<lambda>s.
           let err = (if err = 0 then sync_blockdev E else err);
               err = (if JBD2_BARRIER \<in> j_flags s \<and> err = 0 then issue_flush E else err)
           in Inr (err, st\<lparr>ps_state := s\<rparr>)))"

text \<open>The log is read from the device as it is before recovery: the blocks that replay writes to the file system are collected in
  \<open>ps_fs\<close> and are taken not to be blocks of the log.\<close>

definition jbd2_vmsep_journal_recover :: "env \<Rightarrow> jstate \<Rightarrow> (int \<times> pass_state) res option" where
  "jbd2_vmsep_journal_recover E s =
     (let sb = j_superblock s in
      if s_start sb = 0
      then Some (Inr (0, pass_start PASS_SCAN (s\<lparr>j_transaction_sequence := s_sequence sb + 1\<rparr>) info0 []))
      else case then_pass E PASS_REPLAY (then_pass E PASS_REVOKE (do_one_pass E s info0 [] PASS_SCAN)) of
        Some (Inr (err, st)) \<Rightarrow> Some (recover_finish E err st)
      | r \<Rightarrow> r)"

definition jbd2_vmsep_journal_skip_recovery :: "env \<Rightarrow> jstate \<Rightarrow> (int \<times> jstate) res option" where
  "jbd2_vmsep_journal_skip_recovery E s =
     (case do_one_pass E s info0 [] PASS_SCAN of
        None \<Rightarrow> None
      | Some (Inl e) \<Rightarrow> Some (Inl e)
      | Some (Inr (err, st)) \<Rightarrow>
          let s = ps_state st;
              s = (if err \<noteq> 0 then s\<lparr>j_transaction_sequence := j_transaction_sequence s + 1\<rparr>
                   else s\<lparr>j_transaction_sequence := end_transaction (ps_info st) + 1\<rparr>)
          in Some (Inr (err, s\<lparr>j_tail := 0\<rparr>)))"

end
