(* ===== verification/Jbd2_Super.thy ===== *)
theory Jbd2_Super
  imports Jbd2_Recovery
begin

text \<open>
  The superblock and the features of a journal, \<open>kernel/fs/jbd2/journal.c\<close>: validating and loading
  the superblock, testing, setting and clearing features, loading a journal (which recovers it
  and resets the log) and wiping one.
\<close>

unbundle bit_operations_syntax

section \<open>Reading the superblock\<close>

definition jbd2_verify_csum_type :: "jstate \<Rightarrow> bool" where
  "jbd2_verify_csum_type s =
     (if \<not> jbd2_journal_has_csum_v2or3_feature s then True
      else s_checksum_type (j_superblock s) = 4)"

definition jbd2_superblock_csum_verify :: "env \<Rightarrow> jstate \<Rightarrow> bool" where
  "jbd2_superblock_csum_verify E s =
     (if \<not> jbd2_journal_has_csum_v2or3 s then True
      else s_checksum (j_superblock s) = sb_csum E ((j_superblock s)\<lparr>s_checksum := 0\<rparr>))"

text \<open>The checks of \<open>journal_get_superblock\<close> on a superblock that has been read.\<close>

definition format_of :: "journal_superblock \<Rightarrow> int option" where
  "format_of sb = (if s_blocktype sb = JBD2_SUPERBLOCK_V1 then Some 1
     else if s_blocktype sb = JBD2_SUPERBLOCK_V2 then Some 2 else None)"

definition check_superblock :: "env \<Rightarrow> jstate \<Rightarrow> int \<times> jstate" where
  "check_superblock E s =
     (let sb = j_superblock s in
      if s_magic sb \<noteq> JBD2_MAGIC_NUMBER \<or> s_blocksize sb \<noteq> of_nat (j_blocksize s)
      then (- EINVAL, s)
      else case format_of sb of
        None \<Rightarrow> (- EINVAL, s)
      | Some version \<Rightarrow>
          let s = s\<lparr>j_format_version := version\<rparr> in
          if s_maxlen sb > j_maxlen s then (- EINVAL, s)
          else let s = (if s_maxlen sb < j_maxlen s then s\<lparr>j_maxlen := s_maxlen sb\<rparr> else s) in
            if s_first sb = 0 \<or> s_first sb \<ge> j_maxlen s then (- EINVAL, s)
            else if jbd2_has_feature_csum2 s \<and> jbd2_has_feature_csum3 s then (- EINVAL, s)
            else if jbd2_journal_has_csum_v2or3_feature s \<and> jbd2_has_feature_checksum s
            then (- EINVAL, s)
            else if \<not> jbd2_verify_csum_type s then (- EINVAL, s)
            else if jbd2_journal_has_csum_v2or3_feature s \<and> shash_alloc E \<noteq> 0
            then (shash_alloc E, s\<lparr>j_chksum_driver := False\<rparr>)
            else let s = (if jbd2_journal_has_csum_v2or3_feature s then s\<lparr>j_chksum_driver := True\<rparr>
                          else s) in
              if \<not> jbd2_superblock_csum_verify E s then (- EBADMSG, s)
              else (0, (if jbd2_journal_has_csum_v2or3 s
                        then s\<lparr>j_csum_seed := chksum E (- 1) (s_uuid sb)\<rparr> else s)
                       \<lparr>j_sb_verified := True\<rparr>))"

definition journal_get_superblock :: "env \<Rightarrow> jstate \<Rightarrow> (int \<times> jstate) res" where
  "journal_get_superblock E s =
     J_ASSERT (j_sb_buffer s)
       (let s = (if j_sb_uptodate s then s else s\<lparr>j_sb_uptodate := sb_read E\<rparr>) in
        if \<not> j_sb_uptodate s then Inr (- EIO, journal_fail_superblock s)
        else if j_sb_verified s then Inr (0, s)
        else let (err, s) = check_superblock E s
             in if err = 0 then Inr (0, s) else Inr (err, journal_fail_superblock s))"

definition load_superblock :: "env \<Rightarrow> jstate \<Rightarrow> (int \<times> jstate) res" where
  "load_superblock E s =
     bind_res (journal_get_superblock E s) (\<lambda>(err, s).
       if err \<noteq> 0 then Inr (err, s)
       else let sb = j_superblock s
            in Inr (0, s\<lparr>j_tail_sequence := s_sequence sb, j_tail := ucast (s_start sb),
                         j_first := ucast (s_first sb), j_last := ucast (s_maxlen sb),
                         j_errno := s_errno sb\<rparr>))"

section \<open>Features\<close>

abbreviation JBD2_KNOWN_COMPAT_FEATURES :: u32 where "JBD2_KNOWN_COMPAT_FEATURES \<equiv> 1"
abbreviation JBD2_KNOWN_ROCOMPAT_FEATURES :: u32 where "JBD2_KNOWN_ROCOMPAT_FEATURES \<equiv> 0"
abbreviation JBD2_KNOWN_INCOMPAT_FEATURES :: u32 where "JBD2_KNOWN_INCOMPAT_FEATURES \<equiv> 31"

definition jbd2_vmsep_journal_check_used_features ::
    "env \<Rightarrow> jstate \<Rightarrow> u32 \<Rightarrow> u32 \<Rightarrow> u32 \<Rightarrow> (bool \<times> jstate) res" where
  "jbd2_vmsep_journal_check_used_features E s cpt ro icpt =
     (if cpt = 0 \<and> ro = 0 \<and> icpt = 0 then Inr (True, s)
      else bind_res (if j_format_version s = 0 then journal_get_superblock E s else Inr (0, s))
        (\<lambda>(err, s).
          if err \<noteq> 0 then Inr (False, s)
          else if j_format_version s = 1 then Inr (False, s)
          else let sb = j_superblock s
               in Inr (s_feature_compat sb AND cpt = cpt \<and>
                       s_feature_ro_compat sb AND ro = ro \<and>
                       s_feature_incompat sb AND icpt = icpt, s)))"

definition jbd2_vmsep_journal_check_available_features ::
    "jstate \<Rightarrow> u32 \<Rightarrow> u32 \<Rightarrow> u32 \<Rightarrow> bool" where
  "jbd2_vmsep_journal_check_available_features s cpt ro icpt =
     (if cpt = 0 \<and> ro = 0 \<and> icpt = 0 then True
      else if j_format_version s \<noteq> 2 then False
      else cpt AND JBD2_KNOWN_COMPAT_FEATURES = cpt \<and>
           ro AND JBD2_KNOWN_ROCOMPAT_FEATURES = ro \<and>
           icpt AND JBD2_KNOWN_INCOMPAT_FEATURES = icpt)"

text \<open>Which features \<open>jbd2_vmsep_journal_set_features\<close> turns on for a request.\<close>

definition wanted_incompat :: "u32 \<Rightarrow> u32" where
  "wanted_incompat icpt =
     (if icpt AND JBD2_FEATURE_INCOMPAT_CSUM_V2 \<noteq> 0
      then (icpt AND NOT JBD2_FEATURE_INCOMPAT_CSUM_V2) OR JBD2_FEATURE_INCOMPAT_CSUM_V3
      else icpt)"

definition wanted_compat :: "u32 \<Rightarrow> u32 \<Rightarrow> u32" where
  "wanted_compat cpt icpt =
     (if icpt AND JBD2_FEATURE_INCOMPAT_CSUM_V3 \<noteq> 0 \<and> cpt AND JBD2_FEATURE_COMPAT_CHECKSUM \<noteq> 0
      then cpt AND NOT JBD2_FEATURE_COMPAT_CHECKSUM else cpt)"

text \<open>Enabling the version 3 checksums: \<open>False\<close> when the checksum driver cannot be loaded.\<close>

definition enable_csum_v3 :: "env \<Rightarrow> jstate \<Rightarrow> bool \<times> jstate" where
  "enable_csum_v3 E s =
     (let sb = j_superblock s;
          s = s\<lparr>j_superblock := sb\<lparr>s_checksum_type := 4,
                 s_feature_compat := s_feature_compat sb AND NOT JBD2_FEATURE_COMPAT_CHECKSUM\<rparr>\<rparr>
      in if j_chksum_driver s then (True, s)
         else if shash_alloc E \<noteq> 0 then (False, s)
         else (True, s\<lparr>j_chksum_driver := True, j_csum_seed := chksum E (- 1) (s_uuid sb)\<rparr>))"

definition turn_on :: "u32 \<Rightarrow> u32 \<Rightarrow> u32 \<Rightarrow> jstate \<Rightarrow> jstate" where
  "turn_on cpt ro icpt s =
     (let sb = j_superblock s;
          sb = (if cpt AND JBD2_FEATURE_COMPAT_CHECKSUM \<noteq> 0 \<and>
                   s_feature_compat sb AND JBD2_FEATURE_COMPAT_CHECKSUM = 0
                then sb\<lparr>s_feature_incompat := s_feature_incompat sb AND
                       NOT (JBD2_FEATURE_INCOMPAT_CSUM_V2 OR JBD2_FEATURE_INCOMPAT_CSUM_V3)\<rparr>
                else sb)
      in s\<lparr>j_superblock := sb\<lparr>s_feature_compat := s_feature_compat sb OR cpt,
             s_feature_ro_compat := s_feature_ro_compat sb OR ro,
             s_feature_incompat := s_feature_incompat sb OR icpt\<rparr>\<rparr>)"

definition jbd2_vmsep_journal_set_features ::
    "env \<Rightarrow> jstate \<Rightarrow> u32 \<Rightarrow> u32 \<Rightarrow> u32 \<Rightarrow> (bool \<times> jstate) res" where
  "jbd2_vmsep_journal_set_features E s cpt ro icpt =
     bind_res (jbd2_vmsep_journal_check_used_features E s cpt ro icpt) (\<lambda>(used, s).
       if used then Inr (True, s)
       else if \<not> jbd2_vmsep_journal_check_available_features s cpt ro icpt then Inr (False, s)
       else let icpt = wanted_incompat icpt; cpt = wanted_compat cpt icpt;
                (ok, s) = (if icpt AND JBD2_FEATURE_INCOMPAT_CSUM_V3 \<noteq> 0 \<and>
                              s_feature_incompat (j_superblock s) AND JBD2_FEATURE_INCOMPAT_CSUM_V3 = 0
                           then enable_csum_v3 E s else (True, s))
            in if \<not> ok then Inr (False, s) else Inr (True, turn_on cpt ro icpt s))"

definition jbd2_vmsep_journal_clear_features :: "jstate \<Rightarrow> u32 \<Rightarrow> u32 \<Rightarrow> u32 \<Rightarrow> jstate" where
  "jbd2_vmsep_journal_clear_features s cpt ro icpt =
     (let sb = j_superblock s
      in s\<lparr>j_superblock := sb\<lparr>s_feature_compat := s_feature_compat sb AND NOT cpt,
             s_feature_ro_compat := s_feature_ro_compat sb AND NOT ro,
             s_feature_incompat := s_feature_incompat sb AND NOT icpt\<rparr>\<rparr>)"

section \<open>Memory for copies of blocks\<close>

text \<open>
  \<open>slabs\<close> says which of the eight caches exist, and \<open>mem\<close> whether a new one can be created. The
  page size is 4096.
\<close>

definition order_base_2 :: "nat \<Rightarrow> int" where
  "order_base_2 n = (if n > 1 then int (shift_loop (n - 1) 0) + 1 else 0)"

definition jbd2_journal_create_slab :: "bool \<Rightarrow> (nat \<Rightarrow> bool) \<Rightarrow> nat \<Rightarrow> int \<times> (nat \<Rightarrow> bool)" where
  "jbd2_journal_create_slab mem slabs sz =
     (let i = order_base_2 sz - 10 in
      if sz = 4096 then (0, slabs)
      else if i \<ge> 8 then (- EINVAL, slabs)
      else let i = nat i in
        if slabs i then (0, slabs)
        else if mem then (0, slabs(i := True)) else (- ENOMEM, slabs))"

definition get_slab :: "(nat \<Rightarrow> bool) \<Rightarrow> nat \<Rightarrow> nat res" where
  "get_slab slabs sz =
     (let i = order_base_2 sz - 10
      in J_ASSERT (\<not> i \<ge> 8) (J_ASSERT (slabs (nat i)) (Inr (nat i))))"

section \<open>Loading a journal\<close>

definition jbd2_vmsep_journal_load ::
    "env \<Rightarrow> (nat \<Rightarrow> bool) \<Rightarrow> int \<Rightarrow> jstate \<Rightarrow> (int \<times> jstate \<times> (u64 \<times> block_data) list) res option" where
  "jbd2_vmsep_journal_load E slabs thread_err s =
     bind_ro (Some (load_superblock E s)) (\<lambda>(err, s).
       let sb = j_superblock s in
       if err \<noteq> 0 then Some (Inr (err, s, []))
       else if j_format_version s \<ge> 2 \<and>
               (s_feature_ro_compat sb AND NOT JBD2_KNOWN_ROCOMPAT_FEATURES \<noteq> 0 \<or>
                s_feature_incompat sb AND NOT JBD2_KNOWN_INCOMPAT_FEATURES \<noteq> 0)
       then Some (Inr (- EINVAL, s, []))
       else let err = fst (jbd2_journal_create_slab (mem_alloc E) slabs (unat (s_blocksize sb))) in
         if err \<noteq> 0 then Some (Inr (err, s, []))
         else bind_ro (jbd2_vmsep_journal_recover E s) (\<lambda>(err, st).
           let s = ps_state st; fs = ps_fs st in
           if err \<noteq> 0 then Some (Inr (- EIO, s, fs))
           else if j_failed_commit s \<noteq> 0 then Some (Inr (- EUCLEAN, s, fs))
           else bind_ro (Some (journal_reset (sb_csum E) thread_err s)) (\<lambda>(err, s).
             if err \<noteq> 0 then Some (Inr (- EIO, s, fs))
             else Some (Inr (0, s\<lparr>j_flags := insert JBD2_LOADED (j_flags s - {JBD2_ABORT})\<rparr>, fs)))))"

definition jbd2_vmsep_journal_wipe :: "env \<Rightarrow> jstate \<Rightarrow> bool \<Rightarrow> (int \<times> jstate) res option" where
  "jbd2_vmsep_journal_wipe E s wr =
     bind_ro (Some (J_ASSERT (JBD2_LOADED \<notin> j_flags s) (load_superblock E s))) (\<lambda>(err, s).
       if err \<noteq> 0 then Some (Inr (err, s))
       else if j_tail s = 0 then Some (Inr (err, s))
       else bind_ro (jbd2_vmsep_journal_skip_recovery E s) (\<lambda>(err, s).
         if wr then bind_ro (Some (jbd2_mark_journal_empty (sb_csum E) s)) (\<lambda>s. Some (Inr (err, s)))
         else Some (Inr (err, s))))"

end
