(* ===== verification/Jbd2_Transaction.thy ===== *)
theory Jbd2_Transaction
  imports Jbd2_Checkpoint Jbd2_Super
begin

text \<open>
  Handles and transactions, \<open>kernel/fs/jbd2/transaction.c\<close>: creating transactions, the credit
  accounting, starting, extending, restarting and stopping handles, the accesses to buffers
  (write, create and undo access), marking metadata dirty on behalf of an inode, forgetting and
  revoking buffers, the inodes of a transaction, and discarding the buffers of truncated pages.
  A handle is a value that the operations take and return. Its reserved handle
  (\<open>h_rsv_handle\<close>) is the number of its credits. An operation that waits takes the parameter
  \<open>K\<close> of \<open>wait_until\<close>.
\<close>

section \<open>Creating a transaction\<close>

definition zeroed_transaction :: transaction_t where
  "zeroed_transaction = \<lparr>t_tid = 0, t_state = T_RUNNING, t_log_start = 0, t_nr_buffers = 0,
     t_reserved_list = [], t_buffers = [], t_forget = [], t_checkpoint_list = [],
     t_checkpoint_io_list = [], t_shadow_list = [], t_inode_list = [], t_start = 0,
     t_requested = 0, t_expires = 0, cs_chp_time = 0, cs_forced_to_close = 0, cs_written = 0,
     cs_dropped = 0, t_updates = 0, t_outstanding_credits = 0, t_handle_count = 0,
     t_synchronous_commit = False, t_need_data_flush = False, ino_sync = 0\<rparr>"

text \<open>\<open>kmem_cache_zalloc(transaction_cache)\<close>\<close>

definition zalloc_transaction :: "jstate \<Rightarrow> trp \<times> jstate" where
  "zalloc_transaction s =
     (next_tr s, s\<lparr>trs := (trs s)(next_tr s \<mapsto> zeroed_transaction), next_tr := next_tr s + 1\<rparr>)"

definition jbd2_get_transaction :: "jstate \<Rightarrow> trp \<Rightarrow> jstate res" where
  "jbd2_get_transaction s t =
     with_tr s t (\<lambda>_.
       let tid = j_transaction_sequence s;
           s = upd_tr t (\<lambda>tr. tr\<lparr>t_state := T_RUNNING, t_tid := tid,
                 t_expires := jiffies s + j_commit_interval s, t_updates := 0,
                 t_outstanding_credits := j_reserved_credits s, t_handle_count := 0,
                 t_inode_list := []\<rparr>) (s\<lparr>j_transaction_sequence := tid + 1\<rparr>)
       in J_ASSERT (j_running_transaction s = None)
            (Inr (upd_tr t (\<lambda>tr. tr\<lparr>t_start := jiffies s, t_requested := 0\<rparr>)
                   (s\<lparr>j_running_transaction := Some t\<rparr>))))"

text \<open>\<open>alloc_new_transaction\<close> does not check the result of the allocation.\<close>

definition alloc_new_transaction :: "env \<Rightarrow> jstate \<Rightarrow> (trp \<times> jstate) res" where
  "alloc_new_transaction E s =
     (if \<not> mem_alloc E then Inl OOPS
      else let (t, s) = zalloc_transaction s
           in bind_res (jbd2_get_transaction s t) (\<lambda>s. Inr (t, s)))"

section \<open>Credits\<close>

definition wait_transaction_locked :: "(jstate \<Rightarrow> jstate res) \<Rightarrow> jstate \<Rightarrow> jstate res" where
  "wait_transaction_locked K s =
     deref (j_running_transaction s) OOPS (\<lambda>t. with_tr s t (\<lambda>tr.
       bind_res (if \<not> tid_geq (j_commit_request s) (t_tid tr)
                 then jbd2_vmsep_log_start_commit s (t_tid tr) 0 else Inr (0, s)) (\<lambda>(_, s). K s)))"

definition sub_reserved_credits :: "jstate \<Rightarrow> int \<Rightarrow> jstate" where
  "sub_reserved_credits s blocks = s\<lparr>j_reserved_credits := j_reserved_credits s - blocks\<rparr>"

definition add_credits :: "trp \<Rightarrow> int \<Rightarrow> jstate \<Rightarrow> jstate" where
  "add_credits t n s =
     upd_tr t (\<lambda>tr. tr\<lparr>t_outstanding_credits := t_outstanding_credits tr + n\<rparr>) s"

definition log_space_short :: "jstate \<Rightarrow> bool res" where
  "log_space_short s =
     bind_res (jbd2_log_space_left s) (\<lambda>left. Inr (left < word_of_int (jbd2_space_needed s)))"

text \<open>The result \<open>True\<close> stands for 1: the caller had to wait and must retry.\<close>

definition add_transaction_credits ::
    "env \<Rightarrow> (jstate \<Rightarrow> jstate res) \<Rightarrow> jstate \<Rightarrow> int \<Rightarrow> int \<Rightarrow> (bool \<times> jstate) res option" where
  "add_transaction_credits E K s blocks rsv_blocks =
     (let total = blocks + rsv_blocks; mx = j_max_transaction_buffers s in
      case j_running_transaction s of
        None \<Rightarrow> Some (Inl OOPS)
      | Some t \<Rightarrow> bind_ro (Some (with_tr s t (\<lambda>tr. Inr tr))) (\<lambda>tr.
          if t_state tr = T_LOCKED
          then bind_ro (Some (wait_transaction_locked K s)) (\<lambda>s. Some (Inr (True, s)))
          else if t_outstanding_credits tr + total > mx
          then if j_reserved_credits s + total > mx
               then bind_ro (wait_until K (\<lambda>s. j_reserved_credits s + total \<le> j_max_transaction_buffers s) s)
                      (\<lambda>s. Some (Inr (True, s)))
               else bind_ro (Some (wait_transaction_locked K s)) (\<lambda>s. Some (Inr (True, s)))
          else let s = add_credits t total s in
            bind_ro (Some (log_space_short s)) (\<lambda>short.
              if short
              then let s = add_credits t (- total) s in
                   bind_ro (Some (log_space_short s)) (\<lambda>short.
                     bind_ro (if short then log_wait_for_space E K s else Some (Inr s)) (\<lambda>s.
                       Some (Inr (True, s))))
              else if rsv_blocks = 0 then Some (Inr (False, s))
              else if j_reserved_credits s + rsv_blocks > mx div 2
              then let s = add_credits t (- total) s in
                   bind_ro (wait_until K (\<lambda>s. j_reserved_credits s + rsv_blocks
                                           \<le> j_max_transaction_buffers s div 2) s)
                     (\<lambda>s. Some (Inr (True, s)))
              else Some (Inr (False, s\<lparr>j_reserved_credits := j_reserved_credits s + rsv_blocks\<rparr>)))))"

section \<open>Starting a handle\<close>

text \<open>
  The local state of \<open>start_this_handle\<close>: the journal, the handle and the transaction allocated in
  advance. A step runs from the label \<open>repeat\<close> (with \<open>alloc\<close>: from \<open>alloc_transaction\<close>) until the
  next jump back or the end.
\<close>

record starter =
  sh_state :: jstate
  sh_handle :: handle_t
  sh_new :: "trp option"

definition free_new :: "starter \<Rightarrow> starter" where
  "free_new c = (case sh_new c of None \<Rightarrow> c
     | Some t \<Rightarrow> c\<lparr>sh_state := jbd2_vmsep_journal_free_transaction (sh_state c) t, sh_new := None\<rparr>)"

definition join_transaction :: "trp \<Rightarrow> starter \<Rightarrow> starter" where
  "join_transaction t c =
     (let s = upd_tr t (\<lambda>tr. tr\<lparr>t_updates := t_updates tr + 1, t_handle_count := t_handle_count tr + 1\<rparr>)
                (sh_state c);
          h = (sh_handle c)\<lparr>h_transaction := Some t,
                             h_requested_credits := h_buffer_credits (sh_handle c)\<rparr>
      in free_new (c\<lparr>sh_state := s, sh_handle := h\<rparr>))"

datatype start_next = Sh_repeat bool starter | Sh_done int starter

definition start_step ::
    "env \<Rightarrow> (jstate \<Rightarrow> jstate res) \<Rightarrow> starter \<Rightarrow> start_next res option" where
  "start_step E K c =
     (let s = sh_state c; h = sh_handle c in
      if JBD2_UNMOUNT \<in> j_flags s then Some (Inl BUG)
      else if is_journal_aborted s \<or> (j_errno s \<noteq> 0 \<and> JBD2_ACK_ERR \<notin> j_flags s)
      then Some (Inr (Sh_done (- EROFS) (free_new c)))
      else if \<not> h_reserved h \<and> j_barrier_count s \<noteq> 0
      then bind_ro (wait_until K (\<lambda>s. j_barrier_count s = 0) s) (\<lambda>s.
             Some (Inr (Sh_repeat False (c\<lparr>sh_state := s\<rparr>))))
      else case j_running_transaction s of
        None \<Rightarrow>
          (case sh_new c of
             None \<Rightarrow> Some (Inr (Sh_repeat True c))
           | Some t \<Rightarrow>
               if h_reserved h \<or> j_barrier_count s = 0
               then bind_ro (Some (jbd2_get_transaction s t)) (\<lambda>s.
                      Some (Inr (Sh_repeat False (c\<lparr>sh_state := s, sh_new := None\<rparr>))))
               else Some (Inr (Sh_repeat False c)))
      | Some t \<Rightarrow>
          if \<not> h_reserved h
          then bind_ro (add_transaction_credits E K s (h_buffer_credits h)
                  (case h_rsv_credits h of None \<Rightarrow> 0 | Some n \<Rightarrow> n)) (\<lambda>(retry, s).
                 let c = c\<lparr>sh_state := s\<rparr> in
                 Some (Inr (if retry then Sh_repeat False c else Sh_done 0 (join_transaction t c))))
          else let s = sub_reserved_credits s (h_buffer_credits h)
               in Some (Inr (Sh_done 0 (join_transaction t
                    (c\<lparr>sh_state := s, sh_handle := h\<lparr>h_reserved := False\<rparr>\<rparr>)))))"

partial_function (option) start_loop ::
    "env \<Rightarrow> (jstate \<Rightarrow> jstate res) \<Rightarrow> bool \<Rightarrow> starter \<Rightarrow> (int \<times> starter) res option" where
  "start_loop E K alloc c =
     (if alloc \<and> j_running_transaction (sh_state c) = None \<and> \<not> mem_alloc E
      then Some (Inr (- ENOMEM, c))
      else let c = (if alloc \<and> j_running_transaction (sh_state c) = None
                    then let (t, s) = zalloc_transaction (sh_state c)
                         in c\<lparr>sh_state := s, sh_new := Some t\<rparr>
                    else c)
           in case start_step E K c of
                None \<Rightarrow> None
              | Some (Inl e) \<Rightarrow> Some (Inl e)
              | Some (Inr (Sh_repeat alloc c)) \<Rightarrow> start_loop E K alloc c
              | Some (Inr (Sh_done err c)) \<Rightarrow> Some (Inr (err, c)))"

definition start_this_handle ::
    "env \<Rightarrow> (jstate \<Rightarrow> jstate res) \<Rightarrow> jstate \<Rightarrow> handle_t \<Rightarrow> (int \<times> handle_t \<times> jstate) res option" where
  "start_this_handle E K s h =
     (let blocks = h_buffer_credits h;
          rsv_blocks = (case h_rsv_credits h of None \<Rightarrow> 0 | Some n \<Rightarrow> n)
      in if rsv_blocks > j_max_transaction_buffers s div 2 \<or>
            rsv_blocks + blocks > j_max_transaction_buffers s
         then Some (Inr (- ENOSPC, h, s))
         else bind_ro (start_loop E K True \<lparr>sh_state = s, sh_handle = h, sh_new = None\<rparr>) (\<lambda>(err, c).
                Some (Inr (err, sh_handle c, sh_state c))))"

definition new_handle :: "int \<Rightarrow> handle_t" where
  "new_handle nblocks = \<lparr>h_transaction = None, h_rsv_credits = None, h_buffer_credits = nblocks,
     h_ref = 1, h_sync = False, h_reserved = False, h_aborted = False, h_requested_credits = 0\<rparr>"

text \<open>
  \<open>cur\<close> is the current handle of the task; the result is an error or the handle. An allocation
  of a handle fails like the others when \<open>mem_alloc\<close> does not hold.
\<close>

definition journal_start ::
    "env \<Rightarrow> (jstate \<Rightarrow> jstate res) \<Rightarrow> jstate \<Rightarrow> handle_t option \<Rightarrow> int \<Rightarrow> int \<Rightarrow>
      ((int + handle_t) \<times> jstate) res option" where
  "journal_start E K s cur nblocks rsv_blocks =
     (case cur of
        Some h \<Rightarrow> Some (Inr (Inr (h\<lparr>h_ref := h_ref h + 1\<rparr>), s))
      | None \<Rightarrow>
          if \<not> mem_alloc E then Some (Inr (Inl (- ENOMEM), s))
          else let h = new_handle nblocks;
                   h = (if rsv_blocks \<noteq> 0 then h\<lparr>h_rsv_credits := Some rsv_blocks\<rparr> else h)
               in bind_ro (start_this_handle E K s h) (\<lambda>(err, h, s).
                    if err < 0 then Some (Inr (Inl err, s)) else Some (Inr (Inr h, s))))"

definition jbd2_vmsep_journal_start ::
    "env \<Rightarrow> (jstate \<Rightarrow> jstate res) \<Rightarrow> jstate \<Rightarrow> handle_t option \<Rightarrow> int \<Rightarrow>
      ((int + handle_t) \<times> jstate) res option" where
  "jbd2_vmsep_journal_start E K s cur nblocks = journal_start E K s cur nblocks 0"

definition jbd2_vmsep_journal_free_reserved :: "jstate \<Rightarrow> handle_t \<Rightarrow> jstate" where
  "jbd2_vmsep_journal_free_reserved s h = sub_reserved_credits s (h_buffer_credits h)"

section \<open>Stopping, extending and restarting a handle\<close>

definition is_handle_aborted :: "jstate \<Rightarrow> handle_t \<Rightarrow> bool" where
  "is_handle_aborted s h =
     (if h_aborted h \<or> h_transaction h = None then True else is_journal_aborted s)"

definition time_after_eq :: "ulong \<Rightarrow> ulong \<Rightarrow> bool" where
  "time_after_eq a b = (0 \<le> sint (a - b))"

text \<open>
  \<open>jbd2_vmsep_journal_stop\<close>. The result \<open>None\<close> for the handle says that it has been freed. The
  sleep that lets other synchronous handles join the transaction changes no state and is left
  out.
\<close>

definition stop_release :: "handle_t \<Rightarrow> jstate \<Rightarrow> jstate" where
  "stop_release h s =
     (case h_rsv_credits h of None \<Rightarrow> s | Some n \<Rightarrow> sub_reserved_credits s n)"

definition jbd2_vmsep_journal_stop ::
    "env \<Rightarrow> (jstate \<Rightarrow> jstate res) \<Rightarrow> jstate \<Rightarrow> handle_t \<Rightarrow>
      (int \<times> handle_t option \<times> jstate) res option" where
  "jbd2_vmsep_journal_stop E K s h =
     (let h = h\<lparr>h_ref := h_ref h - 1\<rparr> in
      case h_transaction h of
        None \<Rightarrow> Some (Inr (0, if h_ref h > 0 then Some h else None, s))
      | Some t \<Rightarrow> bind_ro (Some (with_tr s t (\<lambda>tr. Inr tr))) (\<lambda>tr.
          let err = (if is_handle_aborted s h then - EIO else 0) in
          if err = 0 \<and> \<not> t_updates tr > 0 then Some (Inl BUG)
          else if h_ref h > 0 then Some (Inr (err, Some h, s))
          else let s = (if h_sync h then upd_tr t (\<lambda>tr. tr\<lparr>t_synchronous_commit := True\<rparr>) s else s);
                   s = add_credits t (- h_buffer_credits h) s;
                   credits = t_outstanding_credits tr - h_buffer_credits h;
                   force = (h_sync h \<or> credits > j_max_transaction_buffers s \<or>
                            time_after_eq (jiffies s) (t_expires tr))
               in bind_ro (Some (if force then jbd2_vmsep_log_start_commit s (t_tid tr) 0 else Inr (0, s)))
                    (\<lambda>(_, s).
                      let wait_for_commit = (force \<and> h_sync h \<and> \<not> pf_memalloc E);
                          s = upd_tr t (\<lambda>tr. tr\<lparr>t_updates := t_updates tr - 1\<rparr>) s
                      in bind_ro (if wait_for_commit then jbd2_vmsep_log_wait_commit K s (t_tid tr)
                                  else Some (Inr (err, s))) (\<lambda>(err, s).
                           Some (Inr (err, None, stop_release h s))))))"

definition jbd2_vmsep_journal_start_reserved ::
    "env \<Rightarrow> (jstate \<Rightarrow> jstate res) \<Rightarrow> jstate \<Rightarrow> handle_t option \<Rightarrow> handle_t \<Rightarrow>
      (int \<times> handle_t option \<times> jstate) res option" where
  "jbd2_vmsep_journal_start_reserved E K s cur h =
     (if \<not> h_reserved h
      then bind_ro (jbd2_vmsep_journal_stop E K s h) (\<lambda>(_, h, s). Some (Inr (- EIO, h, s)))
      else if cur \<noteq> None then Some (Inr (- EIO, None, jbd2_vmsep_journal_free_reserved s h))
      else bind_ro (start_this_handle E K s h) (\<lambda>(ret, h, s).
        if ret < 0 then Some (Inr (ret, None, jbd2_vmsep_journal_free_reserved s h))
        else Some (Inr (0, Some h, s))))"

definition jbd2_vmsep_journal_extend ::
    "jstate \<Rightarrow> handle_t \<Rightarrow> int \<Rightarrow> (int \<times> handle_t \<times> jstate) res" where
  "jbd2_vmsep_journal_extend s h nblocks =
     (if is_handle_aborted s h then Inr (- EROFS, h, s)
      else deref (h_transaction h) OOPS (\<lambda>t. with_tr s t (\<lambda>tr.
        if t_state tr \<noteq> T_RUNNING then Inr (1, h, s)
        else let wanted = t_outstanding_credits tr + nblocks in
          if wanted > j_max_transaction_buffers s then Inr (1, h, s)
          else bind_res (jbd2_log_space_left (add_credits t nblocks s)) (\<lambda>left.
            if word_of_int (wanted + drop_bit 5 wanted) > left then Inr (1, h, s)
            else Inr (0, h\<lparr>h_buffer_credits := h_buffer_credits h + nblocks,
                          h_requested_credits := h_requested_credits h + nblocks\<rparr>,
                      add_credits t nblocks s)))))"

definition jbd2_vmsep_journal_restart ::
    "env \<Rightarrow> (jstate \<Rightarrow> jstate res) \<Rightarrow> jstate \<Rightarrow> handle_t \<Rightarrow> int \<Rightarrow>
      (int \<times> handle_t \<times> jstate) res option" where
  "jbd2_vmsep_journal_restart E K s h nblocks =
     (if is_handle_aborted s h then Some (Inr (0, h, s))
      else case h_transaction h of
        None \<Rightarrow> Some (Inl OOPS)
      | Some t \<Rightarrow> bind_ro (Some (with_tr s t (\<lambda>tr. Inr tr))) (\<lambda>tr.
          if \<not> t_updates tr > 0 then Some (Inl BUG)
          else let s = add_credits t (- h_buffer_credits h) s;
                   s = stop_release h s;
                   s = upd_tr t (\<lambda>tr. tr\<lparr>t_updates := t_updates tr - 1\<rparr>) s;
                   h = h\<lparr>h_transaction := None\<rparr>
               in bind_ro (Some (if \<not> tid_geq (j_commit_request s) (t_tid tr)
                                 then jbd2_vmsep_log_start_commit s (t_tid tr) 0 else Inr (0, s)))
                    (\<lambda>(_, s). start_this_handle E K s (h\<lparr>h_buffer_credits := nblocks\<rparr>))))"

section \<open>Barriers against updates\<close>

definition no_updates :: "jstate \<Rightarrow> bool" where
  "no_updates s =
     (case j_running_transaction s of
        None \<Rightarrow> True
      | Some t \<Rightarrow> (case trs s t of None \<Rightarrow> False | Some tr \<Rightarrow> t_updates tr = 0))"

definition jbd2_vmsep_journal_lock_updates ::
    "(jstate \<Rightarrow> jstate res) \<Rightarrow> jstate \<Rightarrow> jstate res option" where
  "jbd2_vmsep_journal_lock_updates K s =
     bind_ro (wait_until K (\<lambda>s. j_reserved_credits s = 0) (s\<lparr>j_barrier_count := j_barrier_count s + 1\<rparr>))
       (\<lambda>s. wait_until K no_updates s)"

definition jbd2_vmsep_journal_unlock_updates :: "jstate \<Rightarrow> jstate res" where
  "jbd2_vmsep_journal_unlock_updates s =
     J_ASSERT (j_barrier_count s \<noteq> 0) (Inr (s\<lparr>j_barrier_count := j_barrier_count s - 1\<rparr>))"

section \<open>Access to buffers\<close>

definition jbd2_vmsep_buffer_frozen_trigger :: "env \<Rightarrow> nat option \<Rightarrow> block_data \<Rightarrow> block_data" where
  "jbd2_vmsep_buffer_frozen_trigger E triggers d =
     (case triggers of None \<Rightarrow> d | Some k \<Rightarrow> frozen_trigger E k d)"

text \<open>The trigger runs on the buffer's own data, which is then copied.\<close>

definition jbd2_freeze_jh_data :: "env \<Rightarrow> jstate \<Rightarrow> bhp \<Rightarrow> jstate res" where
  "jbd2_freeze_jh_data E s b =
     with_jh s b (\<lambda>jh.
       let d = jbd2_vmsep_buffer_frozen_trigger E (b_triggers jh) (b_data (bhs s b));
           s = upd_bh b (\<lambda>bh. bh\<lparr>b_data := d\<rparr>) s
       in Inr (upd_jh b (\<lambda>jh. jh\<lparr>b_frozen_data := Some d, b_frozen_triggers := b_triggers jh\<rparr>) s))"

text \<open>
  What \<open>do_get_write_access\<close> does to a dirty buffer, under the buffer lock.
\<close>

definition journal_dirty_buffer :: "jstate \<Rightarrow> trp \<Rightarrow> bhp \<Rightarrow> journal_head \<Rightarrow> jstate res" where
  "journal_dirty_buffer s t b jh =
     (if \<not> bh_dirty (bhs s b) then Inr s
      else let s' = upd_bh b (\<lambda>bh. bh\<lparr>bh_dirty := False, bh_jbddirty := True\<rparr>) s in
        case b_transaction jh of
          None \<Rightarrow> Inr s'
        | Some t' \<Rightarrow>
            J_ASSERT (t' = t \<or> Some t' = j_committing_transaction s)
              (J_ASSERT (b_next_transaction jh \<noteq> None \<longrightarrow> b_next_transaction jh = Some t) (Inr s')))"

datatype access_next = Ga_repeat jstate | Ga_done int jstate

definition cancel_and_return :: "env \<Rightarrow> jstate \<Rightarrow> bhp \<Rightarrow> access_next res" where
  "cancel_and_return E s b =
     bind_res (jbd2_vmsep_journal_cancel_revoke E s b) (\<lambda>(_, s). Inr (Ga_done 0 s))"

definition attach_next :: "env \<Rightarrow> jstate \<Rightarrow> trp \<Rightarrow> bhp \<Rightarrow> access_next res" where
  "attach_next E s t b =
     cancel_and_return E (upd_jh b (\<lambda>jh. jh\<lparr>b_next_transaction := Some t\<rparr>) s) b"

text \<open>
  One round of \<open>do_get_write_access\<close> from the label \<open>repeat\<close>. The repetition after the allocation
  of the frozen buffer finds the same state; it is not a round of its own. The repetition after
  the wait for a shadowed buffer is \<open>Ga_repeat\<close>.
\<close>

definition write_access_step ::
    "env \<Rightarrow> jstate \<Rightarrow> handle_t \<Rightarrow> bhp \<Rightarrow> bool \<Rightarrow> access_next res" where
  "write_access_step E s h b force_copy =
     deref (h_transaction h) OOPS (\<lambda>t. with_jh s b (\<lambda>jh.
        bind_res (journal_dirty_buffer s t b jh) (\<lambda>s.
          if is_handle_aborted s h then Inr (Ga_done (- EROFS) s)
          else if b_transaction jh = Some t \<or> b_next_transaction jh = Some t
          then cancel_and_return E s b
          else let s = upd_jh b (\<lambda>jh. jh\<lparr>b_modified := False\<rparr>) s in
            if b_transaction jh = None
            then J_ASSERT (b_next_transaction jh = None)
                   (bind_res (file_buffer s b t BJ_Reserved) (\<lambda>s. cancel_and_return E s b))
            else if b_frozen_data jh \<noteq> None
            then J_ASSERT (b_next_transaction jh = None) (attach_next E s t b)
            else J_ASSERT (b_next_transaction jh = None)
              (J_ASSERT (b_transaction jh = j_committing_transaction s)
                (if bh_shadow (bhs s b) then Inr (Ga_repeat s)
                 else if b_jlist jh = BJ_Metadata \<or> force_copy
                 then bind_res (jbd2_freeze_jh_data E s b) (\<lambda>s. attach_next E s t b)
                 else attach_next E s t b)))))"

partial_function (option) write_access_loop ::
    "env \<Rightarrow> (jstate \<Rightarrow> jstate res) \<Rightarrow> handle_t \<Rightarrow> bhp \<Rightarrow> bool \<Rightarrow> jstate \<Rightarrow> (int \<times> jstate) res option" where
  "write_access_loop E K h b force_copy s =
     (case write_access_step E s h b force_copy of
        Inl e \<Rightarrow> Some (Inl e)
      | Inr (Ga_done err s) \<Rightarrow> Some (Inr (err, s))
      | Inr (Ga_repeat s) \<Rightarrow>
          (case wait_until K (\<lambda>s. \<not> bh_shadow (bhs s b)) s of
             None \<Rightarrow> None
           | Some (Inl e) \<Rightarrow> Some (Inl e)
           | Some (Inr s) \<Rightarrow> write_access_loop E K h b force_copy s))"

definition do_get_write_access ::
    "env \<Rightarrow> (jstate \<Rightarrow> jstate res) \<Rightarrow> handle_t \<Rightarrow> bhp \<Rightarrow> bool \<Rightarrow> jstate \<Rightarrow> (int \<times> jstate) res option" where
  "do_get_write_access E K h b force_copy s =
     (if is_handle_aborted s h then Some (Inr (- EROFS, s))
      else write_access_loop E K h b force_copy s)"

definition jbd2_write_access_granted :: "jstate \<Rightarrow> handle_t \<Rightarrow> bhp \<Rightarrow> bool \<Rightarrow> bool" where
  "jbd2_write_access_granted s h b undo =
     (if bh_dirty (bhs s b) then False
      else case jhs s b of
        None \<Rightarrow> False
      | Some jh \<Rightarrow>
          if undo \<and> b_committed_data jh = None then False
          else if b_transaction jh \<noteq> h_transaction h \<and> b_next_transaction jh \<noteq> h_transaction h then False
          else True)"

definition jbd2_vmsep_journal_get_write_access ::
    "env \<Rightarrow> (jstate \<Rightarrow> jstate res) \<Rightarrow> jstate \<Rightarrow> handle_t \<Rightarrow> bhp \<Rightarrow> (int \<times> jstate) res option" where
  "jbd2_vmsep_journal_get_write_access E K s h b =
     (if jbd2_write_access_granted s h b False then Some (Inr (0, s))
      else bind_ro (Some (jbd2_vmsep_journal_add_journal_head s b)) (\<lambda>s.
        bind_ro (do_get_write_access E K h b False s) (\<lambda>(rc, s).
          bind_ro (Some (jbd2_vmsep_journal_put_journal_head s b)) (\<lambda>s. Some (Inr (rc, s))))))"

definition jbd2_vmsep_journal_get_create_access ::
    "env \<Rightarrow> jstate \<Rightarrow> handle_t \<Rightarrow> bhp \<Rightarrow> (int \<times> jstate) res" where
  "jbd2_vmsep_journal_get_create_access E s h b =
     bind_res (jbd2_vmsep_journal_add_journal_head s b) (\<lambda>s.
       bind_res
         (if is_handle_aborted s h then Inr (- EROFS, s)
          else deref (h_transaction h) OOPS (\<lambda>t. with_jh s b (\<lambda>jh.
            J_ASSERT (b_transaction jh = Some t \<or> b_transaction jh = None \<or>
                (b_transaction jh = j_committing_transaction s \<and> b_jlist jh = BJ_Forget))
              (J_ASSERT (b_next_transaction jh = None) (J_ASSERT (bh_locked (bhs s b))
                (bind_res
                  (if b_transaction jh = None
                   then let s = upd_bh b (\<lambda>bh. bh\<lparr>bh_dirty := False\<rparr>) s;
                            s = upd_jh b (\<lambda>jh. jh\<lparr>b_modified := False\<rparr>) s
                        in file_buffer s b t BJ_Reserved
                   else if b_transaction jh = j_committing_transaction s
                   then Inr (upd_jh b (\<lambda>jh. jh\<lparr>b_modified := False, b_next_transaction := Some t\<rparr>) s)
                   else Inr s) (\<lambda>s.
                  bind_res (jbd2_vmsep_journal_cancel_revoke E s b) (\<lambda>(_, s). Inr (0, s))))))))) (\<lambda>(err, s).
         bind_res (jbd2_vmsep_journal_put_journal_head s b) (\<lambda>s. Inr (err, s))))"

definition jbd2_vmsep_journal_get_undo_access ::
    "env \<Rightarrow> (jstate \<Rightarrow> jstate res) \<Rightarrow> jstate \<Rightarrow> handle_t \<Rightarrow> bhp \<Rightarrow> (int \<times> jstate) res option" where
  "jbd2_vmsep_journal_get_undo_access E K s h b =
     (if jbd2_write_access_granted s h b True then Some (Inr (0, s))
      else bind_ro (Some (jbd2_vmsep_journal_add_journal_head s b)) (\<lambda>s.
        bind_ro (do_get_write_access E K h b True s) (\<lambda>(err, s).
          bind_ro (Some (if err \<noteq> 0 then Inr s
              else with_jh s b (\<lambda>jh. Inr (if b_committed_data jh = None
                then upd_jh b (\<lambda>jh. jh\<lparr>b_committed_data := Some (b_data (bhs s b))\<rparr>) s else s)))) (\<lambda>s.
            bind_ro (Some (jbd2_vmsep_journal_put_journal_head s b)) (\<lambda>s. Some (Inr (err, s)))))))"

definition jbd2_vmsep_journal_set_triggers :: "jstate \<Rightarrow> bhp \<Rightarrow> nat option \<Rightarrow> jstate res" where
  "jbd2_vmsep_journal_set_triggers s b ty =
     (let (found, s) = jbd2_vmsep_journal_grab_journal_head s b in
      if \<not> found then Inr s
      else jbd2_vmsep_journal_put_journal_head (upd_jh b (\<lambda>jh. jh\<lparr>b_triggers := ty\<rparr>) s) b)"

section \<open>Marking metadata dirty\<close>

text \<open>
  \<open>file_metadata\<close> is the part of \<open>jbd2_vmsep_journal_dirty_metadata\<close> after the fast path: the
  buffer is marked dirty for the journal, gets the inode number it is dirtied for, and is filed.
\<close>

definition file_metadata :: "jstate \<Rightarrow> trp \<Rightarrow> bhp \<Rightarrow> ulong \<Rightarrow> (int \<times> jstate) res" where
  "file_metadata s t b ino =
     with_jh s b (\<lambda>jh.
       let s = upd_bh b (\<lambda>bh. bh\<lparr>bh_jbddirty := True\<rparr>) s;
           s = upd_jh b (\<lambda>jh. jh\<lparr>jh_ino := ino\<rparr>) s
       in if b_transaction jh \<noteq> Some t
          then Inr (if b_transaction jh \<noteq> j_committing_transaction s \<or> b_next_transaction jh \<noteq> Some t
                    then - EINVAL else 0, s)
          else J_ASSERT (b_frozen_data jh = None)
            (bind_res (file_buffer s b t BJ_Metadata) (\<lambda>s. Inr (0, s))))"

definition jbd2_vmsep_journal_dirty_metadata ::
    "jstate \<Rightarrow> handle_t \<Rightarrow> bhp \<Rightarrow> ulong \<Rightarrow> (int \<times> handle_t \<times> jstate) res" where
  "jbd2_vmsep_journal_dirty_metadata s h b ino =
     (if is_handle_aborted s h then Inr (- EROFS, h, s)
      else if \<not> buffer_jbd s b then Inr (- EUCLEAN, h, s)
      else deref (h_transaction h) OOPS (\<lambda>t. with_jh s b (\<lambda>jh.
        J_ASSERT (b_transaction jh = Some t \<or> b_next_transaction jh = Some t)
          (if b_modified jh
           then J_ASSERT (b_transaction jh \<noteq> Some t \<or> b_jlist jh = BJ_Metadata) (Inr (0, h, s))
           else let s = upd_jh b (\<lambda>jh. jh\<lparr>b_modified := True\<rparr>) s in
             if h_buffer_credits h \<le> 0 then Inr (- ENOSPC, h, s)
             else let h = h\<lparr>h_buffer_credits := h_buffer_credits h - 1\<rparr> in
               if b_transaction jh = Some t \<and> b_jlist jh = BJ_Metadata
               then Inr (if b_transaction jh \<noteq> j_running_transaction s then - EINVAL else 0, h, s)
               else bind_res (file_metadata s t b ino) (\<lambda>(ret, s). Inr (ret, h, s))))))"

section \<open>Forgetting and revoking\<close>

text \<open>\<open>__bforget\<close> clears the dirty bit and releases the buffer.\<close>

definition bforget :: "bhp \<Rightarrow> jstate \<Rightarrow> jstate" where
  "bforget b s = brelse b (upd_bh b (\<lambda>bh. bh\<lparr>bh_dirty := False\<rparr>) s)"

text \<open>
  \<open>forget_current\<close> is the case that the buffer belongs to the handle's transaction; its result says
  whether the buffer has been released.
\<close>

definition forget_current :: "jstate \<Rightarrow> trp \<Rightarrow> bhp \<Rightarrow> journal_head \<Rightarrow> (bool \<times> jstate) res" where
  "forget_current s t b jh =
     J_ASSERT (b_frozen_data jh = None)
       (let s = upd_bh b (\<lambda>bh. bh\<lparr>bh_dirty := False, bh_jbddirty := False\<rparr>) s in
        if b_cp_transaction jh \<noteq> None
        then bind_res (temp_unlink_buffer s b) (\<lambda>s.
               bind_res (file_buffer s b t BJ_Forget) (\<lambda>s. Inr (False, s)))
        else bind_res (unfile_buffer s b) (\<lambda>s.
               Inr (if \<not> buffer_jbd s b then (True, bforget b s) else (False, s))))"

definition jbd2_vmsep_journal_forget ::
    "jstate \<Rightarrow> handle_t \<Rightarrow> bhp \<Rightarrow> (int \<times> handle_t \<times> jstate) res" where
  "jbd2_vmsep_journal_forget s h b =
     (if is_handle_aborted s h then Inr (- EROFS, h, s)
      else deref (h_transaction h) OOPS (\<lambda>t.
        case jhs s b of
          None \<Rightarrow> Inr (0, h, brelse b s)
        | Some jh \<Rightarrow>
            if b_committed_data jh \<noteq> None then Inr (- EIO, h, brelse b s)
            else let was_modified = b_modified jh;
                     s = upd_jh b (\<lambda>jh. jh\<lparr>b_modified := False\<rparr>) s;
                     dropped = (if was_modified then h\<lparr>h_buffer_credits := h_buffer_credits h + 1\<rparr> else h)
                 in if b_transaction jh = Some t
                    then bind_res (forget_current s t b jh) (\<lambda>(released, s).
                           Inr (0, dropped, if released then s else brelse b s))
                    else if b_transaction jh \<noteq> None
                    then J_ASSERT (b_transaction jh = j_committing_transaction s)
                      (if b_next_transaction jh \<noteq> None
                       then J_ASSERT (b_next_transaction jh = Some t)
                              (Inr (0, dropped, brelse b
                                (upd_jh b (\<lambda>jh. jh\<lparr>b_next_transaction := None\<rparr>) s)))
                       else Inr (0, h, brelse b s))
                    else Inr (0, h, brelse b s)))"

text \<open>
  \<open>jbd2_vmsep_journal_revoke\<close> of \<open>revoke.c\<close>: the buffer is the one given, or the one found for the
  block (whose reference is dropped again), or there is none. The debugging checks of
  \<open>JBD2_EXPENSIVE_CHECKING\<close> are not compiled in.
\<close>

definition mark_revoked :: "env \<Rightarrow> jstate \<Rightarrow> handle_t \<Rightarrow> bhp \<Rightarrow> bool \<Rightarrow> (int \<times> handle_t \<times> jstate) res" where
  "mark_revoked E s h b given =
     (if bh_revoked (bhs s b) then Inr (- EIO, h, if given then s else brelse b s)
      else let s = upd_bh b (\<lambda>bh. bh\<lparr>bh_revoked := True, bh_revokevalid := True\<rparr>) s in
        if given
        then bind_res (jbd2_vmsep_journal_forget s h b) (\<lambda>(_, h, s). Inr (0, h, s))
        else Inr (0, h, brelse b s))"

definition jbd2_vmsep_journal_revoke ::
    "env \<Rightarrow> jstate \<Rightarrow> handle_t \<Rightarrow> u64 \<Rightarrow> bhp option \<Rightarrow> (int \<times> handle_t \<times> jstate) res" where
  "jbd2_vmsep_journal_revoke E s h blocknr bh_in =
     deref (h_transaction h) OOPS (\<lambda>t. with_tr s t (\<lambda>tr.
       bind_res (jbd2_vmsep_journal_set_features E s 0 0 JBD2_FEATURE_INCOMPAT_REVOKE) (\<lambda>(ok, s).
         J_ASSERT ok
           (bind_res
             (case bh_in of
                Some b \<Rightarrow> mark_revoked E s h b True
              | None \<Rightarrow> (case find_get_block E blocknr of
                  None \<Rightarrow> Inr (0, h, s)
                | Some b \<Rightarrow> mark_revoked E (get_bh b s) h b False)) (\<lambda>(err, h, s).
              if err \<noteq> 0 then Inr (err, h, s)
              else bind_res (with_revoke s (\<lambda>tbl. insert_revoke_hash (mem_alloc E) tbl blocknr (t_tid tr)))
                     (\<lambda>(err, s). Inr (err, h, s)))))))"

section \<open>The inodes of a transaction\<close>

definition with_inode :: "jstate \<Rightarrow> inop \<Rightarrow> (jbd2_inode \<Rightarrow> 'a res) \<Rightarrow> 'a res" where
  "with_inode s i f = deref (inodes s i) UAF f"

definition jbd2_vmsep_journal_init_jbd_inode :: "jstate \<Rightarrow> inop \<Rightarrow> jstate" where
  "jbd2_vmsep_journal_init_jbd_inode s i =
     s\<lparr>inodes := (inodes s)(i \<mapsto> \<lparr>i_transaction = None, i_next_transaction = None,
        ji_commit_running = False, ji_write_data = False, ji_wait_data = False\<rparr>)\<rparr>"

text \<open>\<open>wr\<close>: the flag \<open>JI_WRITE_DATA\<close> is asked for in addition to \<open>JI_WAIT_DATA\<close>.\<close>

definition jbd2_journal_file_inode ::
    "jstate \<Rightarrow> handle_t \<Rightarrow> inop \<Rightarrow> bool \<Rightarrow> (int \<times> jstate) res" where
  "jbd2_journal_file_inode s h i wr =
     (if is_handle_aborted s h then Inr (- EROFS, s)
      else deref (h_transaction h) OOPS (\<lambda>t. with_inode s i (\<lambda>ino.
        let attached = (i_transaction ino = Some t \<or> i_next_transaction ino = Some t);
            flags_set = (ji_wait_data ino \<and> (wr \<longrightarrow> ji_write_data ino))
        in if attached \<and> flags_set then Inr (0, s)
           else let s = upd_inode i (\<lambda>ino. ino\<lparr>ji_wait_data := True,
                          ji_write_data := (ji_write_data ino \<or> wr)\<rparr>) s in
             if attached then Inr (0, s)
             else with_tr s t (\<lambda>_.
               let s = upd_tr t (\<lambda>tr. tr\<lparr>t_need_data_flush := True\<rparr>) s in
               if i_transaction ino \<noteq> None
               then J_ASSERT (i_next_transaction ino = None)
                 (J_ASSERT (i_transaction ino = j_committing_transaction s)
                   (Inr (0, upd_inode i (\<lambda>ino. ino\<lparr>i_next_transaction := Some t\<rparr>) s)))
               else J_ASSERT (i_next_transaction ino = None)
                 (Inr (0, upd_tr t (\<lambda>tr. tr\<lparr>t_inode_list := i # t_inode_list tr\<rparr>)
                         (upd_inode i (\<lambda>ino. ino\<lparr>i_transaction := Some t\<rparr>) s)))))))"

definition jbd2_vmsep_journal_inode_add_write ::
    "jstate \<Rightarrow> handle_t \<Rightarrow> inop \<Rightarrow> (int \<times> jstate) res" where
  "jbd2_vmsep_journal_inode_add_write s h i = jbd2_journal_file_inode s h i True"

definition jbd2_vmsep_journal_inode_add_wait ::
    "jstate \<Rightarrow> handle_t \<Rightarrow> inop \<Rightarrow> (int \<times> jstate) res" where
  "jbd2_vmsep_journal_inode_add_wait s h i = jbd2_journal_file_inode s h i False"

definition jbd2_vmsep_journal_release_jbd_inode ::
    "(jstate \<Rightarrow> jstate res) \<Rightarrow> jstate \<Rightarrow> inop \<Rightarrow> jstate res option" where
  "jbd2_vmsep_journal_release_jbd_inode K s i =
     bind_ro (wait_until K (\<lambda>s. case inodes s i of None \<Rightarrow> True | Some ino \<Rightarrow> \<not> ji_commit_running ino) s)
       (\<lambda>s. Some (with_inode s i (\<lambda>ino.
          case i_transaction ino of
            None \<Rightarrow> Inr s
          | Some t \<Rightarrow> with_tr s t (\<lambda>_.
              Inr (upd_inode i (\<lambda>ino. ino\<lparr>i_transaction := None\<rparr>)
                (upd_tr t (\<lambda>tr. tr\<lparr>t_inode_list := remove1 i (t_inode_list tr)\<rparr>) s))))))"

text \<open>\<open>ret\<close> is the result of writing out the truncated part of the inode's data.\<close>

definition jbd2_vmsep_journal_begin_ordered_truncate ::
    "env \<Rightarrow> jstate \<Rightarrow> inop \<Rightarrow> int \<Rightarrow> (int \<times> jstate) res" where
  "jbd2_vmsep_journal_begin_ordered_truncate E s i ret =
     with_inode s i (\<lambda>ino.
       if i_transaction ino = None then Inr (0, s)
       else if i_transaction ino = j_committing_transaction s
       then if ret \<noteq> 0 then bind_res (jbd2_vmsep_journal_abort (sb_csum E) s ret) (\<lambda>s. Inr (ret, s))
            else Inr (ret, s)
       else Inr (0, s))"

section \<open>Discarding buffers\<close>

definition journal_try_to_free_buffer :: "jstate \<Rightarrow> bhp \<Rightarrow> jstate res" where
  "journal_try_to_free_buffer s b =
     with_jh s b (\<lambda>jh.
       if bh_locked (bhs s b) \<or> bh_dirty (bhs s b) then Inr s
       else if b_next_transaction jh \<noteq> None \<or> b_transaction jh \<noteq> None then Inr s
       else if b_cp_transaction jh \<noteq> None
       then bind_res (remove_checkpoint s b) (\<lambda>(_, s). Inr s)
       else Inr s)"

text \<open>The loop over the buffers of a page; \<open>True\<close>: no buffer is busy.\<close>

fun try_to_free_page :: "jstate \<Rightarrow> bhp list \<Rightarrow> (bool \<times> jstate) res" where
  "try_to_free_page s [] = Inr (True, s)"
| "try_to_free_page s (b # bs) =
     (let (found, s) = jbd2_vmsep_journal_grab_journal_head s b in
      if \<not> found then try_to_free_page s bs
      else bind_res (journal_try_to_free_buffer s b) (\<lambda>s.
        bind_res (jbd2_vmsep_journal_put_journal_head s b) (\<lambda>s.
          if buffer_jbd s b then Inr (False, s) else try_to_free_page s bs)))"

text \<open>\<open>freed\<close> is the result of \<open>try_to_free_buffers\<close> on the page.\<close>

definition jbd2_vmsep_journal_try_to_free_buffers ::
    "jstate \<Rightarrow> bhp list \<Rightarrow> bool \<Rightarrow> (bool \<times> jstate) res" where
  "jbd2_vmsep_journal_try_to_free_buffers s page freed =
     bind_res (try_to_free_page s page) (\<lambda>(free, s). Inr (if free then freed else False, s))"

definition dispose_buffer :: "jstate \<Rightarrow> bhp \<Rightarrow> trp \<Rightarrow> (bool \<times> jstate) res" where
  "dispose_buffer s b t =
     with_jh s b (\<lambda>jh.
       if b_cp_transaction jh \<noteq> None
       then bind_res (temp_unlink_buffer s b) (\<lambda>s.
              bind_res (file_buffer (upd_bh b (\<lambda>bh. bh\<lparr>bh_dirty := False\<rparr>) s) b t BJ_Forget) (\<lambda>s.
                Inr (False, s)))
       else bind_res (unfile_buffer s b) (\<lambda>s. Inr (True, s)))"

text \<open>The label \<open>zap_buffer_unlocked\<close>.\<close>

definition zap_unlocked :: "jstate \<Rightarrow> bhp \<Rightarrow> bool \<Rightarrow> (int \<times> jstate) res" where
  "zap_unlocked s b may_free =
     (let s = upd_bh b (\<lambda>bh. bh\<lparr>bh_dirty := False\<rparr>) s
      in J_ASSERT (\<not> bh_jbddirty (bhs s b))
           (Inr (of_bool may_free, upd_bh b (\<lambda>bh. bh\<lparr>bh_mapped := False\<rparr>) s)))"

text \<open>The label \<open>zap_buffer\<close>.\<close>

definition zap_buffer :: "jstate \<Rightarrow> bhp \<Rightarrow> bool \<Rightarrow> (int \<times> jstate) res" where
  "zap_buffer s b may_free =
     with_jh s b (\<lambda>_.
       bind_res (jbd2_vmsep_journal_put_journal_head (upd_jh b (\<lambda>jh. jh\<lparr>b_modified := False\<rparr>) s) b)
         (\<lambda>s. zap_unlocked s b may_free))"

text \<open>The case of \<open>journal_unmap_buffer\<close> in which the buffer is on no transaction's list.\<close>

definition unmap_checkpointed :: "jstate \<Rightarrow> bhp \<Rightarrow> journal_head \<Rightarrow> (int \<times> jstate) res" where
  "unmap_checkpointed s b jh =
     (if b_cp_transaction jh = None then zap_buffer s b True
      else if \<not> bh_dirty (bhs s b)
      then bind_res (remove_checkpoint s b) (\<lambda>(_, s). zap_buffer s b True)
      else case j_running_transaction s of
        Some t \<Rightarrow> bind_res (dispose_buffer s b t) (\<lambda>(may_free, s). zap_buffer s b may_free)
      | None \<Rightarrow>
          (case j_committing_transaction s of
             Some t \<Rightarrow> bind_res (dispose_buffer s b t) (\<lambda>(may_free, s). zap_buffer s b may_free)
           | None \<Rightarrow>
               bind_res (remove_checkpoint (upd_bh b (\<lambda>bh. bh\<lparr>bh_jbddirty := False\<rparr>) s) b) (\<lambda>(_, s).
                 zap_buffer s b True)))"

text \<open>The case in which the buffer belongs to the committing transaction.\<close>

definition unmap_committing :: "jstate \<Rightarrow> bhp \<Rightarrow> bool \<Rightarrow> (int \<times> jstate) res" where
  "unmap_committing s b partial_page =
     (if partial_page
      then bind_res (jbd2_vmsep_journal_put_journal_head s b) (\<lambda>s. Inr (- EBUSY, s))
      else let s = upd_bh b (\<lambda>bh. bh\<lparr>bh_freed := True\<rparr>) s;
               s = (if j_running_transaction s \<noteq> None \<and> bh_jbddirty (bhs s b)
                    then upd_jh b (\<lambda>jh. jh\<lparr>b_next_transaction := j_running_transaction s\<rparr>) s else s)
           in bind_res (jbd2_vmsep_journal_put_journal_head s b) (\<lambda>s. Inr (0, s)))"

definition journal_unmap_buffer :: "jstate \<Rightarrow> bhp \<Rightarrow> bool \<Rightarrow> (int \<times> jstate) res" where
  "journal_unmap_buffer s b partial_page =
     (let (found, s) = jbd2_vmsep_journal_grab_journal_head s b in
      if \<not> found then zap_unlocked s b True
      else with_jh s b (\<lambda>jh.
        case b_transaction jh of
          None \<Rightarrow> unmap_checkpointed s b jh
        | Some t \<Rightarrow>
            if Some t = j_committing_transaction s then unmap_committing s b partial_page
            else J_ASSERT (Some t = j_running_transaction s)
              (bind_res (dispose_buffer s b t) (\<lambda>(may_free, s). zap_buffer s b may_free))))"

text \<open>
  The buffers of a page with their sizes; \<open>PAGE_SIZE\<close> is 4096. The result \<open>Inl\<close> of the loop is an
  early return, \<open>Inr\<close> whether all buffers may be freed.
\<close>

fun invalidate_loop ::
    "jstate \<Rightarrow> nat \<Rightarrow> nat \<Rightarrow> bool \<Rightarrow> nat \<Rightarrow> bool \<Rightarrow> (bhp \<times> nat) list \<Rightarrow> ((int + bool) \<times> jstate) res" where
  "invalidate_loop s offset stop partial_page curr_off may_free [] = Inr (Inr may_free, s)"
| "invalidate_loop s offset stop partial_page curr_off may_free ((b, sz) # bs) =
     (let next_off = curr_off + sz in
      if next_off > stop then Inr (Inl 0, s)
      else if offset \<le> curr_off
      then bind_res (journal_unmap_buffer s b partial_page) (\<lambda>(ret, s).
             if ret < 0 then Inr (Inl ret, s)
             else invalidate_loop s offset stop partial_page next_off (may_free \<and> ret \<noteq> 0) bs)
      else invalidate_loop s offset stop partial_page next_off may_free bs)"

definition jbd2_vmsep_journal_invalidatepage ::
    "jstate \<Rightarrow> (bhp \<times> nat) list \<Rightarrow> nat \<Rightarrow> nat \<Rightarrow> (int \<times> jstate) res" where
  "jbd2_vmsep_journal_invalidatepage s page offset len =
     (if page = [] then Inr (0, s)
      else let stop = offset + len; partial_page = (offset \<noteq> 0 \<or> len < 4096)
           in J_ASSERT (\<not> stop > 4096)
                (bind_res (invalidate_loop s offset stop partial_page 0 True page) (\<lambda>(r, s).
                  case r of Inl ret \<Rightarrow> Inr (ret, s) | Inr _ \<Rightarrow> Inr (0, s))))"

section \<open>Granting credits\<close>

lemma committing_add_credits:
  assumes "j_committing_transaction s \<noteq> Some t"
  shows "committing_ok (add_credits t n s) = committing_ok s" "committing_need (add_credits t n s) = committing_need s"
  using assms by (auto simp: committing_ok_def committing_need_def add_credits_def upd_tr_def split: option.split)

lemma log_space_short_value:
  assumes "committing_ok s" and "0 \<le> j_max_transaction_buffers s" and "j_max_transaction_buffers s < 2 ^ 30"
  shows "log_space_short s = Inr (32 + committing_need s \<le> unat (j_free s) \<and>
    unat (j_free s) < 32 + committing_need s + nat (jbd2_space_needed s))"
proof -
  let ?r = "32 + committing_need s" and ?m = "jbd2_space_needed s"
  have "0 \<le> ?m" "?m < 2 ^ 31" using assms(2,3) by (simp_all add: jbd2_space_needed_def drop_bit_eq_div)
  then have m: "(word_of_int ?m :: ulong) = of_nat (nat ?m)" "nat ?m < 2 ^ 31" by (simp_all add: nat_less_iff)
  have r: "?r < 2 ^ 33" using committing_need_bound [OF assms(1)] by simp
  have "?r < 2 ^ LENGTH(64)" "nat ?m < 2 ^ LENGTH(64)" using r m(2) by simp_all
  note u = this [THEN unat_of_nat_small [where 'a = 64]]
  have f: "unat (j_free s) < 2 ^ 64" using unsigned_less [of "j_free s"] by simp
  have "unat (j_free s - of_nat ?r) = (if ?r \<le> unat (j_free s) then unat (j_free s) - ?r else 2 ^ 64 + unat (j_free s) - ?r)"
    unfolding unat_sub_if' u by simp
  then have "j_free s - of_nat ?r < of_nat (nat ?m) \<longleftrightarrow> ?r \<le> unat (j_free s) \<and> unat (j_free s) < ?r + nat ?m"
    unfolding word_less_nat_alt u using r m(2) f by (auto split: if_splits)
  then show ?thesis by (simp add: log_space_short_def log_space_left_value [OF assms(1)] m(1))
qed

text \<open>C38: when a handle gets its credits without waiting. For a running transaction that is not locked, is not the committing one and has room for the credits,
  a limit of less than \<open>2 ^ 30\<close> buffers for a transaction, credits of the committing transaction in range (\<open>committing_ok\<close>),
  and a request without a reservation, \<open>add_transaction_credits\<close> grants them at once exactly in two cases: when the reserve of 32 blocks, what
  the committing transaction still needs and a whole transaction are free in the log, as it should be; and when not
  even the reserve and what the committing transaction needs are free, since \<open>jbd2_log_space_left\<close> then wraps round.\<close>

theorem credits_space_check:
  assumes "j_running_transaction s = Some t" and "trs s t = Some tr" and "t_state tr \<noteq> T_LOCKED"
    and "t_outstanding_credits tr + blocks \<le> j_max_transaction_buffers s"
    and "j_committing_transaction s \<noteq> Some t" and "committing_ok s"
    and "0 \<le> j_max_transaction_buffers s" and "j_max_transaction_buffers s < 2 ^ 30"
  shows "add_transaction_credits E K s blocks 0 = Some (Inr (False, add_credits t blocks s)) \<longleftrightarrow>
    32 + committing_need s + nat (jbd2_space_needed s) \<le> unat (j_free s) \<or> unat (j_free s) < 32 + committing_need s"
proof -
  let ?s = "add_credits t blocks s"
  have same: "committing_ok ?s" "j_max_transaction_buffers ?s = j_max_transaction_buffers s" "j_free ?s = j_free s"
      "jbd2_space_needed ?s = jbd2_space_needed s"
    using assms(5,6) by (simp_all add: committing_add_credits) (simp_all add: add_credits_def upd_tr_def jbd2_space_needed_def)
  have "log_space_short ?s = Inr (32 + committing_need s \<le> unat (j_free s) \<and>
      unat (j_free s) < 32 + committing_need s + nat (jbd2_space_needed s))"
    using log_space_short_value [OF same(1)] assms(7,8) by (simp add: same(2-4) committing_add_credits(2) [OF assms(5)])
  then show ?thesis using assms(1-4)
    by (auto simp: add_transaction_credits_def Let_def bind_ro_def split: option.splits sum.splits)
qed

theorem credits_space_check_witness:
  "add_transaction_credits ex_env Inr (init_state\<lparr>j_free := 31\<rparr>) 8 0 = Some (Inr (False, add_credits 0 8 (init_state\<lparr>j_free := 31\<rparr>))) \<and>
   add_transaction_credits ex_env Inr (init_state\<lparr>j_free := 32\<rparr>) 8 0 \<noteq> Some (Inr (False, add_credits 0 8 (init_state\<lparr>j_free := 32\<rparr>)))"
proof -
  have h: "j_running_transaction (init_state\<lparr>j_free := n\<rparr>) = Some 0" "trs (init_state\<lparr>j_free := n\<rparr>) 0 = Some ex_transaction"
    "t_state ex_transaction \<noteq> T_LOCKED" "t_outstanding_credits ex_transaction + 8 \<le> j_max_transaction_buffers (init_state\<lparr>j_free := n\<rparr>)"
    "j_committing_transaction (init_state\<lparr>j_free := n\<rparr>) \<noteq> Some 0" "committing_ok (init_state\<lparr>j_free := n\<rparr>)"
    "0 \<le> j_max_transaction_buffers (init_state\<lparr>j_free := n\<rparr>)" "j_max_transaction_buffers (init_state\<lparr>j_free := n\<rparr>) < 2 ^ 30" for n
    by (simp_all add: ex_defs committing_ok_def)
  have "committing_need (init_state\<lparr>j_free := n\<rparr>) = 0" "jbd2_space_needed (init_state\<lparr>j_free := n\<rparr>) = 528" for n
    by (simp_all add: committing_need_def jbd2_space_needed_def ex_defs drop_bit_eq_div)
  then show ?thesis using credits_space_check [OF h, of ex_env Inr 31] credits_space_check [OF h, of ex_env Inr 32] by simp
qed

end
