(* ===== verification/Jbd2_Commit.thy ===== *)
theory Jbd2_Commit
  imports Jbd2_Transaction
begin

text \<open>
  Committing a transaction, \<open>kernel/fs/jbd2/commit.c\<close>: the tags of descriptor blocks, writing a
  metadata buffer to the log (\<open>jbd2_vmsep_journal_write_metadata_buffer\<close> of \<open>journal.c\<close>), the
  loop over the metadata buffers, which leaves the buffers of other inodes than the one the
  commit is for to a new transaction, the phases of the commit, and the commit thread.
\<close>

unbundle bit_operations_syntax

section \<open>The commit record\<close>

definition jbd2_commit_block_csum_set :: "env \<Rightarrow> jstate \<Rightarrow> block_data \<Rightarrow> block_data" where
  "jbd2_commit_block_csum_set E s d =
     (if \<not> jbd2_journal_has_csum_v2or3 s then d
      else let d = store_bytes (store_bytes d 12 [0, 0]) 16 (be_enc 4 0)
           in store_bytes d 16 (be_enc 4 (unat (chksum E (j_csum_seed s) d))))"

definition commit_block :: "env \<Rightarrow> jstate \<Rightarrow> u32 \<Rightarrow> block_data \<Rightarrow> block_data" where
  "commit_block E s crc32_sum d =
     (let d = store_bytes d 48 (be_enc 8 (unat (now_sec E)));
          d = store_bytes d 56 (be_enc 4 (unat (now_nsec E)));
          d = (if jbd2_has_feature_checksum s
               then store_bytes (store_bytes d 12 [1, 4]) 16 (be_enc 4 (unat crc32_sum)) else d)
      in jbd2_commit_block_csum_set E s d)"

text \<open>The second component is the block of the commit record, if there is one to wait for.\<close>

definition journal_submit_commit_record ::
    "env \<Rightarrow> jstate \<Rightarrow> tid_t \<Rightarrow> u32 \<Rightarrow> (int \<times> u64 option \<times> jstate) res" where
  "journal_submit_commit_record E s tid crc32_sum =
     (if is_journal_aborted s then Inr (0, None, s)
      else bind_res (jbd2_vmsep_journal_get_descriptor_buffer E s tid JBD2_COMMIT_BLOCK) (\<lambda>(bh, s).
        case bh of
          None \<Rightarrow> Inr (1, None, s)
        | Some (blocknr, d) \<Rightarrow>
            Inr (submit_bh E blocknr, Some blocknr,
                 s\<lparr>log_written := (blocknr, commit_block E s crc32_sum d) # log_written s\<rparr>)))"

definition journal_wait_on_commit_record :: "env \<Rightarrow> u64 \<Rightarrow> int" where
  "journal_wait_on_commit_record E blocknr = (if log_io_ok E blocknr then 0 else - EIO)"

section \<open>The data of the inodes\<close>

fun submit_data_loop :: "env \<Rightarrow> trp \<Rightarrow> jstate \<Rightarrow> int \<Rightarrow> inop list \<Rightarrow> (int \<times> jstate) res" where
  "submit_data_loop E t s ret [] = Inr (ret, s)"
| "submit_data_loop E t s ret (i # is) =
     with_inode s i (\<lambda>ino.
       if \<not> ji_write_data ino then submit_data_loop E t s ret is
       else let ret = (if ret = 0 then submit_data E i else ret)
            in J_ASSERT (i_transaction ino = Some t)
                 (submit_data_loop E t (upd_inode i (\<lambda>ino. ino\<lparr>ji_commit_running := False\<rparr>) s) ret is))"

definition journal_submit_data_buffers :: "env \<Rightarrow> jstate \<Rightarrow> trp \<Rightarrow> (int \<times> jstate) res" where
  "journal_submit_data_buffers E s t =
     with_tr s t (\<lambda>tr. submit_data_loop E t s 0 (t_inode_list tr))"

fun wait_data_loop :: "env \<Rightarrow> jstate \<Rightarrow> int \<Rightarrow> inop list \<Rightarrow> (int \<times> jstate) res" where
  "wait_data_loop E s ret [] = Inr (ret, s)"
| "wait_data_loop E s ret (i # is) =
     with_inode s i (\<lambda>ino.
       if \<not> ji_wait_data ino then wait_data_loop E s ret is
       else wait_data_loop E (upd_inode i (\<lambda>ino. ino\<lparr>ji_commit_running := False\<rparr>) s)
              (if ret = 0 then wait_data E i else ret) is)"

fun refile_inodes :: "trp \<Rightarrow> jstate \<Rightarrow> inop list \<Rightarrow> jstate res" where
  "refile_inodes t s [] = Inr s"
| "refile_inodes t s (i # is) =
     with_inode s i (\<lambda>ino.
       let s = upd_tr t (\<lambda>tr. tr\<lparr>t_inode_list := remove1 i (t_inode_list tr)\<rparr>) s in
       case i_next_transaction ino of
         Some t' \<Rightarrow> with_tr s t' (\<lambda>_.
           refile_inodes t (upd_tr t' (\<lambda>tr. tr\<lparr>t_inode_list := i # t_inode_list tr\<rparr>)
             (upd_inode i (\<lambda>ino. ino\<lparr>i_transaction := Some t', i_next_transaction := None\<rparr>) s)) is)
       | None \<Rightarrow> refile_inodes t (upd_inode i (\<lambda>ino. ino\<lparr>i_transaction := None\<rparr>) s) is)"

definition journal_finish_inode_data_buffers :: "env \<Rightarrow> jstate \<Rightarrow> trp \<Rightarrow> (int \<times> jstate) res" where
  "journal_finish_inode_data_buffers E s t =
     with_tr s t (\<lambda>tr. bind_res (wait_data_loop E s 0 (t_inode_list tr)) (\<lambda>(ret, s).
       with_tr s t (\<lambda>tr. bind_res (refile_inodes t s (t_inode_list tr)) (\<lambda>s. Inr (ret, s)))))"

section \<open>Tags\<close>

definition write_tag_block :: "('a) journal_t_scheme \<Rightarrow> nat \<Rightarrow> u64 \<Rightarrow> block_data \<Rightarrow> block_data" where
  "write_tag_block j off block d =
     (let d = store_bytes d off (be_enc 4 (unat (block AND 0xffffffff)))
      in if jbd2_has_feature_64bit j
         then store_bytes d (off + 8) (be_enc 4 (unat (drop_bit 1 (drop_bit 31 block)))) else d)"

definition jbd2_block_tag_csum_set ::
    "env \<Rightarrow> jstate \<Rightarrow> nat \<Rightarrow> block_data \<Rightarrow> u32 \<Rightarrow> block_data \<Rightarrow> block_data" where
  "jbd2_block_tag_csum_set E s off data seqn d =
     (if \<not> jbd2_journal_has_csum_v2or3 s then d
      else let csum32 = tag_csum E s data seqn
           in if jbd2_has_feature_csum3 s then store_bytes d (off + 12) (be_enc 4 (unat csum32))
              else store_bytes d (off + 4) (be_enc 2 (unat (ucast csum32 :: u16))))"

definition set_tag_flags :: "nat \<Rightarrow> u16 \<Rightarrow> block_data \<Rightarrow> block_data" where
  "set_tag_flags off flags d = store_bytes d (off + 6) (be_enc 2 (unat flags))"

section \<open>Writing a metadata buffer to the log\<close>

text \<open>
  The data that goes to the log is the frozen copy if there is one, else the buffer's data after
  its trigger. Data that starts with the magic number is escaped: its first word is zeroed, in
  a frozen copy. The result is an error, or whether the data was escaped and the data.
\<close>

definition starts_with_magic :: "block_data \<Rightarrow> bool" where
  "starts_with_magic d = (load_bytes d 0 4 = be_enc 4 (unat JBD2_MAGIC_NUMBER))"

definition escape_data :: "block_data \<Rightarrow> block_data" where
  "escape_data d = store_bytes d 0 (be_enc 4 0)"

definition jbd2_vmsep_journal_write_metadata_buffer ::
    "env \<Rightarrow> jstate \<Rightarrow> trp \<Rightarrow> bhp \<Rightarrow> ((int + bool \<times> block_data) \<times> jstate) res" where
  "jbd2_vmsep_journal_write_metadata_buffer E s t b =
     with_jh s b (\<lambda>jh. J_ASSERT (bh_jbddirty (bhs s b))
       (let (data, s) = (case b_frozen_data jh of
              Some d \<Rightarrow> (d, s)
            | None \<Rightarrow> let d = jbd2_vmsep_buffer_frozen_trigger E (b_triggers jh) (b_data (bhs s b))
                      in (d, upd_bh b (\<lambda>bh. bh\<lparr>b_data := d\<rparr>) s));
            do_escape = starts_with_magic data
        in if do_escape \<and> b_frozen_data jh = None \<and> \<not> mem_alloc E then Inr (Inl (- ENOMEM), s)
           else let s = (if do_escape
                         then upd_jh b (\<lambda>jh. jh\<lparr>b_frozen_data := Some (escape_data data),
                                b_frozen_triggers := (if b_frozen_data jh = None then b_triggers jh
                                                      else b_frozen_triggers jh)\<rparr>) s
                         else s)
                in bind_res (file_buffer s b t BJ_Shadow) (\<lambda>s.
                     Inr (Inr (do_escape, if do_escape then escape_data data else data),
                          upd_bh b (\<lambda>bh. bh\<lparr>bh_shadow := True\<rparr>) s))))"

section \<open>The loop over the metadata buffers\<close>

text \<open>
  The local variables of the commit: the descriptor that is being filled, the metadata buffers
  that follow it (\<open>wbuf\<close> without its first element, which is the descriptor), the offsets of the
  last tag and of the next one, the blocks that were submitted, and the lists \<open>io_bufs\<close> (block of
  the log and buffer) and \<open>log_bufs\<close>.
\<close>

record committer =
  cm_state :: jstate
  cm_descriptor :: "descriptor option"
  cm_wbuf :: "descriptor list"
  cm_tagp :: nat
  cm_space_left :: int
  cm_first_tag :: bool
  cm_crc :: u32
  cm_submitted :: "u64 list"
  cm_io_bufs :: "(u64 \<times> bhp) list"
  cm_log_bufs :: "u64 list"

definition cm_bufs :: "committer \<Rightarrow> descriptor list" where
  "cm_bufs c = (case cm_descriptor c of None \<Rightarrow> [] | Some d \<Rightarrow> [d]) @ cm_wbuf c"

definition start_journal_io :: "env \<Rightarrow> committer \<Rightarrow> committer" where
  "start_journal_io E c =
     (let bufs = cm_bufs c;
          s = cm_state c
      in c\<lparr>cm_state := s\<lparr>log_written := rev bufs @ log_written s\<rparr>,
           cm_crc := (if jbd2_has_feature_checksum s
                      then fold (\<lambda>(_, d) crc. crc32_be E crc d) bufs (cm_crc c) else cm_crc c),
           cm_submitted := cm_submitted c @ map fst bufs,
           cm_descriptor := None, cm_wbuf := []\<rparr>)"

definition separate_buffer :: "jstate \<Rightarrow> bhp \<Rightarrow> trp \<Rightarrow> jstate res" where
  "separate_buffer s b running_transaction =
     with_jh s b (\<lambda>jh.
       bind_res (jbd2_vmsep_journal_unfile_buffer s b) (\<lambda>s.
         file_buffer s b running_transaction (b_jlist jh)))"

definition no_more_buffers :: "jstate \<Rightarrow> trp \<Rightarrow> bool res" where
  "no_more_buffers s t = with_tr s t (\<lambda>tr. Inr (t_buffers tr = []))"

definition abandon_buffer :: "env \<Rightarrow> trp \<Rightarrow> committer \<Rightarrow> bhp \<Rightarrow> committer res" where
  "abandon_buffer E t c b =
     bind_res (jbd2_vmsep_journal_refile_buffer
                (upd_bh b (\<lambda>bh. bh\<lparr>bh_jbddirty := False\<rparr>) (cm_state c)) b) (\<lambda>s.
     bind_res (no_more_buffers s t) (\<lambda>last.
       let c = c\<lparr>cm_state := s\<rparr> in Inr (if last then start_journal_io E c else c)))"

definition cm_abort :: "env \<Rightarrow> committer \<Rightarrow> int \<Rightarrow> committer res" where
  "cm_abort E c errno =
     bind_res (jbd2_vmsep_journal_abort (sb_csum E) (cm_state c) errno) (\<lambda>s. Inr (c\<lparr>cm_state := s\<rparr>))"

text \<open>\<open>get_descriptor\<close> makes sure that there is a descriptor; \<open>False\<close> when there is no block for it.\<close>

definition get_descriptor :: "env \<Rightarrow> tid_t \<Rightarrow> committer \<Rightarrow> (bool \<times> committer) res" where
  "get_descriptor E tid c =
     (if cm_descriptor c \<noteq> None then Inr (True, c)
      else J_ASSERT (cm_wbuf c = [])
        (bind_res (jbd2_vmsep_journal_get_descriptor_buffer E (cm_state c) tid JBD2_DESCRIPTOR_BLOCK)
          (\<lambda>(desc, s). let c = c\<lparr>cm_state := s\<rparr> in
            case desc of
              None \<Rightarrow> bind_res (cm_abort E c (- EIO)) (\<lambda>c. Inr (False, c))
            | Some d \<Rightarrow>
                Inr (True, c\<lparr>cm_descriptor := Some d, cm_tagp := 12,
                       cm_space_left := int (j_blocksize s) - 12, cm_first_tag := True,
                       cm_log_bufs := cm_log_bufs c @ [fst d]\<rparr>))))"

definition tag_flag :: "bool \<Rightarrow> bool \<Rightarrow> u16" where
  "tag_flag escape first_tag =
     (if escape then JBD2_FLAG_ESCAPE else 0) OR (if first_tag then 0 else JBD2_FLAG_SAME_UUID)"

definition write_tag ::
    "env \<Rightarrow> jstate \<Rightarrow> nat \<Rightarrow> u64 \<Rightarrow> u16 \<Rightarrow> block_data \<Rightarrow> tid_t \<Rightarrow> block_data \<Rightarrow> block_data" where
  "write_tag E s off block flags data tid d =
     jbd2_block_tag_csum_set E s off data tid (set_tag_flags off flags (write_tag_block s off block d))"

text \<open>
  \<open>record_tag\<close> records the tag of a buffer whose data \<open>data\<close> goes to the block \<open>blocknr\<close> of the
  log, with the journal's UUID after the first tag of a descriptor.
\<close>

definition record_tag ::
    "env \<Rightarrow> tid_t \<Rightarrow> committer \<Rightarrow> bhp \<Rightarrow> u64 \<Rightarrow> bool \<Rightarrow> block_data \<Rightarrow> committer" where
  "record_tag E tid c b blocknr escape data =
     (let s = cm_state c;
          off = cm_tagp c;
          tagp = off + journal_vmsep_tag_bytes s;
          add = (\<lambda>d. let d = write_tag E s off (b_blocknr (bhs s b))
                               (tag_flag escape (cm_first_tag c)) data tid d
                     in if cm_first_tag c then store_bytes d tagp (j_uuid s) else d);
          used = journal_vmsep_tag_bytes s + (if cm_first_tag c then 16 else 0)
      in c\<lparr>cm_descriptor := map_option (\<lambda>(n, d). (n, add d)) (cm_descriptor c),
           cm_wbuf := cm_wbuf c @ [(blocknr, data)], cm_io_bufs := cm_io_bufs c @ [(blocknr, b)],
           cm_tagp := off + used, cm_space_left := cm_space_left c - int used,
           cm_first_tag := False\<rparr>)"

definition descriptor_full :: "committer \<Rightarrow> bool" where
  "descriptor_full c =
     (let s = cm_state c
      in length (cm_bufs c) = j_wbufsize s \<or>
         cm_space_left c < int (journal_vmsep_tag_bytes s + 16 + csum_size s))"

text \<open>\<open>off\<close> is the offset of the last tag of the descriptor.\<close>

definition close_descriptor :: "env \<Rightarrow> nat \<Rightarrow> committer \<Rightarrow> committer" where
  "close_descriptor E off c =
     c\<lparr>cm_descriptor := map_option (\<lambda>(n, d).
          (n, jbd2_vmsep_descriptor_block_csum_set E (cm_state c)
                (set_tag_flags off (be16_at d (off + 6) OR JBD2_FLAG_LAST_TAG) d)))
        (cm_descriptor c)\<rparr>"

definition log_buffer :: "env \<Rightarrow> trp \<Rightarrow> tid_t \<Rightarrow> committer \<Rightarrow> bhp \<Rightarrow> committer res" where
  "log_buffer E t tid c b =
     bind_res (jbd2_vmsep_journal_next_log_block (sb_csum E) (cm_state c)) (\<lambda>(err, blocknr, s).
       if err \<noteq> 0 then cm_abort E (c\<lparr>cm_state := s\<rparr>) err
       else
       let s = add_credits t (- 1) s;
           s = upd_bh b (\<lambda>bh. bh\<lparr>bh_jwrite := True\<rparr>) (get_bh b s)
       in bind_res (jbd2_vmsep_journal_write_metadata_buffer E s t b) (\<lambda>(flags, s).
         let c = c\<lparr>cm_state := s\<rparr> in
         case flags of
           Inl err \<Rightarrow> cm_abort E c err
         | Inr (escape, data) \<Rightarrow>
             let off = cm_tagp c;
                 c = record_tag E tid c b blocknr escape data
             in bind_res (no_more_buffers s t) (\<lambda>last.
                  Inr (if descriptor_full c \<or> last
                       then start_journal_io E (close_descriptor E off c) else c))))"

definition commit_buffer :: "env \<Rightarrow> trp \<Rightarrow> trp \<Rightarrow> transaction_t \<Rightarrow> committer \<Rightarrow> bhp \<Rightarrow> committer res" where
  "commit_buffer E t running_transaction tr c b =
     with_jh (cm_state c) b (\<lambda>jh.
       if jh_ino jh \<noteq> ino_sync tr
       then bind_res (separate_buffer (cm_state c) b running_transaction) (\<lambda>s. Inr (c\<lparr>cm_state := s\<rparr>))
       else if is_journal_aborted (cm_state c) then abandon_buffer E t c b
       else bind_res (get_descriptor E (t_tid tr) c) (\<lambda>(got, c).
         if \<not> got then Inr c else log_buffer E t (t_tid tr) c b))"

partial_function (option) commit_loop ::
    "env \<Rightarrow> trp \<Rightarrow> trp \<Rightarrow> committer \<Rightarrow> committer res option" where
  "commit_loop E t running_transaction c =
     (case trs (cm_state c) t of
        None \<Rightarrow> Some (Inl UAF)
      | Some tr \<Rightarrow>
          (case t_buffers tr of
             [] \<Rightarrow> Some (Inr c)
           | b # _ \<Rightarrow>
               (case commit_buffer E t running_transaction tr c b of
                  Inl e \<Rightarrow> Some (Inl e)
                | Inr c \<Rightarrow> commit_loop E t running_transaction c)))"

section \<open>The phases of a commit\<close>

text \<open>
  \<open>commit_begin\<close> picks the transaction to commit and allocates the one that takes the buffers of
  other inodes; \<open>alloc_new_transaction\<close> makes the latter the running transaction.
\<close>

definition commit_begin :: "env \<Rightarrow> jstate \<Rightarrow> (trp \<times> trp \<times> jstate) res" where
  "commit_begin E s =
     bind_res (if JBD2_FLUSHED \<in> j_flags s
               then bind_res (jbd2_vmsep_journal_update_sb_log_tail (sb_csum E) s (j_tail_sequence s)
                                (j_tail s)) (\<lambda>(_, s). Inr s)
               else Inr s) (\<lambda>s.
     J_ASSERT (j_running_transaction s \<noteq> None) (J_ASSERT (j_committing_transaction s = None)
       (deref (j_running_transaction s) OOPS (\<lambda>t.
        bind_res (alloc_new_transaction E s) (\<lambda>(rt, s).
          with_tr s t (\<lambda>tr. J_ASSERT (t_state tr = T_RUNNING)
            (Inr (t, rt, upd_tr rt (\<lambda>tr. tr\<lparr>t_state := T_RUNNING\<rparr>)
                           (upd_tr t (\<lambda>tr. tr\<lparr>t_state := T_LOCKED\<rparr>) s)))))))))"

text \<open>Buffers that a handle reserved and did not modify are dropped from the transaction.\<close>

partial_function (option) drop_reserved :: "trp \<Rightarrow> jstate \<Rightarrow> jstate res option" where
  "drop_reserved t s =
     (case trs s t of
        None \<Rightarrow> Some (Inl UAF)
      | Some tr \<Rightarrow>
          (case t_reserved_list tr of
             [] \<Rightarrow> Some (Inr s)
           | b # _ \<Rightarrow>
               (case jbd2_vmsep_journal_refile_buffer
                       (upd_jh b (\<lambda>jh. jh\<lparr>b_committed_data := None\<rparr>) s) b of
                  Inl e \<Rightarrow> Some (Inl e)
                | Inr s \<Rightarrow> drop_reserved t s)))"

definition commit_lock :: "(jstate \<Rightarrow> jstate res) \<Rightarrow> jstate \<Rightarrow> trp \<Rightarrow> jstate res option" where
  "commit_lock K s t =
     bind_ro (wait_until K (\<lambda>s. case trs s t of None \<Rightarrow> True | Some tr \<Rightarrow> t_updates tr = 0) s) (\<lambda>s.
     bind_ro (Some (with_tr s t (\<lambda>tr.
                J_ASSERT (t_outstanding_credits tr \<le> j_max_transaction_buffers s) (Inr s)))) (\<lambda>s.
       drop_reserved t s))"

definition commit_flush :: "env \<Rightarrow> jstate \<Rightarrow> trp \<Rightarrow> jstate res" where
  "commit_flush E s t =
     bind_res (clean_checkpoint_list E s False) (\<lambda>s.
     bind_res (jbd2_vmsep_clear_buffer_revoked_flags E s) (\<lambda>s.
     bind_res (jbd2_vmsep_journal_switch_revoke_table s) (\<lambda>s.
     with_tr s t (\<lambda>_.
       let s = add_credits t (- j_reserved_credits s) s;
           s = upd_tr t (\<lambda>tr. tr\<lparr>t_state := T_FLUSH, t_log_start := j_head s\<rparr>) s
       in Inr (s\<lparr>j_committing_transaction := Some t, j_running_transaction := None\<rparr>)))))"

text \<open>The blocks submitted to the log between two states.\<close>

definition new_blocks :: "jstate \<Rightarrow> jstate \<Rightarrow> u64 list" where
  "new_blocks s s' = map fst (take (length (log_written s') - length (log_written s)) (log_written s'))"

definition commit_start_logging :: "env \<Rightarrow> jstate \<Rightarrow> trp \<Rightarrow> committer res" where
  "commit_start_logging E s t =
     bind_res (journal_submit_data_buffers E s t) (\<lambda>(err, s).
     bind_res (if err \<noteq> 0 then jbd2_vmsep_journal_abort (sb_csum E) s err else Inr s) (\<lambda>s.
     with_tr s t (\<lambda>tr.
     let s0 = s in
     bind_res (jbd2_vmsep_journal_write_revoke_records E s (t_tid tr) []) (\<lambda>(log_bufs, s).
     let s = upd_tr t (\<lambda>tr. tr\<lparr>t_state := T_COMMIT\<rparr>) s in
     with_tr s t (\<lambda>tr. J_ASSERT (t_nr_buffers tr \<le> t_outstanding_credits tr)
       (Inr \<lparr>cm_state = s, cm_descriptor = None, cm_wbuf = [], cm_tagp = 0, cm_space_left = 0,
             cm_first_tag = False, cm_crc = - 1, cm_submitted = new_blocks s0 s, cm_io_bufs = [],
             cm_log_bufs = log_bufs\<rparr>))))))"

text \<open>The tail of the log moves only when that frees a quarter of the journal.\<close>

definition commit_new_tail :: "jstate \<Rightarrow> (tid_t \<times> ulong) option res" where
  "commit_new_tail s =
     bind_res (jbd2_vmsep_journal_get_log_tail s) (\<lambda>(update_tail, first_tid, first_block).
       let freed = first_block - j_tail s;
           freed = (if first_block < j_tail s then freed + (j_last s - j_first s) else freed)
       in Inr (if update_tail \<and> \<not> sint freed < uint (j_maxlen s div 4)
               then Some (first_tid, first_block) else None))"

text \<open>\<open>commit_end_logging\<close> waits for the data and installs the new running transaction.\<close>

definition commit_end_logging ::
    "env \<Rightarrow> trp \<Rightarrow> trp \<Rightarrow> jstate \<Rightarrow> ((tid_t \<times> ulong) option \<times> jstate) res" where
  "commit_end_logging E t running_transaction s =
     bind_res (journal_finish_inode_data_buffers E s t) (\<lambda>(err, s).
     bind_res (if err \<noteq> 0 \<and> JBD2_ABORT_ON_SYNCDATA_ERR \<in> j_flags s
               then jbd2_vmsep_journal_abort (sb_csum E) s err else Inr s) (\<lambda>s.
     bind_res (commit_new_tail s) (\<lambda>new_tail.
     with_tr s t (\<lambda>tr. J_ASSERT (t_state tr = T_COMMIT)
       (Inr (new_tail, upd_tr t (\<lambda>tr. tr\<lparr>t_state := T_COMMIT_DFLUSH\<rparr>)
              (s\<lparr>j_running_transaction := Some running_transaction\<rparr>)))))))"

definition commit_record :: "env \<Rightarrow> jstate \<Rightarrow> trp \<Rightarrow> u32 \<Rightarrow> (int \<times> u64 option \<times> jstate) res" where
  "commit_record E s t crc =
     with_tr s t (\<lambda>tr.
       bind_res (journal_submit_commit_record E s (t_tid tr) crc) (\<lambda>(err, cbh, s).
       bind_res (if err \<noteq> 0 then journal_abort_hard s else Inr s) (\<lambda>s. Inr (err, cbh, s))))"

text \<open>
  Phase 3: the completion of the write of a temporary buffer, \<open>journal_end_buffer_io_sync\<close>, ends
  the shadowing of its original. Buffers that were not submitted are not waited for, and are not
  up to date.
\<close>

definition journal_end_buffer_io_sync :: "bhp \<Rightarrow> jstate \<Rightarrow> jstate" where
  "journal_end_buffer_io_sync orig s = upd_bh orig (\<lambda>bh. bh\<lparr>bh_shadow := False\<rparr>) s"

definition release_shadow :: "trp \<Rightarrow> jstate \<Rightarrow> jstate res" where
  "release_shadow t s =
     with_tr s t (\<lambda>tr.
       if t_shadow_list tr = [] then Inl OOPS
       else let b = last (t_shadow_list tr);
                s = upd_bh b (\<lambda>bh. bh\<lparr>bh_jwrite := False\<rparr>) s
            in J_ASSERT (bh_jbddirty (bhs s b)) (J_ASSERT (\<not> bh_shadow (bhs s b))
                 (bind_res (file_buffer s b t BJ_Forget) (\<lambda>s. Inr (brelse b s)))))"

fun wait_io_bufs :: "env \<Rightarrow> trp \<Rightarrow> u64 list \<Rightarrow> int \<Rightarrow> jstate \<Rightarrow> (u64 \<times> bhp) list \<Rightarrow> (int \<times> jstate) res" where
  "wait_io_bufs E t submitted err s [] = Inr (err, s)"
| "wait_io_bufs E t submitted err s ((blocknr, orig) # rest) =
     (let s = (if blocknr \<in> set submitted then journal_end_buffer_io_sync orig s else s);
          err = (if blocknr \<in> set submitted \<and> log_io_ok E blocknr then err else - EIO)
      in bind_res (release_shadow t s) (\<lambda>s. wait_io_bufs E t submitted err s rest))"

definition wait_log_bufs :: "env \<Rightarrow> u64 list \<Rightarrow> int \<Rightarrow> u64 list \<Rightarrow> int" where
  "wait_log_bufs E submitted err log_bufs =
     (if \<exists>n \<in> set log_bufs. n \<in> set submitted \<and> \<not> log_io_ok E n then - EIO else err)"

text \<open>
  Phase 6: every buffer on the forget list is taken off its old checkpoint list, and put on the
  one of the committed transaction if it still has to be written back. \<open>release_buffer_page\<close>
  drops the reference on a buffer and lets the memory manager have its page.
\<close>

definition rotate_data :: "journal_head \<Rightarrow> journal_head" where
  "rotate_data jh =
     (if b_committed_data jh \<noteq> None
      then if b_frozen_data jh \<noteq> None
           then jh\<lparr>b_committed_data := b_frozen_data jh, b_frozen_data := None, b_frozen_triggers := None\<rparr>
           else jh\<lparr>b_committed_data := None\<rparr>
      else if b_frozen_data jh \<noteq> None then jh\<lparr>b_frozen_data := None, b_frozen_triggers := None\<rparr>
      else jh)"

definition leave_old_checkpoint :: "jstate \<Rightarrow> bhp \<Rightarrow> jstate res" where
  "leave_old_checkpoint s b =
     with_jh s b (\<lambda>jh. case b_cp_transaction jh of
         None \<Rightarrow> Inr s
       | Some t \<Rightarrow> with_tr s t (\<lambda>_.
           bind_res (remove_checkpoint (upd_tr t (\<lambda>tr. tr\<lparr>cs_dropped := cs_dropped tr + 1\<rparr>) s) b)
             (\<lambda>(_, s). Inr s)))"

definition forget_freed :: "jstate \<Rightarrow> bhp \<Rightarrow> jstate res" where
  "forget_freed s b =
     (if \<not> bh_freed (bhs s b) then Inr s
      else with_jh s b (\<lambda>jh.
        let s = upd_jh b (\<lambda>jh. jh\<lparr>b_modified := False\<rparr>) s
        in Inr (if b_next_transaction jh = None
                then upd_bh b (\<lambda>bh. bh\<lparr>bh_freed := False, bh_jbddirty := False, bh_mapped := False\<rparr>) s
                else s)))"

definition release_buffer_page :: "bhp \<Rightarrow> jstate \<Rightarrow> jstate" where
  "release_buffer_page b s = brelse b s"

definition forget_buffer :: "jstate \<Rightarrow> trp \<Rightarrow> bhp \<Rightarrow> jstate res" where
  "forget_buffer s t b =
     (let s = get_bh b s in
      with_jh s b (\<lambda>jh. J_ASSERT (b_transaction jh = Some t)
       (bind_res (leave_old_checkpoint (upd_jh b rotate_data s) b) (\<lambda>s.
        bind_res (forget_freed s b) (\<lambda>s.
        bind_res (if bh_jbddirty (bhs s b)
                  then bind_res (insert_checkpoint s b t) (\<lambda>s.
                         Inr (False, if is_journal_aborted s
                                     then upd_bh b (\<lambda>bh. bh\<lparr>bh_jbddirty := False\<rparr>) s else s))
                  else J_ASSERT (\<not> bh_dirty (bhs s b))
                         (with_jh s b (\<lambda>jh. Inr (b_next_transaction jh = None, s)))) (\<lambda>(try_to_free, s).
        bind_res (refile_buffer s b) (\<lambda>s.
          Inr (if try_to_free then release_buffer_page b s else brelse b s))))))))"

partial_function (option) forget_loop :: "trp \<Rightarrow> jstate \<Rightarrow> jstate res option" where
  "forget_loop t s =
     (case trs s t of
        None \<Rightarrow> Some (Inl UAF)
      | Some tr \<Rightarrow>
          (case t_forget tr of
             [] \<Rightarrow> Some (Inr s)
           | b # _ \<Rightarrow>
               (case forget_buffer s t b of
                  Inl e \<Rightarrow> Some (Inl e)
                | Inr s \<Rightarrow> forget_loop t s)))"

text \<open>Phase 7: the transaction goes on the checkpoint list, or away if nothing is left of it.\<close>

definition average_commit_time :: "env \<Rightarrow> u64 \<Rightarrow> u64" where
  "average_commit_time E avg = (if avg \<noteq> 0 then (elapsed_ns E + avg * 3) div 4 else elapsed_ns E)"

definition commit_finish :: "env \<Rightarrow> jstate \<Rightarrow> trp \<Rightarrow> jstate res" where
  "commit_finish E s t =
     with_tr s t (\<lambda>tr.
       let s = s\<lparr>j_checkpoint_transactions := j_checkpoint_transactions s @ [t]\<rparr> in
       J_ASSERT (t_state tr = T_COMMIT_JFLUSH)
         (let s = upd_tr t (\<lambda>tr. tr\<lparr>t_start := jiffies s, t_state := T_COMMIT_CALLBACK\<rparr>) s in
          J_ASSERT (j_committing_transaction s = Some t)
            (let s = s\<lparr>j_commit_sequence := t_tid tr, j_committing_transaction := None,
                       j_average_commit_time := average_commit_time E (j_average_commit_time s)\<rparr>;
                 s = upd_tr t (\<lambda>tr. tr\<lparr>t_state := T_FINISHED\<rparr>) s
             in if t_checkpoint_list tr = [] \<and> t_checkpoint_io_list tr = []
                then bind_res (drop_transaction s t) (\<lambda>s. Inr (jbd2_vmsep_journal_free_transaction s t))
                else Inr s)))"

text \<open>Phases 3 to 5: wait for the log and write the commit record.\<close>

definition commit_wait_log :: "env \<Rightarrow> trp \<Rightarrow> committer \<Rightarrow> int \<Rightarrow> jstate \<Rightarrow> (int \<times> jstate) res" where
  "commit_wait_log E t c err s =
     bind_res (wait_io_bufs E t (cm_submitted c) err s (rev (cm_io_bufs c))) (\<lambda>(err, s).
     with_tr s t (\<lambda>tr. J_ASSERT (t_shadow_list tr = [])
       (let err = wait_log_bufs E (cm_submitted c) err (cm_log_bufs c)
        in bind_res (if err \<noteq> 0 then jbd2_vmsep_journal_abort (sb_csum E) s err else Inr s) (\<lambda>s.
           with_tr s t (\<lambda>tr. J_ASSERT (t_state tr = T_COMMIT_DFLUSH)
             (Inr (err, upd_tr t (\<lambda>tr. tr\<lparr>t_state := T_COMMIT_JFLUSH\<rparr>) s)))))))"

definition commit_wait_record ::
    "env \<Rightarrow> int \<Rightarrow> u64 option \<Rightarrow> (tid_t \<times> ulong) option \<Rightarrow> jstate \<Rightarrow> jstate res" where
  "commit_wait_record E err cbh new_tail s =
     (let err = (case cbh of None \<Rightarrow> err | Some n \<Rightarrow> journal_wait_on_commit_record E n)
      in bind_res (if err \<noteq> 0 then jbd2_vmsep_journal_abort (sb_csum E) s err else Inr s) (\<lambda>s.
         case new_tail of
           None \<Rightarrow> Inr s
         | Some (tid, block) \<Rightarrow> jbd2_vmsep_update_log_tail (sb_csum E) s tid block))"

definition commit_log_end ::
    "env \<Rightarrow> trp \<Rightarrow> trp \<Rightarrow> committer \<Rightarrow> jstate res" where
  "commit_log_end E t running_transaction c =
     bind_res (commit_end_logging E t running_transaction (cm_state c)) (\<lambda>(new_tail, s).
     bind_res (if jbd2_has_feature_async_commit s then commit_record E s t (cm_crc c)
               else Inr (0, None, s)) (\<lambda>(err, cbh, s).
     bind_res (commit_wait_log E t c err s) (\<lambda>(err, s).
     bind_res (if jbd2_has_feature_async_commit s then Inr (err, cbh, s)
               else commit_record E s t (cm_crc c)) (\<lambda>(err, cbh, s).
     bind_res (commit_wait_record E err cbh new_tail s) (\<lambda>s.
     with_tr s t (\<lambda>tr. J_ASSERT (t_inode_list tr = []) (J_ASSERT (t_buffers tr = [])
       (J_ASSERT (t_checkpoint_list tr = []) (J_ASSERT (t_shadow_list tr = []) (Inr s))))))))))"

text \<open>The commit as a whole.\<close>

definition jbd2_vmsep_journal_commit_transaction ::
    "env \<Rightarrow> (jstate \<Rightarrow> jstate res) \<Rightarrow> jstate \<Rightarrow> jstate res option" where
  "jbd2_vmsep_journal_commit_transaction E K s =
     bind_ro (Some (commit_begin E s)) (\<lambda>(t, running_transaction, s).
     bind_ro (commit_lock K s t) (\<lambda>s.
     bind_ro (Some (commit_flush E s t)) (\<lambda>s.
     bind_ro (Some (commit_start_logging E s t)) (\<lambda>c.
     bind_ro (commit_loop E t running_transaction c) (\<lambda>c.
     bind_ro (Some (commit_log_end E t running_transaction c)) (\<lambda>s.
     bind_ro (forget_loop t s) (\<lambda>s.
       Some (commit_finish E s t))))))))"

section \<open>The commit thread\<close>

text \<open>
  One iteration of the loop of \<open>kjournald2\<close>; \<open>freezing\<close> says whether the thread is being frozen.
  The result \<open>False\<close> ends the loop.
\<close>

definition expired :: "jstate \<Rightarrow> bool res" where
  "expired s =
     (case j_running_transaction s of
        None \<Rightarrow> Inr False
      | Some t \<Rightarrow> with_tr s t (\<lambda>tr. Inr (time_after_eq (jiffies s) (t_expires tr))))"

definition kjournald2_sleep :: "(jstate \<Rightarrow> jstate res) \<Rightarrow> bool \<Rightarrow> jstate \<Rightarrow> jstate res" where
  "kjournald2_sleep K freezing s =
     (if freezing then K s
      else bind_res (expired s) (\<lambda>e.
        if j_commit_sequence s = j_commit_request s \<and> \<not> e \<and> JBD2_UNMOUNT \<notin> j_flags s
        then K s else Inr s))"

definition kjournald2_step ::
    "env \<Rightarrow> (jstate \<Rightarrow> jstate res) \<Rightarrow> bool \<Rightarrow> jstate \<Rightarrow> (bool \<times> jstate) res option" where
  "kjournald2_step E K freezing s =
     (if JBD2_UNMOUNT \<in> j_flags s then Some (Inr (False, s\<lparr>j_task := False\<rparr>))
      else if j_commit_sequence s \<noteq> j_commit_request s
      then bind_ro (jbd2_vmsep_journal_commit_transaction E K s) (\<lambda>s. Some (Inr (True, s)))
      else bind_ro (Some (kjournald2_sleep K freezing s)) (\<lambda>s.
        bind_ro (Some (expired s)) (\<lambda>e. Some (
          if e then deref (j_running_transaction s) OOPS (\<lambda>t. with_tr s t (\<lambda>tr.
                      Inr (True, s\<lparr>j_commit_request := t_tid tr\<rparr>)))
          else Inr (True, s)))))"

definition journal_kill_thread :: "(jstate \<Rightarrow> jstate res) \<Rightarrow> jstate \<Rightarrow> jstate res option" where
  "journal_kill_thread K s =
     wait_until K (\<lambda>s. \<not> j_task s) (s\<lparr>j_flags := insert JBD2_UNMOUNT (j_flags s)\<rparr>)"

end
