(* ===== verification/Jbd2_Replay.thy ===== *)
theory Jbd2_Replay
  imports Jbd2_Recovery
begin

text \<open>
  What recovery does with a log that holds complete transactions. A logical log is a list of
  transactions, each a list of descriptor blocks with their data blocks and of revoke blocks, and a
  commit block. \<open>log_holds\<close> says that the journal's device holds such a log from the block
  \<open>s_start\<close> on. The main theorem is that \<open>jbd2_vmsep_journal_recover\<close> returns and writes, in order,
  exactly the data blocks that no transaction from their own on revokes.
\<close>

unbundle bit_operations_syntax

section \<open>The tags of a descriptor block\<close>

text \<open>\<open>tags_from j d off\<close> lists the offsets of the tags of a block, and the loops follow that list.\<close>

function tags_from :: "('a) journal_t_scheme \<Rightarrow> block_data \<Rightarrow> nat \<Rightarrow> nat list" where
  "tags_from j d off =
     (if off + journal_vmsep_tag_bytes j \<le> j_blocksize j - csum_size j
      then off # (if tag_flags d off AND JBD2_FLAG_LAST_TAG \<noteq> 0 then []
                  else tags_from j d (next_tag j d off))
      else [])"
  by pat_completeness auto

termination
  by (relation "measure (\<lambda>(j, d, off). j_blocksize j - off)") (simp_all add: next_tag_measure)

declare tags_from.simps [simp del]

lemma count_tags_loop_length: "count_tags_loop j d off nr = nr + length (tags_from j d off)"
proof (induction j d off arbitrary: nr rule: tags_from.induct)
  case (1 j d off)
  then show ?case
    by (subst count_tags_loop.simps, subst tags_from.simps) auto
qed

lemma count_tags_length: "count_tags j d = length (tags_from j d 12)"
  by (simp add: count_tags_def count_tags_loop_length)

fun replay_tags :: "env \<Rightarrow> block_data \<Rightarrow> nat list \<Rightarrow> pass_state \<Rightarrow> (int \<times> pass_state) res" where
  "replay_tags E d [] st = Inr (0, st)"
| "replay_tags E d (off # offs) st =
     bind_res (replay_tag E d off st) (\<lambda>(err, st).
       if err \<noteq> 0 then Inr (err, st) else replay_tags E d offs st)"

lemma replay_loop_tags: "replay_loop E j d off st = replay_tags E d (tags_from j d off) st"
proof (induction j d off arbitrary: st rule: tags_from.induct)
  case (1 j d off)
  show ?case
    apply (subst replay_loop.simps, subst tags_from.simps)
    apply (auto simp: 1 intro!: arg_cong [where f = "bind_res _"])
    done
qed

section \<open>The records of a revoke block\<close>

function revoke_records :: "nat \<Rightarrow> block_data \<Rightarrow> nat \<Rightarrow> nat \<Rightarrow> u64 list" where
  "revoke_records sz d mx off =
     (if 0 < sz \<and> off + sz \<le> mx
      then of_nat (be_dec (load_bytes d off sz)) # revoke_records sz d mx (off + sz) else [])"
  by pat_completeness auto

termination
  by (relation "measure (\<lambda>(sz, d, mx, off). mx - off)") auto

declare revoke_records.simps [simp del]

text \<open>\<open>scan_table rs t\<close> is the table \<open>t\<close> after the records \<open>rs\<close> have been entered.\<close>

definition scan_table :: "(u64 \<times> tid_t) list \<Rightarrow> revoke_table \<Rightarrow> revoke_table" where
  "scan_table rs t = fold (\<lambda>(b, q) t. snd (set_revoke_tbl True t b q)) rs t"

lemma scan_table_simps [simp]:
  "scan_table [] t = t"
  "scan_table (x # rs) t = scan_table rs (snd (set_revoke_tbl True t (fst x) (snd x)))"
  "scan_table (rs @ rs') t = scan_table rs' (scan_table rs t)"
  by (auto simp: scan_table_def split_beta)

lemma set_revoke_tbl_ok: "fst (set_revoke_tbl True t b q) = 0"
  by (auto simp: set_revoke_tbl_def insert_revoke_hash_def Let_def split: option.splits)

lemma set_revoke_table_of_twice [simp]:
  "set_revoke_table_of (set_revoke_table_of s i x) i y = set_revoke_table_of s i y"
  by (simp add: set_revoke_table_of_def)

lemma set_revoke_ok:
  assumes "j_revoke s = Some i"
  shows "jbd2_vmsep_journal_set_revoke True (set_revoke_table_of s i (Some t)) b q =
    Inr (0, set_revoke_table_of s i (Some (snd (set_revoke_tbl True t b q))))"
  using assms set_revoke_tbl_ok [of t b q]
  by (simp add: jbd2_vmsep_journal_set_revoke_def with_revoke_def deref_def split_beta)

section \<open>Positions in the log\<close>

definition log_at :: "jstate \<Rightarrow> nat \<Rightarrow> ulong" where
  "log_at s k =
     (let first = unat (j_first s)
      in of_nat (first + (unat (s_start (j_superblock s)) - first + k) mod (unat (j_last s) - first)))"

text \<open>
  A journal that recovery can work on: its blocks are mapped, lie within the journal, memory and
  buffers are available, and there is a revoke table. The checksums of version 1, which the scan
  computes over whole transactions, are left out; those of versions 2 and 3 are not.
\<close>

definition recovery_ready :: "env \<Rightarrow> jstate \<Rightarrow> bool \<Rightarrow> bool" where
  "recovery_ready E s i =
     ((\<forall>b. getblk E b) \<and> (\<forall>b. fs_getblk E b) \<and> mem_alloc E \<and>
      (\<forall>f n. j_bmap s = Some f \<longrightarrow> f n \<noteq> 0) \<and>
      j_first s < j_last s \<and> unat (j_last s) \<le> unat (j_maxlen s) \<and>
      unat (j_first s) \<le> unat (s_start (j_superblock s)) \<and>
      unat (s_start (j_superblock s)) < unat (j_last s) \<and>
      j_revoke s = Some i \<and> \<not> jbd2_has_feature_checksum s)"

definition log_block :: "env \<Rightarrow> jstate \<Rightarrow> nat \<Rightarrow> block_data option" where
  "log_block E s k = dev_read E (jmap s (log_at s k))"

lemma unat_log_at:
  assumes "recovery_ready E s i"
  shows "unat (log_at s k) = unat (j_first s) +
      (unat (s_start (j_superblock s)) - unat (j_first s) + k) mod (unat (j_last s) - unat (j_first s))"
    and "unat (log_at s k) < unat (j_last s)"
proof -
  let ?x = "unat (j_first s) +
      (unat (s_start (j_superblock s)) - unat (j_first s) + k) mod (unat (j_last s) - unat (j_first s))"
  have lt: "unat (j_first s) < unat (j_last s)"
    using assms by (simp add: recovery_ready_def word_less_nat_alt)
  then have "(unat (s_start (j_superblock s)) - unat (j_first s) + k) mod
      (unat (j_last s) - unat (j_first s)) < unat (j_last s) - unat (j_first s)" by simp
  then have x: "?x < unat (j_last s)" using lt by linarith
  then have "?x < 2 ^ 64" using unsigned_less [of "j_last s", where 'a = nat] by simp
  then have "unat (log_at s k) = ?x" unfolding log_at_def Let_def by (subst unat_of_nat_small) simp_all
  with x show "unat (log_at s k) = ?x" "unat (log_at s k) < unat (j_last s)" by simp_all
qed

lemma log_at_0:
  assumes "recovery_ready E s i"
  shows "log_at s 0 = ucast (s_start (j_superblock s))"
proof -
  have "unat (s_start (j_superblock s)) - unat (j_first s) < unat (j_last s) - unat (j_first s)"
    using assms by (auto simp: recovery_ready_def)
  then have "unat (log_at s 0) = unat (ucast (s_start (j_superblock s)) :: ulong)"
    using assms unat_log_at(1) [OF assms, of 0] by (simp add: recovery_ready_def)
  then show ?thesis by (simp only: word_unat_eq_iff)
qed

lemma mod_add_wrap:
  fixes a n m :: nat
  assumes "n \<le> m" and "0 < m"
  shows "(a + n) mod m = (if a mod m + n < m then a mod m + n else a mod m + n - m)"
proof -
  have "a mod m < m" using assms by simp
  then have "a mod m + n < 2 * m" using assms(1) by linarith
  moreover have "(a + n) mod m = (a mod m + n) mod m" by (simp add: mod_simps)
  ultimately show ?thesis by (auto simp: le_mod_geq)
qed

lemma log_wrap_at:
  assumes r: "recovery_ready E s i" and n: "n \<le> unat (j_last s) - unat (j_first s)"
  shows "log_wrap s (log_at s k + of_nat n) = log_at s (k + n)"
proof -
  let ?f = "unat (j_first s)" and ?l = "unat (j_last s)"
  let ?a = "unat (s_start (j_superblock s)) - ?f + k"
  have fl: "?f < ?l" and small: "?l < 2 ^ 32"
    using r unsigned_less [of "j_maxlen s", where 'a = nat]
    by (auto simp: recovery_ready_def word_less_nat_alt)
  have at: "unat (log_at s k) = ?f + ?a mod (?l - ?f)" "unat (log_at s k) < ?l"
    "unat (log_at s (k + n)) = ?f + (?a + n) mod (?l - ?f)"
    using unat_log_at [OF r] by (simp_all add: add.assoc)
  have "n < 2 ^ 64" using n small by simp
  then have un: "unat (of_nat n :: ulong) = n" by (subst unat_of_nat_small) simp_all
  then have sum: "unat (log_at s k + of_nat n) = unat (log_at s k) + n"
    using at(2) n small by (subst unat_add_small) simp_all
  have wrap: "(?a + n) mod (?l - ?f) =
      (if ?a mod (?l - ?f) + n < ?l - ?f then ?a mod (?l - ?f) + n else ?a mod (?l - ?f) + n - (?l - ?f))"
    using mod_add_wrap [OF n] fl by simp
  define q where "q = ?a mod (?l - ?f)"
  have size: "unat (j_last s - j_first s) = ?l - ?f" using fl by (simp add: unat_sub word_le_nat_alt)
  have "unat (log_wrap s (log_at s k + of_nat n)) = unat (log_at s (k + n))"
  proof (cases "?l \<le> unat (log_at s k) + n")
    case True
    then have le: "j_last s - j_first s \<le> log_at s k + of_nat n"
      unfolding word_le_nat_alt sum size by linarith
    have "log_wrap s (log_at s k + of_nat n) = log_at s k + of_nat n - (j_last s - j_first s)"
      using True by (simp add: log_wrap_def word_le_nat_alt sum)
    then have "unat (log_wrap s (log_at s k + of_nat n)) = unat (log_at s k) + n - (?l - ?f)"
      using le by (simp only: unat_sub sum size)
    moreover have "\<not> q + n < ?l - ?f" using True at(1) fl unfolding q_def [symmetric] by linarith
    ultimately show ?thesis unfolding at(3) wrap q_def [symmetric]
      using True at(1) fl unfolding q_def [symmetric] by simp
  next
    case False
    then have "log_wrap s (log_at s k + of_nat n) = log_at s k + of_nat n"
      by (simp add: log_wrap_def word_le_nat_alt sum)
    moreover have "q + n < ?l - ?f" using False at(1) fl unfolding q_def [symmetric] by linarith
    ultimately show ?thesis unfolding at(3) wrap q_def [symmetric]
      using at(1) sum unfolding q_def [symmetric] by simp
  qed
  then show ?thesis by (simp only: word_unat_eq_iff)
qed

section \<open>Reading blocks\<close>

lemma bmap_ok: "recovery_ready E s i \<Longrightarrow> jbd2_vmsep_journal_bmap csum (set_revoke_table_of s i t) n =
    Inr (0, jmap s n, set_revoke_table_of s i t)"
  by (cases "j_bmap s")
    (auto simp: jbd2_vmsep_journal_bmap_def jmap_def recovery_ready_def set_revoke_table_of_def)

lemma readahead_ok:
  "recovery_ready E s i \<Longrightarrow> readahead_loop E (set_revoke_table_of s i t) ns =
    Inr (0, set_revoke_table_of s i t)"
  by (induction ns) (auto simp: bmap_ok recovery_ready_def)

lemma jread_ok:
  assumes r: "recovery_ready E s i" and d: "log_block E s k = Some d"
  shows "jread E (set_revoke_table_of s i t) (ucast (log_at s k)) = Inr (0, d, set_revoke_table_of s i t)"
proof -
  have lt: "unat (log_at s k) < unat (j_maxlen s)"
    using unat_log_at(2) [OF r, of k] r by (simp add: recovery_ready_def)
  then have "unat (log_at s k) < 2 ^ 32"
    using unsigned_less [of "j_maxlen s", where 'a = nat] by simp
  then have u: "unat (ucast (log_at s k) :: u32) = unat (log_at s k)"
    by (simp add: unsigned_ucast_eq take_bit_nat_eq_self)
  then have bk: "ucast (ucast (log_at s k) :: u32) = log_at s k"
    by (metis unat_ucast64 word_unat_eq_iff)
  have "j_maxlen (set_revoke_table_of s i t) = j_maxlen s" by (simp add: set_revoke_table_of_def)
  then have "\<not> j_maxlen (set_revoke_table_of s i t) \<le> ucast (log_at s k)"
    using lt u by (simp add: word_le_nat_alt)
  then show ?thesis
    using d r by (simp add: jread_def bmap_ok [OF r] bk do_readahead_def readahead_ok [OF r] log_block_def
      recovery_ready_def)
qed

section \<open>What the formats depend on\<close>

text \<open>
  The layout of the blocks of the log depends on the configuration of the journal only, which
  \<open>same_format\<close> compares.
\<close>

definition same_format :: "jstate \<Rightarrow> jstate \<Rightarrow> bool" where
  "same_format s s' =
     (j_blocksize s' = j_blocksize s \<and> j_csum_seed s' = j_csum_seed s \<and>
      j_chksum_driver s' = j_chksum_driver s \<and> j_format_version s' = j_format_version s \<and>
      s_feature_compat (j_superblock s') = s_feature_compat (j_superblock s) \<and>
      s_feature_incompat (j_superblock s') = s_feature_incompat (j_superblock s) \<and>
      j_first s' = j_first s \<and> j_last s' = j_last s \<and> j_bmap s' = j_bmap s \<and>
      j_uuid s' = j_uuid s \<and> j_wbufsize s' = j_wbufsize s)"

lemma same_format_refl [simp]: "same_format s s"
  by (simp add: same_format_def)

lemma same_format_trans: "same_format s s' \<Longrightarrow> same_format s' s'' \<Longrightarrow> same_format s s''"
  by (simp add: same_format_def)

lemma same_format_fields:
  assumes "same_format s s'"
  shows "j_blocksize s' = j_blocksize s" "j_csum_seed s' = j_csum_seed s"
    "j_first s' = j_first s" "j_last s' = j_last s" "j_bmap s' = j_bmap s"
    "j_uuid s' = j_uuid s" "j_wbufsize s' = j_wbufsize s"
    "jbd2_has_compat_feature m s' = jbd2_has_compat_feature m s"
    "jbd2_has_incompat_feature m s' = jbd2_has_incompat_feature m s"
    "jbd2_journal_has_csum_v2or3 s' = jbd2_journal_has_csum_v2or3 s"
  using assms by (simp_all add: same_format_def jbd2_has_compat_feature_def
      jbd2_has_incompat_feature_def jbd2_journal_has_csum_v2or3_def)

lemma same_format_formats:
  assumes "same_format s s'"
  shows "journal_vmsep_tag_bytes s' = journal_vmsep_tag_bytes s"
    "csum_size s' = csum_size s" "revoke_record_size s' = revoke_record_size s"
    "revoke_block_limit s' = revoke_block_limit s" "log_wrap s' = log_wrap s"
    "next_tag s' = next_tag s" "read_tag_block s' = read_tag_block s" "jmap s' = jmap s"
    "jbd2_descriptor_block_csum_verify E s' = jbd2_descriptor_block_csum_verify E s"
    "jbd2_commit_block_csum_verify E s' = jbd2_commit_block_csum_verify E s"
    "jbd2_block_tag_csum_verify E s' = jbd2_block_tag_csum_verify E s"
    "jbd2_vmsep_descriptor_block_csum_set E s' = jbd2_vmsep_descriptor_block_csum_set E s"
  using same_format_fields [OF assms]
  by (auto simp: journal_vmsep_tag_bytes_def csum_size_def revoke_record_size_def log_wrap_def next_tag_def
      read_tag_block_def jbd2_descriptor_block_csum_verify_def jbd2_commit_block_csum_verify_def
      jbd2_block_tag_csum_verify_def tag_csum_def fun_eq_iff jmap_def revoke_block_limit_def
      jbd2_vmsep_descriptor_block_csum_set_def)

lemma tags_from_format:
  assumes f: "same_format s s'"
  shows "tags_from s' d off = tags_from s d off"
  using f
proof (induction s d off rule: tags_from.induct)
  case (1 s d off)
  then show ?case
    by (subst (1 2) tags_from.simps) (simp add: same_format_fields same_format_formats)
qed

lemma set_revoke_format: "same_format s (set_revoke_table_of s i t)"
  by (simp add: same_format_def set_revoke_table_of_def)

lemmas set_revoke_table_of_same [simp] =
  same_format_fields [OF set_revoke_format] same_format_formats [OF set_revoke_format]
  tags_from_format [OF set_revoke_format]

lemma set_revoke_table_of_fields [simp]:
  "j_flags (set_revoke_table_of s i t) = j_flags s"
  "j_superblock (set_revoke_table_of s i t) = j_superblock s"
  "j_transaction_sequence (set_revoke_table_of s i t) = j_transaction_sequence s"
  by (simp_all add: set_revoke_table_of_def)

lemma count_tags_same [simp]: "count_tags (set_revoke_table_of s i t) d = count_tags s d"
  by (simp add: count_tags_length)

section \<open>Logical logs\<close>

text \<open>
  An item of a transaction is a descriptor block with the data blocks that follow it, or a revoke
  block; a transaction is a list of items and its commit block.
\<close>

datatype log_item = Data_item block_data "block_data list" | Revoke_item block_data

type_synonym log_tx = "log_item list \<times> block_data"

fun item_blocks :: "log_item \<Rightarrow> block_data list" where
  "item_blocks (Data_item d ds) = d # ds"
| "item_blocks (Revoke_item d) = [d]"

definition tx_blocks :: "log_tx \<Rightarrow> block_data list" where
  "tx_blocks tx = concat (map item_blocks (fst tx)) @ [snd tx]"

definition has_header :: "block_data \<Rightarrow> u32 \<Rightarrow> tid_t \<Rightarrow> bool" where
  "has_header d blocktype tid =
     (be32_at d 0 = JBD2_MAGIC_NUMBER \<and> be32_at d 4 = blocktype \<and> be32_at d 8 = tid)"

fun item_wf :: "env \<Rightarrow> jstate \<Rightarrow> tid_t \<Rightarrow> log_item \<Rightarrow> bool" where
  "item_wf E s tid (Data_item d ds) =
     (has_header d JBD2_DESCRIPTOR_BLOCK tid \<and> jbd2_descriptor_block_csum_verify E s d \<and>
      list_all2 (\<lambda>off data. jbd2_block_tag_csum_verify E s d off data tid) (tags_from s d 12) ds)"
| "item_wf E s tid (Revoke_item d) =
     (has_header d JBD2_REVOKE_BLOCK tid \<and> jbd2_descriptor_block_csum_verify E s d \<and>
      unat (be32_at d 12) \<le> j_blocksize s - csum_size s)"

definition tx_wf :: "env \<Rightarrow> jstate \<Rightarrow> tid_t \<Rightarrow> log_tx \<Rightarrow> bool" where
  "tx_wf E s tid tx =
     (list_all (item_wf E s tid) (fst tx) \<and> has_header (snd tx) JBD2_COMMIT_BLOCK tid \<and>
      jbd2_commit_block_csum_verify E s (snd tx))"

text \<open>The blocks \<open>bs\<close> are in the log from position \<open>k\<close> on.\<close>

definition log_holds :: "env \<Rightarrow> jstate \<Rightarrow> nat \<Rightarrow> block_data list \<Rightarrow> bool" where
  "log_holds E s k bs = (\<forall>n < length bs. log_block E s (k + n) = Some (bs ! n))"

lemma log_holds_Nil [simp]: "log_holds E s k []"
  by (simp add: log_holds_def)

lemma log_holds_Cons [simp]:
  "log_holds E s k (b # bs) \<longleftrightarrow> log_block E s k = Some b \<and> log_holds E s (k + 1) bs"
  by (auto simp: log_holds_def nth_Cons less_Suc_eq_0_disj split: nat.splits)

lemma log_holds_append [simp]:
  "log_holds E s k (bs @ bs') \<longleftrightarrow> log_holds E s k bs \<and> log_holds E s (k + length bs) bs'"
  by (induction bs arbitrary: k) (auto simp: add.assoc)

text \<open>What the items ask for: blocks to revoke, and blocks to write to the file system.\<close>

fun item_revokes :: "jstate \<Rightarrow> log_item \<Rightarrow> u64 list" where
  "item_revokes s (Data_item d ds) = []"
| "item_revokes s (Revoke_item d) = revoke_records (revoke_record_size s) d (unat (be32_at d 12)) 16"

definition tag_write :: "jstate \<Rightarrow> block_data \<Rightarrow> nat \<Rightarrow> block_data \<Rightarrow> u64 \<times> block_data" where
  "tag_write s d off data =
     (read_tag_block s d off,
      if tag_flags d off AND JBD2_FLAG_ESCAPE \<noteq> 0
      then store_bytes data 0 (be_enc 4 (unat JBD2_MAGIC_NUMBER)) else data)"

fun item_writes :: "jstate \<Rightarrow> log_item \<Rightarrow> (u64 \<times> block_data) list" where
  "item_writes s (Data_item d ds) = map (\<lambda>(off, data). tag_write s d off data) (zip (tags_from s d 12) ds)"
| "item_writes s (Revoke_item d) = []"

definition tx_revokes :: "jstate \<Rightarrow> log_tx \<Rightarrow> u64 list" where
  "tx_revokes s tx = concat (map (item_revokes s) (fst tx))"

definition tx_writes :: "jstate \<Rightarrow> log_tx \<Rightarrow> (u64 \<times> block_data) list" where
  "tx_writes s tx = concat (map (item_writes s) (fst tx))"

section \<open>The passes on a logical log\<close>

text \<open>
  The state of a pass that has come to position \<open>k\<close> without errors, with the revoke table \<open>t\<close>, the
  transaction \<open>tid\<close> to find next, and \<open>fs\<close> written.
\<close>

definition pass_at ::
    "jstate \<Rightarrow> bool \<Rightarrow> tid_t \<Rightarrow> revoke_table \<Rightarrow> nat \<Rightarrow> tid_t \<Rightarrow> (u64 \<times> block_data) list \<Rightarrow> pass_state \<Rightarrow> bool" where
  "pass_at s i e t k tid fs st =
     (ps_state st = set_revoke_table_of s i (Some t) \<and> ps_log_block st = log_at s k \<and>
      ps_commit_ID st = tid \<and> ps_fs st = fs \<and> ps_success st = 0 \<and> \<not> ps_block_error st \<and>
      end_transaction (ps_info st) = e)"

definition pass_goes :: "passtype \<Rightarrow> tid_t \<Rightarrow> tid_t \<Rightarrow> bool" where
  "pass_goes pass tid e = (pass = PASS_SCAN \<or> \<not> tid_geq tid e)"

definition pass_table :: "passtype \<Rightarrow> (u64 \<times> tid_t) list \<Rightarrow> revoke_table \<Rightarrow> revoke_table" where
  "pass_table pass rs t = (if pass = PASS_REVOKE then scan_table rs t else t)"

definition live_writes :: "revoke_table \<Rightarrow> tid_t \<Rightarrow> (u64 \<times> block_data) list \<Rightarrow> (u64 \<times> block_data) list" where
  "live_writes t tid ws = filter (\<lambda>(b, _). \<not> test_revoke_tbl t b tid) ws"

definition pass_fs :: "passtype \<Rightarrow> (u64 \<times> block_data) list \<Rightarrow> (u64 \<times> block_data) list \<Rightarrow> (u64 \<times> block_data) list" where
  "pass_fs pass ws fs = (if pass = PASS_REPLAY then rev ws @ fs else fs)"

lemma ps_jread_at:
  assumes "recovery_ready E s i" and "log_block E s k = Some d" and "ps_state st = set_revoke_table_of s i t"
  shows "ps_jread E st (ucast (log_at s k)) = Inr (0, d, st)"
  using jread_ok [OF assms(1,2), of t] assms(3) by (simp add: ps_jread_def)

lemma next_block_at:
  assumes "recovery_ready E s i" and "pass_at s i e t k tid fs st"
  shows "\<exists>st'. next_block st = (ucast (log_at s k), st') \<and> pass_at s i e t (k + 1) tid fs st'"
proof -
  have "1 \<le> unat (j_last s) - unat (j_first s)"
    using assms(1) by (auto simp: recovery_ready_def word_less_nat_alt)
  from log_wrap_at [OF assms(1) this, of k] show ?thesis
    using assms(2) by (simp add: next_block_def pass_at_def)
qed

lemma replay_tag_at:
  assumes r: "recovery_ready E s i" and at: "pass_at s i e t k tid fs st"
    and d: "log_block E s k = Some data" and sq: "be32_at d 8 = tid"
    and v: "jbd2_block_tag_csum_verify E s d off data tid"
  shows "\<exists>st'. replay_tag E d off st = Inr (0, st') \<and>
    pass_at s i e t (k + 1) tid (rev (live_writes t tid [tag_write s d off data]) @ fs) st'"
proof -
  obtain st1 where n: "next_block st = (ucast (log_at s k), st1)"
    and at1: "pass_at s i e t (k + 1) tid fs st1"
    using next_block_at [OF r at] by blast
  have rd: "ps_jread E st1 (ucast (log_at s k)) = Inr (0, data, st1)"
    using ps_jread_at [OF r d, of st1 "Some t"] at1 by (simp add: pass_at_def)
  show ?thesis
    using r at1 sq v unfolding replay_tag_def n
    by (auto simp: rd pass_at_def jbd2_vmsep_journal_test_revoke_def deref_def recovery_ready_def
        live_writes_def tag_write_def)
qed

lemma replay_tags_at:
  assumes r: "recovery_ready E s i" and sq: "be32_at d 8 = tid"
    and v: "list_all2 (\<lambda>off data. jbd2_block_tag_csum_verify E s d off data tid) offs ds"
    and "pass_at s i e t k tid fs st" and "log_holds E s k ds"
  shows "\<exists>st'. replay_tags E d offs st = Inr (0, st') \<and>
    pass_at s i e t (k + length ds) tid
      (rev (live_writes t tid (map (\<lambda>(off, data). tag_write s d off data) (zip offs ds))) @ fs) st'"
  using v assms(4,5)
proof (induction offs ds arbitrary: st k fs rule: list_all2_induct)
  case Nil
  then show ?case by (simp add: live_writes_def)
next
  case (Cons off offs data ds)
  obtain st1 where st1: "replay_tag E d off st = Inr (0, st1)"
    and at1: "pass_at s i e t (k + 1) tid (rev (live_writes t tid [tag_write s d off data]) @ fs) st1"
    using replay_tag_at [OF r Cons.prems(1) _ sq Cons.hyps(1)] Cons.prems(2) by auto
  obtain st2 where "replay_tags E d offs st1 = Inr (0, st2)"
    and "pass_at s i e t (k + 1 + length ds) tid
      (rev (live_writes t tid (map (\<lambda>(off, data). tag_write s d off data) (zip offs ds))) @
        rev (live_writes t tid [tag_write s d off data]) @ fs) st2"
    using Cons.IH [OF at1] Cons.prems(2) by auto
  then show ?case using st1 by (simp add: live_writes_def split: if_splits)
qed

text \<open>A scan of a revoke block enters its records.\<close>

lemma scan_revoke_loop_at:
  assumes mem: "mem_alloc E" and i: "j_revoke s = Some i"
    and "pass_at s i e t k tid fs st"
  shows "\<exists>st'. scan_revoke_loop E j d q mx off st = Inr (0, st') \<and>
    pass_at s i e (scan_table (map (\<lambda>b. (b, q)) (revoke_records (revoke_record_size j) d mx off)) t)
      k tid fs st'"
  using assms(3)
proof (induction "revoke_record_size j" d mx off arbitrary: st t rule: revoke_records.induct)
  case (1 d mx off)
  let ?b = "of_nat (be_dec (load_bytes d off (revoke_record_size j))) :: u64"
  have pos: "0 < revoke_record_size j" by (simp add: revoke_record_size_def)
  show ?case
  proof (cases "off + revoke_record_size j \<le> mx")
    case True
    let ?t = "snd (set_revoke_tbl True t ?b q)"
    let ?st = "st\<lparr>ps_state := set_revoke_table_of s i (Some ?t),
      ps_info := (ps_info st)\<lparr>nr_revokes := nr_revokes (ps_info st) + 1\<rparr>\<rparr>"
    have "pass_at s i e ?t k tid fs ?st" using 1(2) by (simp add: pass_at_def)
    with 1(1) [OF conjI [OF pos True]] obtain st' where
      st': "scan_revoke_loop E j d q mx (off + revoke_record_size j) ?st = Inr (0, st')"
      "pass_at s i e (scan_table (map (\<lambda>b. (b, q))
         (revoke_records (revoke_record_size j) d mx (off + revoke_record_size j))) ?t) k tid fs st'"
      by blast
    have "scan_revoke_loop E j d q mx off st = Inr (0, st')"
      using True 1(2) mem st'(1) set_revoke_ok [OF i, of t ?b q]
      by (subst scan_revoke_loop.simps) (simp add: pass_at_def)
    then show ?thesis using st'(2) True pos by (subst revoke_records.simps) simp
  next
    case False
    then show ?thesis using 1(2)
      by (subst scan_revoke_loop.simps, subst revoke_records.simps) simp
  qed
qed

text \<open>One iteration of the loop, up to the \<open>switch\<close> on the block type.\<close>

lemma pass_step_at:
  assumes r: "recovery_ready E s i" and at: "pass_at s i e t k tid fs st"
    and d: "log_block E s k = Some d" and h: "has_header d bt tid" and go: "pass_goes pass tid e"
  shows "\<exists>st'. pass_at s i e t (k + 1) tid fs st' \<and>
    pass_step E pass st =
      (if bt = JBD2_DESCRIPTOR_BLOCK then descriptor_step E pass d st'
       else if bt = JBD2_COMMIT_BLOCK then Inr (Continue (commit_step E pass d st'))
       else if bt = JBD2_REVOKE_BLOCK
       then if pass \<noteq> PASS_REVOKE then Inr (Continue st')
            else bind_res (scan_revoke_records E d tid st') (\<lambda>(err, st).
              if err \<noteq> 0 then Inr (Failed err st) else Inr (Continue st))
       else Inr (Done st'))"
proof -
  obtain st1 where n: "next_block st = (ucast (log_at s k), st1)"
    and at1: "pass_at s i e t (k + 1) tid fs st1"
    using next_block_at [OF r at] by blast
  have rd: "ps_jread E st (ucast (ps_log_block st)) = Inr (0, d, st)"
    using ps_jread_at [OF r d, of st "Some t"] at by (simp add: pass_at_def)
  have stop: "(pass \<noteq> PASS_SCAN \<and> tid_geq (ps_commit_ID st) (end_transaction (ps_info st))) = False"
    and "ps_commit_ID st1 = tid"
    using go at at1 by (auto simp: pass_goes_def pass_at_def)
  then show ?thesis
    using at1 h unfolding pass_step_def stop
    by (intro exI [of _ st1]) (simp add: rd n has_header_def)
qed

lemma pass_loop_Continue:
  "pass_step E pass st = Inr (Continue st') \<Longrightarrow> pass_loop E pass st = pass_loop E pass st'"
  by (subst pass_loop.simps) simp

lemma descriptor_step_at:
  assumes r: "recovery_ready E s i" and at: "pass_at s i e t k tid fs st"
    and wf: "item_wf E s tid (Data_item d ds)" and holds: "log_holds E s k ds"
    and fits: "length ds \<le> unat (j_last s) - unat (j_first s)"
  shows "\<exists>st'. descriptor_step E pass d st = Inr (Continue st') \<and>
    pass_at s i e t (k + length ds) tid
      (pass_fs pass (live_writes t tid (item_writes s (Data_item d ds))) fs) st'"
proof -
  have n: "count_tags s d = length ds" and sq: "be32_at d 8 = tid"
    and v: "list_all2 (\<lambda>off data. jbd2_block_tag_csum_verify E s d off data tid) (tags_from s d 12) ds"
    and c: "jbd2_descriptor_block_csum_verify E s d"
    using wf by (auto simp: count_tags_length has_header_def dest: list_all2_lengthD)
  have st: "ps_state st = set_revoke_table_of s i (Some t)" using at by (simp add: pass_at_def)
  show ?thesis
  proof (cases "pass = PASS_REPLAY")
    case True
    with replay_tags_at [OF r sq v at holds] show ?thesis
      by (auto simp: descriptor_step_def st c replay_loop_tags pass_fs_def)
  next
    case False
    with log_wrap_at [OF r fits, of k] at r show ?thesis
      by (auto simp: descriptor_step_def st c n pass_fs_def pass_at_def recovery_ready_def)
  qed
qed

lemma pass_item:
  assumes r: "recovery_ready E s i" and at: "pass_at s i e t k tid fs st"
    and wf: "item_wf E s tid it" and holds: "log_holds E s k (item_blocks it)"
    and fits: "length (item_blocks it) \<le> unat (j_last s) - unat (j_first s)"
    and go: "pass_goes pass tid e"
  shows "\<exists>st'. pass_loop E pass st = pass_loop E pass st' \<and>
    pass_at s i e (pass_table pass (map (\<lambda>b. (b, tid)) (item_revokes s it)) t)
      (k + length (item_blocks it)) tid (pass_fs pass (live_writes t tid (item_writes s it)) fs) st'"
proof (cases it)
  case (Data_item d ds)
  with wf holds have d: "log_block E s k = Some d" "has_header d JBD2_DESCRIPTOR_BLOCK tid"
    "log_holds E s (k + 1) ds" "length ds \<le> unat (j_last s) - unat (j_first s)"
    using fits by auto
  obtain st1 where st1: "pass_at s i e t (k + 1) tid fs st1"
    "pass_step E pass st = descriptor_step E pass d st1"
    using pass_step_at [OF r at d(1,2) go] by auto
  obtain st2 where "descriptor_step E pass d st1 = Inr (Continue st2)"
    "pass_at s i e t (k + 1 + length ds) tid
      (pass_fs pass (live_writes t tid (item_writes s (Data_item d ds))) fs) st2"
    using descriptor_step_at [OF r st1(1) wf [unfolded Data_item] d(3,4)] by blast
  with st1(2) show ?thesis
    by (auto simp: Data_item pass_table_def intro!: exI [of _ st2] pass_loop_Continue)
next
  case (Revoke_item d)
  with wf holds have d: "log_block E s k = Some d" "has_header d JBD2_REVOKE_BLOCK tid"
    "jbd2_descriptor_block_csum_verify E s d" "\<not> unat (be32_at d 12) > j_blocksize s - csum_size s" by auto
  obtain st1 where st1: "pass_at s i e t (k + 1) tid fs st1"
    "pass_step E pass st = (if pass \<noteq> PASS_REVOKE then Inr (Continue st1)
            else bind_res (scan_revoke_records E d tid st1) (\<lambda>(err, st).
              if err \<noteq> 0 then Inr (Failed err st) else Inr (Continue st)))"
    using pass_step_at [OF r at d(1,2) go] by auto
  have st: "ps_state st1 = set_revoke_table_of s i (Some t)" using st1(1) by (simp add: pass_at_def)
  obtain st2 where st2: "scan_revoke_loop E (ps_state st1) d tid (unat (be32_at d 12)) 16 st1 = Inr (0, st2)"
    "pass_at s i e (scan_table (map (\<lambda>b. (b, tid)) (item_revokes s it)) t) (k + 1) tid fs st2"
    using scan_revoke_loop_at [OF _ _ st1(1), of E "ps_state st1" d tid "unat (be32_at d 12)" 16] r
    by (auto simp: recovery_ready_def Revoke_item st)
  have "\<exists>st'. pass_step E pass st = Inr (Continue st') \<and>
    pass_at s i e (pass_table pass (map (\<lambda>b. (b, tid)) (item_revokes s it)) t) (k + 1) tid fs st'"
    using st1 st2 d(3,4) by (auto simp: scan_revoke_records_def st pass_table_def Let_def)
  then show ?thesis
    by (auto simp: Revoke_item live_writes_def pass_fs_def dest: pass_loop_Continue)
qed

lemma pass_fs_append:
  "pass_fs pass (live_writes (pass_table pass rs t) tid ws') (pass_fs pass (live_writes t tid ws) fs) =
    pass_fs pass (live_writes t tid (ws @ ws')) fs"
  by (cases pass) (simp_all add: pass_fs_def pass_table_def live_writes_def)

lemma pass_table_append: "pass_table pass (rs @ rs') t = pass_table pass rs' (pass_table pass rs t)"
  by (simp add: pass_table_def)

lemma pass_items:
  assumes r: "recovery_ready E s i" and go: "pass_goes pass tid e"
    and "list_all (item_wf E s tid) its" and "log_holds E s k (concat (map item_blocks its))"
    and "length (concat (map item_blocks its)) \<le> unat (j_last s) - unat (j_first s)"
    and "pass_at s i e t k tid fs st"
  shows "\<exists>st'. pass_loop E pass st = pass_loop E pass st' \<and>
    pass_at s i e (pass_table pass (map (\<lambda>b. (b, tid)) (concat (map (item_revokes s) its))) t)
      (k + length (concat (map item_blocks its))) tid
      (pass_fs pass (live_writes t tid (concat (map (item_writes s) its))) fs) st'"
  using assms(3-)
proof (induction its arbitrary: k t fs st)
  case Nil
  then show ?case by (auto simp: pass_table_def pass_fs_def live_writes_def)
next
  case (Cons it its)
  let ?rs = "map (\<lambda>b. (b, tid)) (item_revokes s it)"
  obtain st1 where st1: "pass_loop E pass st = pass_loop E pass st1"
    "pass_at s i e (pass_table pass ?rs t) (k + length (item_blocks it)) tid
      (pass_fs pass (live_writes t tid (item_writes s it)) fs) st1"
    using pass_item [OF r Cons.prems(4) _ _ _ go, of it] Cons.prems(1-3) by auto
  from Cons.IH [OF _ _ _ st1(2)] Cons.prems(1-3) st1(1) show ?case
    by (auto simp: pass_fs_append pass_table_append add.assoc)
qed

lemma commit_step_at:
  assumes "recovery_ready E s i" and "pass_at s i e t k tid fs st"
    and "jbd2_commit_block_csum_verify E s c"
  shows "pass_at s i e t k (tid + 1) fs (commit_step E pass c st)"
  using assms by (simp add: commit_step_def commit_block_step_def pass_at_def recovery_ready_def)

lemma pass_tx:
  assumes r: "recovery_ready E s i" and go: "pass_goes pass tid e"
    and wf: "tx_wf E s tid tx" and holds: "log_holds E s k (tx_blocks tx)"
    and fits: "length (tx_blocks tx) \<le> unat (j_last s) - unat (j_first s)"
    and at: "pass_at s i e t k tid fs st"
  shows "\<exists>st'. pass_loop E pass st = pass_loop E pass st' \<and>
    pass_at s i e (pass_table pass (map (\<lambda>b. (b, tid)) (tx_revokes s tx)) t)
      (k + length (tx_blocks tx)) (tid + 1) (pass_fs pass (live_writes t tid (tx_writes s tx)) fs) st'"
proof -
  let ?bs = "concat (map item_blocks (fst tx))"
  let ?t = "pass_table pass (map (\<lambda>b. (b, tid)) (tx_revokes s tx)) t"
  let ?fs = "pass_fs pass (live_writes t tid (tx_writes s tx)) fs"
  have c: "has_header (snd tx) JBD2_COMMIT_BLOCK tid" "jbd2_commit_block_csum_verify E s (snd tx)"
    "log_block E s (k + length ?bs) = Some (snd tx)"
    using wf holds by (auto simp: tx_wf_def tx_blocks_def)
  obtain st1 where st1: "pass_loop E pass st = pass_loop E pass st1"
    "pass_at s i e ?t (k + length ?bs) tid ?fs st1"
    using pass_items [OF r go, of "fst tx" k t fs st] wf holds fits at
    by (auto simp: tx_wf_def tx_blocks_def tx_revokes_def tx_writes_def)
  obtain st2 where st2: "pass_at s i e ?t (k + length ?bs + 1) tid ?fs st2"
    "pass_step E pass st1 = Inr (Continue (commit_step E pass (snd tx) st2))"
    using pass_step_at [OF r st1(2) c(3,1) go] by auto
  then have "pass_loop E pass st = pass_loop E pass (commit_step E pass (snd tx) st2)"
    using st1(1) pass_loop_Continue by metis
  with commit_step_at [OF r st2(1) c(2)] show ?thesis
    by (auto simp: tx_blocks_def)
qed

text \<open>The transactions of a log have consecutive identifiers.\<close>

fun log_txs_wf :: "env \<Rightarrow> jstate \<Rightarrow> tid_t \<Rightarrow> log_tx list \<Rightarrow> bool" where
  "log_txs_wf E s tid [] = True"
| "log_txs_wf E s tid (tx # txs) = (tx_wf E s tid tx \<and> log_txs_wf E s (tid + 1) txs)"

fun log_revokes :: "jstate \<Rightarrow> tid_t \<Rightarrow> log_tx list \<Rightarrow> (u64 \<times> tid_t) list" where
  "log_revokes s tid [] = []"
| "log_revokes s tid (tx # txs) = map (\<lambda>b. (b, tid)) (tx_revokes s tx) @ log_revokes s (tid + 1) txs"

fun log_live :: "jstate \<Rightarrow> revoke_table \<Rightarrow> tid_t \<Rightarrow> log_tx list \<Rightarrow> (u64 \<times> block_data) list" where
  "log_live s t tid [] = []"
| "log_live s t tid (tx # txs) = live_writes t tid (tx_writes s tx) @ log_live s t (tid + 1) txs"

lemma pass_log:
  assumes r: "recovery_ready E s i"
    and "\<forall>n < length txs. pass_goes pass (tid + of_nat n) e"
    and "log_txs_wf E s tid txs" and "log_holds E s k (concat (map tx_blocks txs))"
    and "length (concat (map tx_blocks txs)) \<le> unat (j_last s) - unat (j_first s)"
    and "pass_at s i e t k tid fs st"
  shows "\<exists>st'. pass_loop E pass st = pass_loop E pass st' \<and>
    pass_at s i e (pass_table pass (log_revokes s tid txs) t)
      (k + length (concat (map tx_blocks txs))) (tid + of_nat (length txs))
      (pass_fs pass (log_live s t tid txs) fs) st'"
  using assms(2-)
proof (induction txs arbitrary: k t fs st tid)
  case Nil
  then show ?case by (auto simp: pass_table_def pass_fs_def)
next
  case (Cons tx txs)
  let ?rs = "map (\<lambda>b. (b, tid)) (tx_revokes s tx)"
  have "pass_goes pass (tid + 1 + of_nat n) e" if "n < length txs" for n
    using Cons.prems(1) [rule_format, of "Suc n"] that by (simp add: add.assoc)
  then have go: "pass_goes pass tid e" "\<forall>n < length txs. pass_goes pass (tid + 1 + of_nat n) e"
    using Cons.prems(1) [rule_format, of 0] by simp_all
  obtain st1 where st1: "pass_loop E pass st = pass_loop E pass st1"
    "pass_at s i e (pass_table pass ?rs t) (k + length (tx_blocks tx)) (tid + 1)
      (pass_fs pass (live_writes t tid (tx_writes s tx)) fs) st1"
    using pass_tx [OF r go(1) _ _ _ Cons.prems(5), of tx] Cons.prems(2-4) by auto
  have "pass_fs pass (log_live s (pass_table pass ?rs t) (tid + 1) txs)
      (pass_fs pass (live_writes t tid (tx_writes s tx)) fs) =
    pass_fs pass (log_live s t tid (tx # txs)) fs"
    by (cases pass) (simp_all add: pass_fs_def pass_table_def)
  with Cons.IH [OF go(2) _ _ _ st1(2)] Cons.prems(2-4) st1(1) show ?case
    by (auto simp: pass_table_append add.assoc)
qed

section \<open>The end of the passes\<close>

text \<open>The scan ends at a block that does not continue the log.\<close>

definition log_ends :: "env \<Rightarrow> jstate \<Rightarrow> nat \<Rightarrow> tid_t \<Rightarrow> bool" where
  "log_ends E s k tid =
     (case log_block E s k of
        None \<Rightarrow> False
      | Some d \<Rightarrow> \<not> has_header d JBD2_DESCRIPTOR_BLOCK tid \<and> \<not> has_header d JBD2_COMMIT_BLOCK tid \<and>
          \<not> has_header d JBD2_REVOKE_BLOCK tid)"

lemma scan_ends:
  assumes r: "recovery_ready E s i" and at: "pass_at s i 0 t k tid fs st" and ends: "log_ends E s k tid"
  shows "\<exists>st'. pass_loop E PASS_SCAN st = Some (Inr (0, st')) \<and> ps_state st' = ps_state st \<and>
    end_transaction (ps_info st') = tid \<and> ps_fs st' = fs"
proof -
  obtain d where d: "log_block E s k = Some d" using ends by (auto simp: log_ends_def split: option.splits)
  obtain st1 where n: "next_block st = (ucast (log_at s k), st1)"
    and at1: "pass_at s i 0 t (k + 1) tid fs st1"
    using next_block_at [OF r at] by blast
  have rd: "ps_jread E st (ucast (ps_log_block st)) = Inr (0, d, st)"
    using ps_jread_at [OF r d, of st "Some t"] at by (simp add: pass_at_def)
  have "pass_step E PASS_SCAN st = Inr (Done st1)"
    using ends at1 by (auto simp: pass_step_def rd n log_ends_def d has_header_def pass_at_def Let_def)
  then have "pass_loop E PASS_SCAN st = Some (Inr (pass_done PASS_SCAN st1))"
    by (subst pass_loop.simps) simp
  then show ?thesis using at at1 by (auto simp: pass_done_def pass_at_def set_end_def Let_def)
qed

text \<open>
  After the last commit block there may be a part of a transaction that was not committed: its
  descriptor and revoke blocks are passed over, up to a block that does not continue the log.
\<close>

inductive log_stops :: "env \<Rightarrow> jstate \<Rightarrow> tid_t \<Rightarrow> nat \<Rightarrow> bool" for E s tid where
  ends: "log_ends E s k tid \<Longrightarrow> log_stops E s tid k"
| descriptor: "\<lbrakk>log_block E s k = Some d; has_header d JBD2_DESCRIPTOR_BLOCK tid;
    jbd2_descriptor_block_csum_verify E s d; count_tags s d \<le> unat (j_last s) - unat (j_first s);
    log_stops E s tid (k + 1 + count_tags s d)\<rbrakk> \<Longrightarrow> log_stops E s tid k"
| revoke: "\<lbrakk>log_block E s k = Some d; has_header d JBD2_REVOKE_BLOCK tid; log_stops E s tid (k + 1)\<rbrakk> \<Longrightarrow>
    log_stops E s tid k"

lemma scan_descriptor:
  assumes r: "recovery_ready E s i" and at: "pass_at s i e t k tid fs st"
    and c: "jbd2_descriptor_block_csum_verify E s d" and n: "count_tags s d \<le> unat (j_last s) - unat (j_first s)"
  shows "\<exists>st'. descriptor_step E PASS_SCAN d st = Inr (Continue st') \<and>
    pass_at s i e t (k + count_tags s d) tid fs st' \<and> ps_state st' = ps_state st"
  using log_wrap_at [OF r n, of k] at r c
  by (auto simp: descriptor_step_def pass_at_def recovery_ready_def)

lemma scan_stops:
  assumes r: "recovery_ready E s i" and "log_stops E s tid k" and "pass_at s i 0 t k tid fs st"
  shows "\<exists>st'. pass_loop E PASS_SCAN st = Some (Inr (0, st')) \<and> ps_state st' = set_revoke_table_of s i (Some t) \<and>
    end_transaction (ps_info st') = tid \<and> ps_fs st' = fs"
  using assms(2,3)
proof (induction arbitrary: st rule: log_stops.induct)
  case (ends k)
  then have "ps_state st = set_revoke_table_of s i (Some t)" by (simp add: pass_at_def)
  with scan_ends [OF r ends.prems ends.hyps] show ?case by auto
next
  case (descriptor k d)
  have go: "pass_goes PASS_SCAN tid 0" by (simp add: pass_goes_def)
  obtain st1 where st1: "pass_at s i 0 t (k + 1) tid fs st1"
    "pass_step E PASS_SCAN st = descriptor_step E PASS_SCAN d st1"
    using pass_step_at [OF r descriptor.prems descriptor.hyps(1,2) go] by auto
  from scan_descriptor [OF r st1(1) descriptor.hyps(3,4)] descriptor.IH show ?case
    using pass_loop_Continue st1(2) by metis
next
  case (revoke k d)
  have go: "pass_goes PASS_SCAN tid 0" by (simp add: pass_goes_def)
  from pass_step_at [OF r revoke.prems revoke.hyps(1,2) go] revoke.IH show ?case
    using pass_loop_Continue by fastforce
qed

lemma pass_ends:
  assumes at: "pass_at s i e t k e fs st" and "pass \<noteq> PASS_SCAN"
  shows "pass_loop E pass st = Some (Inr (0, st))"
proof -
  have "pass_step E pass st = Inr (Done st)" using assms by (simp add: pass_step_def pass_at_def)
  then have "pass_loop E pass st = Some (Inr (pass_done pass st))" by (subst pass_loop.simps) simp
  then show ?thesis using assms by (simp add: pass_done_def pass_at_def Let_def)
qed

lemma pass_start_at:
  assumes "recovery_ready E s i"
  shows "pass_at s i (end_transaction info) t 0 (s_sequence (j_superblock s)) fs
    (pass_start pass (set_revoke_table_of s i (Some t)) info fs)"
  using log_at_0 [OF assms] by (simp add: pass_at_def pass_start_def Let_def)

text \<open>The conditions on the log as a whole.\<close>

definition log_complete :: "env \<Rightarrow> jstate \<Rightarrow> log_tx list \<Rightarrow> bool" where
  "log_complete E s txs =
     (let tid = s_sequence (j_superblock s); n = length (concat (map tx_blocks txs))
      in log_txs_wf E s tid txs \<and> log_holds E s 0 (concat (map tx_blocks txs)) \<and>
         log_stops E s (tid + of_nat (length txs)) n \<and>
         n \<le> unat (j_last s) - unat (j_first s) \<and> length txs < 2 ^ 31)"

lemma in_window_plus: "n < 2 ^ 31 \<Longrightarrow> in_window tid (tid + of_nat n)"
  by (simp add: in_window_def tid_dist_def unat_of_nat)

lemma tid_geq_plus:
  assumes "m < 2 ^ 31" and "n < 2 ^ 31"
  shows "tid_geq (tid + of_nat m) (tid + of_nat n) \<longleftrightarrow> n \<le> m"
  using tid.geq_dist [OF in_window_plus [OF assms(1)] in_window_plus [OF assms(2)]] assms
  by (simp add: tid_dist_def unat_of_nat)

lemma do_scan:
  assumes r: "recovery_ready E s i" and c: "log_complete E s txs"
  shows "\<exists>st. do_one_pass E (set_revoke_table_of s i (Some t)) info0 [] PASS_SCAN = Some (Inr (0, st)) \<and>
    ps_state st = set_revoke_table_of s i (Some t) \<and> ps_fs st = [] \<and>
    end_transaction (ps_info st) = s_sequence (j_superblock s) + of_nat (length txs)"
proof -
  let ?st = "pass_start PASS_SCAN (set_revoke_table_of s i (Some t)) info0 []"
  have at: "pass_at s i 0 t 0 (s_sequence (j_superblock s)) [] ?st"
    using pass_start_at [OF r, of info0] by (simp add: info0_def)
  obtain st1 where st1: "pass_loop E PASS_SCAN ?st = pass_loop E PASS_SCAN st1"
    "pass_at s i 0 t (length (concat (map tx_blocks txs)))
       (s_sequence (j_superblock s) + of_nat (length txs)) [] st1"
    using pass_log [OF r _ _ _ _ at, of txs PASS_SCAN] c
    by (auto simp: log_complete_def Let_def pass_goes_def pass_table_def pass_fs_def)
  have "log_stops E s (s_sequence (j_superblock s) + of_nat (length txs)) (length (concat (map tx_blocks txs)))"
    using c by (simp add: log_complete_def Let_def)
  from scan_stops [OF r this st1(2)] st1 show ?thesis by (auto simp: do_one_pass_def)
qed

lemma do_pass:
  assumes r: "recovery_ready E s i" and c: "log_complete E s txs" and p: "pass \<noteq> PASS_SCAN"
    and e: "end_transaction info = s_sequence (j_superblock s) + of_nat (length txs)"
  shows "\<exists>st. do_one_pass E (set_revoke_table_of s i (Some t)) info fs pass = Some (Inr (0, st)) \<and>
    ps_state st = set_revoke_table_of s i
      (Some (pass_table pass (log_revokes s (s_sequence (j_superblock s)) txs) t)) \<and>
    ps_fs st = pass_fs pass (log_live s t (s_sequence (j_superblock s)) txs) fs \<and>
    end_transaction (ps_info st) = end_transaction info"
proof -
  let ?tid = "s_sequence (j_superblock s)" and ?n = "length (concat (map tx_blocks txs))"
  let ?st = "pass_start pass (set_revoke_table_of s i (Some t)) info fs"
  have goes: "pass_goes pass (?tid + of_nat n) (end_transaction info)" if "n < length txs" for n
    using tid_geq_plus [of n "length txs" ?tid] that c p
    by (simp add: pass_goes_def e log_complete_def Let_def)
  obtain st1 where st1: "pass_loop E pass ?st = pass_loop E pass st1"
    "pass_at s i (end_transaction info) (pass_table pass (log_revokes s ?tid txs) t)
      (0 + ?n) (?tid + of_nat (length txs)) (pass_fs pass (log_live s t ?tid txs) fs) st1"
    using pass_log [OF r _ _ _ _ pass_start_at [OF r, of info t fs pass], of txs pass] goes c
    unfolding log_complete_def Let_def by blast
  with pass_ends [OF st1(2) [folded e] p] show ?thesis by (auto simp: do_one_pass_def pass_at_def)
qed

section \<open>Recovery as a whole\<close>

text \<open>
  What recovery is to write: the blocks of each transaction in order, without those that the
  transaction itself or a later one revokes.
\<close>

fun log_result :: "jstate \<Rightarrow> log_tx list \<Rightarrow> (u64 \<times> block_data) list" where
  "log_result s [] = []"
| "log_result s (tx # txs) =
     filter (\<lambda>(b, _). \<forall>tx' \<in> set (tx # txs). b \<notin> set (tx_revokes s tx')) (tx_writes s tx) @
     log_result s txs"

lemma log_revokes_iff:
  "(b, q) \<in> set (log_revokes s tid txs) \<longleftrightarrow>
    (\<exists>n < length txs. q = tid + of_nat n \<and> b \<in> set (tx_revokes s (txs ! n)))"
proof (induction txs arbitrary: tid)
  case Nil
  then show ?case by simp
next
  case (Cons tx txs)
  show ?case unfolding log_revokes.simps Cons.IH set_append Un_iff list.size
    by (auto simp: Ex_less_Suc2 add.assoc)
qed

lemma bex_drop: "(\<exists>x \<in> set (drop n xs). P x) \<longleftrightarrow> (\<exists>m < length xs. n \<le> m \<and> P (xs ! m))"
proof
  assume "\<exists>x \<in> set (drop n xs). P x"
  then obtain k where "k < length xs - n" and "P (drop n xs ! k)" by (auto simp: in_set_conv_nth)
  then show "\<exists>m < length xs. n \<le> m \<and> P (xs ! m)" by (intro exI [of _ "n + k"]) simp
next
  assume "\<exists>m < length xs. n \<le> m \<and> P (xs ! m)"
  then obtain m where m: "m < length xs" "n \<le> m" "P (xs ! m)" by blast
  then have "drop n xs ! (m - n) = xs ! m" and "m - n < length (drop n xs)" by simp_all
  with m(3) show "\<exists>x \<in> set (drop n xs). P x" by (metis nth_mem)
qed

lemma scan_table_revoked:
  assumes "revoke_wf t" and "revoke_map t = Map.empty" and n: "n < length txs" and l: "length txs < 2 ^ 31"
  shows "test_revoke_tbl (scan_table (log_revokes s tid txs) t) b (tid + of_nat n) \<longleftrightarrow>
    (\<exists>tx \<in> set (drop n txs). b \<in> set (tx_revokes s tx))"
proof -
  have win: "\<forall>(b, q) \<in> set (log_revokes s tid txs). in_window tid q"
    using l by (auto simp: log_revokes_iff intro!: in_window_plus)
  have geq: "tid_geq (tid + of_nat m) (tid + of_nat n) \<longleftrightarrow> n \<le> m" if "m < length txs" for m
    using tid_geq_plus [of m n tid] that n l by simp
  have "test_revoke_tbl (scan_table (log_revokes s tid txs) t) b (tid + of_nat n) \<longleftrightarrow>
      (\<exists>q. (b, q) \<in> set (log_revokes s tid txs) \<and> tid_geq q (tid + of_nat n))"
    unfolding test_revoke_tbl_map scan_table_def
    using rt.scan_revoked [OF assms(1,2) win in_window_plus] n l by simp
  also have "\<dots> \<longleftrightarrow> (\<exists>m < length txs. n \<le> m \<and> b \<in> set (tx_revokes s (txs ! m)))"
    using geq unfolding log_revokes_iff by blast
  also have "\<dots> \<longleftrightarrow> (\<exists>tx \<in> set (drop n txs). b \<in> set (tx_revokes s tx))"
    by (simp add: bex_drop)
  finally show ?thesis .
qed

lemma log_live_result:
  assumes "revoke_wf t" and "revoke_map t = Map.empty" and l: "length txs < 2 ^ 31"
  shows "log_live s (scan_table (log_revokes s tid txs) t) tid txs = log_result s txs"
proof -
  let ?t = "scan_table (log_revokes s tid txs) t"
  have "log_live s ?t (tid + of_nat (length txs - length ys)) ys = log_result s ys"
    if "txs = xs @ ys" for xs ys
    using that
  proof (induction ys arbitrary: xs)
    case Nil
    then show ?case by simp
  next
    case (Cons y ys)
    have "length txs - length (y # ys) = length xs" "length txs - length ys = length xs + 1"
      and n: "length xs < length txs" and dr: "drop (length xs) txs = y # ys"
      using Cons.prems by simp_all
    then show ?case
      using Cons.IH [of "xs @ [y]"] Cons.prems scan_table_revoked [OF assms(1,2) n l, of s tid]
      by (simp add: live_writes_def add_ac)
  qed
  from this [of "[]" txs] show ?thesis by simp
qed

lemma set_revoke_table_of_id: "revoke_table_of s i = t \<Longrightarrow> set_revoke_table_of s i t = s"
  by (auto simp: set_revoke_table_of_def revoke_table_of_def)

lemma recover_passes:
  assumes r: "recovery_ready E s i" and c: "log_complete E s txs" and t: "revoke_table_of s i = Some t"
    and wf: "revoke_wf t" "revoke_map t = Map.empty"
  shows "\<exists>st. then_pass E PASS_REPLAY (then_pass E PASS_REVOKE (do_one_pass E s info0 [] PASS_SCAN)) =
      Some (Inr (0, st)) \<and> rev (ps_fs st) = log_result s txs \<and>
    ps_state st = set_revoke_table_of s i (Some (scan_table (log_revokes s (s_sequence (j_superblock s)) txs) t)) \<and>
    end_transaction (ps_info st) = s_sequence (j_superblock s) + of_nat (length txs)"
proof -
  let ?tid = "s_sequence (j_superblock s)"
  let ?t = "scan_table (log_revokes s ?tid txs) t"
  have l: "length txs < 2 ^ 31" using c by (simp add: log_complete_def Let_def)
  obtain st1 where st1: "do_one_pass E s info0 [] PASS_SCAN = Some (Inr (0, st1))"
    "ps_state st1 = set_revoke_table_of s i (Some t)" "ps_fs st1 = []"
    "end_transaction (ps_info st1) = ?tid + of_nat (length txs)"
    using do_scan [OF r c, of t] by (auto simp: set_revoke_table_of_id [OF t])
  obtain st2 where st2: "do_one_pass E (ps_state st1) (ps_info st1) (ps_fs st1) PASS_REVOKE = Some (Inr (0, st2))"
    "ps_state st2 = set_revoke_table_of s i (Some ?t)" "ps_fs st2 = []"
    "end_transaction (ps_info st2) = ?tid + of_nat (length txs)"
    using do_pass [OF r c _ st1(4), of PASS_REVOKE t "[]"] st1
    by (auto simp: pass_table_def pass_fs_def)
  obtain st3 where "do_one_pass E (ps_state st2) (ps_info st2) (ps_fs st2) PASS_REPLAY = Some (Inr (0, st3))"
    "ps_state st3 = set_revoke_table_of s i (Some ?t)" "ps_fs st3 = rev (log_live s ?t ?tid txs)"
    "end_transaction (ps_info st3) = ?tid + of_nat (length txs)"
    using do_pass [OF r c _ st2(4), of PASS_REPLAY ?t "[]"] st2
    by (auto simp: pass_table_def pass_fs_def)
  then show ?thesis
    using st1(1) st2(1) log_live_result [OF wf l] by (simp add: then_pass_def)
qed

lemma clear_revoke_ok:
  assumes "j_revoke s = Some i" and "revoke_table_of s i = Some t"
  shows "jbd2_vmsep_journal_clear_revoke s = Inr (set_revoke_table_of s i (Some (clear_revoke_tbl t)))"
  using assms by (simp add: jbd2_vmsep_journal_clear_revoke_def with_revoke_def deref_def)

lemma recover_log_ok:
  assumes "recovery_ready E s i" and "log_complete E s txs" and "s_start (j_superblock s) \<noteq> 0"
    and "revoke_table_of s i = Some t" and "revoke_wf t" and "revoke_map t = Map.empty"
  shows "\<exists>st t'. jbd2_vmsep_journal_recover E s =
      Some (Inr (if sync_blockdev E \<noteq> 0 then sync_blockdev E
                 else if JBD2_BARRIER \<in> j_flags s then issue_flush E else 0, st)) \<and>
    rev (ps_fs st) = log_result s txs \<and>
    j_transaction_sequence (ps_state st) = s_sequence (j_superblock s) + of_nat (length txs) + 1 \<and>
    revoke_table_of (ps_state st) i = Some t' \<and> revoke_wf t' \<and> revoke_map t' = Map.empty"
proof -
  let ?t = "scan_table (log_revokes s (s_sequence (j_superblock s)) txs) t"
  obtain st where st:
    "then_pass E PASS_REPLAY (then_pass E PASS_REVOKE (do_one_pass E s info0 [] PASS_SCAN)) = Some (Inr (0, st))"
    "rev (ps_fs st) = log_result s txs" "ps_state st = set_revoke_table_of s i (Some ?t)"
    "end_transaction (ps_info st) = s_sequence (j_superblock s) + of_nat (length txs)"
    using recover_passes [OF assms(1,2,4-6)] by blast
  let ?s = "(ps_state st)\<lparr>j_transaction_sequence := end_transaction (ps_info st) + 1\<rparr>"
  have "revoke_wf ?t" unfolding scan_table_def by (rule rt.scan_inv [OF assms(5)])
  then have t: "revoke_wf (clear_revoke_tbl ?t)" "revoke_map (clear_revoke_tbl ?t) = Map.empty"
    by (simp_all add: clear_revoke_tbl_wf clear_revoke_tbl_map)
  have "j_revoke ?s = Some i" "revoke_table_of ?s i = Some ?t"
    using assms(1) by (simp_all add: st(3) recovery_ready_def revoke_table_of_def set_revoke_table_of_def)
  from clear_revoke_ok [OF this] show ?thesis
    using st(2,4) t assms(3)
    by (auto simp: jbd2_vmsep_journal_recover_def st(1) recover_finish_def set_end_def st(3) Let_def)
qed

text \<open>C5: Recovery of a log that holds complete transactions from \<open>s_start\<close> on returns, and writes to
  the file system exactly the logged blocks, in the order of the log, that neither their own
  transaction nor a later one revokes. It ends with an empty revoke table and the transaction
  sequence after the last transaction; the only errors are those of the final flush of the
  device. The log may wrap round the end of the journal, the identifiers may wrap round, and the
  transactions may be followed by a part of one that was not committed, which is ignored.\<close>

theorem recover_replays_log:
  assumes "recovery_ready E s i" and "log_complete E s txs" and "s_start (j_superblock s) \<noteq> 0"
    and "revoke_table_of s i = Some t" and "revoke_wf t" and "revoke_map t = Map.empty"
  shows "\<exists>st t'. jbd2_vmsep_journal_recover E s =
      Some (Inr (if sync_blockdev E \<noteq> 0 then sync_blockdev E
                 else if JBD2_BARRIER \<in> j_flags s then issue_flush E else 0, st)) \<and>
    rev (ps_fs st) = log_result s txs \<and>
    j_transaction_sequence (ps_state st) = s_sequence (j_superblock s) + of_nat (length txs) + 1 \<and>
    revoke_table_of (ps_state st) i = Some t' \<and> revoke_wf t' \<and> revoke_map t' = Map.empty"
  by (rule recover_log_ok [OF assms])

text \<open>Blocks given by their 32-bit words, for examples.\<close>

definition words :: "u32 list \<Rightarrow> byte list" where
  "words ws = concat (map (\<lambda>w. be_enc 4 (unat w)) ws)"

lemma load_words: "n < length ws \<Longrightarrow> load_bytes (words ws @ r) (4 * n) 4 = be_enc 4 (unat (ws ! n))"
proof (induction ws arbitrary: n)
  case Nil
  then show ?case by simp
next
  case (Cons w ws)
  then show ?case by (cases n) (simp_all add: words_def load_bytes_def)
qed

lemma be32_words: "n < length ws \<Longrightarrow> be32_at (words ws @ r) (4 * n) = ws ! n"
  by (simp add: be32_at_def load_words)

lemma be16_words:
  assumes "n < length ws"
  shows "be16_at (words ws @ r) (4 * n + 2) = ucast (ws ! n)"
proof -
  have "load_bytes (words ws @ r) (4 * n + 2) 2 = drop 2 (load_bytes (words ws @ r) (4 * n) 4)"
    using drop_load_bytes [of 2 "words ws @ r" "4 * n" 2] by simp
  also have "\<dots> = be_enc 2 (unat (ws ! n))"
    using be_enc_add [of 2 2 "unat (ws ! n)"] by (simp add: load_words [OF assms])
  finally show ?thesis
    by (simp add: be16_at_def be_dec_enc_mod word_eq_iff_unsigned unsigned_ucast_eq unat_of_nat take_bit_eq_mod word_unat_eq_iff)
qed
text \<open>
  A log of two transactions: the first writes the blocks 100 and 101, the second revokes 100.
\<close>

definition ex_block :: "u32 list \<Rightarrow> block_data" where
  "ex_block ws = words ws @ replicate (64 - 4 * length ws) 0"

lemma ex_block_at:
  "n < length ws \<Longrightarrow> be32_at (ex_block ws) (4 * n) = ws ! n"
  "n < length ws \<Longrightarrow> be16_at (ex_block ws) (4 * n + 2) = ucast (ws ! n)"
  unfolding ex_block_def by (rule be32_words, assumption) (rule be16_words)

lemma ex_block_fields [simp]:
  "0 < length ws \<Longrightarrow> be32_at (ex_block ws) 0 = ws ! 0"
  "1 < length ws \<Longrightarrow> be32_at (ex_block ws) 4 = ws ! 1"
  "2 < length ws \<Longrightarrow> be32_at (ex_block ws) 8 = ws ! 2"
  "3 < length ws \<Longrightarrow> be32_at (ex_block ws) 12 = ws ! 3"
  "4 < length ws \<Longrightarrow> be32_at (ex_block ws) 16 = ws ! 4"
  "4 < length ws \<Longrightarrow> be16_at (ex_block ws) 18 = ucast (ws ! 4)"
  "9 < length ws \<Longrightarrow> be32_at (ex_block ws) 36 = ws ! 9"
  "10 < length ws \<Longrightarrow> be16_at (ex_block ws) 42 = ucast (ws ! 10)"
  using ex_block_at(1) [of 0 ws] ex_block_at(1) [of 1 ws] ex_block_at(1) [of 2 ws] ex_block_at(1) [of 3 ws]
    ex_block_at(1) [of 4 ws] ex_block_at(2) [of 4 ws] ex_block_at(1) [of 9 ws] ex_block_at(2) [of 10 ws]
  by simp_all

definition ex_descriptor :: block_data where
  "ex_descriptor = ex_block [JBD2_MAGIC_NUMBER, JBD2_DESCRIPTOR_BLOCK, 7, 100, 0, 0, 0, 0, 0, 101, 10]"

definition ex_txs :: "log_tx list" where
  "ex_txs =
     [([Data_item ex_descriptor [replicate 64 1, replicate 64 2]],
       ex_block [JBD2_MAGIC_NUMBER, JBD2_COMMIT_BLOCK, 7]),
      ([Revoke_item (ex_block [JBD2_MAGIC_NUMBER, JBD2_REVOKE_BLOCK, 8, 20, 100])],
       ex_block [JBD2_MAGIC_NUMBER, JBD2_COMMIT_BLOCK, 8])]"

definition ex_recovery_env :: env where
  "ex_recovery_env = ex_env\<lparr>dev_read := \<lambda>b.
     Some ((concat (map tx_blocks ex_txs) @ replicate 3 (ex_block [0, 0, 0])) ! (unat b - 1))\<rparr>"

definition ex_recovery_state :: jstate where
  "ex_recovery_state = init_state\<lparr>j_blocksize := 64, j_revoke := Some True, j_revoke_table1 := Some ex_revoke_table\<rparr>"

lemma ex_recovery_ready: "recovery_ready ex_recovery_env ex_recovery_state True"
  by (simp add: recovery_ready_def ex_recovery_env_def ex_recovery_state_def ex_defs jbd2_has_compat_feature_def)

lemma ex_formats:
  "journal_vmsep_tag_bytes ex_recovery_state = 8" "csum_size ex_recovery_state = 0"
  "revoke_record_size ex_recovery_state = 4" "j_blocksize ex_recovery_state = 64"
  "\<not> jbd2_journal_has_csum_v2or3 ex_recovery_state" "\<not> jbd2_has_feature_64bit ex_recovery_state"
  by (simp_all add: ex_recovery_state_def ex_defs journal_vmsep_tag_bytes_def csum_size_def
      revoke_record_size_def jbd2_has_incompat_feature_def jbd2_journal_has_csum_v2or3_def)

lemma ex_tags: "tags_from ex_recovery_state ex_descriptor 12 = [12, 36]"
  by (subst tags_from.simps, subst tags_from.simps)
    (simp add: ex_formats ex_descriptor_def tag_flags_def next_tag_def)

lemma ex_txs_wf: "log_txs_wf ex_recovery_env ex_recovery_state 7 ex_txs"
  using ex_tags by (simp add: ex_txs_def tx_wf_def has_header_def ex_formats
      jbd2_descriptor_block_csum_verify_def jbd2_commit_block_csum_verify_def jbd2_block_tag_csum_verify_def
      ex_descriptor_def)

lemma ex_log_at: "n < 7 \<Longrightarrow> log_at ex_recovery_state n = of_nat (n + 1)"
  by (simp add: log_at_def ex_recovery_state_def ex_defs)

lemma ex_log_blocks:
  assumes "n < 7"
  shows "log_block ex_recovery_env ex_recovery_state n =
    Some ((concat (map tx_blocks ex_txs) @ replicate 3 (ex_block [0, 0, 0])) ! n)"
proof -
  have "j_bmap ex_recovery_state = None" by (simp add: ex_recovery_state_def ex_defs)
  moreover have "unat (log_at ex_recovery_state n) = n + 1"
    unfolding ex_log_at [OF assms] using assms by (subst unat_of_nat_small) simp_all
  ultimately show ?thesis by (simp add: log_block_def jmap_def ex_recovery_env_def)
qed

lemma ex_log_complete: "log_complete ex_recovery_env ex_recovery_state ex_txs"
proof -
  have len: "length (concat (map tx_blocks ex_txs)) = 6" by (simp add: ex_txs_def tx_blocks_def)
  have "log_holds ex_recovery_env ex_recovery_state 0 (concat (map tx_blocks ex_txs))"
    unfolding log_holds_def len using ex_log_blocks by (simp add: nth_append len)
  moreover have "log_ends ex_recovery_env ex_recovery_state 6 (7 + of_nat (length ex_txs))"
    unfolding log_ends_def using ex_log_blocks [of 6] by (simp add: nth_append len has_header_def)
  moreover have "s_sequence (j_superblock ex_recovery_state) = 7"
    "unat (j_last ex_recovery_state) - unat (j_first ex_recovery_state) = 2047" "length ex_txs = 2"
    by (simp_all add: ex_recovery_state_def ex_defs ex_txs_def)
  ultimately show ?thesis unfolding log_complete_def Let_def len using ex_txs_wf log_stops.ends by simp
qed

lemma ex_log_result: "log_result ex_recovery_state ex_txs = [(101, replicate 64 2)]"
proof -
  have "be_dec (load_bytes (ex_block [JBD2_MAGIC_NUMBER, JBD2_REVOKE_BLOCK, 8, 20, 100]) 16 4) = 100"
    using load_words [of 4 "[JBD2_MAGIC_NUMBER, JBD2_REVOKE_BLOCK, 8, 20, 100]"] be_dec_enc_u32 [of 100]
    by (simp add: ex_block_def)
  then have "revoke_records 4 (ex_block [JBD2_MAGIC_NUMBER, JBD2_REVOKE_BLOCK, 8, 20, 100]) 20 16 = [100]"
    by (simp add: revoke_records.simps)
  then show ?thesis
    using ex_tags by (simp add: ex_txs_def tx_writes_def tx_revokes_def ex_formats tag_write_def
        read_tag_block_def tag_flags_def ex_descriptor_def)
qed

theorem recover_replays_log_witness:
  "\<exists>st. jbd2_vmsep_journal_recover ex_recovery_env ex_recovery_state = Some (Inr (0, st)) \<and>
    rev (ps_fs st) = [(101, replicate 64 2)] \<and> j_transaction_sequence (ps_state st) = 10"
proof -
  have "revoke_table_of ex_recovery_state True = Some ex_revoke_table"
    "s_start (j_superblock ex_recovery_state) \<noteq> 0"
    by (simp_all add: revoke_table_of_def ex_recovery_state_def ex_defs)
  note this(2,1)
  from recover_replays_log [OF ex_recovery_ready ex_log_complete this ex_revoke_table_wf]
  show ?thesis unfolding ex_log_result
    by (simp add: ex_recovery_env_def ex_recovery_state_def ex_txs_def ex_defs) blast
qed

text \<open>A pass runs forever in an invariant under which every block makes it go on.\<close>

lemma pass_loop_diverges:
  assumes step: "\<And>st. I st \<Longrightarrow> \<exists>st'. pass_step E pass st = Inr (Continue st') \<and> I st'" and "I st"
  shows "pass_loop E pass st = None"
proof (rule ccontr)
  assume "pass_loop E pass st \<noteq> None"
  then obtain y where "pass_loop E pass st = Some y" by blast
  then have "\<not> (E = E \<and> pass = pass \<and> I st)"
  proof (rule pass_loop.raw_induct [where P = "\<lambda>E' p st y. \<not> (E' = E \<and> p = pass \<and> I st)", rotated])
    fix pl E' p st y
    assume IH: "\<And>E' p st y. pl E' p st = Some y \<Longrightarrow> \<not> (E' = E \<and> p = pass \<and> I st)"
      and eq: "(case pass_step E' p st of Inl e \<Rightarrow> Some (Inl e) | Inr (Continue st) \<Rightarrow> pl E' p st
        | Inr (Done st) \<Rightarrow> Some (Inr (pass_done p st)) | Inr (Failed err st) \<Rightarrow> Some (Inr (err, st))) = Some y"
    show "\<not> (E' = E \<and> p = pass \<and> I st)"
      using IH eq step by fastforce
  qed
  with assms(2) show False by simp
qed

text \<open>C33: Recovery does not return on a log that is full of revoke blocks with the sequence number the
  superblock names: a revoke block does not advance the sequence number, and nothing ends the scan
  when it has gone once round the log.\<close>

theorem recover_diverges:
  assumes r: "recovery_ready E s i" and "s_start (j_superblock s) \<noteq> 0"
    and "revoke_table_of s i = Some t"
    and rev: "\<And>k. \<exists>d. log_block E s k = Some d \<and> has_header d JBD2_REVOKE_BLOCK (s_sequence (j_superblock s))"
  shows "jbd2_vmsep_journal_recover E s = None"
proof -
  let ?tid = "s_sequence (j_superblock s)"
  have step: "\<exists>st'. pass_step E PASS_SCAN st = Inr (Continue st') \<and> pass_at s i 0 t (k + 1) ?tid [] st'"
    if at: "pass_at s i 0 t k ?tid [] st" for st k
  proof -
    obtain d where d: "log_block E s k = Some d" "has_header d JBD2_REVOKE_BLOCK ?tid" using rev by blast
    have "pass_goes PASS_SCAN ?tid 0" by (simp add: pass_goes_def)
    from pass_step_at [OF r at d this] show ?thesis by auto
  qed
  have "pass_at s i 0 t 0 ?tid [] (pass_start PASS_SCAN s info0 [])"
    using pass_start_at [OF r, of info0 t "[]" PASS_SCAN] set_revoke_table_of_id [OF assms(3)]
    by (simp add: info0_def)
  then have "do_one_pass E s info0 [] PASS_SCAN = None" unfolding do_one_pass_def
    by (rule pass_loop_diverges [where I = "\<lambda>st. \<exists>k. pass_at s i 0 t k ?tid [] st", rotated, OF exI])
      (use step in blast)
  then show ?thesis using assms(2) by (simp add: jbd2_vmsep_journal_recover_def then_pass_def)
qed

definition ex_revoke_env :: env where
  "ex_revoke_env = ex_env\<lparr>dev_read := \<lambda>_. Some (ex_block [JBD2_MAGIC_NUMBER, JBD2_REVOKE_BLOCK, 7, 16])\<rparr>"

theorem recover_diverges_witness: "jbd2_vmsep_journal_recover ex_revoke_env ex_recovery_state = None"
proof (rule recover_diverges [where i = True and t = ex_revoke_table])
  show "recovery_ready ex_revoke_env ex_recovery_state True"
    using ex_recovery_ready by (simp add: recovery_ready_def ex_recovery_env_def ex_revoke_env_def)
  show "s_start (j_superblock ex_recovery_state) \<noteq> 0"
    "revoke_table_of ex_recovery_state True = Some ex_revoke_table"
    by (simp_all add: revoke_table_of_def ex_recovery_state_def ex_defs)
  fix k
  have "s_sequence (j_superblock ex_recovery_state) = 7" by (simp add: ex_recovery_state_def ex_defs)
  then show "\<exists>d. log_block ex_revoke_env ex_recovery_state k = Some d \<and>
      has_header d JBD2_REVOKE_BLOCK (s_sequence (j_superblock ex_recovery_state))"
    by (simp add: log_block_def ex_revoke_env_def has_header_def)
qed

end
