(* ===== verification/Jbd2_LogWrite.thy ===== *)
theory Jbd2_LogWrite
  imports Jbd2_Commit Jbd2_Replay
begin

text \<open>
  What a commit writes to the log is what recovery reads. The blocks that
  \<open>jbd2_vmsep_journal_write_revoke_records\<close>, the loop over the metadata buffers and
  \<open>journal_submit_commit_record\<close> append to the log are the blocks of a logical transaction of
  \<open>Jbd2_Replay\<close>: they are well formed, and hold the revoked blocks and the buffers' data.
\<close>

unbundle bit_operations_syntax

section \<open>Bytes\<close>

lemma load_store_disjoint:
  "i + n \<le> off \<or> off + length bs \<le> i \<Longrightarrow> off \<le> length d \<Longrightarrow>
    load_bytes (store_bytes d off bs) i n = load_bytes d i n"
  using load_store_before [of i n off d bs] load_store_after [of off bs i d n] by blast

lemma store_store_same:
  "length bs = length bs' \<Longrightarrow> off + length bs \<le> length d \<Longrightarrow>
    store_bytes (store_bytes d off bs) off bs' = store_bytes d off bs'"
  by (simp add: store_bytes_def)

lemma be32_at_load: "load_bytes d i 4 = be_enc 4 (unat w) \<Longrightarrow> be32_at d i = w"
  by (simp add: be32_at_def)

section \<open>Checksums that are set verify\<close>

lemma csum_set_length [simp]:
  assumes "length d = j_blocksize s" and "4 \<le> j_blocksize s"
  shows "length (jbd2_vmsep_descriptor_block_csum_set E s d) = j_blocksize s"
  using assms by (simp add: jbd2_vmsep_descriptor_block_csum_set_def Let_def)

lemma csum_set_load:
  assumes "length d = j_blocksize s" and "4 \<le> j_blocksize s" and "i + n \<le> j_blocksize s - csum_size s"
  shows "load_bytes (jbd2_vmsep_descriptor_block_csum_set E s d) i n = load_bytes d i n"
  using assms
  by (simp add: jbd2_vmsep_descriptor_block_csum_set_def Let_def csum_size_def load_store_disjoint split: if_splits)

lemma csum_set_verify:
  assumes "length d = j_blocksize s" and "4 \<le> j_blocksize s"
  shows "jbd2_descriptor_block_csum_verify E s (jbd2_vmsep_descriptor_block_csum_set E s d)"
proof (cases "jbd2_journal_has_csum_v2or3 s")
  case True
  define d0 where "d0 = store_bytes d (j_blocksize s - 4) (be_enc 4 0)"
  have l: "length d0 = j_blocksize s" using assms by (simp add: d0_def)
  have "load_bytes (store_bytes d0 (j_blocksize s - 4) bs) (j_blocksize s - 4) 4 = bs"
    if "length bs = 4" for bs
    using load_store_same [of "j_blocksize s - 4" d0 bs] l that by simp
  moreover have "store_bytes (store_bytes d0 (j_blocksize s - 4) bs) (j_blocksize s - 4) (be_enc 4 0) = d0"
    if "length bs = 4" for bs
    using that l assms by (simp add: store_store_same d0_def)
  ultimately show ?thesis
    using True by (simp add: jbd2_descriptor_block_csum_verify_def jbd2_vmsep_descriptor_block_csum_set_def
        Let_def d0_def [symmetric])
qed (simp add: jbd2_descriptor_block_csum_verify_def)

lemma commit_csum_set_verify:
  assumes "64 \<le> length d"
  shows "jbd2_commit_block_csum_verify E s (jbd2_commit_block_csum_set E s d)"
proof (cases "jbd2_journal_has_csum_v2or3 s")
  case True
  define d0 where "d0 = store_bytes (store_bytes d 12 [0, 0]) 16 (be_enc 4 0)"
  have l: "length d0 = length d" using assms by (simp add: d0_def)
  have "load_bytes (store_bytes d0 16 bs) 16 4 = bs" if "length bs = 4" for bs
    using load_store_same [of 16 d0 bs] l assms that by simp
  moreover have "store_bytes (store_bytes d0 16 bs) 16 (be_enc 4 0) = d0" if "length bs = 4" for bs
    using that l assms by (simp add: store_store_same d0_def)
  ultimately show ?thesis
    using True by (simp add: jbd2_commit_block_csum_verify_def jbd2_commit_block_csum_set_def
        Let_def d0_def [symmetric])
qed (simp add: jbd2_commit_block_csum_verify_def)

section \<open>Blocks of the log that are allocated\<close>

text \<open>
  A journal that can be written: every block has a buffer and is mapped. \<open>log_slot s n\<close> is the
  block of the device for the \<open>n\<close>th block allocated from the state \<open>s\<close> on.
\<close>

definition log_ready :: "env \<Rightarrow> jstate \<Rightarrow> bool" where
  "log_ready E s = ((\<forall>b. getblk E b) \<and> (\<forall>f n. j_bmap s = Some f \<longrightarrow> f n \<noteq> 0) \<and>
     64 \<le> j_blocksize s \<and> \<not> is_journal_aborted s)"

definition log_slot :: "jstate \<Rightarrow> nat \<Rightarrow> u64" where
  "log_slot s n = jmap s (j_head ((take_log_block ^^ n) s))"

text \<open>\<open>logged s0 k bl s\<close>: from \<open>s0\<close> to \<open>s\<close>, \<open>k\<close> blocks were allocated and \<open>bl\<close> were written.\<close>

definition logged :: "jstate \<Rightarrow> nat \<Rightarrow> (u64 \<times> block_data) list \<Rightarrow> jstate \<Rightarrow> bool" where
  "logged s0 k bl s =
     (same_format s0 s \<and> j_flags s = j_flags s0 \<and> j_tail s = j_tail s0 \<and> log_written s = rev bl @ log_written s0 \<and>
      j_head s = j_head ((take_log_block ^^ k) s0) \<and> unat (j_free s) = unat (j_free s0) - k)"

text \<open>The transactions and buffers are as they were.\<close>

definition same_store :: "jstate \<Rightarrow> jstate \<Rightarrow> bool" where
  "same_store s s' =
     (trs s' = trs s \<and> jhs s' = jhs s \<and> bhs s' = bhs s \<and> inodes s' = inodes s \<and>
      j_running_transaction s' = j_running_transaction s \<and>
      j_committing_transaction s' = j_committing_transaction s \<and>
      j_checkpoint_transactions s' = j_checkpoint_transactions s)"

lemma same_store_refl [simp]: "same_store s s"
  by (simp add: same_store_def)

lemma same_store_trans: "same_store s s' \<Longrightarrow> same_store s' s'' \<Longrightarrow> same_store s s''"
  by (simp add: same_store_def)

lemma same_store_log [simp]:
  "same_store s (take_log_block s)" "same_store s (s\<lparr>log_written := bl\<rparr>)"
  "same_store s (set_revoke_table_of s i t)"
  by (simp_all add: same_store_def take_log_block_def Let_def set_revoke_table_of_def)

lemma log_readyD: "log_ready E s0 \<Longrightarrow> logged s0 k bl s \<Longrightarrow> log_ready E s"
  by (auto simp: log_ready_def logged_def same_format_fields is_journal_aborted_def)

lemma logged_refl: "logged s 0 [] s"
  by (simp add: logged_def)

lemma take_log_blocks_same:
  "j_first ((take_log_block ^^ k) s) = j_first s" "j_last ((take_log_block ^^ k) s) = j_last s"
  by (induction k) simp_all

lemma take_log_block_head_eq:
  "j_head (take_log_block s) = (if j_head s + 1 = j_last s then j_first s else j_head s + 1)"
  by (simp add: take_log_block_def Let_def)

lemma take_log_block_fields [simp]:
  "log_written (take_log_block s) = log_written s" "trs (take_log_block s) = trs s"
  "jhs (take_log_block s) = jhs s" "bhs (take_log_block s) = bhs s"
  by (simp_all add: take_log_block_def Let_def)

lemma take_log_block_format: "same_format s (take_log_block s)"
  by (simp add: same_format_def take_log_block_def Let_def)

lemma logged_take:
  assumes l: "logged s0 k bl s" and free: "1 < unat (j_free s)"
  shows "logged s0 (Suc k) bl (take_log_block s)"
proof -
  have "1 \<le> j_free s" using free by (simp add: word_le_nat_alt)
  then have "unat (j_free s - 1) = unat (j_free s) - 1" by (simp add: unat_sub)
  moreover have fmt: "same_format s0 s" using l by (simp add: logged_def)
  moreover have "j_head (take_log_block s) = j_head ((take_log_block ^^ Suc k) s0)"
    using l by (simp add: logged_def take_log_block_head_eq take_log_blocks_same same_format_fields [OF fmt])
  ultimately show ?thesis
    using l same_format_trans [OF fmt take_log_block_format] by (simp add: logged_def)
qed

lemma logged_write:
  assumes "logged s0 k bl s"
  shows "logged s0 k (bl @ bl') (s\<lparr>log_written := rev bl' @ log_written s\<rparr>)"
  using assms by (simp add: logged_def same_format_def)

lemma next_log_block_ok:
  assumes "log_ready E s" and "1 < unat (j_free s)"
  shows "jbd2_vmsep_journal_next_log_block csum s = Inr (0, jmap s (j_head s), take_log_block s)"
proof -
  have "1 < j_free s" using assms(2) by (simp add: word_less_nat_alt)
  then show ?thesis using assms(1)
    by (cases "j_bmap s") (auto simp: jbd2_vmsep_journal_next_log_block_def jbd2_vmsep_journal_bmap_def
        log_ready_def jmap_def J_ASSERT_def)
qed

definition new_block :: "jstate \<Rightarrow> u32 \<Rightarrow> tid_t \<Rightarrow> block_data" where
  "new_block s blocktype tid = store_bytes (replicate (j_blocksize s) 0) 0 (journal_header blocktype tid)"

lemma get_descriptor_buffer_ok:
  assumes "log_ready E s" and "1 < unat (j_free s)"
  shows "jbd2_vmsep_journal_get_descriptor_buffer E s tid bt =
    Inr (Some (jmap s (j_head s), new_block s bt tid), take_log_block s)"
  using assms(1) same_format_fields(1) [OF take_log_block_format]
  by (simp add: jbd2_vmsep_journal_get_descriptor_buffer_def next_log_block_ok [OF assms] new_block_def log_ready_def)

lemma log_slot_head: "logged s0 k bl s \<Longrightarrow> jmap s (j_head s) = log_slot s0 k"
  using same_format_formats(8) [of s0 s] by (simp add: logged_def log_slot_def)

lemma new_block_length [simp]: "64 \<le> j_blocksize s \<Longrightarrow> length (new_block s bt tid) = j_blocksize s"
  by (simp add: new_block_def journal_header_def)

lemma csum_room: "64 \<le> j_blocksize s \<Longrightarrow> 60 \<le> j_blocksize s - csum_size s"
  using diff_le_mono [of 64 "j_blocksize s" "csum_size s"] by (auto simp: csum_size_def split: if_splits)

text \<open>A block keeps its header as long as only bytes after it change.\<close>

definition headed :: "jstate \<Rightarrow> u32 \<Rightarrow> tid_t \<Rightarrow> block_data \<Rightarrow> bool" where
  "headed s bt tid d = (length d = j_blocksize s \<and> load_bytes d 0 12 = journal_header bt tid)"

lemma headed_new: "64 \<le> j_blocksize s \<Longrightarrow> headed s bt tid (new_block s bt tid)"
  using load_store_same [of 0 "replicate (j_blocksize s) 0" "journal_header bt tid"]
  by (simp add: headed_def) (simp add: new_block_def journal_header_def)

lemma headed_store:
  "headed s bt tid d \<Longrightarrow> 12 \<le> off \<Longrightarrow> off + length bs \<le> j_blocksize s \<Longrightarrow> headed s bt tid (store_bytes d off bs)"
  by (simp add: headed_def load_store_disjoint)

lemma headed_csum:
  "headed s bt tid d \<Longrightarrow> 64 \<le> j_blocksize s \<Longrightarrow> headed s bt tid (jbd2_vmsep_descriptor_block_csum_set E s d)"
  using csum_set_load [of d s 0 12 E] csum_room [of s] by (simp add: headed_def)

lemma headed_has_header:
  assumes "headed s bt tid d"
  shows "has_header d bt tid"
proof -
  have h: "load_bytes d 0 12 = be_enc 4 (unat JBD2_MAGIC_NUMBER) @ be_enc 4 (unat bt) @ be_enc 4 (unat tid)"
    using assms by (simp add: headed_def journal_header_def)
  have "load_bytes d i 4 = take 4 (drop i (load_bytes d 0 12))" if "i \<le> 8" for i
    using that by (simp add: load_bytes_def drop_take min_def)
  then have "load_bytes d 0 4 = be_enc 4 (unat JBD2_MAGIC_NUMBER)" "load_bytes d 4 4 = be_enc 4 (unat bt)"
    "load_bytes d 8 4 = be_enc 4 (unat tid)"
    unfolding h by simp_all
  then show ?thesis unfolding has_header_def by (metis be32_at_load)
qed

section \<open>Revoke blocks\<close>

lemma revoke_records_read:
  assumes "0 < sz"
  shows "(\<forall>n < length bs. load_bytes d (off + sz * n) sz = be_enc sz (unat (bs ! n))) \<Longrightarrow>
    (\<forall>b \<in> set bs. unat (b :: u64) < 256 ^ sz) \<Longrightarrow> revoke_records sz d (off + sz * length bs) off = bs"
proof (induction bs arbitrary: off)
  case Nil
  then show ?case using assms by (subst revoke_records.simps) simp
next
  case (Cons b bs)
  have b: "load_bytes d off sz = be_enc sz (unat b)" using Cons.prems(1) [rule_format, of 0] by simp
  have "\<forall>n < length bs. load_bytes d (off + sz + sz * n) sz = be_enc sz (unat (bs ! n))"
    using Cons.prems(1) [rule_format, of "Suc n" for n] by (simp add: add.assoc)
  from Cons.IH [OF this] Cons.prems(2)
  have "revoke_records sz d (off + sz + sz * length bs) (off + sz) = bs" by simp
  then show ?case
    using assms Cons.prems(2) b by (subst revoke_records.simps) (simp add: be_dec_enc add.assoc)
qed

text \<open>A revoke block that is being filled: \<open>bs\<close> are the records in it so far.\<close>

definition revoke_part :: "jstate \<Rightarrow> tid_t \<Rightarrow> u64 list \<Rightarrow> nat \<Rightarrow> block_data \<Rightarrow> bool" where
  "revoke_part s tid bs offset d =
     (headed s JBD2_REVOKE_BLOCK tid d \<and> offset = 16 + revoke_record_size s * length bs \<and>
      offset \<le> revoke_block_limit s \<and>
      (\<forall>n < length bs. load_bytes d (16 + revoke_record_size s * n) (revoke_record_size s) =
         be_enc (revoke_record_size s) (unat (bs ! n))))"

text \<open>In a journal without 64-bit block numbers the block numbers have 32 bits.\<close>

definition blocknr_fits :: "jstate \<Rightarrow> u64 \<Rightarrow> bool" where
  "blocknr_fits s b = (jbd2_has_feature_64bit s \<or> unat b < 2 ^ 32)"

lemma blocknr_fits_size: "blocknr_fits s b \<Longrightarrow> unat b < 256 ^ revoke_record_size s"
  using unsigned_less [of b, where 'a = nat] by (auto simp: blocknr_fits_def revoke_record_size_def)

lemma revoke_block_limit_eq: "revoke_block_limit s = j_blocksize s - csum_size s"
  by (simp add: revoke_block_limit_def csum_size_def)

lemma revoke_part_put:
  assumes p: "revoke_part s tid bs offset d" and room: "offset + revoke_record_size s \<le> revoke_block_limit s"
    and sz: "64 \<le> j_blocksize s"
  shows "revoke_part s tid (bs @ [b]) (offset + revoke_record_size s)
    (store_bytes d offset (be_enc (revoke_record_size s) (unat b)))"
proof -
  let ?sz = "revoke_record_size s"
  let ?d = "store_bytes d offset (be_enc ?sz (unat b))"
  have len: "length d = j_blocksize s" and off: "offset = 16 + ?sz * length bs" and h: "headed s JBD2_REVOKE_BLOCK tid d"
    using p by (simp_all add: revoke_part_def headed_def)
  have lim: "offset + ?sz \<le> j_blocksize s" using room by (simp add: revoke_block_limit_eq)
  have "load_bytes ?d (16 + ?sz * n) ?sz = be_enc ?sz (unat ((bs @ [b]) ! n))" if n: "n < length (bs @ [b])" for n
  proof (cases "n = length bs")
    case True
    then show ?thesis using load_store_same [of offset d "be_enc ?sz (unat b)"] lim len off by simp
  next
    case False
    then have "Suc n \<le> length bs" using n by simp
    then have "?sz * Suc n \<le> ?sz * length bs" by (rule mult_le_mono2)
    then have "16 + ?sz * n + ?sz \<le> offset" using off by simp
    then show ?thesis
      using False n p lim len by (simp add: load_store_disjoint nth_append revoke_part_def)
  qed
  moreover have "headed s JBD2_REVOKE_BLOCK tid ?d" using headed_store [OF h, of offset] lim off by simp
  ultimately show ?thesis using off room by (simp add: revoke_part_def)
qed

lemma revoke_part_new:
  "64 \<le> j_blocksize s \<Longrightarrow> revoke_part s tid [] 16 (new_block s JBD2_REVOKE_BLOCK tid)"
  using csum_room [of s] by (simp add: revoke_part_def headed_new revoke_block_limit_eq)

definition flushed_revoke :: "env \<Rightarrow> jstate \<Rightarrow> nat \<Rightarrow> block_data \<Rightarrow> block_data" where
  "flushed_revoke E s offset d = jbd2_vmsep_descriptor_block_csum_set E s (store_bytes d 12 (be_enc 4 offset))"

lemma flushed_revoke_item:
  assumes p: "revoke_part s tid bs offset d" and sz: "64 \<le> j_blocksize s" and big: "j_blocksize s < 2 ^ 32"
    and fit: "\<forall>b \<in> set bs. blocknr_fits s b"
  shows "item_wf E s tid (Revoke_item (flushed_revoke E s offset d))"
    and "item_revokes s (Revoke_item (flushed_revoke E s offset d)) = bs"
proof -
  let ?sz = "revoke_record_size s" and ?d1 = "store_bytes d 12 (be_enc 4 offset)"
  let ?d = "flushed_revoke E s offset d"
  have h: "headed s JBD2_REVOKE_BLOCK tid d" and off: "offset = 16 + ?sz * length bs"
    and lim: "offset \<le> j_blocksize s - csum_size s"
    using p by (simp_all add: revoke_part_def revoke_block_limit_eq)
  have len: "length d = j_blocksize s" "length ?d1 = j_blocksize s" using h sz by (simp_all add: headed_def)
  have ld: "load_bytes ?d i n = load_bytes ?d1 i n" if "i + n \<le> j_blocksize s - csum_size s" for i n
    using that len sz by (simp add: flushed_revoke_def csum_set_load)
  have c: "16 \<le> j_blocksize s - csum_size s" using csum_room [OF sz] by simp
  have cnt: "be32_at ?d 12 = of_nat offset"
    using ld [of 12 4] c load_store_same [of 12 d "be_enc 4 offset"] len sz lim big
    by (simp add: be32_at_def be_dec_enc)
  then have n: "unat (be32_at ?d 12) = offset"
    using lim big by (simp only: cnt) (subst unat_of_nat_small, simp_all)
  have "headed s JBD2_REVOKE_BLOCK tid ?d"
    unfolding flushed_revoke_def using h sz by (intro headed_csum headed_store) simp_all
  then show "item_wf E s tid (Revoke_item ?d)"
    using n lim headed_has_header csum_set_verify [OF len(2), of E] sz by (simp add: flushed_revoke_def)
  have "\<forall>m < length bs. load_bytes ?d (16 + ?sz * m) ?sz = be_enc ?sz (unat (bs ! m))"
  proof (intro allI impI)
    fix m assume m: "m < length bs"
    then have "?sz * Suc m \<le> ?sz * length bs" by (intro mult_le_mono2) simp
    then have "16 + ?sz * m + ?sz \<le> j_blocksize s - csum_size s" using off lim by simp
    then show "load_bytes ?d (16 + ?sz * m) ?sz = be_enc ?sz (unat (bs ! m))"
      using ld m p len by (simp add: load_store_disjoint revoke_part_def)
  qed
  moreover have "0 < ?sz" by (simp add: revoke_record_size_def)
  ultimately show "item_revokes s (Revoke_item ?d) = bs"
    using revoke_records_read [of ?sz bs ?d 16] fit n off by (simp add: blocknr_fits_size)
qed

lemma flush_descriptor_eq:
  assumes "same_format s0 s" and "\<not> is_journal_aborted s"
  shows "flush_descriptor E s (n, d) offset =
    s\<lparr>log_written := (n, flushed_revoke E s0 offset d) # log_written s\<rparr>"
  using assms by (simp add: flush_descriptor_def flushed_revoke_def same_format_formats [OF assms(1)] Let_def)

text \<open>The state of the writer after the records \<open>recs\<close>, with the blocks \<open>bl\<close> written.\<close>

definition revoke_items :: "(u64 \<times> block_data) list \<Rightarrow> log_item list" where
  "revoke_items bl = map (\<lambda>(n, d). Revoke_item d) bl"

definition rw_inv :: "env \<Rightarrow> jstate \<Rightarrow> tid_t \<Rightarrow> u64 list \<Rightarrow> (u64 \<times> block_data) list \<Rightarrow> revoke_writer \<Rightarrow> bool" where
  "rw_inv E s0 tid recs bl w =
     (logged s0 (length (rw_log_bufs w)) bl (rw_state w) \<and> same_store s0 (rw_state w) \<and>
      rw_log_bufs w = map (log_slot s0) [0..<length (rw_log_bufs w)] \<and>
      length (rw_log_bufs w) \<le> length recs \<and> list_all (item_wf E s0 tid) (revoke_items bl) \<and>
      (case rw_descriptor w of
         None \<Rightarrow> rw_log_bufs w = [] \<and> bl = [] \<and> recs = []
       | Some (n, d) \<Rightarrow> map fst bl @ [n] = rw_log_bufs w \<and>
           (\<exists>cur. revoke_part s0 tid cur (rw_offset w) d \<and>
              concat (map (item_revokes s0) (revoke_items bl)) @ cur = recs)))"

lemma put_new_revoke:
  assumes r: "log_ready E s0" and l: "logged s0 k bl s" and st: "same_store s0 s"
    and free: "k + 1 < unat (j_free s0)"
    and bufs: "bufs = map (log_slot s0) [0..<k]" "map fst bl = bufs" and k: "k \<le> length recs"
    and wf: "list_all (item_wf E s0 tid) (revoke_items bl)"
    and recs: "concat (map (item_revokes s0) (revoke_items bl)) = recs"
  shows "\<exists>desc s'. jbd2_vmsep_journal_get_descriptor_buffer E s tid JBD2_REVOKE_BLOCK = Inr (Some desc, s') \<and>
    rw_inv E s0 tid (recs @ [b]) bl (put_revoke_record s' desc 16 (bufs @ [fst desc]) b)"
proof -
  have fmt: "same_format s0 s" using l by (simp add: logged_def)
  have free': "1 < unat (j_free s)" using l free by (simp add: logged_def)
  have sz: "64 \<le> j_blocksize s0" using r by (simp add: log_ready_def)
  have nb: "new_block s JBD2_REVOKE_BLOCK tid = new_block s0 JBD2_REVOKE_BLOCK tid"
    by (simp add: new_block_def same_format_fields [OF fmt])
  have size: "revoke_record_size (take_log_block s) = revoke_record_size s0"
    using same_format_formats(3) [OF same_format_trans [OF fmt take_log_block_format]] .
  have "16 + revoke_record_size s0 \<le> revoke_block_limit s0"
    using csum_room [OF sz] by (auto simp: revoke_block_limit_eq revoke_record_size_def)
  from revoke_part_put [OF revoke_part_new [OF sz] this sz, of tid b]
  have "revoke_part s0 tid [b] (16 + revoke_record_size s0) (store_bytes (new_block s0 JBD2_REVOKE_BLOCK tid) 16
      (be_enc (revoke_record_size s0) (unat b)))" by simp
  then show ?thesis
    using get_descriptor_buffer_ok [OF log_readyD [OF r l] free'] logged_take [OF l free']
      log_slot_head [OF l] bufs k wf recs same_store_trans [OF st same_store_log(1)]
    by (simp add: rw_inv_def put_revoke_record_def size nb)
qed

lemma write_one_revoke_ok:
  assumes r: "log_ready E s0" and big: "j_blocksize s0 < 2 ^ 32"
    and inv: "rw_inv E s0 tid recs bl w" and free: "length recs + 1 < unat (j_free s0)"
    and fit: "\<forall>b \<in> set recs. blocknr_fits s0 b"
  shows "\<exists>w' bl'. write_one_revoke_record E tid w rec = Inr w' \<and>
    rw_inv E s0 tid (recs @ [rr_blocknr rec]) bl' w'"
proof -
  let ?s = "rw_state w" and ?k = "length (rw_log_bufs w)"
  have l: "logged s0 ?k bl ?s" and k: "?k \<le> length recs" and st: "same_store s0 ?s"
    using inv by (simp_all add: rw_inv_def)
  have fmt: "same_format s0 ?s" using l by (simp add: logged_def)
  have na: "\<not> is_journal_aborted ?s" using log_readyD [OF r l] by (simp add: log_ready_def)
  have sz: "64 \<le> j_blocksize s0" using r by (simp add: log_ready_def)
  show ?thesis
  proof (cases "rw_descriptor w")
    case None
    then have "rw_log_bufs w = []" "bl = []" "recs = []" using inv by (simp_all add: rw_inv_def)
    with put_new_revoke [OF r _ st, of 0 bl "[]" recs tid "rr_blocknr rec"] l free show ?thesis
      by (auto simp: write_one_revoke_record_def Let_def na None revoke_items_def)
  next
    case (Some desc)
    obtain n d where nd: "desc = (n, d)" by (cases desc)
    obtain cur where part: "revoke_part s0 tid cur (rw_offset w) d"
      and recs: "concat (map (item_revokes s0) (revoke_items bl)) @ cur = recs"
      and bufs: "map fst bl @ [n] = rw_log_bufs w" "rw_log_bufs w = map (log_slot s0) [0..<?k]"
      and wf: "list_all (item_wf E s0 tid) (revoke_items bl)"
      using inv Some nd by (auto simp: rw_inv_def)
    show ?thesis
    proof (cases "rw_offset w + revoke_record_size s0 > revoke_block_limit s0")
      case True
      let ?d = "flushed_revoke E s0 (rw_offset w) d"
      have fl: "flush_descriptor E ?s desc (rw_offset w) = ?s\<lparr>log_written := (n, ?d) # log_written ?s\<rparr>"
        unfolding nd by (rule flush_descriptor_eq [OF fmt na])
      have l': "logged s0 ?k (bl @ [(n, ?d)]) (?s\<lparr>log_written := (n, ?d) # log_written ?s\<rparr>)"
        using logged_write [OF l, of "[(n, ?d)]"] by simp
      have it: "item_wf E s0 tid (Revoke_item ?d)" "item_revokes s0 (Revoke_item ?d) = cur"
        using flushed_revoke_item [OF part sz big, of E] fit recs by auto
      have "list_all (item_wf E s0 tid) (revoke_items (bl @ [(n, ?d)]))"
        "concat (map (item_revokes s0) (revoke_items (bl @ [(n, ?d)]))) = recs"
        "map fst (bl @ [(n, ?d)]) = rw_log_bufs w"
        using wf it recs bufs(1) by (simp_all add: revoke_items_def)
      from put_new_revoke [OF r l' same_store_trans [OF st same_store_log(2)] _ bufs(2) this(3) k this(1,2), of "rr_blocknr rec"]
      show ?thesis using True free k
        by (auto simp: write_one_revoke_record_def Let_def na Some fl same_format_formats [OF fmt])
    next
      case False
      then have "revoke_part s0 tid (cur @ [rr_blocknr rec]) (rw_offset w + revoke_record_size s0)
        (store_bytes d (rw_offset w) (be_enc (revoke_record_size s0) (unat (rr_blocknr rec))))"
        using revoke_part_put [OF part _ sz] by simp
      then have "rw_inv E s0 tid (recs @ [rr_blocknr rec]) bl
        (put_revoke_record ?s desc (rw_offset w) (rw_log_bufs w) (rr_blocknr rec))"
        using inv Some nd recs bufs k l wf
        by (auto simp: rw_inv_def put_revoke_record_def same_format_formats [OF fmt])
      then show ?thesis using False
        by (auto simp: write_one_revoke_record_def Let_def na Some same_format_formats [OF fmt])
    qed
  qed
qed

lemma write_revoke_loop_ok:
  assumes r: "log_ready E s0" and big: "j_blocksize s0 < 2 ^ 32"
  shows "rw_inv E s0 tid recs bl w \<Longrightarrow> length recs + length rs + 1 \<le> unat (j_free s0) \<Longrightarrow>
    \<forall>b \<in> set recs \<union> rr_blocknr ` set rs. blocknr_fits s0 b \<Longrightarrow>
    \<exists>w' bl'. write_revoke_loop E tid w rs = Inr w' \<and> rw_inv E s0 tid (recs @ map rr_blocknr rs) bl' w'"
proof (induction rs arbitrary: recs bl w)
  case Nil
  then show ?case by auto
next
  case (Cons x rs)
  then obtain w1 bl1 where "write_one_revoke_record E tid w x = Inr w1"
    and "rw_inv E s0 tid (recs @ [rr_blocknr x]) bl1 w1"
    using write_one_revoke_ok [OF r big Cons.prems(1), of x] by (auto simp: Suc_le_eq)
  with Cons.IH [of "recs @ [rr_blocknr x]" bl1 w1] Cons.prems(2,3) show ?case by auto
qed

lemma logged_revoke_table: "logged s0 k bl s \<Longrightarrow> logged s0 k bl (set_revoke_table_of s i t)"
  using same_format_trans [OF _ set_revoke_format, of s0 s] by (auto simp: logged_def set_revoke_table_of_def)

lemma write_revoke_ok:
  assumes r: "log_ready E s" and big: "j_blocksize s < 2 ^ 32"
    and t: "revoke_table_of s (j_revoke s = Some False) = Some t"
    and free: "length (concat (hash_table t)) + 1 \<le> unat (j_free s)"
    and fit: "\<forall>x \<in> set (concat (hash_table t)). blocknr_fits s (rr_blocknr x)"
  shows "\<exists>s' bl. jbd2_vmsep_journal_write_revoke_records E s tid [] = Inr (map fst bl, s') \<and>
    logged s (length bl) bl s' \<and> same_store s s' \<and> map fst bl = map (log_slot s) [0..<length bl] \<and>
    list_all (item_wf E s tid) (revoke_items bl) \<and>
    concat (map (item_revokes s) (revoke_items bl)) = map rr_blocknr (concat (hash_table t)) \<and>
    revoke_table_of s' (j_revoke s = Some False) = Some (clear_revoke_tbl t) \<and>
    length bl \<le> length (concat (hash_table t))"
proof -
  let ?i = "j_revoke s = Some False" and ?rs = "concat (hash_table t)"
  let ?w0 = "\<lparr>rw_state = s, rw_descriptor = None, rw_offset = 0, rw_log_bufs = []\<rparr>"
  have "rw_inv E s tid [] [] ?w0" by (simp add: rw_inv_def logged_refl revoke_items_def)
  from write_revoke_loop_ok [OF r big this, of ?rs] free fit
  obtain w bl where w: "write_revoke_loop E tid ?w0 ?rs = Inr w" and inv: "rw_inv E s tid (map rr_blocknr ?rs) bl w"
    by auto
  let ?s1 = "set_revoke_table_of (rw_state w) ?i (Some (clear_revoke_tbl t))"
  have l: "logged s (length (rw_log_bufs w)) bl ?s1" and st: "same_store s ?s1"
    and fmt: "same_format s ?s1" and na: "\<not> is_journal_aborted ?s1"
    using inv logged_revoke_table log_readyD [OF r] same_store_trans [OF _ same_store_log(3)]
    by (auto simp: rw_inv_def logged_def log_ready_def)
  show ?thesis
  proof (cases "rw_descriptor w")
    case None
    then have "rw_log_bufs w = []" "bl = []" "?rs = []" using inv by (auto simp: rw_inv_def)
    then show ?thesis using w l st
      by (auto simp: jbd2_vmsep_journal_write_revoke_records_def t deref_def None revoke_items_def Let_def)
  next
    case (Some desc)
    obtain n d where nd: "desc = (n, d)" by (cases desc)
    let ?d = "flushed_revoke E s (rw_offset w) d"
    obtain cur where part: "revoke_part s tid cur (rw_offset w) d"
      and recs: "concat (map (item_revokes s) (revoke_items bl)) @ cur = map rr_blocknr ?rs"
      and bufs: "map fst bl @ [n] = rw_log_bufs w" "rw_log_bufs w = map (log_slot s) [0..<length (rw_log_bufs w)]"
      and wf: "list_all (item_wf E s tid) (revoke_items bl)"
      using inv Some nd by (auto simp: rw_inv_def)
    have fl: "flush_descriptor E ?s1 desc (rw_offset w) = ?s1\<lparr>log_written := (n, ?d) # log_written ?s1\<rparr>"
      unfolding nd by (rule flush_descriptor_eq [OF fmt na])
    have "set cur \<subseteq> rr_blocknr ` set ?rs" using recs by (metis Un_upper2 image_set set_append)
    then have it: "item_wf E s tid (Revoke_item ?d)" "item_revokes s (Revoke_item ?d) = cur"
      using flushed_revoke_item [OF part _ big, of E] fit r by (auto simp: log_ready_def)
    have len: "length (rw_log_bufs w) = length (bl @ [(n, ?d)])" using bufs(1) by (metis length_append_singleton length_map)
    moreover have "length (rw_log_bufs w) \<le> length ?rs" using inv by (simp add: rw_inv_def)
    ultimately have le: "length (bl @ [(n, ?d)]) \<le> length ?rs" by simp
    have "logged s (length (bl @ [(n, ?d)])) (bl @ [(n, ?d)]) (?s1\<lparr>log_written := (n, ?d) # log_written ?s1\<rparr>)"
      using logged_write [OF l, of "[(n, ?d)]"] by (simp add: len)
    moreover have "map fst (bl @ [(n, ?d)]) = rw_log_bufs w" using bufs(1) by simp
    moreover have "revoke_table_of (?s1\<lparr>log_written := (n, ?d) # log_written ?s1\<rparr>) ?i = Some (clear_revoke_tbl t)"
      by (simp add: revoke_table_of_def set_revoke_table_of_def)
    ultimately show ?thesis
      using w fl it wf recs bufs(2) len le same_store_trans [OF st same_store_log(2)]
      by (intro exI [of _ "?s1\<lparr>log_written := (n, ?d) # log_written ?s1\<rparr>"] exI [of _ "bl @ [(n, ?d)]"])
        (auto simp: jbd2_vmsep_journal_write_revoke_records_def t deref_def Some revoke_items_def Let_def)
  qed
qed

end
