(* ===== verification/Jbd2_Journal.thy ===== *)
theory Jbd2_Journal
  imports Jbd2_Commit
begin

text \<open>
  The operations of \<open>kernel/fs/jbd2/journal.c\<close> that force commits and wait for them, and the two
  that empty the journal: \<open>jbd2_vmsep_journal_flush\<close> and \<open>jbd2_vmsep_journal_destroy\<close>. Waiting
  for the commit thread is \<open>wait_until\<close> with the step \<open>K\<close> of the other threads.
\<close>

section \<open>The order of transaction states\<close>

fun tstate_rank :: "tstate \<Rightarrow> nat" where
  "tstate_rank T_RUNNING = 0"
| "tstate_rank T_LOCKED = 1"
| "tstate_rank T_FLUSH = 2"
| "tstate_rank T_COMMIT = 3"
| "tstate_rank T_COMMIT_DFLUSH = 4"
| "tstate_rank T_COMMIT_JFLUSH = 5"
| "tstate_rank T_COMMIT_CALLBACK = 6"
| "tstate_rank T_FINISHED = 7"

lemma tstate_rank_inj: "tstate_rank a = tstate_rank b \<longleftrightarrow> a = b"
  by (cases a; cases b) simp_all

instantiation tstate :: linorder
begin

definition less_eq_tstate :: "tstate \<Rightarrow> tstate \<Rightarrow> bool" where
  "less_eq_tstate a b \<longleftrightarrow> tstate_rank a \<le> tstate_rank b"

definition less_tstate :: "tstate \<Rightarrow> tstate \<Rightarrow> bool" where
  "less_tstate a b \<longleftrightarrow> tstate_rank a < tstate_rank b"

instance
  by standard (auto simp: less_eq_tstate_def less_tstate_def tstate_rank_inj)

end

section \<open>Forcing commits\<close>

text \<open>\<open>in_handle\<close> is \<open>current->journal_info\<close>: whether the caller holds a handle.\<close>

definition journal_force_commit ::
    "(jstate \<Rightarrow> jstate res) \<Rightarrow> bool \<Rightarrow> jstate \<Rightarrow> (int \<times> jstate) res option" where
  "journal_force_commit K in_handle s =
     bind_ro (Some
       (case (j_running_transaction s, in_handle, j_committing_transaction s) of
          (Some t, False, _) \<Rightarrow> with_tr s t (\<lambda>tr.
            Inr (Some (t_tid tr, \<not> tid_geq (j_commit_request s) (t_tid tr))))
        | (_, _, Some t) \<Rightarrow> with_tr s t (\<lambda>tr. Inr (Some (t_tid tr, False)))
        | _ \<Rightarrow> Inr None)) (\<lambda>transaction.
     case transaction of
       None \<Rightarrow> Some (Inr (0, s))
     | Some (tid, need_to_start) \<Rightarrow>
         bind_ro (Some (if need_to_start then jbd2_vmsep_log_start_commit s tid 0 else Inr (0, s)))
           (\<lambda>(_, s).
         bind_ro (jbd2_vmsep_log_wait_commit K s tid) (\<lambda>(ret, s).
           Some (Inr (if ret = 0 then 1 else ret, s)))))"

definition jbd2_vmsep_journal_force_commit_nested ::
    "(jstate \<Rightarrow> jstate res) \<Rightarrow> bool \<Rightarrow> jstate \<Rightarrow> (bool \<times> jstate) res option" where
  "jbd2_vmsep_journal_force_commit_nested K in_handle s =
     bind_ro (journal_force_commit K in_handle s) (\<lambda>(ret, s). Some (Inr (ret > 0, s)))"

definition jbd2_vmsep_journal_force_commit ::
    "(jstate \<Rightarrow> jstate res) \<Rightarrow> bool \<Rightarrow> jstate \<Rightarrow> (int \<times> jstate) res option" where
  "jbd2_vmsep_journal_force_commit K in_handle s =
     (if in_handle then Some (Inl BUG)
      else bind_ro (journal_force_commit K in_handle s) (\<lambda>(ret, s).
        Some (Inr (if ret > 0 then 0 else ret, s))))"

definition jbd2_vmsep_journal_start_commit :: "jstate \<Rightarrow> (tid_t option \<times> jstate) res" where
  "jbd2_vmsep_journal_start_commit s =
     (case j_running_transaction s of
        Some t \<Rightarrow> with_tr s t (\<lambda>tr.
          bind_res (log_start_commit_raw s (t_tid tr) 0) (\<lambda>(_, s). Inr (Some (t_tid tr), s)))
      | None \<Rightarrow>
          (case j_committing_transaction s of
             Some t \<Rightarrow> with_tr s t (\<lambda>tr. Inr (Some (t_tid tr), s))
           | None \<Rightarrow> Inr (None, s)))"

definition jbd2_vmsep_trans_will_send_data_barrier :: "jstate \<Rightarrow> tid_t \<Rightarrow> bool res" where
  "jbd2_vmsep_trans_will_send_data_barrier s tid =
     (if JBD2_BARRIER \<notin> j_flags s then Inr False
      else if tid_geq (j_commit_sequence s) tid then Inr False
      else case j_committing_transaction s of
        None \<Rightarrow> Inr True
      | Some t \<Rightarrow> with_tr s t (\<lambda>tr.
          Inr (t_tid tr \<noteq> tid \<or>
               \<not> (if \<not> j_dev_is_fs_dev s
                  then \<not> t_need_data_flush tr \<or> t_state tr \<ge> T_COMMIT_DFLUSH
                  else t_state tr \<ge> T_COMMIT_JFLUSH))))"

section \<open>Emptying the journal\<close>

text \<open>
  Both operations checkpoint until no transaction is left or checkpointing fails.
\<close>

partial_function (option) checkpoint_all ::
    "env \<Rightarrow> (jstate \<Rightarrow> jstate res) \<Rightarrow> jstate \<Rightarrow> (int \<times> jstate) res option" where
  "checkpoint_all E K s =
     (if j_checkpoint_transactions s = [] then Some (Inr (0, s))
      else case jbd2_vmsep_log_do_checkpoint E K s of
        None \<Rightarrow> None
      | Some (Inl e) \<Rightarrow> Some (Inl e)
      | Some (Inr (err, s)) \<Rightarrow> if err \<noteq> 0 then Some (Inr (err, s)) else checkpoint_all E K s)"

definition flush_commit :: "(jstate \<Rightarrow> jstate res) \<Rightarrow> jstate \<Rightarrow> jstate res option" where
  "flush_commit K s =
     bind_ro (Some
       (case (j_running_transaction s, j_committing_transaction s) of
          (Some t, _) \<Rightarrow> with_tr s t (\<lambda>tr.
            bind_res (log_start_commit_raw s (t_tid tr) 0) (\<lambda>(_, s). Inr (Some (t_tid tr), s)))
        | (None, Some t) \<Rightarrow> with_tr s t (\<lambda>tr. Inr (Some (t_tid tr), s))
        | (None, None) \<Rightarrow> Inr (None, s))) (\<lambda>(tid, s).
     case tid of
       None \<Rightarrow> Some (Inr s)
     | Some tid \<Rightarrow> bind_ro (jbd2_vmsep_log_wait_commit K s tid) (\<lambda>(_, s). Some (Inr s)))"

definition flush_finish :: "env \<Rightarrow> int \<Rightarrow> jstate \<Rightarrow> (int \<times> jstate) res" where
  "flush_finish E err s =
     bind_res (jbd2_mark_journal_empty (sb_csum E) s) (\<lambda>s.
       J_ASSERT (j_running_transaction s = None) (J_ASSERT (j_committing_transaction s = None)
       (J_ASSERT (j_checkpoint_transactions s = []) (J_ASSERT (j_head s = j_tail s)
       (J_ASSERT (j_tail_sequence s = j_transaction_sequence s) (Inr (err, s)))))))"

definition jbd2_vmsep_journal_flush ::
    "env \<Rightarrow> (jstate \<Rightarrow> jstate res) \<Rightarrow> jstate \<Rightarrow> (int \<times> jstate) res option" where
  "jbd2_vmsep_journal_flush E K s =
     bind_ro (flush_commit K s) (\<lambda>s.
     bind_ro (checkpoint_all E K s) (\<lambda>(err, s).
       if is_journal_aborted s then Some (Inr (- EIO, s))
       else if err \<noteq> 0 then Some (flush_finish E err s)
       else bind_ro (Some (jbd2_vmsep_cleanup_journal_tail (sb_csum E) s)) (\<lambda>(err, s).
         if err < 0 then Some (Inr (err, s)) else Some (flush_finish E 0 s))))"

definition destroy_finish :: "env \<Rightarrow> int \<Rightarrow> jstate \<Rightarrow> (int \<times> jstate) res" where
  "destroy_finish E err s =
     J_ASSERT (j_running_transaction s = None) (J_ASSERT (j_committing_transaction s = None)
     (J_ASSERT (j_checkpoint_transactions s = [])
     (bind_res
       (if \<not> j_sb_buffer s then Inr (err, s)
        else if is_journal_aborted s then Inr (- EIO, s)
        else let seq = j_transaction_sequence s + 1
             in bind_res (jbd2_mark_journal_empty (sb_csum E)
                           (s\<lparr>j_transaction_sequence := seq, j_tail_sequence := seq\<rparr>)) (\<lambda>s. Inr (err, s)))
       (\<lambda>(err, s).
     bind_res (if j_revoke s \<noteq> None then jbd2_vmsep_journal_destroy_revoke s else Inr s) (\<lambda>s.
       Inr (err, s))))))"

definition jbd2_vmsep_journal_destroy ::
    "env \<Rightarrow> (jstate \<Rightarrow> jstate res) \<Rightarrow> jstate \<Rightarrow> (int \<times> jstate) res option" where
  "jbd2_vmsep_journal_destroy E K s =
     bind_ro (journal_kill_thread K s) (\<lambda>s.
     bind_ro (if j_running_transaction s \<noteq> None then jbd2_vmsep_journal_commit_transaction E K s
              else Some (Inr s)) (\<lambda>s.
     bind_ro (checkpoint_all E K s) (\<lambda>(err, s).
     bind_ro (if err \<noteq> 0 then jbd2_vmsep_journal_destroy_checkpoint E s else Some (Inr s)) (\<lambda>s.
       Some (destroy_finish E err s)))))"

end
