(* ===== verification/Jbd2_Lists.thy ===== *)
theory Jbd2_Lists
  imports Jbd2_Buffers
begin

text \<open>
  The invariant of the buffer lists. \<open>lists_wf\<close> says that a buffer is on exactly the list its
  journal head names, of the transaction its journal head points to, once, and that \<open>t_nr_buffers\<close>
  counts the metadata list. \<open>refs_wf\<close> says that a journal head has a reference for its transaction
  and one for its checkpoint transaction. Filing, unfiling and refiling keep both.
\<close>

section \<open>The invariant\<close>

fun tlist :: "jlist \<Rightarrow> transaction_t \<Rightarrow> bhp list" where
  "tlist BJ_None tr = []"
| "tlist BJ_Metadata tr = t_buffers tr"
| "tlist BJ_Forget tr = t_forget tr"
| "tlist BJ_Shadow tr = t_shadow_list tr"
| "tlist BJ_Reserved tr = t_reserved_list tr"

definition on_list :: "(bhp \<rightharpoonup> journal_head) \<Rightarrow> trp \<Rightarrow> jlist \<Rightarrow> bhp \<Rightarrow> bool" where
  "on_list J t l b =
     (l \<noteq> BJ_None \<and> (case J b of None \<Rightarrow> False | Some jh \<Rightarrow> b_transaction jh = Some t \<and> b_jlist jh = l))"

text \<open>The invariant is one of the stores of transactions and journal heads.\<close>

definition lwf :: "(trp \<rightharpoonup> transaction_t) \<Rightarrow> (bhp \<rightharpoonup> journal_head) \<Rightarrow> bool" where
  "lwf T J =
     ((\<forall>t tr. T t = Some tr \<longrightarrow> t_nr_buffers tr = int (length (t_buffers tr)) \<and>
         (\<forall>l. distinct (tlist l tr) \<and> (\<forall>b. b \<in> set (tlist l tr) \<longleftrightarrow> on_list J t l b))) \<and>
      (\<forall>b jh. J b = Some jh \<longrightarrow>
         (b_transaction jh = None \<longrightarrow> b_jlist jh = BJ_None) \<and>
         (\<forall>t. b_transaction jh = Some t \<longrightarrow> T t \<noteq> None)))"

definition lists_wf :: "jstate \<Rightarrow> bool" where
  "lists_wf s = lwf (trs s) (jhs s)"

definition jh_refs :: "journal_head \<Rightarrow> int" where
  "jh_refs jh = (if b_transaction jh \<noteq> None then 1 else 0) + (if b_cp_transaction jh \<noteq> None then 1 else 0)"

definition refs_wf :: "jstate \<Rightarrow> bool" where
  "refs_wf s = (\<forall>b jh. jhs s b = Some jh \<longrightarrow> jh_refs jh \<le> b_jcount jh)"

lemma tlist_upd_list: "l \<noteq> BJ_None \<Longrightarrow> tlist l' (upd_list l f tr) = (if l' = l then f (tlist l tr) else tlist l' tr)"
  by (cases l; cases l') simp_all

lemma tlist_nr [simp]: "tlist l (tr\<lparr>t_nr_buffers := n\<rparr>) = tlist l tr"
  by (cases l) simp_all

lemma nr_upd_list [simp]: "t_nr_buffers (upd_list l f tr) = t_nr_buffers tr"
  by (cases l) simp_all

lemma lwfD:
  assumes "lwf T J" and "T t = Some tr"
  shows "t_nr_buffers tr = int (length (t_buffers tr))" "distinct (tlist l tr)"
    "b \<in> set (tlist l tr) \<longleftrightarrow> on_list J t l b"
  using assms by (simp_all add: lwf_def)

lemma lwf_jhD:
  assumes "lwf T J" and "J b = Some jh"
  shows "b_transaction jh = None \<Longrightarrow> b_jlist jh = BJ_None" "b_transaction jh = Some t \<Longrightarrow> \<exists>tr. T t = Some tr"
  using assms by (auto simp: lwf_def)

lemma lwf_jh:
  assumes "lwf T J" and "J b = Some jh"
    and "b_transaction jh' = b_transaction jh \<and> b_jlist jh' = b_jlist jh \<or>
      b_jlist jh = BJ_None \<and> b_jlist jh' = BJ_None \<and>
        (\<forall>t. b_transaction jh' = Some t \<longrightarrow> T t \<noteq> None)"
  shows "lwf T (J(b \<mapsto> jh'))"
proof -
  have "on_list (J(b \<mapsto> jh')) t l c = on_list J t l c" for t l c
    using assms(2,3) by (auto simp: on_list_def)
  then show ?thesis using assms by (auto simp: lwf_def)
qed

lemma lwf_tr:
  assumes "lwf T J" and "T t = Some tr" and "t_nr_buffers tr' = t_nr_buffers tr" and "\<And>l. tlist l tr' = tlist l tr"
  shows "lwf (T(t \<mapsto> tr')) J"
proof -
  have "length (t_buffers tr') = length (t_buffers tr)" using assms(4) [of BJ_Metadata] by simp
  with assms show ?thesis by (auto simp: lwf_def)
qed

lemma lwf_upd:
  assumes "lwf T J" and "t_nr_buffers tr' = int (length (t_buffers tr'))"
    and "\<And>l. distinct (tlist l tr') \<and> (\<forall>c. c \<in> set (tlist l tr') \<longleftrightarrow> on_list J' t l c)"
    and "\<And>t' l c. t' \<noteq> t \<Longrightarrow> on_list J' t' l c \<longleftrightarrow> on_list J t' l c"
    and "\<And>b jh. J' b = Some jh \<Longrightarrow> (b_transaction jh = None \<longrightarrow> b_jlist jh = BJ_None) \<and>
      (\<forall>t'. b_transaction jh = Some t' \<longrightarrow> t' = t \<or> T t' \<noteq> None)"
  shows "lwf (T(t \<mapsto> tr')) J'"
proof -
  have "(b_transaction jh = None \<longrightarrow> b_jlist jh = BJ_None) \<and>
      (\<forall>t'. b_transaction jh = Some t' \<longrightarrow> (T(t \<mapsto> tr')) t' \<noteq> None)" if "J' b = Some jh" for b jh
    using assms(5) [OF that] by auto
  with assms(1-4) show ?thesis by (auto simp: lwf_def)
qed

lemma lwf_unlink:
  assumes wf: "lwf T J" and jh: "J b = Some jh" "b_transaction jh = Some t" "b_jlist jh = l" "l \<noteq> BJ_None"
    and tr: "T t = Some tr"
  shows "lwf (T(t \<mapsto> upd_list l (blist_del_buffer b)
      (tr\<lparr>t_nr_buffers := if l = BJ_Metadata then t_nr_buffers tr - 1 else t_nr_buffers tr\<rparr>)))
    (J(b \<mapsto> jh\<lparr>b_jlist := BJ_None\<rparr>))"
proof -
  let ?tr = "upd_list l (blist_del_buffer b)
      (tr\<lparr>t_nr_buffers := if l = BJ_Metadata then t_nr_buffers tr - 1 else t_nr_buffers tr\<rparr>)"
  let ?J = "J(b \<mapsto> jh\<lparr>b_jlist := BJ_None\<rparr>)"
  have mem: "b \<in> set (tlist l tr)" using lwfD(3) [OF wf tr] jh by (simp add: on_list_def)
  have lists: "tlist l' ?tr = (if l' = l then remove1 b (tlist l tr) else tlist l' tr)" for l'
    using jh(4) by (simp add: tlist_upd_list blist_del_buffer_def)
  have on: "on_list ?J t' l' c \<longleftrightarrow> on_list J t' l' c \<and> c \<noteq> b" for t' l' c
    by (auto simp: on_list_def)
  have off: "\<not> on_list J t' l' b" if "t' \<noteq> t \<or> l' \<noteq> l" for t' l'
    using that jh by (auto simp: on_list_def)
  have nr: "t_nr_buffers ?tr = int (length (t_buffers ?tr))"
    using lwfD(1) [OF wf tr] lists [of BJ_Metadata] mem length_pos_if_in_set [OF mem]
    by (auto simp: length_remove1 of_nat_diff Suc_leI)
  have t: "distinct (tlist l' ?tr) \<and> (\<forall>c. c \<in> set (tlist l' ?tr) \<longleftrightarrow> on_list ?J t l' c)" for l'
    using lwfD(2,3) [OF wf tr] off by (auto simp: lists on set_remove1_eq)
  have other: "on_list ?J t' l' c \<longleftrightarrow> on_list J t' l' c" if "t' \<noteq> t" for t' l' c
    using on off that by blast
  show ?thesis
    using lwf_jhD [OF wf] jh(1,2) by (intro lwf_upd [OF wf nr t other]) (auto split: if_splits)
qed

lemma lwf_link:
  assumes wf: "lwf T J" and jh: "J b = Some jh" "b_jlist jh = BJ_None" and l: "l \<noteq> BJ_None"
    and tr: "T t = Some tr"
  shows "lwf (T(t \<mapsto> upd_list l (blist_add_buffer b)
      (if l = BJ_Metadata then tr\<lparr>t_nr_buffers := t_nr_buffers tr + 1\<rparr> else tr)))
    (J(b \<mapsto> jh\<lparr>b_transaction := Some t, b_jlist := l\<rparr>))"
proof -
  let ?tr = "upd_list l (blist_add_buffer b)
      (if l = BJ_Metadata then tr\<lparr>t_nr_buffers := t_nr_buffers tr + 1\<rparr> else tr)"
  let ?J = "J(b \<mapsto> jh\<lparr>b_transaction := Some t, b_jlist := l\<rparr>)"
  have lists: "tlist l' ?tr = (if l' = l then tlist l tr @ [b] else tlist l' tr)" for l'
    using l by (simp add: tlist_upd_list blist_add_buffer_def)
  have off: "\<not> on_list J t' l' b" for t' l' using jh by (auto simp: on_list_def)
  have on: "on_list ?J t' l' c \<longleftrightarrow> on_list J t' l' c \<or> (c = b \<and> t' = t \<and> l' = l)" for t' l' c
    using jh l by (auto simp: on_list_def)
  have nr: "t_nr_buffers ?tr = int (length (t_buffers ?tr))"
    using lwfD(1) [OF wf tr] lists [of BJ_Metadata] by auto
  have t: "distinct (tlist l' ?tr) \<and> (\<forall>c. c \<in> set (tlist l' ?tr) \<longleftrightarrow> on_list ?J t l' c)" for l'
    using lwfD(2,3) [OF wf tr] off by (auto simp: lists on)
  have other: "on_list ?J t' l' c \<longleftrightarrow> on_list J t' l' c" if "t' \<noteq> t" for t' l' c
    using on that by blast
  show ?thesis
    using lwf_jhD [OF wf] by (intro lwf_upd [OF wf nr t other]) (auto split: if_splits)
qed

section \<open>What the operations leave alone\<close>

definition frame :: "jstate \<Rightarrow> jstate \<Rightarrow> bool" where
  "frame s s' = (same_journal s s' \<and> inodes s' = inodes s \<and> next_tr s' = next_tr s \<and>
     sb_written s' = sb_written s \<and> log_written s' = log_written s \<and> jiffies s' = jiffies s \<and>
     sb_write_result s' = sb_write_result s)"

lemma frame_refl [simp]: "frame s s"
  by (simp add: frame_def same_journal_def)

lemma frame_trans: "frame s s' \<Longrightarrow> frame s' s'' \<Longrightarrow> frame s s''"
  by (simp add: frame_def same_journal_def)

lemma frame_upd [simp]:
  "frame s (upd_jh b f s') = frame s s'" "frame s (upd_bh b g s') = frame s s'"
  "frame s (upd_tr t h s') = frame s s'" "frame s (s'\<lparr>jhs := J\<rparr>) = frame s s'"
  by (simp_all add: frame_def same_journal_def upd_jh_def upd_bh_def upd_tr_def journal_t.defs)

lemma truncate_fields:
  "j_flags (journal_t.truncate s) = j_flags s" "j_free (journal_t.truncate s) = j_free s"
  "j_head (journal_t.truncate s) = j_head s" "j_blocksize (journal_t.truncate s) = j_blocksize s"
  "j_csum_seed (journal_t.truncate s) = j_csum_seed s" "j_bmap (journal_t.truncate s) = j_bmap s"
  "j_chksum_driver (journal_t.truncate s) = j_chksum_driver s"
  "j_format_version (journal_t.truncate s) = j_format_version s"
  "j_superblock (journal_t.truncate s) = j_superblock s" "j_first (journal_t.truncate s) = j_first s"
  "j_last (journal_t.truncate s) = j_last s" "j_uuid (journal_t.truncate s) = j_uuid s"
  "j_wbufsize (journal_t.truncate s) = j_wbufsize s" "j_tail (journal_t.truncate s) = j_tail s"
  "j_running_transaction (journal_t.truncate s) = j_running_transaction s"
  "j_committing_transaction (journal_t.truncate s) = j_committing_transaction s"
  "j_checkpoint_transactions (journal_t.truncate s) = j_checkpoint_transactions s"
  by (simp_all add: journal_t.defs)

lemma frameD:
  assumes "frame s s'"
  shows "j_flags s' = j_flags s" "j_free s' = j_free s" "j_head s' = j_head s" "j_blocksize s' = j_blocksize s"
    "j_csum_seed s' = j_csum_seed s" "j_bmap s' = j_bmap s" "j_chksum_driver s' = j_chksum_driver s"
    "j_format_version s' = j_format_version s" "j_superblock s' = j_superblock s" "j_first s' = j_first s"
    "j_last s' = j_last s" "j_uuid s' = j_uuid s" "j_wbufsize s' = j_wbufsize s" "j_tail s' = j_tail s"
    "j_running_transaction s' = j_running_transaction s"
    "j_committing_transaction s' = j_committing_transaction s"
    "j_checkpoint_transactions s' = j_checkpoint_transactions s"
    "log_written s' = log_written s"
  using assms truncate_fields [of s] truncate_fields [of s'] by (simp_all add: frame_def same_journal_def)

lemma dirty_stores [simp]:
  "trs (unlink_dirty b s) = trs s" "jhs (unlink_dirty b s) = jhs s" "frame s' (unlink_dirty b s) = frame s' s"
  "trs (snd (take_dirty b s)) = trs s" "jhs (snd (take_dirty b s)) = jhs s"
  "frame s' (snd (take_dirty b s)) = frame s' s"
  by (simp_all add: unlink_dirty_def take_dirty_def mark_buffer_dirty_def)

text \<open>Other buffers are not touched, and of this one only the dirty bits.\<close>

definition clean :: "buffer_head \<Rightarrow> buffer_head" where
  "clean bh = bh\<lparr>bh_dirty := False, bh_jbddirty := False\<rparr>"

definition dirty_only :: "bhp \<Rightarrow> jstate \<Rightarrow> jstate \<Rightarrow> bool" where
  "dirty_only b s s' = (\<forall>c. clean (bhs s' c) = clean (bhs s c) \<and> (c \<noteq> b \<longrightarrow> bhs s' c = bhs s c))"

lemma clean_upd [simp]: "clean (bh\<lparr>bh_dirty := x\<rparr>) = clean bh" "clean (bh\<lparr>bh_jbddirty := x\<rparr>) = clean bh"
  by (simp_all add: clean_def)

lemma dirty_only_refl [simp]: "dirty_only b s s"
  by (simp add: dirty_only_def)

lemma dirty_only_trans: "dirty_only b s s' \<Longrightarrow> dirty_only b s' s'' \<Longrightarrow> dirty_only b s s''"
  by (simp add: dirty_only_def)

lemma dirty_only_upd [simp]:
  "dirty_only b s (upd_jh c f s') = dirty_only b s s'" "dirty_only b s (upd_tr t g s') = dirty_only b s s'"
  "dirty_only b s s' \<Longrightarrow> dirty_only b s (upd_bh b (\<lambda>bh. bh\<lparr>bh_dirty := x\<rparr>) s')"
  "dirty_only b s s' \<Longrightarrow> dirty_only b s (upd_bh b (\<lambda>bh. bh\<lparr>bh_jbddirty := x\<rparr>) s')"
  by (simp_all add: dirty_only_def)

lemma dirty_only_dirty [simp]:
  "dirty_only b s s' \<Longrightarrow> dirty_only b s (unlink_dirty b s')"
  "dirty_only b s s' \<Longrightarrow> dirty_only b s (snd (take_dirty b s'))"
  by (simp_all add: unlink_dirty_def take_dirty_def mark_buffer_dirty_def)

lemma clean_eq:
  assumes "clean x = clean y"
  shows "b_data x = b_data y" "bh_freed x = bh_freed y" "b_blocknr x = b_blocknr y" "b_count x = b_count y"
proof -
  have "b_data (clean z) = b_data z" "bh_freed (clean z) = bh_freed z" "b_blocknr (clean z) = b_blocknr z"
    "b_count (clean z) = b_count z" for z by (simp_all add: clean_def)
  with assms show "b_data x = b_data y" "bh_freed x = bh_freed y" "b_blocknr x = b_blocknr y"
    "b_count x = b_count y" by metis+
qed

lemma dirty_onlyD:
  assumes "dirty_only b s s'"
  shows "b_data (bhs s' c) = b_data (bhs s c)" "bh_freed (bhs s' c) = bh_freed (bhs s c)"
    "b_blocknr (bhs s' c) = b_blocknr (bhs s c)" "b_count (bhs s' c) = b_count (bhs s c)"
    "c \<noteq> b \<Longrightarrow> bhs s' c = bhs s c"
  using assms clean_eq [of "bhs s' c" "bhs s c"] by (simp_all add: dirty_only_def)

section \<open>The operations\<close>

text \<open>Their effects on the store of transactions.\<close>

definition unlinked :: "bhp \<Rightarrow> journal_head \<Rightarrow> (trp \<rightharpoonup> transaction_t) \<Rightarrow> (trp \<rightharpoonup> transaction_t)" where
  "unlinked b jh T =
     (case b_transaction jh of
        None \<Rightarrow> T
      | Some t \<Rightarrow>
          if b_jlist jh = BJ_None then T
          else T(t := map_option (\<lambda>tr. upd_list (b_jlist jh) (blist_del_buffer b)
                 (tr\<lparr>t_nr_buffers := if b_jlist jh = BJ_Metadata then t_nr_buffers tr - 1
                                     else t_nr_buffers tr\<rparr>)) (T t)))"

definition linked :: "bhp \<Rightarrow> trp \<Rightarrow> jlist \<Rightarrow> (trp \<rightharpoonup> transaction_t) \<Rightarrow> (trp \<rightharpoonup> transaction_t)" where
  "linked b t l T = T(t := map_option (\<lambda>tr. upd_list l (blist_add_buffer b)
     (if l = BJ_Metadata then tr\<lparr>t_nr_buffers := t_nr_buffers tr + 1\<rparr> else tr)) (T t))"

lemma unlinked_dom: "unlinked b jh T t = None \<longleftrightarrow> T t = None"
  by (auto simp: unlinked_def split: option.splits)

lemma lwf_unlinked:
  assumes "lwf T J" and "J b = Some jh"
  shows "lwf (unlinked b jh T) (J(b \<mapsto> jh\<lparr>b_jlist := BJ_None\<rparr>))"
proof (cases "b_jlist jh = BJ_None")
  case True
  then have "jh\<lparr>b_jlist := BJ_None\<rparr> = jh" by simp
  with assms True show ?thesis by (auto simp: unlinked_def map_upd_triv split: option.splits)
next
  case False
  then obtain t where t: "b_transaction jh = Some t" using lwf_jhD(1) [OF assms] by blast
  then obtain tr where tr: "T t = Some tr" using lwf_jhD(2) [OF assms] by blast
  show ?thesis using lwf_unlink [OF assms t refl False tr] False by (simp add: unlinked_def t tr)
qed

lemma lwf_linked:
  assumes "lwf T J" and "J b = Some jh" and "b_jlist jh = BJ_None" and "l \<noteq> BJ_None" and "T t \<noteq> None"
  shows "lwf (linked b t l T) (J(b \<mapsto> jh\<lparr>b_transaction := Some t, b_jlist := l\<rparr>))"
  using lwf_link [OF assms(1-4)] assms(5) by (auto simp: linked_def)

lemma lwf_remove:
  assumes "lwf T J" and "J b = Some jh" and "b_jlist jh = BJ_None"
  shows "lwf T (J(b := None))"
proof -
  have "on_list (J(b := None)) t l c = on_list J t l c" for t l c
    using assms(2,3) by (auto simp: on_list_def)
  then show ?thesis using assms by (auto simp: lwf_def)
qed

lemma temp_unlink_ok:
  assumes wf: "lists_wf s" and jh: "jhs s b = Some jh"
  shows "wp (temp_unlink_buffer s b) no_err (\<lambda>s'. lists_wf s' \<and>
    jhs s' = (jhs s)(b \<mapsto> jh\<lparr>b_jlist := BJ_None\<rparr>) \<and> trs s' = unlinked b jh (trs s) \<and> frame s s')"
proof (cases "b_jlist jh = BJ_None")
  case True
  then have "jh\<lparr>b_jlist := BJ_None\<rparr> = jh" by simp
  then show ?thesis using True wf jh
    by (auto simp: temp_unlink_buffer_def unlinked_def map_upd_triv split: option.splits)
next
  case False
  obtain t where t: "b_transaction jh = Some t"
    using lwf_jhD(1) [OF wf [unfolded lists_wf_def] jh] False by blast
  obtain tr where tr: "trs s t = Some tr" using lwf_jhD(2) [OF wf [unfolded lists_wf_def] jh t] by blast
  have "b \<in> set (tlist (b_jlist jh) tr)"
    using lwfD(3) [OF wf [unfolded lists_wf_def] tr] jh t False by (simp add: on_list_def)
  then have "0 \<le> t_nr_buffers tr - 1" if "b_jlist jh = BJ_Metadata"
    using that lwfD(1) [OF wf [unfolded lists_wf_def] tr] length_pos_if_in_set by fastforce
  moreover have "lwf (unlinked b jh (trs s)) ((jhs s)(b \<mapsto> jh\<lparr>b_jlist := BJ_None\<rparr>))"
    using lwf_unlinked [OF wf [unfolded lists_wf_def] jh] .
  moreover have "(trs s)(t := map_option (\<lambda>tr'. upd_list (b_jlist jh) (blist_del_buffer b) (tr'\<lparr>t_nr_buffers :=
      if b_jlist jh = BJ_Metadata then t_nr_buffers tr - 1 else t_nr_buffers tr\<rparr>)) (trs s t)) = unlinked b jh (trs s)"
    using False by (simp add: unlinked_def t tr)
  ultimately show ?thesis using False
    by (simp add: temp_unlink_buffer_def jh t tr wp_simps Let_def lists_wf_def del: fun_upd_apply)
qed

definition filed :: "trp \<Rightarrow> jlist \<Rightarrow> journal_head \<Rightarrow> journal_head" where
  "filed t l jh = jh\<lparr>b_jcount := b_jcount jh + (if b_transaction jh = None then 1 else 0),
     b_transaction := Some t, b_jlist := l\<rparr>"

lemma grab_stores:
  assumes "jhs s b = Some jh"
  shows "trs (snd (jbd2_vmsep_journal_grab_journal_head s b)) = trs s"
    "jhs (snd (jbd2_vmsep_journal_grab_journal_head s b)) = (jhs s)(b \<mapsto> jh\<lparr>b_jcount := b_jcount jh + 1\<rparr>)"
    "frame s' (snd (jbd2_vmsep_journal_grab_journal_head s b)) = frame s' s"
  using assms by (simp_all add: jbd2_vmsep_journal_grab_journal_head_def buffer_jbd_def)

lemma file_none_stores:
  assumes l: "l \<noteq> BJ_None" and jh: "jhs s b = Some jh" and n: "b_transaction jh = None"
    and t: "trs s t \<noteq> None"
  shows "wp (file_buffer s b t l) no_err (\<lambda>s'. jhs s' = (jhs s)(b \<mapsto> filed t l jh) \<and>
    trs s' = linked b t l (trs s) \<and> frame s s')"
proof -
  obtain w s1 where w: "take_dirty b s = (w, s1)" by (cases "take_dirty b s")
  then have s1: "trs s1 = trs s" "jhs s1 = jhs s" "frame s' s1 = frame s' s" for s'
    using dirty_stores(4,5) [of b s] dirty_stores(6) [of _ b s] by simp_all
  have jh1: "jhs s1 b = Some jh" by (simp add: s1 jh)
  obtain tr where "trs s t = Some tr" using t by blast
  then show ?thesis using l n
    by (simp add: file_buffer_def jh wp_simps w s1 grab_stores [OF jh1]
        Let_def linked_def filed_def)
qed

lemma file_move_stores:
  assumes wf: "lists_wf s" and l: "l \<noteq> BJ_None" and jh: "jhs s b = Some jh"
    and bt: "b_transaction jh = Some t" and ne: "b_jlist jh \<noteq> l"
  shows "wp (file_buffer s b t l) no_err (\<lambda>s'. jhs s' = (jhs s)(b \<mapsto> filed t l jh) \<and>
    trs s' = linked b t l (unlinked b jh (trs s)) \<and> frame s s')"
proof -
  obtain w s1 where w: "take_dirty b s = (w, s1)" by (cases "take_dirty b s")
  then have s1: "trs s1 = trs s" "jhs s1 = jhs s" "frame s' s1 = frame s' s" for s'
    using dirty_stores(4,5) [of b s] dirty_stores(6) [of _ b s] by simp_all
  have wf1: "lists_wf s1" and jh1: "jhs s1 b = Some jh" using wf jh by (simp_all add: lists_wf_def s1)
  have fr: "frame s s2" if "frame s1 s2" for s2 using frame_trans [OF _ that] by (simp add: s1)
  obtain tr where "trs s t = Some tr" using lwf_jhD(2) [OF wf [unfolded lists_wf_def] jh bt] by blast
  then show ?thesis using l ne bt
    by (simp add: file_buffer_def jh wp_simps w Let_def)
      (rule wp_mono [OF temp_unlink_ok [OF wf1 jh1]], auto simp: s1 fr linked_def filed_def)
qed

lemma file_buffer_ok:
  assumes wf: "lists_wf s" and l: "l \<noteq> BJ_None" and jh: "jhs s b = Some jh"
    and bt: "b_transaction jh = None \<or> b_transaction jh = Some t" and t: "trs s t \<noteq> None"
  shows "wp (file_buffer s b t l) no_err (\<lambda>s'. lists_wf s' \<and> jhs s' = (jhs s)(b \<mapsto> filed t l jh) \<and>
    trs s' = (if b_transaction jh = Some t \<and> b_jlist jh = l then trs s
              else linked b t l (unlinked b jh (trs s))) \<and> frame s s')"
proof -
  have lwf: "lwf (trs s) (jhs s)" using wf by (simp add: lists_wf_def)
  let ?jh = "jh\<lparr>b_jlist := BJ_None, b_jcount := b_jcount (filed t l jh)\<rparr>"
  have "lwf (unlinked b jh (trs s)) ((jhs s)(b \<mapsto> ?jh))"
    using lwf_jh [OF lwf_unlinked [OF lwf jh], of b "jh\<lparr>b_jlist := BJ_None\<rparr>" ?jh] by simp
  moreover have "unlinked b jh (trs s) t \<noteq> None" using t unlinked_dom by metis
  ultimately have "lwf (linked b t l (unlinked b jh (trs s))) ((jhs s)(b \<mapsto> ?jh\<lparr>b_transaction := Some t, b_jlist := l\<rparr>))"
    using lwf_linked [of _ "(jhs s)(b \<mapsto> ?jh)" b ?jh l t] l by simp
  then have new: "lwf (linked b t l (unlinked b jh (trs s))) ((jhs s)(b \<mapsto> filed t l jh))"
    by (simp add: filed_def)
  consider (none) "b_transaction jh = None" | (same) "b_transaction jh = Some t" "b_jlist jh = l"
    | (move) "b_transaction jh = Some t" "b_jlist jh \<noteq> l"
    using bt by (cases "b_jlist jh = l") auto
  then show ?thesis
  proof cases
    case none
    then have "unlinked b jh (trs s) = trs s" by (simp add: unlinked_def)
    then show ?thesis using wp_mono [OF file_none_stores [OF l jh none t]] none new
      by (simp add: lists_wf_def)
  next
    case same
    then have "filed t l jh = jh" by (simp add: filed_def)
    then show ?thesis using same t wf jh by (auto simp: file_buffer_def wp_simps map_upd_triv)
  next
    case move
    then show ?thesis using wp_mono [OF file_move_stores [OF wf l jh move]] new
      by (simp add: lists_wf_def)
  qed
qed

text \<open>The state of a journal head that has left its transaction, and the store after its reference is dropped.\<close>

definition unfiled :: "bhp \<Rightarrow> journal_head \<Rightarrow> (bhp \<rightharpoonup> journal_head) \<Rightarrow> (bhp \<rightharpoonup> journal_head)" where
  "unfiled b jh J =
     (if b_jcount jh = 1 then J(b := None)
      else J(b \<mapsto> jh\<lparr>b_jlist := BJ_None, b_transaction := None, b_jcount := b_jcount jh - 1\<rparr>))"

lemma refs_wfD: "refs_wf s \<Longrightarrow> jhs s b = Some jh \<Longrightarrow> jh_refs jh \<le> b_jcount jh"
  by (simp add: refs_wf_def)

lemma lwf_unfiled:
  assumes wf: "lwf T J" and jh: "J b = Some jh"
  shows "lwf (unlinked b jh T) (unfiled b jh J)"
proof -
  let ?jh = "jh\<lparr>b_jlist := BJ_None, b_transaction := None, b_jcount := b_jcount jh - 1\<rparr>"
  have "lwf (unlinked b jh T) (J(b \<mapsto> ?jh))"
    using lwf_jh [OF lwf_unlinked [OF assms], of b "jh\<lparr>b_jlist := BJ_None\<rparr>" ?jh] by simp
  then show ?thesis using lwf_remove [of "unlinked b jh T" "J(b \<mapsto> ?jh)" b ?jh] by (simp add: unfiled_def)
qed

lemma put_journal_head_stores:
  assumes "jhs s b = Some jh" and "b_jcount jh > 0"
    and "b_jcount jh = 1 \<Longrightarrow> b_transaction jh = None \<and> b_next_transaction jh = None \<and>
      b_cp_transaction jh = None \<and> b_jlist jh = BJ_None"
  shows "wp (jbd2_vmsep_journal_put_journal_head s b) no_err (\<lambda>s'. trs s' = trs s \<and>
    jhs s' = (if b_jcount jh = 1 then (jhs s)(b := None)
              else (jhs s)(b \<mapsto> jh\<lparr>b_jcount := b_jcount jh - 1\<rparr>)) \<and> (\<forall>s0. frame s0 s' = frame s0 s))"
  using assms
  by (auto simp: jbd2_vmsep_journal_put_journal_head_def journal_remove_journal_head_def wp_simps Let_def)

lemma unfile_buffer_ok:
  assumes wf: "lists_wf s" and refs: "refs_wf s" and jh: "jhs s b = Some jh"
    and t: "b_transaction jh \<noteq> None" and last: "b_jcount jh = 1 \<Longrightarrow> b_next_transaction jh = None"
  shows "wp (unfile_buffer s b) no_err (\<lambda>s'. lists_wf s' \<and> jhs s' = unfiled b jh (jhs s) \<and>
    trs s' = unlinked b jh (trs s) \<and> frame s s')"
proof -
  have pos: "b_jcount jh > 0" and cp: "b_jcount jh = 1 \<Longrightarrow> b_cp_transaction jh = None"
    using refs_wfD [OF refs jh] t by (auto simp: jh_refs_def split: if_splits)
  let ?s = "\<lambda>s1. upd_jh b (\<lambda>jh. jh\<lparr>b_transaction := None\<rparr>) s1"
  have put: "wp (jbd2_vmsep_journal_put_journal_head (?s s1) b) no_err (\<lambda>s'. lists_wf s' \<and>
      jhs s' = unfiled b jh (jhs s) \<and> trs s' = unlinked b jh (trs s) \<and> frame s s')"
    if "jhs s1 = (jhs s)(b \<mapsto> jh\<lparr>b_jlist := BJ_None\<rparr>)" "trs s1 = unlinked b jh (trs s)" "frame s s1" for s1
  proof -
    have *: "jhs (?s s1) b = Some (jh\<lparr>b_jlist := BJ_None, b_transaction := None\<rparr>)" by (simp add: that)
    show ?thesis
      by (rule wp_mono [OF put_journal_head_stores [OF *]])
        (use pos cp last that lwf_unfiled [OF wf [unfolded lists_wf_def] jh] in
          \<open>auto simp: lists_wf_def unfiled_def\<close>)
  qed
  show ?thesis unfolding unfile_buffer_def wp_bind
    by (rule wp_mono [OF temp_unlink_ok [OF wf jh]]) (use put in blast)
qed

definition refile_list :: "jstate \<Rightarrow> bhp \<Rightarrow> journal_head \<Rightarrow> jlist" where
  "refile_list s b jh =
     (if bh_freed (bhs s b) then BJ_Forget else if b_modified jh then BJ_Metadata else BJ_Reserved)"

definition refiled :: "trp \<Rightarrow> jlist \<Rightarrow> journal_head \<Rightarrow> journal_head" where
  "refiled t l jh = jh\<lparr>b_jlist := l, b_transaction := Some t, b_next_transaction := None\<rparr>"

lemma filed_refiled:
  "filed t l (jh\<lparr>b_jlist := BJ_None, b_transaction := Some t, b_next_transaction := None\<rparr>) = refiled t l jh"
  by (cases jh) (simp add: filed_def refiled_def)

lemma linked_state: "map_option t_state (linked b t l T u) = map_option t_state (T u)"
  by (cases l) (auto simp: linked_def map_option_case split: option.splits)

lemma unlinked_state: "map_option t_state (unlinked b jh T u) = map_option t_state (T u)"
  by (cases "b_jlist jh") (auto simp: unlinked_def map_option_case split: option.splits)

lemma temp_unlink_dirty: "wp (temp_unlink_buffer s b) any_err (dirty_only b s)"
  by (simp add: temp_unlink_buffer_def wp_simps Let_def split: option.split)

lemma dirty_only_grab [simp]:
  "dirty_only b s (snd (jbd2_vmsep_journal_grab_journal_head s' c)) = dirty_only b s s'"
  by (simp add: jbd2_vmsep_journal_grab_journal_head_def)

lemma file_buffer_dirty: "wp (file_buffer s b t l) any_err (dirty_only b s)"
proof -
  obtain w s1 where w: "(if l \<noteq> BJ_None then take_dirty b s else (False, s)) = (w, s1)" by fastforce
  then have "s1 = snd (if l \<noteq> BJ_None then take_dirty b s else (False, s))" by simp
  then have s1: "dirty_only b s s1" by (cases "l = BJ_None") simp_all
  have un: "wp (temp_unlink_buffer s1 b) any_err P" if "\<And>s2. dirty_only b s s2 \<Longrightarrow> P s2" for P
    using wp_mono [OF temp_unlink_dirty [of s1 b]] dirty_only_trans [OF s1] that by blast
  show ?thesis unfolding file_buffer_def w
    by (auto simp: wp_simps Let_def s1 split: option.split intro!: un)
qed

lemma refile_buffer_next:
  assumes "jhs s b = Some jh" and "b_next_transaction jh = Some t"
  shows "refile_buffer s b =
    bind_res (temp_unlink_buffer (upd_bh b (\<lambda>bh. bh\<lparr>bh_jbddirty := False\<rparr>) s) b) (\<lambda>s1.
      bind_res (file_buffer (upd_jh b (\<lambda>jh. jh\<lparr>b_transaction := Some t, b_next_transaction := None\<rparr>) s1) b t
          (refile_list s1 b jh)) (\<lambda>s2. with_tr s2 t (\<lambda>tr. J_ASSERT (t_state tr = T_RUNNING)
        (Inr (if bh_jbddirty (bhs s b) then upd_bh b (\<lambda>bh. bh\<lparr>bh_jbddirty := True\<rparr>) s2 else s2)))))"
  by (simp add: refile_buffer_def assms Let_def refile_list_def)

lemma refile_next_ok:
  assumes wf: "lists_wf s" and jh: "jhs s b = Some jh" and n: "b_next_transaction jh = Some t"
    and tr: "trs s t = Some tr" and st: "t_state tr = T_RUNNING"
  shows "wp (refile_buffer s b) no_err (\<lambda>s'. lists_wf s' \<and>
    jhs s' = (jhs s)(b \<mapsto> refiled t (refile_list s b jh) jh) \<and>
    trs s' = linked b t (refile_list s b jh) (unlinked b jh (trs s)) \<and> frame s s')"
proof -
  let ?s = "upd_bh b (\<lambda>bh. bh\<lparr>bh_jbddirty := False\<rparr>) s"
  let ?jh = "jh\<lparr>b_jlist := BJ_None, b_transaction := Some t, b_next_transaction := None\<rparr>"
  let ?l = "refile_list s b jh"
  let ?f = "\<lambda>s1. upd_jh b (\<lambda>jh. jh\<lparr>b_transaction := Some t, b_next_transaction := None\<rparr>) s1"
  have put: "wp (file_buffer (?f s1) b t ?l) no_err (\<lambda>s2. lists_wf s2 \<and>
      jhs s2 = (jhs s)(b \<mapsto> refiled t ?l jh) \<and> trs s2 = linked b t ?l (unlinked b jh (trs s)) \<and> frame s s2)"
    if s1: "lists_wf s1" "jhs s1 = (jhs s)(b \<mapsto> jh\<lparr>b_jlist := BJ_None\<rparr>)" "trs s1 = unlinked b jh (trs s)"
      "frame s s1" for s1
  proof -
    have T: "trs (?f s1) t \<noteq> None" using tr unlinked_dom [of b jh "trs s" t] by (simp add: s1)
    have J: "jhs (?f s1) b = Some ?jh" by (simp add: s1)
    have "lwf (trs s1) ((jhs s1)(b \<mapsto> ?jh))"
      using lwf_jh [OF s1(1) [unfolded lists_wf_def], of b "jh\<lparr>b_jlist := BJ_None\<rparr>" ?jh] T by (simp add: s1)
    then have wf1: "lists_wf (?f s1)" by (simp add: lists_wf_def s1)
    have fr: "frame s s2" if "frame (?f s1) s2" for s2
      by (rule frame_trans [OF _ that]) (simp add: s1)
    have l: "?l \<noteq> BJ_None" by (simp add: refile_list_def)
    have "unlinked b ?jh T' = T'" for T' by (simp add: unlinked_def)
    then show ?thesis
      using wp_mono [OF file_buffer_ok [OF wf1 l J _ T]] fr l by (simp add: filed_refiled s1)
  qed
  have wfs: "lists_wf ?s" and jhs: "jhs ?s b = Some jh" using wf jh by (simp_all add: lists_wf_def)
  have fr: "frame s s1" if "frame ?s s1" for s1 by (rule frame_trans [OF _ that]) simp
  have un: "wp (temp_unlink_buffer ?s b) no_err (\<lambda>s1. lists_wf s1 \<and>
      jhs s1 = (jhs s)(b \<mapsto> jh\<lparr>b_jlist := BJ_None\<rparr>) \<and> trs s1 = unlinked b jh (trs s) \<and> frame s s1 \<and>
      refile_list s1 b jh = ?l)"
    by (rule wp_mono [OF wp_conj_any [OF temp_unlink_ok [OF wfs jhs] temp_unlink_dirty]])
      (use fr in \<open>auto simp: refile_list_def dirty_onlyD(2)\<close>)
  have "\<exists>tr'. linked b t ?l (unlinked b jh (trs s)) t = Some tr' \<and> t_state tr' = T_RUNNING"
    using linked_state [of b t ?l "unlinked b jh (trs s)" t] unlinked_state [of b jh "trs s" t] tr st
    by (auto simp: map_option_case split: option.splits)
  then have fin: "wp (with_tr s2 t (\<lambda>tr. J_ASSERT (t_state tr = T_RUNNING) (Inr (if w then
      upd_bh b (\<lambda>bh. bh\<lparr>bh_jbddirty := True\<rparr>) s2 else s2)))) no_err (\<lambda>s'. lists_wf s' \<and>
      jhs s' = (jhs s)(b \<mapsto> refiled t ?l jh) \<and> trs s' = linked b t ?l (unlinked b jh (trs s)) \<and> frame s s')"
    if "lists_wf s2" "jhs s2 = (jhs s)(b \<mapsto> refiled t ?l jh)" "trs s2 = linked b t ?l (unlinked b jh (trs s))"
      "frame s s2" for s2 w using that by (auto simp: wp_simps lists_wf_def)
  have "wp (bind_res (file_buffer (?f s1) b t (refile_list s1 b jh)) (\<lambda>s2. with_tr s2 t (\<lambda>tr.
      J_ASSERT (t_state tr = T_RUNNING) (Inr (if bh_jbddirty (bhs s b) then
        upd_bh b (\<lambda>bh. bh\<lparr>bh_jbddirty := True\<rparr>) s2 else s2))))) no_err (\<lambda>s'. lists_wf s' \<and>
      jhs s' = (jhs s)(b \<mapsto> refiled t ?l jh) \<and> trs s' = linked b t ?l (unlinked b jh (trs s)) \<and> frame s s')"
    if "lists_wf s1" "jhs s1 = (jhs s)(b \<mapsto> jh\<lparr>b_jlist := BJ_None\<rparr>)" "trs s1 = unlinked b jh (trs s)"
      "frame s s1" "refile_list s1 b jh = ?l" for s1
    unfolding wp_bind that(5) by (rule wp_mono [OF put [OF that(1-4)]]) (use fin in blast)
  then show ?thesis unfolding refile_buffer_next [OF jh n] wp_bind [of "temp_unlink_buffer _ _"]
    by (intro wp_mono [OF un]) blast
qed

section \<open>The invariants are kept\<close>

lemma refs_wf_upd:
  assumes "refs_wf s" and "jhs s' = (jhs s)(b \<mapsto> jh')" and "jh_refs jh' \<le> b_jcount jh'"
  shows "refs_wf s'"
  using assms by (auto simp: refs_wf_def)

lemma refs_wf_unfiled:
  assumes "refs_wf s" and "jhs s b = Some jh" and "b_transaction jh \<noteq> None" and "jhs s' = unfiled b jh (jhs s)"
  shows "refs_wf s'"
proof -
  have "jh_refs (jh\<lparr>b_jlist := BJ_None, b_transaction := None, b_jcount := b_jcount jh - 1\<rparr>) \<le> b_jcount jh - 1"
    using refs_wfD [OF assms(1,2)] assms(3) by (simp add: jh_refs_def split: if_splits)
  with assms show ?thesis by (auto simp: refs_wf_def unfiled_def split: if_splits)
qed

definition ex_list_state :: jstate where
  "ex_list_state = init_state\<lparr>
     trs := [0 \<mapsto> ex_transaction\<lparr>t_buffers := [5], t_nr_buffers := 1\<rparr>, 1 \<mapsto> ex_transaction\<lparr>t_tid := 8\<rparr>],
     jhs := [5 \<mapsto> new_journal_head\<lparr>b_jcount := 1, b_jlist := BJ_Metadata, b_modified := True,
                   b_transaction := Some 0, b_next_transaction := Some 1\<rparr>,
             6 \<mapsto> new_journal_head\<lparr>b_jcount := 1\<rparr>]\<rparr>"

lemma ex_list_state_wf: "lists_wf ex_list_state" "refs_wf ex_list_state"
proof -
  have "distinct (tlist l tr) \<and> (\<forall>b. b \<in> set (tlist l tr) \<longleftrightarrow> on_list (jhs ex_list_state) t l b)"
    if "trs ex_list_state t = Some tr" for t tr l
    using that by (cases l) (auto simp: ex_list_state_def on_list_def ex_defs new_journal_head_def split: if_splits)
  then show "lists_wf ex_list_state"
    by (auto simp: lists_wf_def lwf_def) (auto simp: ex_list_state_def ex_defs new_journal_head_def split: if_splits)
  show "refs_wf ex_list_state"
    by (auto simp: refs_wf_def ex_list_state_def jh_refs_def new_journal_head_def)
qed

text \<open>C34: filing. In a state in which lists and reference counts are well formed, filing a buffer that
  belongs to no transaction or to this one on a list of an existing transaction returns without a
  failed assertion; afterwards the buffer is on that list and on no other, no other journal head has
  changed, and lists and reference counts are well formed again.
\<close>

theorem file_buffer_wf:
  assumes wf: "lists_wf s" and refs: "refs_wf s" and jh: "jhs s b = Some jh" and l: "l \<noteq> BJ_None"
    and bt: "b_transaction jh = None \<or> b_transaction jh = Some t" and t: "trs s t \<noteq> None"
  shows "\<exists>s'. file_buffer s b t l = Inr s' \<and> lists_wf s' \<and> refs_wf s' \<and>
    (\<forall>t' l'. on_list (jhs s') t' l' b \<longleftrightarrow> t' = t \<and> l' = l) \<and> (\<forall>c. c \<noteq> b \<longrightarrow> jhs s' c = jhs s c)"
proof -
  have refs': "refs_wf s'" if "jhs s' = (jhs s)(b \<mapsto> filed t l jh)" for s'
    by (rule refs_wf_upd [OF refs that])
      (use refs_wfD [OF refs jh] in \<open>auto simp: filed_def jh_refs_def split: if_splits\<close>)
  have "wp (file_buffer s b t l) no_err (\<lambda>s'. lists_wf s' \<and> refs_wf s' \<and>
      (\<forall>t' l'. on_list (jhs s') t' l' b \<longleftrightarrow> t' = t \<and> l' = l) \<and> (\<forall>c. c \<noteq> b \<longrightarrow> jhs s' c = jhs s c))"
    by (rule wp_mono [OF file_buffer_ok [OF wf l jh bt t]])
      (use refs' l in \<open>auto simp: on_list_def filed_def\<close>)
  then show ?thesis by (simp add: wp_returns)
qed

theorem file_buffer_wf_witness:
  "\<exists>s'. file_buffer ex_list_state 5 0 BJ_Forget = Inr s' \<and> lists_wf s' \<and> refs_wf s' \<and>
    (\<forall>t' l'. on_list (jhs s') t' l' 5 \<longleftrightarrow> t' = 0 \<and> l' = BJ_Forget) \<and>
    (\<forall>c. c \<noteq> 5 \<longrightarrow> jhs s' c = jhs ex_list_state c)"
  by (rule file_buffer_wf [OF ex_list_state_wf, of 5 "the (jhs ex_list_state 5)"])
    (simp_all add: ex_list_state_def new_journal_head_def)

text \<open>Refiling. In a state in which lists and reference counts are well formed, refiling a buffer
  whose next transaction, if it has one, is running returns without a failed assertion. With a next
  transaction the buffer ends on the forget list of it if it was freed, otherwise on its metadata
  list if it was modified, otherwise on its reserved list; without one it is on no list and its
  journal head is released with the last reference. Lists and reference counts are well formed again.
\<close>

theorem refile_buffer_wf:
  assumes wf: "lists_wf s" and refs: "refs_wf s" and jh: "jhs s b = Some jh"
    and bt: "b_transaction jh \<noteq> None"
    and run: "\<And>t. b_next_transaction jh = Some t \<Longrightarrow> \<exists>tr. trs s t = Some tr \<and> t_state tr = T_RUNNING"
  shows "\<exists>s'. refile_buffer s b = Inr s' \<and> lists_wf s' \<and> refs_wf s' \<and> (\<forall>c. c \<noteq> b \<longrightarrow> jhs s' c = jhs s c) \<and>
    (case b_next_transaction jh of
       None \<Rightarrow> (\<forall>t l. \<not> on_list (jhs s') t l b) \<and> (jhs s' b = None \<longleftrightarrow> b_jcount jh = 1)
     | Some t \<Rightarrow> \<forall>t' l. on_list (jhs s') t' l b \<longleftrightarrow> t' = t \<and>
         l = (if bh_freed (bhs s b) then BJ_Forget else if b_modified jh then BJ_Metadata else BJ_Reserved))"
proof (cases "b_next_transaction jh")
  case None
  have "wp (refile_buffer s b) no_err (\<lambda>s'. lists_wf s' \<and> jhs s' = unfiled b jh (jhs s))"
    unfolding refile_buffer_def using wp_mono [OF unfile_buffer_ok [OF wf refs jh bt]] None
    by (simp add: jh)
  with None show ?thesis using refs_wf_unfiled [OF refs jh bt]
    by (auto simp: wp_returns unfiled_def on_list_def)
next
  case (Some t)
  then obtain tr where "trs s t = Some tr" "t_state tr = T_RUNNING" using run by blast
  from refile_next_ok [OF wf jh Some this] obtain s' where s': "refile_buffer s b = Inr s'" "lists_wf s'"
    "jhs s' = (jhs s)(b \<mapsto> refiled t (refile_list s b jh) jh)" by (auto simp: wp_returns)
  have "refs_wf s'" by (rule refs_wf_upd [OF refs s'(3)])
    (use refs_wfD [OF refs jh] bt in \<open>auto simp: refiled_def jh_refs_def split: if_splits\<close>)
  with s' Some show ?thesis by (auto simp: on_list_def refiled_def refile_list_def)
qed

theorem refile_buffer_wf_witness:
  "\<exists>s'. refile_buffer ex_list_state 5 = Inr s' \<and> lists_wf s' \<and> refs_wf s' \<and>
    (\<forall>t' l. on_list (jhs s') t' l 5 \<longleftrightarrow> t' = 1 \<and> l = BJ_Metadata)"
  using refile_buffer_wf [OF ex_list_state_wf, of 5 "the (jhs ex_list_state 5)"]
  by (auto simp: ex_list_state_def ex_defs)

end
