(* ===== verification/Jbd2_Separate.thy ===== *)
theory Jbd2_Separate
  imports Jbd2_Journal Jbd2_Lists
begin

text \<open>
  The separation of the buffers of other inodes in \<open>jbd2_vmsep_journal_commit_transaction\<close>
  (\<open>kernel/fs/jbd2/commit.c\<close>): what \<open>separate_buffer\<close> does to the lists of the two transactions, when it
  reaches a freed journal head, and how the commit ends that allocates the second transaction
  while the first one is still the running one.
\<close>

section \<open>Allocating the second transaction\<close>

lemma alloc_new_transaction_running:
  assumes "j_running_transaction s \<noteq> None"
  shows "alloc_new_transaction E s = Inl (if mem_alloc E then BUG else OOPS)"
  using assms
  by (auto simp: alloc_new_transaction_def zalloc_transaction_def jbd2_get_transaction_def Let_def J_ASSERT_def)

lemma commit_begin_error: "wp (commit_begin E s) any_err (\<lambda>_. False)"
  by (auto simp: commit_begin_def wp_simps alloc_new_transaction_running split: option.split)
    (auto simp: wp_any)

text \<open>C6: the commit never succeeds: whatever the state, the parameters and the other threads do, it
  ends in an error. In a journal with a running and no committing transaction whose superblock is
  up to date the error is the failed assertion of \<open>jbd2_get_transaction\<close> that no transaction is
  running, or, with no memory, the null pointer that the allocation returned.
\<close>

theorem commit_always_fails:
  "\<exists>e. jbd2_vmsep_journal_commit_transaction E K s = Some (Inl e) \<and>
     (JBD2_FLUSHED \<notin> j_flags s \<and> j_running_transaction s \<noteq> None \<and> j_committing_transaction s = None \<longrightarrow>
      e = (if mem_alloc E then BUG else OOPS))"
proof -
  obtain e where e: "commit_begin E s = Inl e"
    using commit_begin_error [of E s] by (cases "commit_begin E s") simp_all
  have "e = (if mem_alloc E then BUG else OOPS)"
    if "JBD2_FLUSHED \<notin> j_flags s" "j_running_transaction s = Some t" "j_committing_transaction s = None" for t
    using e that by (simp add: commit_begin_def alloc_new_transaction_running)
  with e show ?thesis by (auto simp: jbd2_vmsep_journal_commit_transaction_def bind_ro_def)
qed

theorem commit_always_fails_witness:
  "\<exists>e. jbd2_vmsep_journal_commit_transaction ex_env Inr init_state = Some (Inl e) \<and> e = BUG"
  using commit_always_fails [of ex_env Inr init_state] by (auto simp: ex_defs)

section \<open>Moving a buffer\<close>

lemma unfile_journal_buffer_ok:
  assumes wf: "lists_wf s" and refs: "refs_wf s" and jh: "jhs s b = Some jh"
    and t: "b_transaction jh \<noteq> None" and last: "b_jcount jh = 1 \<Longrightarrow> b_next_transaction jh = None"
  shows "wp (jbd2_vmsep_journal_unfile_buffer s b) no_err (\<lambda>s'. lists_wf s' \<and> refs_wf s' \<and>
    jhs s' = unfiled b jh (jhs s) \<and> trs s' = unlinked b jh (trs s) \<and> frame s s')"
proof -
  let ?s = "upd_bh b (\<lambda>bh. bh\<lparr>b_count := b_count bh + 1\<rparr>) s"
  have s: "lists_wf ?s" "refs_wf ?s" "jhs ?s b = Some jh" using assms by (simp_all add: lists_wf_def refs_wf_def)
  have fr: "frame s s'" if "frame ?s s'" for s' by (rule frame_trans [OF _ that]) simp
  have rw: "refs_wf s'" if "jhs s' = unfiled b jh (jhs s)" for s'
    using refs_wf_unfiled [OF refs jh t that] .
  show ?thesis unfolding jbd2_vmsep_journal_unfile_buffer_def wp_bind
    by (rule wp_mono [OF unfile_buffer_ok [OF s t last]]) (auto simp: lists_wf_def intro: fr rw)
qed

text \<open>The journal head of a buffer that moved to the transaction \<open>rt\<close>.\<close>

definition moved :: "trp \<Rightarrow> journal_head \<Rightarrow> journal_head" where
  "moved rt jh = jh\<lparr>b_transaction := Some rt\<rparr>"

lemma separate_buffer_ok:
  assumes wf: "lists_wf s" and refs: "refs_wf s" and jh: "jhs s b = Some jh"
    and l: "b_jlist jh \<noteq> BJ_None" and rt: "trs s rt \<noteq> None" and cnt: "b_jcount jh \<noteq> 1"
  shows "wp (separate_buffer s b rt) no_err (\<lambda>s'. lists_wf s' \<and> refs_wf s' \<and>
    jhs s' = (jhs s)(b \<mapsto> moved rt jh) \<and>
    trs s' = linked b rt (b_jlist jh) (unlinked b jh (trs s)) \<and> frame s s')"
proof -
  let ?jh = "jh\<lparr>b_jlist := BJ_None, b_transaction := None, b_jcount := b_jcount jh - 1\<rparr>"
  have t: "b_transaction jh \<noteq> None" using lwf_jhD(1) [OF wf [unfolded lists_wf_def] jh] l by blast
  have mv: "filed rt (b_jlist jh) ?jh = moved rt jh" by (cases jh) (simp add: filed_def moved_def)
  have rw: "refs_wf s'" if "jhs s' = (jhs s)(b \<mapsto> moved rt jh)" for s'
    by (rule refs_wf_upd [OF refs that])
      (use refs_wfD [OF refs jh] t in \<open>simp add: moved_def jh_refs_def\<close>)
  have "wp (file_buffer s1 b rt (b_jlist jh)) no_err (\<lambda>s'. lists_wf s' \<and> refs_wf s' \<and>
      jhs s' = (jhs s)(b \<mapsto> moved rt jh) \<and>
      trs s' = linked b rt (b_jlist jh) (unlinked b jh (trs s)) \<and> frame s s')"
    if "lists_wf s1" "jhs s1 = unfiled b jh (jhs s)" "trs s1 = unlinked b jh (trs s)" "frame s s1" for s1
  proof -
    have J: "jhs s1 b = Some ?jh" using cnt by (simp add: that unfiled_def)
    have T: "trs s1 rt \<noteq> None" using rt unlinked_dom [of b jh "trs s" rt] by (simp add: that)
    show ?thesis
      by (rule wp_mono [OF file_buffer_ok [OF that(1) l J _ T]])
        (use cnt frame_trans [OF that(4)] rw in
          \<open>auto simp: that mv unfiled_def unlinked_def [of b ?jh]\<close>)
  qed
  then show ?thesis unfolding separate_buffer_def jh wp_bind deref_simps
    by (intro wp_mono [OF unfile_journal_buffer_ok [OF wf refs jh t]]) (use cnt in auto)
qed

lemma separate_buffer_freed:
  assumes wf: "lists_wf s" and refs: "refs_wf s" and jh: "jhs s b = Some jh"
    and t: "b_transaction jh \<noteq> None" and n: "b_next_transaction jh = None" and cnt: "b_jcount jh = 1"
  shows "separate_buffer s b rt = Inl UAF"
proof -
  obtain s1 where "jbd2_vmsep_journal_unfile_buffer s b = Inr s1" "jhs s1 b = None"
    using unfile_journal_buffer_ok [OF wf refs jh t] n cnt by (auto simp: wp_returns unfiled_def)
  then show ?thesis by (simp add: separate_buffer_def jh file_buffer_def)
qed

lemma linked_fields:
  assumes "T rt = Some tr"
  shows "linked b rt BJ_Metadata T rt =
      Some (tr\<lparr>t_nr_buffers := t_nr_buffers tr + 1, t_buffers := t_buffers tr @ [b]\<rparr>)"
    "t \<noteq> rt \<Longrightarrow> linked b rt l T t = T t"
  using assms by (simp_all add: linked_def blist_add_buffer_def)

lemma unlinked_fields:
  assumes "T t = Some tr" and "b_transaction jh = Some t" and "b_jlist jh = BJ_Metadata"
  shows "unlinked b jh T t =
      Some (tr\<lparr>t_nr_buffers := t_nr_buffers tr - 1, t_buffers := remove1 b (t_buffers tr)\<rparr>)"
    "u \<noteq> t \<Longrightarrow> unlinked b jh T u = T u"
  using assms by (simp_all add: unlinked_def blist_del_buffer_def)

text \<open>C7: separating a buffer. For a buffer on the metadata list of the committing transaction, in a
  state with well-formed lists and reference counts: if the transaction has the only reference to
  its journal head, unfiling frees the journal head and filing it again accesses freed memory. With
  another reference (of a checkpoint list) the buffer leaves the committing transaction and is
  appended to the metadata list of the running one, nothing else changes in the lists, the lists and
  reference counts are well formed again, and the credits of the running transaction do not grow.
\<close>

theorem separate_buffer_moves:
  assumes wf: "lists_wf s" and refs: "refs_wf s" and jh: "jhs s b = Some jh"
    and bt: "b_transaction jh = Some t" and l: "b_jlist jh = BJ_Metadata" and n: "b_next_transaction jh = None"
    and tr: "trs s t = Some tr" and rt: "rt \<noteq> t" "trs s rt = Some tr'"
  shows "if b_jcount jh = 1 then separate_buffer s b rt = Inl UAF
    else \<exists>s'. separate_buffer s b rt = Inr s' \<and> lists_wf s' \<and> refs_wf s' \<and>
      jhs s' = (jhs s)(b \<mapsto> jh\<lparr>b_transaction := Some rt\<rparr>) \<and>
      trs s' = (trs s)
        (t \<mapsto> tr\<lparr>t_nr_buffers := t_nr_buffers tr - 1, t_buffers := remove1 b (t_buffers tr)\<rparr>,
         rt \<mapsto> tr'\<lparr>t_nr_buffers := t_nr_buffers tr' + 1, t_buffers := t_buffers tr' @ [b]\<rparr>)"
proof (cases "b_jcount jh = 1")
  case True
  then show ?thesis using separate_buffer_freed [OF wf refs jh _ n] bt by simp
next
  case False
  let ?T = "unlinked b jh (trs s)"
  have T: "?T rt = Some tr'" using unlinked_fields(2) [where T = "trs s", OF tr bt l rt(1)] rt(2) by simp
  have "linked b rt BJ_Metadata ?T = (trs s)
      (t \<mapsto> tr\<lparr>t_nr_buffers := t_nr_buffers tr - 1, t_buffers := remove1 b (t_buffers tr)\<rparr>,
       rt \<mapsto> tr'\<lparr>t_nr_buffers := t_nr_buffers tr' + 1, t_buffers := t_buffers tr' @ [b]\<rparr>)"
    using linked_fields [where T = ?T, OF T] unlinked_fields [where T = "trs s", OF tr bt l] rt(1) by (intro ext) auto
  with False show ?thesis using separate_buffer_ok [OF wf refs jh, of rt] rt(2) l
    by (auto simp: wp_returns moved_def)
qed

definition ex_separate_state :: "int \<Rightarrow> jstate" where
  "ex_separate_state refs = init_state\<lparr>
     trs := [0 \<mapsto> ex_transaction\<lparr>t_buffers := [5], t_nr_buffers := 1\<rparr>, 1 \<mapsto> ex_transaction\<lparr>t_tid := 8\<rparr>],
     jhs := [5 \<mapsto> new_journal_head\<lparr>b_jcount := refs, b_jlist := BJ_Metadata, b_modified := True,
                   b_transaction := Some 0, jh_ino := 12\<rparr>]\<rparr>"

lemma ex_separate_state_wf: "0 < refs \<Longrightarrow> lists_wf (ex_separate_state refs) \<and> refs_wf (ex_separate_state refs)"
proof -
  have "distinct (tlist l tr) \<and> (\<forall>b. b \<in> set (tlist l tr) \<longleftrightarrow> on_list (jhs (ex_separate_state refs)) t l b)"
    if "trs (ex_separate_state refs) t = Some tr" for t tr l
    using that by (cases l) (auto simp: ex_separate_state_def on_list_def ex_defs new_journal_head_def split: if_splits)
  then have "lists_wf (ex_separate_state refs)"
    by (auto simp: lists_wf_def lwf_def) (auto simp: ex_separate_state_def ex_defs new_journal_head_def split: if_splits)
  moreover assume "0 < refs"
  ultimately show ?thesis
    by (auto simp: refs_wf_def ex_separate_state_def jh_refs_def new_journal_head_def split: if_splits)
qed

theorem separate_buffer_moves_witness:
  "separate_buffer (ex_separate_state 1) 5 1 = Inl UAF \<and>
   (\<exists>s'. separate_buffer (ex_separate_state 2) 5 1 = Inr s' \<and> lists_wf s' \<and> refs_wf s' \<and>
      t_buffers (the (trs s' 0)) = [] \<and> t_buffers (the (trs s' 1)) = [5])"
  using separate_buffer_moves [of "ex_separate_state 1" 5 "the (jhs (ex_separate_state 1) 5)" 0
      "the (trs (ex_separate_state 1) 0)" 1 "the (trs (ex_separate_state 1) 1)"]
    separate_buffer_moves [of "ex_separate_state 2" 5 "the (jhs (ex_separate_state 2) 5)" 0
      "the (trs (ex_separate_state 2) 0)" 1 "the (trs (ex_separate_state 2) 1)"]
    ex_separate_state_wf [of 1] ex_separate_state_wf [of 2]
  by (auto simp: ex_separate_state_def new_journal_head_def ex_defs)

end
