(* ===== verification/Jbd2_CommitLog.thy ===== *)
theory Jbd2_CommitLog
  imports Jbd2_LogWrite Jbd2_Separate
begin

text \<open>
  The loop of the commit over the metadata buffers writes the items of a logical transaction of
  \<open>Jbd2_Replay\<close>: descriptor blocks whose tags are read back as they were written, followed by the
  data of the buffers of the inode the commit is for. Together with the revoke records of
  \<open>Jbd2_LogWrite\<close> and the commit record this is a transaction that recovery replays.
\<close>

unbundle bit_operations_syntax

section \<open>Tags are read as they are written\<close>

lemma mask32: "(0xffffffff :: u64) = mask 32"
  by (simp add: mask_eq_exp_minus_1)

lemma low_word: "ucast (of_nat (unat (b AND 0xffffffff :: u64)) :: u32) = (b AND 0xffffffff :: u64)"
  unfolding mask32 by (auto intro!: bit_word_eqI simp: bit_simps)

lemma two_words:
  "(b AND 0xffffffff) OR push_bit 32 (ucast (of_nat (unat (drop_bit 1 (drop_bit 31 b))) :: u32)) = (b :: u64)"
proof (unfold mask32, rule bit_word_eqI)
  fix n assume "n < LENGTH(64)"
  then show "bit (b AND mask 32 OR push_bit 32 (ucast (of_nat (unat (drop_bit 1 (drop_bit 31 b))) :: u32))) n =
      bit b n"
    by (cases "n < 32") (auto simp: bit_simps not_less)
qed

lemma one_word: "unat b < 2 ^ 32 \<Longrightarrow> b AND 0xffffffff = (b :: u64)"
  unfolding mask32
  by (simp add: take_bit_eq_mask [symmetric] word_unat_eq_iff unsigned_take_bit_eq take_bit_nat_eq_self)

lemma tag_bytes_room:
  "8 \<le> journal_vmsep_tag_bytes s" "jbd2_has_feature_64bit s \<Longrightarrow> 12 \<le> journal_vmsep_tag_bytes s"
  "jbd2_has_feature_csum3 s \<Longrightarrow> journal_vmsep_tag_bytes s = 16"
  by (simp_all add: journal_vmsep_tag_bytes_def Let_def)

definition tag_is :: "env \<Rightarrow> jstate \<Rightarrow> tid_t \<Rightarrow> block_data \<Rightarrow> nat \<Rightarrow> u64 \<Rightarrow> u16 \<Rightarrow> block_data \<Rightarrow> bool" where
  "tag_is E s tid d off b flags data =
     (read_tag_block s d off = b \<and> tag_flags d off = flags \<and> jbd2_block_tag_csum_verify E s d off data tid)"

lemma tag_is_cong:
  assumes "\<And>i n. off \<le> i \<Longrightarrow> i + n \<le> off + journal_vmsep_tag_bytes s \<Longrightarrow> load_bytes d' i n = load_bytes d i n"
  shows "tag_is E s tid d' off b flags data = tag_is E s tid d off b flags data"
proof -
  note tb = tag_bytes_room [of s]
  have "be32_at d' off = be32_at d off" "be16_at d' (off + 6) = be16_at d (off + 6)"
    "be16_at d' (off + 4) = be16_at d (off + 4)"
    using assms [of off 4] assms [of "off + 6" 2] assms [of "off + 4" 2] tb(1)
    by (simp_all add: be32_at_def be16_at_def)
  then show ?thesis
    using assms [of "off + 8" 4] assms [of "off + 12" 4] tb(2,3)
    by (auto simp: tag_is_def read_tag_block_def tag_flags_def jbd2_block_tag_csum_verify_def Let_def
        be32_at_def [of _ "off + 8"] be32_at_def [of _ "off + 12"])
qed

lemma load_store_enc: "off + n \<le> length d \<Longrightarrow> load_bytes (store_bytes d off (be_enc n v)) off n = be_enc n v"
  using load_store_same [of off d "be_enc n v"] by simp

lemma be32_at_enc: "load_bytes d i 4 = be_enc 4 v \<Longrightarrow> be32_at d i = of_nat v"
  unfolding be32_at_def by (simp add: be_dec_enc_mod of_nat_mod [symmetric] word_unat_eq_iff unsigned_of_nat take_bit_eq_mod)

lemma be16_at_enc: "load_bytes d i 2 = be_enc 2 v \<Longrightarrow> be16_at d i = of_nat v"
  unfolding be16_at_def by (simp add: be_dec_enc_mod of_nat_mod [symmetric] word_unat_eq_iff unsigned_of_nat take_bit_eq_mod)

lemma write_tag_length:
  assumes "off + journal_vmsep_tag_bytes s \<le> length d"
  shows "length (write_tag E s off b flags data tid d) = length d"
  using assms tag_bytes_room [of s]
  by (auto simp: write_tag_def jbd2_block_tag_csum_set_def set_tag_flags_def write_tag_block_def Let_def)

lemma write_tag_load:
  assumes "off + journal_vmsep_tag_bytes s \<le> length d" and "i + n \<le> off \<or> off + journal_vmsep_tag_bytes s \<le> i"
  shows "load_bytes (write_tag E s off b flags data tid d) i n = load_bytes d i n"
  using assms tag_bytes_room [of s]
  by (auto simp: write_tag_def jbd2_block_tag_csum_set_def set_tag_flags_def write_tag_block_def Let_def
      load_store_disjoint)

lemma write_tag_is:
  assumes "off + journal_vmsep_tag_bytes s \<le> length d" and "blocknr_fits s b"
  shows "tag_is E s tid (write_tag E s off b flags data tid d) off b flags data"
proof -
  note tb = tag_bytes_room [of s]
  let ?d = "write_tag E s off b flags data tid d"
  note defs = write_tag_def jbd2_block_tag_csum_set_def set_tag_flags_def write_tag_block_def Let_def
    load_store_disjoint load_store_enc
  have lo: "be32_at ?d off = of_nat (unat (b AND 0xffffffff))"
    by (rule be32_at_enc) (use assms(1) tb in \<open>auto simp: defs\<close>)
  have hi: "be32_at ?d (off + 8) = of_nat (unat (drop_bit 1 (drop_bit 31 b)))" if "jbd2_has_feature_64bit s"
    by (rule be32_at_enc) (use that assms(1) tb in \<open>auto simp: defs\<close>)
  have "read_tag_block s ?d off = b"
  proof (cases "jbd2_has_feature_64bit s")
    case True
    then show ?thesis by (simp only: read_tag_block_def Let_def lo hi [OF True] low_word two_words if_True)
  next
    case False
    then have "unat b < 2 ^ 32" using assms(2) by (simp add: blocknr_fits_def)
    with False show ?thesis by (simp only: read_tag_block_def Let_def lo low_word if_False) (simp only: one_word)
  qed
  moreover have "be16_at ?d (off + 6) = of_nat (unat flags)"
    by (rule be16_at_enc) (use assms(1) tb in \<open>auto simp: defs\<close>)
  moreover have "be32_at ?d (off + 12) = of_nat (unat (tag_csum E s data tid))"
    if "jbd2_journal_has_csum_v2or3 s" "jbd2_has_feature_csum3 s"
    by (rule be32_at_enc) (use that assms(1) tb in \<open>auto simp: defs\<close>)
  moreover have "be16_at ?d (off + 4) = of_nat (unat (ucast (tag_csum E s data tid) :: u16))"
    if "jbd2_journal_has_csum_v2or3 s" "\<not> jbd2_has_feature_csum3 s"
    by (rule be16_at_enc) (use that assms(1) tb in \<open>auto simp: defs\<close>)
  ultimately show ?thesis by (auto simp: tag_is_def tag_flags_def jbd2_block_tag_csum_verify_def Let_def)
qed

section \<open>Descriptor blocks\<close>

text \<open>The offset of the tag with the number \<open>n\<close>; the first tag is followed by the UUID.\<close>

definition tag_off :: "jstate \<Rightarrow> nat \<Rightarrow> nat" where
  "tag_off s n = 12 + journal_vmsep_tag_bytes s * n + (if n = 0 then 0 else 16)"

lemma tag_off_0 [simp]: "tag_off s 0 = 12"
  by (simp add: tag_off_def)

lemma tag_off_Suc: "tag_off s (Suc n) = tag_off s n + journal_vmsep_tag_bytes s + (if n = 0 then 16 else 0)"
  by (simp add: tag_off_def)

lemma tag_off_step: "n < m \<Longrightarrow> tag_off s n + journal_vmsep_tag_bytes s \<le> tag_off s m"
proof (induction m)
  case (Suc m)
  then show ?case by (cases "n = m") (auto simp: tag_off_Suc)
qed simp

lemma tag_off_ge: "12 \<le> tag_off s n"
  by (simp add: tag_off_def)

lemma tag_flag_bits:
  "tag_flag esc first AND JBD2_FLAG_SAME_UUID = 0 \<longleftrightarrow> first"
  "tag_flag esc first AND JBD2_FLAG_ESCAPE = 0 \<longleftrightarrow> \<not> esc"
  "tag_flag esc first AND JBD2_FLAG_LAST_TAG = 0"
  "(tag_flag esc first OR JBD2_FLAG_LAST_TAG) AND JBD2_FLAG_SAME_UUID = 0 \<longleftrightarrow> first"
  "(tag_flag esc first OR JBD2_FLAG_LAST_TAG) AND JBD2_FLAG_ESCAPE = 0 \<longleftrightarrow> \<not> esc"
  "(tag_flag esc first OR JBD2_FLAG_LAST_TAG) AND JBD2_FLAG_LAST_TAG \<noteq> 0"
  by (cases esc; cases first; simp add: tag_flag_def)+

lemma tags_from_closed:
  assumes "\<And>n. n < N \<Longrightarrow> tag_flags d (tag_off s n) AND JBD2_FLAG_LAST_TAG \<noteq> 0 \<longleftrightarrow> Suc n = N"
    and "\<And>n. n < N \<Longrightarrow> tag_flags d (tag_off s n) AND JBD2_FLAG_SAME_UUID = 0 \<longleftrightarrow> n = 0"
    and "tag_off s N \<le> j_blocksize s - csum_size s" and "n < N"
  shows "tags_from s d (tag_off s n) = map (tag_off s) [n..<N]"
  using assms(4)
proof (induction "N - n" arbitrary: n)
  case (Suc k)
  have room: "tag_off s n + journal_vmsep_tag_bytes s \<le> j_blocksize s - csum_size s"
    using tag_off_step [OF Suc.prems, of s] assms(3) by linarith
  have nx: "next_tag s d (tag_off s n) = tag_off s (Suc n)"
    using assms(2) [OF Suc.prems] by (simp add: next_tag_def tag_off_Suc)
  show ?case
  proof (cases "Suc n = N")
    case True
    then have "[n..<N] = [n]" by (simp add: upt_conv_Cons flip: True)
    then show ?thesis using True room assms(1) [OF Suc.prems] by (subst tags_from.simps) simp
  next
    case False
    then have "tags_from s d (tag_off s (Suc n)) = map (tag_off s) [Suc n..<N]"
      using Suc by (intro Suc.hyps(1)) auto
    then show ?thesis using False room assms(1) [OF Suc.prems] nx Suc.prems
      by (subst tags_from.simps) (simp add: upt_conv_Cons)
  qed
qed simp

text \<open>
  A descriptor that is being filled: \<open>ws\<close> are the buffers in it so far, each with its block, whether
  its data is escaped, and the data written to the log.
\<close>

definition desc_part :: "env \<Rightarrow> jstate \<Rightarrow> tid_t \<Rightarrow> (u64 \<times> bool \<times> block_data) list \<Rightarrow> block_data \<Rightarrow> bool" where
  "desc_part E s tid ws d =
     (headed s JBD2_DESCRIPTOR_BLOCK tid d \<and> tag_off s (length ws) \<le> j_blocksize s - csum_size s \<and>
      (\<forall>n < length ws. tag_is E s tid d (tag_off s n) (fst (ws ! n)) (tag_flag (fst (snd (ws ! n))) (n = 0))
         (snd (snd (ws ! n)))))"

lemma desc_part_new:
  "64 \<le> j_blocksize s \<Longrightarrow> desc_part E s tid [] (new_block s JBD2_DESCRIPTOR_BLOCK tid)"
  using csum_room [of s] by (simp add: desc_part_def headed_new)

definition add_tag :: "env \<Rightarrow> jstate \<Rightarrow> tid_t \<Rightarrow> nat \<Rightarrow> u64 \<times> bool \<times> block_data \<Rightarrow> block_data \<Rightarrow> block_data" where
  "add_tag E s tid n w d =
     (let d = write_tag E s (tag_off s n) (fst w) (tag_flag (fst (snd w)) (n = 0)) (snd (snd w)) tid d
      in if n = 0 then store_bytes d (tag_off s n + journal_vmsep_tag_bytes s) (j_uuid s) else d)"

lemma add_tag_load:
  assumes "length d = j_blocksize s" and "tag_off s (Suc N) \<le> j_blocksize s" and "length (j_uuid s) = 16"
  shows "length (add_tag E s tid N w d) = j_blocksize s"
    "i + n \<le> tag_off s N \<Longrightarrow> load_bytes (add_tag E s tid N w d) i n = load_bytes d i n"
    "tag_off s N \<le> i \<Longrightarrow> i + n \<le> tag_off s N + journal_vmsep_tag_bytes s \<Longrightarrow>
      load_bytes (add_tag E s tid N w d) i n = load_bytes (write_tag E s (tag_off s N) (fst w)
        (tag_flag (fst (snd w)) (N = 0)) (snd (snd w)) tid d) i n"
  using assms by (auto simp: add_tag_def Let_def write_tag_length write_tag_load tag_off_Suc load_store_disjoint)

lemma desc_part_add:
  assumes p: "desc_part E s tid ws d" and room: "tag_off s (Suc (length ws)) \<le> j_blocksize s - csum_size s"
    and fit: "blocknr_fits s (fst w)" and uuid: "length (j_uuid s) = 16"
  shows "desc_part E s tid (ws @ [w]) (add_tag E s tid (length ws) w d)"
proof -
  let ?N = "length ws"
  let ?d = "add_tag E s tid ?N w d"
  have len: "length d = j_blocksize s" and h: "load_bytes d 0 12 = journal_header JBD2_DESCRIPTOR_BLOCK tid"
    using p by (simp_all add: desc_part_def headed_def)
  have room': "tag_off s (Suc ?N) \<le> j_blocksize s" using room by simp
  note ld = add_tag_load(1) [OF len room' uuid, of E tid w] add_tag_load(2,3) [OF len room' uuid, of _ _ E tid w]
  have "headed s JBD2_DESCRIPTOR_BLOCK tid ?d" using h ld(1) ld(2) [of 0 12] tag_off_ge by (simp add: headed_def)
  moreover have "tag_is E s tid ?d (tag_off s n) (fst ((ws @ [w]) ! n)) (tag_flag (fst (snd ((ws @ [w]) ! n))) (n = 0))
      (snd (snd ((ws @ [w]) ! n)))" if "n < length (ws @ [w])" for n
  proof (cases "n = ?N")
    case True
    have "tag_off s ?N + journal_vmsep_tag_bytes s \<le> length d" using room' len by (simp add: tag_off_Suc)
    from write_tag_is [OF this fit, of E tid "tag_flag (fst (snd w)) (?N = 0)" "snd (snd w)"] True
    show ?thesis using tag_is_cong [of "tag_off s ?N" s ?d, OF ld(3)] by simp
  next
    case False
    then have "n < ?N" using that by simp
    from tag_off_step [OF this, of s] have same: "load_bytes ?d i m = load_bytes d i m"
      if "tag_off s n \<le> i" "i + m \<le> tag_off s n + journal_vmsep_tag_bytes s" for i m
      using that by (intro ld(2)) linarith
    show ?thesis using p \<open>n < ?N\<close> by (simp add: tag_is_cong [of _ s ?d d, OF same] desc_part_def nth_append)
  qed
  ultimately show ?thesis using room by (simp add: desc_part_def)
qed

lemma set_tag_flags_is:
  assumes "tag_is E s tid d off b f data" and "off + journal_vmsep_tag_bytes s \<le> length d"
  shows "tag_is E s tid (set_tag_flags off g d) off b g data"
proof -
  let ?d = "set_tag_flags off g d"
  note tb = tag_bytes_room [of s]
  have "load_bytes ?d i n = load_bytes d i n" if "i + n \<le> off + 6 \<or> off + 8 \<le> i" for i n
    using that assms(2) tb(1) by (auto simp: set_tag_flags_def load_store_disjoint)
  then have "be32_at ?d off = be32_at d off" "be32_at ?d (off + 8) = be32_at d (off + 8)"
    "be32_at ?d (off + 12) = be32_at d (off + 12)" "be16_at ?d (off + 4) = be16_at d (off + 4)"
    by (simp_all add: be32_at_def be16_at_def)
  then have "read_tag_block s ?d off = read_tag_block s d off"
    "jbd2_block_tag_csum_verify E s ?d off data tid = jbd2_block_tag_csum_verify E s d off data tid"
    by (simp_all add: read_tag_block_def jbd2_block_tag_csum_verify_def Let_def)
  moreover have "be16_at ?d (off + 6) = g"
    using be16_at_enc [of ?d "off + 6" "unat g"] assms(2) tb(1) by (simp add: set_tag_flags_def load_store_enc)
  ultimately show ?thesis using assms(1)
    by (simp add: tag_is_def tag_flags_def)
qed

definition closed_desc :: "env \<Rightarrow> jstate \<Rightarrow> nat \<Rightarrow> block_data \<Rightarrow> block_data" where
  "closed_desc E s off d = jbd2_vmsep_descriptor_block_csum_set E s
     (set_tag_flags off (be16_at d (off + 6) OR JBD2_FLAG_LAST_TAG) d)"

lemma closed_desc_tags:
  assumes p: "desc_part E s tid (ws @ [w]) d" and sz: "64 \<le> j_blocksize s"
  shows "headed s JBD2_DESCRIPTOR_BLOCK tid (closed_desc E s (tag_off s (length ws)) d)"
    "jbd2_descriptor_block_csum_verify E s (closed_desc E s (tag_off s (length ws)) d)"
    "n < Suc (length ws) \<Longrightarrow> tag_is E s tid (closed_desc E s (tag_off s (length ws)) d) (tag_off s n)
      (fst ((ws @ [w]) ! n)) (tag_flag (fst (snd ((ws @ [w]) ! n))) (n = 0) OR
        (if n = length ws then JBD2_FLAG_LAST_TAG else 0)) (snd (snd ((ws @ [w]) ! n)))"
proof -
  let ?off = "tag_off s (length ws)" and ?w = "ws @ [w]"
  let ?d1 = "set_tag_flags ?off (be16_at d (?off + 6) OR JBD2_FLAG_LAST_TAG) d" and ?d = "closed_desc E s ?off d"
  have room: "?off + journal_vmsep_tag_bytes s \<le> j_blocksize s - csum_size s"
    using p tag_off_step [of "length ws" "Suc (length ws)" s] by (simp add: desc_part_def)
  note tb = tag_bytes_room(1) [of s]
  have h: "headed s JBD2_DESCRIPTOR_BLOCK tid d" and len: "length d = j_blocksize s"
    using p by (simp_all add: desc_part_def headed_def)
  have h1: "headed s JBD2_DESCRIPTOR_BLOCK tid ?d1"
    unfolding set_tag_flags_def using headed_store [OF h] room tb tag_off_ge [of s "length ws"] by simp
  then have len1: "length ?d1 = j_blocksize s" by (simp add: headed_def)
  show "headed s JBD2_DESCRIPTOR_BLOCK tid ?d" unfolding closed_desc_def by (rule headed_csum [OF h1 sz])
  show "jbd2_descriptor_block_csum_verify E s ?d"
    unfolding closed_desc_def by (rule csum_set_verify [OF len1]) (use sz in simp)
  have csum: "load_bytes ?d i m = load_bytes ?d1 i m" if "i + m \<le> j_blocksize s - csum_size s" for i m
    unfolding closed_desc_def using csum_set_load [OF len1 _ that] sz by simp
  assume n: "n < Suc (length ws)"
  have old: "tag_is E s tid d (tag_off s n) (fst (?w ! n)) (tag_flag (fst (snd (?w ! n))) (n = 0)) (snd (snd (?w ! n)))"
    using p n by (simp add: desc_part_def)
  have le: "tag_off s n + journal_vmsep_tag_bytes s \<le> j_blocksize s - csum_size s"
    using p tag_off_step [OF n, of s] by (simp add: desc_part_def)
  have "tag_is E s tid ?d1 (tag_off s n) (fst (?w ! n)) (tag_flag (fst (snd (?w ! n))) (n = 0) OR
      (if n = length ws then JBD2_FLAG_LAST_TAG else 0)) (snd (snd (?w ! n)))"
  proof (cases "n = length ws")
    case True
    then have "be16_at d (?off + 6) = tag_flag (fst (snd (?w ! n))) (n = 0)"
      using old by (simp add: tag_is_def tag_flags_def)
    then show ?thesis using set_tag_flags_is [OF old, of "be16_at d (?off + 6) OR JBD2_FLAG_LAST_TAG"] True le len
      by simp
  next
    case False
    then have "tag_off s n + journal_vmsep_tag_bytes s \<le> ?off" using tag_off_step n by simp
    then have "load_bytes ?d1 i m = load_bytes d i m" if "i + m \<le> tag_off s n + journal_vmsep_tag_bytes s" for i m
      using that room tb len by (auto simp: set_tag_flags_def load_store_disjoint)
    then show ?thesis using False old tag_is_cong [of "tag_off s n" s ?d1 d] by simp
  qed
  moreover have "load_bytes ?d i m = load_bytes ?d1 i m"
    if "i + m \<le> tag_off s n + journal_vmsep_tag_bytes s" for i m using that le by (intro csum) linarith
  ultimately show "tag_is E s tid ?d (tag_off s n) (fst (?w ! n)) (tag_flag (fst (snd (?w ! n))) (n = 0) OR
      (if n = length ws then JBD2_FLAG_LAST_TAG else 0)) (snd (snd (?w ! n)))"
    using tag_is_cong [of "tag_off s n" s ?d ?d1] by simp
qed

text \<open>The block and the data that recovery reads for an entry of a descriptor.\<close>

definition tag_entry :: "u64 \<times> bool \<times> block_data \<Rightarrow> u64 \<times> block_data" where
  "tag_entry w = (fst w, if fst (snd w) then store_bytes (snd (snd w)) 0 (be_enc 4 (unat JBD2_MAGIC_NUMBER))
                         else snd (snd w))"

lemma closed_desc_item:
  assumes p: "desc_part E s tid (ws @ [w]) d" and sz: "64 \<le> j_blocksize s"
  shows "item_wf E s tid (Data_item (closed_desc E s (tag_off s (length ws)) d) (map (snd \<circ> snd) (ws @ [w])))"
    "item_writes s (Data_item (closed_desc E s (tag_off s (length ws)) d) (map (snd \<circ> snd) (ws @ [w]))) =
      map tag_entry (ws @ [w])"
proof -
  let ?d = "closed_desc E s (tag_off s (length ws)) d"
  define W where "W = ws @ [w]"
  have N: "length W = Suc (length ws)" by (simp add: W_def)
  have t: "tag_is E s tid ?d (tag_off s n) (fst (W ! n)) (tag_flag (fst (snd (W ! n))) (n = 0) OR
      (if Suc n = length W then JBD2_FLAG_LAST_TAG else 0)) (snd (snd (W ! n)))" if "n < length W" for n
    using closed_desc_tags(3) [OF p sz, of n] that by (simp add: W_def)
  then have fl: "tag_flags ?d (tag_off s n) = tag_flag (fst (snd (W ! n))) (n = 0) OR
      (if Suc n = length W then JBD2_FLAG_LAST_TAG else 0)" if "n < length W" for n
    using that by (simp add: tag_is_def)
  have "tag_off s (length W) \<le> j_blocksize s - csum_size s" using p by (simp add: desc_part_def W_def)
  then have tags: "tags_from s ?d 12 = map (tag_off s) [0..<length W]"
    using tags_from_closed [of "length W" ?d s 0] by (auto simp: fl tag_flag_bits N)
  have "list_all2 (\<lambda>off data. jbd2_block_tag_csum_verify E s ?d off data tid) (tags_from s ?d 12) (map (snd \<circ> snd) W)"
    using t by (auto simp: tags list_all2_conv_all_nth tag_is_def simp del: upt_Suc)
  then have "item_wf E s tid (Data_item ?d (map (snd \<circ> snd) W))"
    using headed_has_header [OF closed_desc_tags(1) [OF p sz]] closed_desc_tags(2) [OF p sz] by simp
  moreover have "item_writes s (Data_item ?d (map (snd \<circ> snd) W)) = map tag_entry W"
    by (rule nth_equalityI)
      (use t fl in \<open>auto simp: tags tag_write_def tag_entry_def tag_is_def tag_flag_bits simp del: upt_Suc\<close>)
  ultimately show "item_wf E s tid (Data_item ?d (map (snd \<circ> snd) (ws @ [w])))"
    "item_writes s (Data_item ?d (map (snd \<circ> snd) (ws @ [w]))) = map tag_entry (ws @ [w])"
    by (simp_all only: W_def)
qed

section \<open>The data of a buffer\<close>

definition journal_data :: "env \<Rightarrow> jstate \<Rightarrow> bhp \<Rightarrow> block_data" where
  "journal_data E s b =
     (case jhs s b of
        None \<Rightarrow> []
      | Some jh \<Rightarrow> (case b_frozen_data jh of
          Some d \<Rightarrow> d
        | None \<Rightarrow> jbd2_vmsep_buffer_frozen_trigger E (b_triggers jh) (b_data (bhs s b))))"

definition log_entry :: "env \<Rightarrow> jstate \<Rightarrow> bhp \<Rightarrow> u64 \<times> bool \<times> block_data" where
  "log_entry E s b =
     (let d = journal_data E s b; esc = starts_with_magic d
      in (b_blocknr (bhs s b), esc, if esc then escape_data d else d))"

lemma store_loaded: "load_bytes d off (length bs) = bs \<Longrightarrow> off + length bs \<le> length d \<Longrightarrow> store_bytes d off bs = d"
  by (metis append_take_drop_id drop_drop add.commute load_bytes_def store_bytes_def)

lemma tag_entry_log_entry:
  assumes "4 \<le> length (journal_data E s b)"
  shows "tag_entry (log_entry E s b) = (b_blocknr (bhs s b), journal_data E s b)"
proof -
  let ?m = "be_enc 4 (unat JBD2_MAGIC_NUMBER)" and ?d = "journal_data E s b"
  have "store_bytes (escape_data ?d) 0 ?m = ?d" if "starts_with_magic ?d"
    using that assms store_loaded [of ?d 0 ?m] by (simp add: starts_with_magic_def escape_data_def store_store_same)
  then show ?thesis by (simp add: tag_entry_def log_entry_def Let_def)
qed

section \<open>What the steps of the loop leave alone\<close>

lemma put_journal_head_bhs:
  "wp (jbd2_vmsep_journal_put_journal_head s b) any_err (\<lambda>s'. \<forall>c. c \<noteq> b \<longrightarrow> bhs s' c = bhs s c)"
  by (simp add: jbd2_vmsep_journal_put_journal_head_def journal_remove_journal_head_def wp_simps Let_def
      split: option.split)

lemma unfile_buffer_bhs:
  "wp (jbd2_vmsep_journal_unfile_buffer s b) any_err (\<lambda>s'. \<forall>c. c \<noteq> b \<longrightarrow> bhs s' c = bhs s c)"
proof -
  have put: "wp (jbd2_vmsep_journal_put_journal_head (upd_jh b f s1) b) any_err
      (\<lambda>s'. \<forall>c. c \<noteq> b \<longrightarrow> bhs s' c = bhs s c)" if "\<forall>c. c \<noteq> b \<longrightarrow> bhs s1 c = bhs s c" for s1 f
    by (rule wp_mono [OF put_journal_head_bhs]) (use that in simp)
  show ?thesis unfolding jbd2_vmsep_journal_unfile_buffer_def unfile_buffer_def wp_bind
    by (rule wp_mono [OF temp_unlink_dirty]) (auto simp: dirty_onlyD(5) intro!: wp_mono [OF put])
qed

lemma separate_buffer_bhs:
  "wp (separate_buffer s b rt) any_err (\<lambda>s'. \<forall>c. c \<noteq> b \<longrightarrow> bhs s' c = bhs s c)"
proof -
  have "wp (file_buffer s1 b rt l) any_err (\<lambda>s'. \<forall>c. c \<noteq> b \<longrightarrow> bhs s' c = bhs s c)"
    if "\<forall>c. c \<noteq> b \<longrightarrow> bhs s1 c = bhs s c" for s1 l
    by (rule wp_mono [OF file_buffer_dirty]) (use that in \<open>simp add: dirty_onlyD(5)\<close>)
  then show ?thesis
    by (auto simp: separate_buffer_def wp_deref wp_bind split: option.split intro!: wp_mono [OF unfile_buffer_bhs])
qed

text \<open>
  The state of the loop: the buffers \<open>bs\<close> of the committing transaction \<open>t\<close> are still to be
  handled and as they were in \<open>s0\<close>, \<open>sh\<close> are shadowed, and \<open>mv\<close> are on the list of \<open>rt\<close>.
\<close>

definition loop_at ::
    "jstate \<Rightarrow> tid_t \<Rightarrow> ulong \<Rightarrow> trp \<Rightarrow> trp \<Rightarrow> bhp list \<Rightarrow> bhp list \<Rightarrow> bhp list \<Rightarrow> jstate \<Rightarrow> bool" where
  "loop_at s0 tid ino t rt bs sh mv s =
     (lists_wf s \<and> refs_wf s \<and>
      (\<exists>tr. trs s t = Some tr \<and> t_buffers tr = bs \<and> t_shadow_list tr = sh \<and> t_tid tr = tid \<and> ino_sync tr = ino) \<and>
      (\<exists>tr. trs s rt = Some tr \<and> t_buffers tr = mv) \<and>
      (\<forall>b \<in> set bs. jhs s b = jhs s0 b \<and> bhs s b = bhs s0 b))"

lemma loop_atD:
  assumes "loop_at s0 tid ino t rt (b # bs) sh mv s"
  shows "\<exists>jh tr. jhs s b = Some jh \<and> jhs s0 b = Some jh \<and> bhs s b = bhs s0 b \<and> b_transaction jh = Some t \<and>
    b_jlist jh = BJ_Metadata \<and> trs s t = Some tr \<and> t_buffers tr = b # bs \<and> t_tid tr = tid \<and> ino_sync tr = ino \<and>
    b \<notin> set bs"
proof -
  obtain tr where wf: "lwf (trs s) (jhs s)" and tr: "trs s t = Some tr" "t_buffers tr = b # bs" "t_tid tr = tid" "ino_sync tr = ino"
    and b: "jhs s b = jhs s0 b" "bhs s b = bhs s0 b"
    using assms by (auto simp: loop_at_def lists_wf_def)
  have "on_list (jhs s) t BJ_Metadata b" using lwfD(3) [OF wf tr(1), of b BJ_Metadata] tr(2) by simp
  moreover have "b \<notin> set bs" using lwfD(2) [OF wf tr(1), of BJ_Metadata] tr(2) by simp
  ultimately show ?thesis using tr b by (auto simp: on_list_def split: option.splits)
qed

lemma separate_step:
  assumes at: "loop_at s0 tid ino t rt (b # bs) sh mv s" and cnt: "b_jcount (the (jhs s0 b)) \<noteq> 1" and rt: "rt \<noteq> t"
  shows "wp (separate_buffer s b rt) no_err (\<lambda>s'. loop_at s0 tid ino t rt bs sh (mv @ [b]) s' \<and> frame s s')"
proof -
  obtain jh tr where jh: "jhs s b = Some jh" "jhs s0 b = Some jh" "b_transaction jh = Some t" "b_jlist jh = BJ_Metadata"
    and tr: "trs s t = Some tr" "t_buffers tr = b # bs" and nin: "b \<notin> set bs" using loop_atD [OF at] by blast
  obtain tr' where tr': "trs s rt = Some tr'" "t_buffers tr' = mv" using at by (auto simp: loop_at_def)
  have wf: "lists_wf s" "refs_wf s" using at by (simp_all add: loop_at_def)
  let ?T = "unlinked b jh (trs s)"
  have T: "?T rt = Some tr'" using unlinked_fields(2) [where T = "trs s", OF tr(1) jh(3,4) rt] tr'(1) by simp
  note new = linked_fields [where T = ?T, OF T] unlinked_fields [where T = "trs s", OF tr(1) jh(3,4)]
  have "wp (separate_buffer s b rt) no_err (\<lambda>s'. (lists_wf s' \<and> refs_wf s' \<and> jhs s' = (jhs s)(b \<mapsto> moved rt jh) \<and>
      trs s' = linked b rt BJ_Metadata ?T \<and> frame s s') \<and> (\<forall>c. c \<noteq> b \<longrightarrow> bhs s' c = bhs s c))"
    using wp_conj_any [OF separate_buffer_ok [OF wf jh(1), of rt] separate_buffer_bhs] jh cnt tr'(1) by simp
  then show ?thesis
    by (rule wp_mono) (use at new tr tr' nin rt in \<open>auto simp: loop_at_def\<close>)
qed

lemma refs_wf_jh:
  assumes "refs_wf s" and "jhs s' = (jhs s)(b \<mapsto> jh')" and "jhs s b = Some jh" and "b_jcount jh' = b_jcount jh"
    and "b_transaction jh' = b_transaction jh" and "b_cp_transaction jh' = b_cp_transaction jh"
  shows "refs_wf s'"
  using refs_wf_upd [OF assms(1,2)] refs_wfD [OF assms(1,3)] assms(4-6) by (simp add: jh_refs_def)

lemma file_shadow_ok:
  assumes wf: "lists_wf s" "refs_wf s" and jh: "jhs s b = Some jh" "b_transaction jh = Some t" "b_jlist jh = BJ_Metadata"
    and tr: "trs s t = Some tr"
  shows "wp (file_buffer s b t BJ_Shadow) no_err (\<lambda>s'. lists_wf s' \<and> refs_wf s' \<and>
    trs s' = (trs s)(t \<mapsto> tr\<lparr>t_nr_buffers := t_nr_buffers tr - 1, t_buffers := remove1 b (t_buffers tr),
      t_shadow_list := t_shadow_list tr @ [b]\<rparr>) \<and>
    (\<forall>c. c \<noteq> b \<longrightarrow> jhs s' c = jhs s c \<and> bhs s' c = bhs s c) \<and> b_blocknr (bhs s' b) = b_blocknr (bhs s b) \<and> frame s s')"
proof -
  have "linked b t BJ_Shadow (unlinked b jh (trs s)) = (trs s)(t \<mapsto> tr\<lparr>t_nr_buffers := t_nr_buffers tr - 1,
      t_buffers := remove1 b (t_buffers tr), t_shadow_list := t_shadow_list tr @ [b]\<rparr>)"
    using unlinked_fields [where T = "trs s", OF tr jh(2,3)]
    by (intro ext) (simp add: linked_def blist_add_buffer_def)
  moreover have "refs_wf s'" if "jhs s' = (jhs s)(b \<mapsto> filed t BJ_Shadow jh)" for s'
    by (rule refs_wf_jh [OF wf(2) that jh(1)]) (simp_all add: filed_def jh(2))
  ultimately show ?thesis
    using wp_conj_any [OF file_buffer_ok [OF wf(1) _ jh(1), of BJ_Shadow t] file_buffer_dirty]
    by (auto simp: jh tr dirty_onlyD(3,5) elim!: wp_mono)
qed

lemma write_metadata_ok:
  assumes wf: "lists_wf s" "refs_wf s" and jh: "jhs s b = Some jh" "b_transaction jh = Some t" "b_jlist jh = BJ_Metadata"
    and tr: "trs s t = Some tr" and dirty: "bh_jbddirty (bhs s b)" and mem: "mem_alloc E"
  shows "wp (jbd2_vmsep_journal_write_metadata_buffer E s t b) no_err (\<lambda>(r, s'). r = Inr (snd (log_entry E s b)) \<and>
    lists_wf s' \<and> refs_wf s' \<and>
    trs s' = (trs s)(t \<mapsto> tr\<lparr>t_nr_buffers := t_nr_buffers tr - 1, t_buffers := remove1 b (t_buffers tr),
      t_shadow_list := t_shadow_list tr @ [b]\<rparr>) \<and>
    (\<forall>c. c \<noteq> b \<longrightarrow> jhs s' c = jhs s c \<and> bhs s' c = bhs s c) \<and> b_blocknr (bhs s' b) = b_blocknr (bhs s b) \<and> frame s s')"
proof -
  let ?d = "journal_data E s b"
  let ?f = "\<lambda>jh. jh\<lparr>b_frozen_data := Some (escape_data ?d),
      b_frozen_triggers := if b_frozen_data jh = None then b_triggers jh else b_frozen_triggers jh\<rparr>"
  define s1 where "s1 = (if b_frozen_data jh = None then upd_bh b (\<lambda>bh. bh\<lparr>b_data := ?d\<rparr>) s else s)"
  define s2 where "s2 = (if starts_with_magic ?d then upd_jh b ?f s1 else s1)"
  have body: "jbd2_vmsep_journal_write_metadata_buffer E s t b = bind_res (file_buffer s2 b t BJ_Shadow) (\<lambda>s'.
      Inr (Inr (snd (log_entry E s b)), upd_bh b (\<lambda>bh. bh\<lparr>bh_shadow := True\<rparr>) s'))"
    using dirty mem
    by (cases "b_frozen_data jh"; cases "starts_with_magic ?d")
      (simp_all add: jbd2_vmsep_journal_write_metadata_buffer_def jh(1) J_ASSERT_def s1_def s2_def log_entry_def
        journal_data_def Let_def)
  define jh' where "jh' = (if starts_with_magic ?d then ?f jh else jh)"
  have jh': "jhs s2 = (jhs s)(b \<mapsto> jh')" "b_jcount jh' = b_jcount jh" "b_transaction jh' = b_transaction jh"
    "b_jlist jh' = b_jlist jh" "b_cp_transaction jh' = b_cp_transaction jh"
    by (auto simp: s2_def s1_def jh'_def jh(1) map_upd_triv)
  have s2: "trs s2 = trs s" "frame s s2" "\<forall>c. c \<noteq> b \<longrightarrow> bhs s2 c = bhs s c"
    "b_blocknr (bhs s2 b) = b_blocknr (bhs s b)" by (simp_all add: s2_def s1_def)
  have "lists_wf s2" using lwf_jh [OF wf(1) [unfolded lists_wf_def] jh(1)] jh' by (simp add: lists_wf_def s2(1))
  moreover have "refs_wf s2" by (rule refs_wf_jh [OF wf(2) jh'(1) jh(1)]) (simp_all add: jh')
  ultimately have "wp (file_buffer s2 b t BJ_Shadow) no_err (\<lambda>s'. lists_wf s' \<and> refs_wf s' \<and>
      trs s' = (trs s)(t \<mapsto> tr\<lparr>t_nr_buffers := t_nr_buffers tr - 1, t_buffers := remove1 b (t_buffers tr),
        t_shadow_list := t_shadow_list tr @ [b]\<rparr>) \<and>
      (\<forall>c. c \<noteq> b \<longrightarrow> jhs s' c = jhs s c \<and> bhs s' c = bhs s c) \<and> b_blocknr (bhs s' b) = b_blocknr (bhs s b) \<and> frame s s')"
    using wp_mono [OF file_shadow_ok [of s2 b jh' t tr]] jh jh' tr s2 frame_trans [OF s2(2)] by simp
  then show ?thesis unfolding body wp_bind
    by (rule wp_mono) (auto simp: lists_wf_def refs_wf_def)
qed

section \<open>The committer\<close>

text \<open>
  The blocks \<open>bl\<close> are written and are those of the complete \<open>items\<close>; \<open>ws\<close> are the entries of the
  open descriptor, and \<open>es\<close> all entries. \<open>cm_inv\<close> says moreover that another tag fits.
\<close>

definition cm_used :: "(u64 \<times> block_data) list \<Rightarrow> committer \<Rightarrow> nat" where
  "cm_used bl c = length bl + length (cm_bufs c)"

definition data_items :: "log_item list \<Rightarrow> bool" where
  "data_items items = (\<forall>i \<in> set items. \<exists>d ds. i = Data_item d ds)"

definition cm_part :: "env \<Rightarrow> jstate \<Rightarrow> tid_t \<Rightarrow> (u64 \<times> block_data) list \<Rightarrow> log_item list \<Rightarrow>
    (u64 \<times> bool \<times> block_data) list \<Rightarrow> (u64 \<times> bool \<times> block_data) list \<Rightarrow> committer \<Rightarrow> bool" where
  "cm_part E s0 tid bl items ws es c =
     (logged s0 (cm_used bl c) bl (cm_state c) \<and>
      map fst (bl @ cm_bufs c) = map (log_slot s0) [0..<cm_used bl c] \<and>
      map snd bl = concat (map item_blocks items) \<and> list_all (item_wf E s0 tid) items \<and> data_items items \<and>
      concat (map (item_writes s0) items) @ map tag_entry ws = map tag_entry es \<and>
      (cm_descriptor c = None \<longrightarrow> cm_wbuf c = [] \<and> ws = []) \<and>
      (\<forall>n d. cm_descriptor c = Some (n, d) \<longrightarrow> desc_part E s0 tid ws d \<and>
         map snd (cm_wbuf c) = map (snd \<circ> snd) ws \<and> cm_tagp c = tag_off s0 (length ws) \<and>
         cm_space_left c = int (j_blocksize s0) - int (tag_off s0 (length ws)) \<and> cm_first_tag c = (ws = [])))"

definition cm_inv :: "env \<Rightarrow> jstate \<Rightarrow> tid_t \<Rightarrow> (u64 \<times> block_data) list \<Rightarrow> log_item list \<Rightarrow>
    (u64 \<times> bool \<times> block_data) list \<Rightarrow> (u64 \<times> bool \<times> block_data) list \<Rightarrow> committer \<Rightarrow> bool" where
  "cm_inv E s0 tid bl items ws es c =
     (cm_part E s0 tid bl items ws es c \<and>
      (cm_descriptor c \<noteq> None \<longrightarrow>
         tag_off s0 (length ws) + journal_vmsep_tag_bytes s0 + 16 + csum_size s0 \<le> j_blocksize s0))"

lemma cm_partD:
  assumes "cm_part E s0 tid bl items ws es c"
  shows "logged s0 (cm_used bl c) bl (cm_state c)" "same_format s0 (cm_state c)"
  using assms by (simp_all add: cm_part_def logged_def)

lemma logged_frame:
  assumes "logged s0 k bl s" and "frame s s'"
  shows "logged s0 k bl s'"
  using assms frameD [OF assms(2)] by (simp add: logged_def same_format_def)

lemma loop_at_same_store:
  assumes "loop_at s0 tid ino t rt bs sh mv s" and "same_store s s'"
  shows "loop_at s0 tid ino t rt bs sh mv s'"
  using assms by (simp add: loop_at_def same_store_def lists_wf_def refs_wf_def)

lemma new_block_format: "same_format s0 s \<Longrightarrow> new_block s bt tid = new_block s0 bt tid"
  by (simp add: new_block_def same_format_fields)

lemma get_descriptor_ok:
  assumes r: "log_ready E s0" and inv: "cm_inv E s0 tid bl items ws es c"
    and free: "cm_used bl c + 1 < unat (j_free s0)"
  shows "\<exists>c' n d. get_descriptor E tid c = Inr (True, c') \<and> cm_inv E s0 tid bl items ws es c' \<and>
    cm_descriptor c' = Some (n, d) \<and> cm_used bl c' \<le> cm_used bl c + 1 \<and> same_store (cm_state c) (cm_state c') \<and>
    (cm_descriptor c \<noteq> None \<longrightarrow> c' = c)"
proof (cases "cm_descriptor c")
  case (Some x)
  obtain n d where "x = (n, d)" by (cases x)
  with Some inv show ?thesis by (auto simp: get_descriptor_def)
next
  case None
  let ?s = "cm_state c"
  have l: "logged s0 (cm_used bl c) bl ?s" and fmt: "same_format s0 ?s" using inv cm_partD by (auto simp: cm_inv_def)
  have free': "1 < unat (j_free ?s)" using l free by (simp add: logged_def)
  have sz: "64 \<le> j_blocksize s0" using r by (simp add: log_ready_def)
  have w: "cm_wbuf c = []" "ws = []" and u: "cm_used bl c = length bl"
    using inv None by (simp_all add: cm_inv_def cm_part_def cm_used_def cm_bufs_def)
  let ?n = "log_slot s0 (length bl)" and ?d = "new_block s0 JBD2_DESCRIPTOR_BLOCK tid"
  let ?c = "c\<lparr>cm_state := take_log_block ?s, cm_descriptor := Some (?n, ?d), cm_tagp := 12,
    cm_space_left := int (j_blocksize s0) - 12, cm_first_tag := True, cm_log_bufs := cm_log_bufs c @ [?n]\<rparr>"
  have "get_descriptor E tid c = Inr (True, ?c)"
    using get_descriptor_buffer_ok [OF log_readyD [OF r l] free', of tid JBD2_DESCRIPTOR_BLOCK] None w(1)
      log_slot_head [OF l] same_format_fields(1) [OF take_log_block_format, of ?s]
    by (simp add: get_descriptor_def u new_block_format [OF fmt] same_format_fields [OF fmt])
  moreover have "logged s0 (Suc (length bl)) bl (take_log_block ?s)" using logged_take [OF l free'] by (simp add: u)
  moreover have "12 + journal_vmsep_tag_bytes s0 + 16 + csum_size s0 \<le> j_blocksize s0"
    using sz journal_vmsep_tag_bytes_range [of s0] by (auto simp: csum_size_def)
  ultimately show ?thesis
    using inv None w u desc_part_new [OF sz, of E tid]
    by (intro exI [of _ ?c]) (auto simp: cm_inv_def cm_part_def cm_used_def cm_bufs_def)
qed

lemma write_tag_format:
  "same_format s0 s \<Longrightarrow> write_tag E s off b flags data tid d = write_tag E s0 off b flags data tid d"
  by (simp add: write_tag_def jbd2_block_tag_csum_set_def write_tag_block_def tag_csum_def same_format_fields)

lemma record_tag_ok:
  assumes inv: "cm_inv E s0 tid bl items ws es c" and desc: "cm_descriptor c = Some (n, d)"
    and l: "logged s0 (Suc (cm_used bl c)) bl s'" and blk: "b_blocknr (bhs s' b) = fst w"
    and fit: "blocknr_fits s0 (fst w)" and uuid: "length (j_uuid s0) = 16"
    and slot: "blocknr = log_slot s0 (cm_used bl c)"
  shows "cm_part E s0 tid bl items (ws @ [w]) (es @ [w])
      (record_tag E tid (c\<lparr>cm_state := s'\<rparr>) b blocknr (fst (snd w)) (snd (snd w)))"
    "cm_used bl (record_tag E tid (c\<lparr>cm_state := s'\<rparr>) b blocknr (fst (snd w)) (snd (snd w))) = Suc (cm_used bl c)"
proof -
  let ?c = "record_tag E tid (c\<lparr>cm_state := s'\<rparr>) b blocknr (fst (snd w)) (snd (snd w))"
  let ?N = "length ws"
  have fmt: "same_format s0 s'" using l by (simp add: logged_def)
  have p: "desc_part E s0 tid ws d" and room: "tag_off s0 (Suc ?N) \<le> j_blocksize s0 - csum_size s0"
    and c: "cm_tagp c = tag_off s0 ?N" "cm_first_tag c = (?N = 0)" "map snd (cm_wbuf c) = map (snd \<circ> snd) ws"
      "cm_space_left c = int (j_blocksize s0) - int (tag_off s0 ?N)"
    using inv desc by (auto simp: cm_inv_def cm_part_def tag_off_Suc)
  have tb: "journal_vmsep_tag_bytes s' = journal_vmsep_tag_bytes s0" using same_format_formats(1) [OF fmt] .
  have d': "cm_descriptor ?c = Some (n, add_tag E s0 tid ?N w d)"
    by (simp add: record_tag_def Let_def desc c add_tag_def blk write_tag_format [OF fmt] tb same_format_fields [OF fmt])
  have bufs: "cm_bufs ?c = (n, add_tag E s0 tid ?N w d) # cm_wbuf c @ [(blocknr, snd (snd w))]"
    using d' by (simp add: cm_bufs_def) (simp add: record_tag_def Let_def)
  have old: "cm_bufs c = (n, d) # cm_wbuf c" using desc by (simp add: cm_bufs_def)
  show u: "cm_used bl ?c = Suc (cm_used bl c)" by (simp add: cm_used_def bufs old)
  have rest: "cm_state ?c = s'" "cm_tagp ?c = tag_off s0 (Suc ?N)" "cm_first_tag ?c = False"
    "cm_space_left ?c = int (j_blocksize s0) - int (tag_off s0 (Suc ?N))"
    "cm_wbuf ?c = cm_wbuf c @ [(blocknr, snd (snd w))]"
    by (simp_all add: record_tag_def Let_def c tb tag_off_Suc)
  have "map fst (bl @ cm_bufs c) = map (log_slot s0) [0..<cm_used bl c]" using inv by (simp add: cm_inv_def cm_part_def)
  then have "map fst (bl @ cm_bufs ?c) = map (log_slot s0) [0..<Suc (cm_used bl c)]"
    unfolding bufs old using slot by simp
  then show "cm_part E s0 tid bl items (ws @ [w]) (es @ [w]) ?c"
    using inv l desc_part_add [OF p room fit uuid] c(3)
    by (simp add: cm_part_def cm_inv_def u d' rest)
qed

lemma flush_ok:
  assumes inv: "cm_part E s0 tid bl items (ws @ [w]) es c" and desc: "cm_descriptor c \<noteq> None" and sz: "64 \<le> j_blocksize s0"
  shows "\<exists>bl' item. cm_inv E s0 tid (bl @ bl') (items @ [item]) [] es
      (start_journal_io E (close_descriptor E (tag_off s0 (length ws)) c)) \<and>
    cm_used (bl @ bl') (start_journal_io E (close_descriptor E (tag_off s0 (length ws)) c)) = cm_used bl c \<and>
    same_store (cm_state c) (cm_state (start_journal_io E (close_descriptor E (tag_off s0 (length ws)) c)))"
proof -
  obtain n d where nd: "cm_descriptor c = Some (n, d)" using desc by auto
  have fmt: "same_format s0 (cm_state c)" using cm_partD(2) [OF inv] .
  let ?d = "closed_desc E s0 (tag_off s0 (length ws)) d"
  let ?bl = "(n, ?d) # cm_wbuf c" and ?c = "start_journal_io E (close_descriptor E (tag_off s0 (length ws)) c)"
  let ?item = "Data_item ?d (map (snd \<circ> snd) (ws @ [w]))"
  have p: "desc_part E s0 tid (ws @ [w]) d" and data: "map snd (cm_wbuf c) = map (snd \<circ> snd) (ws @ [w])"
    using inv nd by (auto simp: cm_part_def)
  have bufs: "cm_bufs (close_descriptor E (tag_off s0 (length ws)) c) = ?bl"
    by (simp add: close_descriptor_def cm_bufs_def nd closed_desc_def same_format_formats [OF fmt])
  have c: "cm_descriptor ?c = None" "cm_wbuf ?c = []"
    "cm_state ?c = (cm_state c)\<lparr>log_written := rev ?bl @ log_written (cm_state c)\<rparr>"
    by (simp_all add: start_journal_io_def Let_def bufs) (simp add: close_descriptor_def)
  have used: "cm_used bl c = length bl + length ?bl" by (simp add: cm_used_def cm_bufs_def nd)
  have "logged s0 (length bl + length ?bl) (bl @ ?bl) (cm_state ?c)"
    unfolding c(3) used [symmetric] by (rule logged_write [OF cm_partD(1) [OF inv]])
  moreover have "map fst (bl @ cm_bufs c) = map (log_slot s0) [0..<cm_used bl c]" using inv by (simp add: cm_part_def)
  then have "map fst (bl @ ?bl) = map (log_slot s0) [0..<length bl + length ?bl]"
    unfolding used by (simp add: cm_bufs_def nd)
  moreover have "map snd (bl @ ?bl) = concat (map item_blocks (items @ [?item]))"
    using inv data by (simp add: cm_part_def)
  moreover have "concat (map (item_writes s0) (items @ [?item])) = map tag_entry es"
    using inv closed_desc_item(2) [OF p sz] by (simp add: cm_part_def del: item_writes.simps)
  moreover have "list_all (item_wf E s0 tid) (items @ [?item])" "data_items (items @ [?item])"
    using inv closed_desc_item(1) [OF p sz] by (simp_all add: cm_part_def data_items_def del: item_wf.simps)
  moreover have "cm_used (bl @ ?bl) ?c = length bl + length ?bl" "cm_bufs ?c = []"
    by (simp_all add: cm_used_def cm_bufs_def c)
  ultimately have "cm_inv E s0 tid (bl @ ?bl) (items @ [?item]) [] es ?c"
    unfolding cm_inv_def cm_part_def using c(1,2) by (simp only: append_Nil2 list.map simp_thms option.distinct)
  moreover have "cm_used (bl @ ?bl) ?c = cm_used bl c" by (simp add: used) (simp add: cm_used_def cm_bufs_def c)
  ultimately show ?thesis by (intro exI [of _ ?bl] exI [of _ ?item]) (simp add: c(3))
qed

section \<open>A step of the loop\<close>

definition buffer_ready :: "jstate \<Rightarrow> bhp \<Rightarrow> bool" where
  "buffer_ready s b = (bh_jbddirty (bhs s b) \<and> blocknr_fits s (b_blocknr (bhs s b)))"

lemma write_metadata_step:
  assumes at: "loop_at s0 tid ino t rt (b # bs) sh mv s" and rt: "rt \<noteq> t" and mem: "mem_alloc E"
    and dirty: "bh_jbddirty (bhs s0 b)" and st: "same_store s s1"
  defines "s2 \<equiv> upd_bh b (\<lambda>bh. bh\<lparr>bh_jwrite := True\<rparr>) (get_bh b (add_credits t (- 1) s1))"
  shows "wp (jbd2_vmsep_journal_write_metadata_buffer E s2 t b) no_err (\<lambda>(r, s'). r = Inr (snd (log_entry E s0 b)) \<and>
    loop_at s0 tid ino t rt bs (sh @ [b]) mv s' \<and> b_blocknr (bhs s' b) = b_blocknr (bhs s0 b) \<and> frame s1 s')"
proof -
  have at1: "loop_at s0 tid ino t rt (b # bs) sh mv s1" using loop_at_same_store [OF at st] .
  obtain jh tr where jh: "jhs s1 b = Some jh" "jhs s0 b = Some jh" "b_transaction jh = Some t" "b_jlist jh = BJ_Metadata"
    and b: "bhs s1 b = bhs s0 b"
    and tr: "trs s1 t = Some tr" "t_buffers tr = b # bs" "t_tid tr = tid" "ino_sync tr = ino" and nin: "b \<notin> set bs"
    using loop_atD [OF at1] by blast
  let ?tr = "tr\<lparr>t_outstanding_credits := t_outstanding_credits tr + - 1\<rparr>"
  have s2: "jhs s2 = jhs s1" "trs s2 = (trs s1)(t \<mapsto> ?tr)" "\<forall>c. c \<noteq> b \<longrightarrow> bhs s2 c = bhs s1 c"
    "bh_jbddirty (bhs s2 b) = bh_jbddirty (bhs s0 b)" "b_blocknr (bhs s2 b) = b_blocknr (bhs s0 b)"
    "b_data (bhs s2 b) = b_data (bhs s0 b)" "frame s1 s2"
    by (simp_all add: s2_def get_bh_def add_credits_def tr b)
  have "journal_data E s2 b = journal_data E s0 b" by (simp add: journal_data_def s2 jh split: option.split)
  then have le: "log_entry E s2 b = log_entry E s0 b" by (simp add: log_entry_def s2)
  have "tlist l ?tr = tlist l tr" for l by (cases l) simp_all
  then have "lwf ((trs s1)(t \<mapsto> ?tr)) (jhs s1)"
    using lwf_tr [of "trs s1" "jhs s1" t tr ?tr] at1 tr(1) by (simp add: loop_at_def lists_wf_def)
  then have "lists_wf s2" "refs_wf s2"
    using at1 by (simp_all add: lists_wf_def refs_wf_def loop_at_def s2(1,2) del: fun_upd_apply)
  note wr = write_metadata_ok [OF this, of b jh t ?tr E]
  have ne: "c \<noteq> b" if "c \<in> set bs" for c using that nin by blast
  show ?thesis
    by (rule wp_mono [OF wr])
      (use at1 rt s2 jh tr dirty mem frame_trans [OF s2(7)] in \<open>auto simp: le loop_at_def ne\<close>)
qed

text \<open>With room for another tag and another buffer after the next one the descriptor stays open.\<close>

definition stays_open :: "jstate \<Rightarrow> nat \<Rightarrow> bool" where
  "stays_open s n = (n + 2 \<noteq> j_wbufsize s \<and>
     tag_off s (Suc n) + journal_vmsep_tag_bytes s + 16 + csum_size s \<le> j_blocksize s)"

lemma log_buffer_ok:
  assumes r: "log_ready E s0" and inv: "cm_inv E s0 tid bl items ws es c" and desc: "cm_descriptor c = Some (n, d)"
    and free: "cm_used bl c + 1 < unat (j_free s0)" and at: "loop_at s0 tid ino t rt (b # bs) sh mv (cm_state c)"
    and rt: "rt \<noteq> t" and mem: "mem_alloc E" and b: "buffer_ready s0 b" and uuid: "length (j_uuid s0) = 16"
  shows "\<exists>c' bl' items' ws'. log_buffer E t tid c b = Inr c' \<and>
    cm_inv E s0 tid bl' items' ws' (es @ [log_entry E s0 b]) c' \<and>
    loop_at s0 tid ino t rt bs (sh @ [b]) mv (cm_state c') \<and> cm_used bl' c' = Suc (cm_used bl c) \<and>
    (bs = [] \<longrightarrow> cm_descriptor c' = None) \<and>
    (bs \<noteq> [] \<and> stays_open s0 (length ws) \<longrightarrow> bl' = bl \<and> items' = items \<and> ws' = ws @ [log_entry E s0 b])"
proof -
  let ?s = "cm_state c" and ?w = "log_entry E s0 b"
  let ?s1 = "take_log_block ?s"
  let ?s2 = "upd_bh b (\<lambda>bh. bh\<lparr>bh_jwrite := True\<rparr>) (get_bh b (add_credits t (- 1) ?s1))"
  have l: "logged s0 (cm_used bl c) bl ?s" using inv cm_partD by (auto simp: cm_inv_def)
  have free': "1 < unat (j_free ?s)" using l free by (simp add: logged_def)
  have sz: "64 \<le> j_blocksize s0" using r by (simp add: log_ready_def)
  have nx: "jbd2_vmsep_journal_next_log_block (sb_csum E) ?s = Inr (0, log_slot s0 (cm_used bl c), ?s1)"
    using next_log_block_ok [OF log_readyD [OF r l] free'] log_slot_head [OF l] by simp
  obtain s3 where s3: "jbd2_vmsep_journal_write_metadata_buffer E ?s2 t b = Inr (Inr (snd ?w), s3)"
    "loop_at s0 tid ino t rt bs (sh @ [b]) mv s3" "b_blocknr (bhs s3 b) = b_blocknr (bhs s0 b)" "frame ?s1 s3"
    using write_metadata_step [OF at rt mem _ same_store_log(1)] b by (auto simp: wp_returns buffer_ready_def)
  have l3: "logged s0 (Suc (cm_used bl c)) bl s3" using logged_frame [OF logged_take [OF l free'] s3(4)] .
  let ?c = "record_tag E tid (c\<lparr>cm_state := s3\<rparr>) b (log_slot s0 (cm_used bl c)) (fst (snd ?w)) (snd (snd ?w))"
  have "b_blocknr (bhs s3 b) = fst ?w" "blocknr_fits s0 (fst ?w)"
    using b s3(3) by (simp_all add: log_entry_def Let_def buffer_ready_def)
  note rec = record_tag_ok [OF inv desc l3 this uuid refl]
  have st: "cm_state ?c = s3" and d': "cm_descriptor ?c \<noteq> None" by (simp_all add: record_tag_def Let_def desc)
  have off: "cm_tagp c = tag_off s0 (length ws)" using inv desc by (auto simp: cm_inv_def cm_part_def)
  have "no_more_buffers s3 t = Inr (bs = [])" using s3(2) by (auto simp: no_more_buffers_def loop_at_def)
  then have body: "log_buffer E t tid c b = Inr (if descriptor_full ?c \<or> bs = []
      then start_journal_io E (close_descriptor E (tag_off s0 (length ws)) ?c) else ?c)"
    by (simp add: log_buffer_def nx Let_def s3(1) split_beta off)
  have fmt: "same_format s0 s3" using l3 by (simp add: logged_def)
  have left: "cm_space_left ?c = int (j_blocksize s0) - int (tag_off s0 (Suc (length ws)))"
    and "map snd (cm_wbuf ?c) = map (snd \<circ> snd) (ws @ [?w])" using rec(1) d' by (auto simp: cm_part_def)
  from map_eq_imp_length_eq [OF this(2)] have "length (cm_bufs ?c) = length ws + 2" using d' by (auto simp: cm_bufs_def)
  with left have full: "descriptor_full ?c \<longleftrightarrow> length ws + 2 = j_wbufsize s0 \<or>
      \<not> tag_off s0 (Suc (length ws)) + journal_vmsep_tag_bytes s0 + 16 + csum_size s0 \<le> j_blocksize s0"
    by (auto simp: descriptor_full_def st same_format_formats [OF fmt] same_format_fields [OF fmt])
  show ?thesis
  proof (cases "descriptor_full ?c \<or> bs = []")
    case True
    from flush_ok [OF rec(1) d' sz] obtain bl' item where
      f: "cm_inv E s0 tid (bl @ bl') (items @ [item]) [] (es @ [?w])
          (start_journal_io E (close_descriptor E (tag_off s0 (length ws)) ?c))"
        "cm_used (bl @ bl') (start_journal_io E (close_descriptor E (tag_off s0 (length ws)) ?c)) = cm_used bl ?c"
        "same_store (cm_state ?c) (cm_state (start_journal_io E (close_descriptor E (tag_off s0 (length ws)) ?c)))" by blast
    have "cm_descriptor (start_journal_io E (close_descriptor E (tag_off s0 (length ws)) ?c)) = None"
      by (simp add: start_journal_io_def Let_def)
    moreover have "\<not> (bs \<noteq> [] \<and> stays_open s0 (length ws))" using True full by (auto simp: stays_open_def)
    ultimately show ?thesis using f rec(2) st True body loop_at_same_store [OF s3(2)] by fastforce
  next
    case False
    then have "cm_inv E s0 tid bl items (ws @ [?w]) (es @ [?w]) ?c" using rec(1) full by (simp add: cm_inv_def)
    with False rec(2) st body s3(2) show ?thesis by fastforce
  qed
qed

section \<open>The loop\<close>

text \<open>The buffers that are committed are those of the inode the commit is for.\<close>

definition kept :: "jstate \<Rightarrow> ulong \<Rightarrow> bhp \<Rightarrow> bool" where
  "kept s ino b = (jh_ino (the (jhs s b)) = ino)"

definition loop_ready :: "env \<Rightarrow> jstate \<Rightarrow> ulong \<Rightarrow> bhp list \<Rightarrow> bool" where
  "loop_ready E s ino bs =
     (log_ready E s \<and> mem_alloc E \<and> length (j_uuid s) = 16 \<and>
      (\<forall>b \<in> set bs. if kept s ino b then buffer_ready s b else b_jcount (the (jhs s b)) \<noteq> 1))"

lemma cm_inv_frame:
  assumes "cm_inv E s0 tid bl items ws es c" and "frame (cm_state c) s'"
  shows "cm_inv E s0 tid bl items ws es (c\<lparr>cm_state := s'\<rparr>)"
  using assms logged_frame [OF _ assms(2), of s0] by (auto simp: cm_inv_def cm_part_def cm_used_def cm_bufs_def)

lemma commit_buffer_kept:
  assumes ready: "loop_ready E s0 ino (b # bs)" and k: "kept s0 ino b" and rt: "rt \<noteq> t"
    and inv: "cm_inv E s0 tid bl items ws es c" and at: "loop_at s0 tid ino t rt (b # bs) sh mv (cm_state c)"
    and free: "cm_used bl c + 2 < unat (j_free s0)"
  shows "\<exists>c' bl' items' ws'. commit_buffer E t rt (the (trs (cm_state c) t)) c b = Inr c' \<and>
    cm_inv E s0 tid bl' items' ws' (es @ [log_entry E s0 b]) c' \<and>
    loop_at s0 tid ino t rt bs (sh @ [b]) mv (cm_state c') \<and> cm_used bl' c' \<le> cm_used bl c + 2 \<and>
    (bs = [] \<longrightarrow> cm_descriptor c' = None) \<and>
    (bs \<noteq> [] \<and> stays_open s0 (length ws) \<longrightarrow> bl' = bl \<and> items' = items \<and> ws' = ws @ [log_entry E s0 b])"
proof -
  have r: "log_ready E s0" and mem: "mem_alloc E" and uuid: "length (j_uuid s0) = 16" and b: "buffer_ready s0 b"
    using ready k by (auto simp: loop_ready_def)
  have na: "\<not> is_journal_aborted (cm_state c)"
    using log_readyD [OF r] inv cm_partD(1) by (fastforce simp: cm_inv_def log_ready_def)
  obtain jh tr where jh: "jhs (cm_state c) b = Some jh" "jhs s0 b = Some jh"
    and tr: "trs (cm_state c) t = Some tr" "t_tid tr = tid" "ino_sync tr = ino" using loop_atD [OF at] by blast
  obtain c1 n d where g: "get_descriptor E tid c = Inr (True, c1)" "cm_inv E s0 tid bl items ws es c1"
    "cm_descriptor c1 = Some (n, d)" "cm_used bl c1 \<le> cm_used bl c + 1" "same_store (cm_state c) (cm_state c1)"
    using get_descriptor_ok [OF r inv] free by auto
  have "cm_used bl c1 + 1 < unat (j_free s0)" using g(4) free by simp
  from log_buffer_ok [OF r g(2,3) this loop_at_same_store [OF at g(5)] rt mem b uuid]
  obtain c' bl' items' ws' where "log_buffer E t tid c1 b = Inr c'"
    "cm_inv E s0 tid bl' items' ws' (es @ [log_entry E s0 b]) c'"
    "loop_at s0 tid ino t rt bs (sh @ [b]) mv (cm_state c')" "cm_used bl' c' = Suc (cm_used bl c1)"
    "bs = [] \<longrightarrow> cm_descriptor c' = None"
    "bs \<noteq> [] \<and> stays_open s0 (length ws) \<longrightarrow> bl' = bl \<and> items' = items \<and> ws' = ws @ [log_entry E s0 b]" by blast
  then show ?thesis using g(1,4) k na jh tr
    by (intro exI [of _ c'] exI [of _ bl'] exI [of _ items'] exI [of _ ws'])
      (simp add: commit_buffer_def kept_def)
qed

lemma commit_buffer_moved:
  assumes ready: "loop_ready E s0 ino (b # bs)" and k: "\<not> kept s0 ino b" and rt: "rt \<noteq> t"
    and inv: "cm_inv E s0 tid bl items ws es c" and at: "loop_at s0 tid ino t rt (b # bs) sh mv (cm_state c)"
  shows "\<exists>s'. commit_buffer E t rt (the (trs (cm_state c) t)) c b = Inr (c\<lparr>cm_state := s'\<rparr>) \<and>
    cm_inv E s0 tid bl items ws es (c\<lparr>cm_state := s'\<rparr>) \<and> loop_at s0 tid ino t rt bs sh (mv @ [b]) s'"
proof -
  obtain jh tr where jh: "jhs (cm_state c) b = Some jh" "jhs s0 b = Some jh"
    and tr: "trs (cm_state c) t = Some tr" "t_tid tr = tid" "ino_sync tr = ino" using loop_atD [OF at] by blast
  have "b_jcount (the (jhs s0 b)) \<noteq> 1" using ready k by (auto simp: loop_ready_def)
  from separate_step [OF at this rt] obtain s' where "separate_buffer (cm_state c) b rt = Inr s'"
    "loop_at s0 tid ino t rt bs sh (mv @ [b]) s'" "frame (cm_state c) s'" by (auto simp: wp_returns)
  then show ?thesis using k jh tr cm_inv_frame [OF inv]
    by (intro exI [of _ s']) (simp add: commit_buffer_def kept_def)
qed

lemma commit_loop_ok:
  assumes rt: "rt \<noteq> t"
  shows "loop_ready E s0 ino bs \<Longrightarrow> cm_inv E s0 tid bl items ws es c \<Longrightarrow>
    loop_at s0 tid ino t rt bs sh mv (cm_state c) \<Longrightarrow>
    cm_used bl c + 2 * length (filter (kept s0 ino) bs) < unat (j_free s0) \<Longrightarrow>
    \<exists>c' bl' items' ws'. commit_loop E t rt c = Some (Inr c') \<and>
      cm_inv E s0 tid bl' items' ws' (es @ map (log_entry E s0) (filter (kept s0 ino) bs)) c' \<and>
      loop_at s0 tid ino t rt [] (sh @ filter (kept s0 ino) bs) (mv @ filter (\<lambda>b. \<not> kept s0 ino b) bs) (cm_state c') \<and>
      cm_used bl' c' \<le> cm_used bl c + 2 * length (filter (kept s0 ino) bs) \<and>
      (bs = [] \<longrightarrow> cm_descriptor c' = cm_descriptor c) \<and>
      (bs \<noteq> [] \<longrightarrow> kept s0 ino (last bs) \<longrightarrow> cm_descriptor c' = None)"
proof (induction bs arbitrary: bl items ws es c sh mv)
  case Nil
  then have "commit_loop E t rt c = Some (Inr c)"
    by (subst commit_loop.simps) (auto simp: loop_at_def)
  with Nil show ?case by auto
next
  case (Cons b bs)
  have ready: "loop_ready E s0 ino bs" using Cons.prems(1) by (simp add: loop_ready_def)
  obtain tr where tr: "trs (cm_state c) t = Some tr" "t_buffers tr = b # bs" using loop_atD [OF Cons.prems(3)] by blast
  have step: "commit_loop E t rt c = commit_loop E t rt c1"
    if "commit_buffer E t rt (the (trs (cm_state c) t)) c b = Inr c1" for c1
    using that tr by (subst commit_loop.simps) simp
  show ?case
  proof (cases "kept s0 ino b")
    case True
    obtain c1 bl1 items1 ws1 where c1: "commit_buffer E t rt (the (trs (cm_state c) t)) c b = Inr c1"
      "cm_inv E s0 tid bl1 items1 ws1 (es @ [log_entry E s0 b]) c1"
      "loop_at s0 tid ino t rt bs (sh @ [b]) mv (cm_state c1)" "cm_used bl1 c1 \<le> cm_used bl c + 2"
      "bs = [] \<longrightarrow> cm_descriptor c1 = None"
      using commit_buffer_kept [OF Cons.prems(1) True rt Cons.prems(2,3)] Cons.prems(4) True by auto
    have "cm_used bl1 c1 + 2 * length (filter (kept s0 ino) bs) < unat (j_free s0)"
      using c1(4) Cons.prems(4) True by simp
    from Cons.IH [OF ready c1(2,3) this] show ?thesis
      unfolding step [OF c1(1)] using True c1(4,5) by (fastforce split: if_splits)
  next
    case False
    obtain s' where s': "commit_buffer E t rt (the (trs (cm_state c) t)) c b = Inr (c\<lparr>cm_state := s'\<rparr>)"
      "cm_inv E s0 tid bl items ws es (c\<lparr>cm_state := s'\<rparr>)" "loop_at s0 tid ino t rt bs sh (mv @ [b]) s'"
      using commit_buffer_moved [OF Cons.prems(1) False rt Cons.prems(2,3)] by blast
    have "cm_used bl (c\<lparr>cm_state := s'\<rparr>) + 2 * length (filter (kept s0 ino) bs) < unat (j_free s0)"
      using Cons.prems(4) False by (simp add: cm_used_def cm_bufs_def)
    from Cons.IH [OF ready s'(2) _ this, of sh "mv @ [b]"] s'(3) show ?thesis
      unfolding step [OF s'(1)] using False
      by (fastforce split: if_splits simp: cm_used_def [of bl] cm_bufs_def)
  qed
qed

section \<open>From the revoke records to the commit record\<close>

lemma item_format:
  assumes "same_format s s'"
  shows "item_wf E s' tid i = item_wf E s tid i" "item_writes s' i = item_writes s i"
    "item_revokes s' i = item_revokes s i"
proof -
  note f = same_format_formats [OF assms] same_format_fields [OF assms] tags_from_format [OF assms]
  have "tag_write s' = tag_write s" by (intro ext) (simp add: tag_write_def f)
  then show "item_wf E s' tid i = item_wf E s tid i" "item_writes s' i = item_writes s i"
    "item_revokes s' i = item_revokes s i"
    by (cases i; simp add: f)+
qed

lemma take_log_blocks_shift:
  assumes "logged s0 k bl s"
  shows "j_head ((take_log_block ^^ n) s) = j_head ((take_log_block ^^ (k + n)) s0)"
proof (induction n)
  case 0
  then show ?case using assms by (simp add: logged_def)
next
  case (Suc n)
  have fmt: "same_format s0 s" using assms by (simp add: logged_def)
  show ?case using Suc by (simp add: take_log_block_head_eq take_log_blocks_same same_format_fields [OF fmt])
qed

lemma log_slot_shift:
  assumes "logged s0 k bl s"
  shows "log_slot s n = log_slot s0 (k + n)"
  using take_log_blocks_shift [OF assms, of n] same_format_formats(8) [of s0 s] assms
  by (simp add: log_slot_def logged_def)

lemma logged_trans:
  assumes "logged s0 k bl s" and "logged s k' bl' s'"
  shows "logged s0 (k + k') (bl @ bl') s'"
  using assms take_log_blocks_shift [OF assms(1), of k'] same_format_trans [of s0 s s'] by (simp add: logged_def)

definition data_ready :: "env \<Rightarrow> jstate \<Rightarrow> trp \<Rightarrow> inop list \<Rightarrow> bool" where
  "data_ready E s t is = (\<forall>i \<in> set is. submit_data E i = 0 \<and>
     (\<exists>ino. inodes s i = Some ino \<and> (ji_write_data ino \<longrightarrow> i_transaction ino = Some t)))"

lemma submit_data_ok:
  "data_ready E s t is \<Longrightarrow> \<exists>I. submit_data_loop E t s 0 is = Inr (0, s\<lparr>inodes := I\<rparr>)"
proof (induction "is" arbitrary: s)
  case Nil
  show ?case by (intro exI [of _ "inodes s"]) simp
next
  case (Cons i "is")
  then obtain ino where i: "inodes s i = Some ino" "ji_write_data ino \<longrightarrow> i_transaction ino = Some t" "submit_data E i = 0"
    by (auto simp: data_ready_def)
  let ?s = "upd_inode i (\<lambda>ino. ino\<lparr>ji_commit_running := False\<rparr>) s"
  have "data_ready E ?s t is" using Cons.prems by (auto simp: data_ready_def upd_inode_def split: option.splits)
  from Cons.IH [OF this] obtain I where I: "submit_data_loop E t ?s 0 is = Inr (0, s\<lparr>inodes := I\<rparr>)"
    by (auto simp: upd_inode_def)
  have "data_ready E s t is" using Cons.prems by (simp add: data_ready_def)
  with Cons.IH [of s] I i show ?case by (cases "ji_write_data ino") (auto simp: with_inode_def)
qed

lemma commit_block_ok:
  assumes sz: "64 \<le> j_blocksize s" and fmt: "same_format s0 s"
  shows "has_header (commit_block E s crc (new_block s JBD2_COMMIT_BLOCK tid)) JBD2_COMMIT_BLOCK tid"
    "jbd2_commit_block_csum_verify E s0 (commit_block E s crc (new_block s JBD2_COMMIT_BLOCK tid))"
proof -
  let ?d = "store_bytes (store_bytes (new_block s JBD2_COMMIT_BLOCK tid) 48 (be_enc 8 (unat (now_sec E)))) 56
    (be_enc 4 (unat (now_nsec E)))"
  define d where "d = (if jbd2_has_feature_checksum s
    then store_bytes (store_bytes ?d 12 [1, 4]) 16 (be_enc 4 (unat crc)) else ?d)"
  have h: "headed s JBD2_COMMIT_BLOCK tid d"
    unfolding d_def using sz by (auto intro!: headed_store headed_new)
  have cb: "commit_block E s crc (new_block s JBD2_COMMIT_BLOCK tid) = jbd2_commit_block_csum_set E s d"
    by (simp add: commit_block_def d_def Let_def)
  have "headed s JBD2_COMMIT_BLOCK tid (jbd2_commit_block_csum_set E s d)"
    unfolding jbd2_commit_block_csum_set_def Let_def using h sz by (auto intro!: headed_store)
  then show "has_header (commit_block E s crc (new_block s JBD2_COMMIT_BLOCK tid)) JBD2_COMMIT_BLOCK tid"
    unfolding cb by (rule headed_has_header)
  have "64 \<le> length d" using h sz by (simp add: headed_def)
  then show "jbd2_commit_block_csum_verify E s0 (commit_block E s crc (new_block s JBD2_COMMIT_BLOCK tid))"
    unfolding cb using commit_csum_set_verify [of d E s] by (simp only: same_format_formats(10) [OF fmt])
qed

lemma commit_record_ok:
  assumes r: "log_ready E s0" and l: "logged s0 k bl s" and free: "k + 1 < unat (j_free s0)"
    and tr: "trs s t = Some tr" and ok: "\<And>n. submit_bh E n = 0"
  shows "\<exists>s' d. commit_record E s t crc = Inr (0, Some (log_slot s0 k), s') \<and>
    logged s0 (Suc k) (bl @ [(log_slot s0 k, d)]) s' \<and> same_store s s' \<and>
    has_header d JBD2_COMMIT_BLOCK (t_tid tr) \<and> jbd2_commit_block_csum_verify E s0 d"
proof -
  have free': "1 < unat (j_free s)" using l free by (simp add: logged_def)
  have r': "log_ready E s" using log_readyD [OF r l] .
  let ?s = "take_log_block s"
  let ?d = "commit_block E ?s crc (new_block s JBD2_COMMIT_BLOCK (t_tid tr))"
  have l': "logged s0 (Suc k) bl ?s" using logged_take [OF l free'] .
  have fmt: "same_format s0 ?s" and sz: "64 \<le> j_blocksize ?s"
    using l' log_readyD [OF r l'] by (simp_all add: logged_def log_ready_def)
  have nb: "new_block s JBD2_COMMIT_BLOCK (t_tid tr) = new_block ?s JBD2_COMMIT_BLOCK (t_tid tr)"
    by (rule new_block_format [OF take_log_block_format, symmetric])
  have na: "\<not> is_journal_aborted s" using r' by (simp add: log_ready_def)
  have "commit_record E s t crc = Inr (0, Some (log_slot s0 k), ?s\<lparr>log_written := (log_slot s0 k, ?d) # log_written ?s\<rparr>)"
    using get_descriptor_buffer_ok [OF r' free', of "t_tid tr" JBD2_COMMIT_BLOCK] na log_slot_head [OF l]
    by (simp add: commit_record_def tr journal_submit_commit_record_def ok)
  moreover have "logged s0 (Suc k) (bl @ [(log_slot s0 k, ?d)]) (?s\<lparr>log_written := (log_slot s0 k, ?d) # log_written ?s\<rparr>)"
    using logged_write [OF l', of "[(log_slot s0 k, ?d)]"] by simp
  moreover have "has_header ?d JBD2_COMMIT_BLOCK (t_tid tr)" "jbd2_commit_block_csum_verify E s0 ?d"
    unfolding nb using commit_block_ok [OF sz fmt] by simp_all
  ultimately show ?thesis using same_store_trans [OF same_store_log(1) same_store_log(2)] by blast
qed

end
