(* ===== verification/Jbd2_CommitReplay.thy ===== *)
theory Jbd2_CommitReplay
  imports Jbd2_CommitLog
begin

text \<open>
  The commit and recovery together: what \<open>commit_start_logging\<close>, \<open>commit_loop\<close> and \<open>commit_record\<close> of
  \<open>Jbd2_Commit\<close> write to the log is one well-formed transaction of \<open>Jbd2_Replay\<close>, whose writes are
  the buffers of the inode the commit is for.
\<close>

section \<open>The hypotheses on the state before a commit writes\<close>

text \<open>
  The transaction \<open>tr\<close> at \<open>t\<close> is committed and \<open>rt\<close> takes the buffers of other inodes; \<open>tb\<close> is the
  revoke table of the transaction. There is room in the log for a block for every revoke record,
  two blocks for every buffer of the inode and the commit record, and the input and output
  succeeds. A buffer of another inode has a reference other than that of the transaction (\<open>loop_ready\<close>): without
  one, moving it accesses a freed journal head.
\<close>

definition commit_ready :: "env \<Rightarrow> jstate \<Rightarrow> trp \<Rightarrow> trp \<Rightarrow> transaction_t \<Rightarrow> revoke_table \<Rightarrow> bool" where
  "commit_ready E s t rt tr tb =
     (lists_wf s \<and> refs_wf s \<and> rt \<noteq> t \<and> trs s rt \<noteq> None \<and> trs s t = Some tr \<and>
      t_nr_buffers tr \<le> t_outstanding_credits tr \<and> data_ready E s t (t_inode_list tr) \<and>
      (\<forall>n. submit_bh E n = 0) \<and> j_blocksize s < 2 ^ 32 \<and>
      revoke_table_of s (j_revoke s = Some False) = Some tb \<and>
      (\<forall>x \<in> set (concat (hash_table tb)). blocknr_fits s (rr_blocknr x)) \<and>
      loop_ready E s (ino_sync tr) (t_buffers tr) \<and>
      (\<forall>b \<in> set (t_buffers tr). kept s (ino_sync tr) b \<longrightarrow> 4 \<le> length (journal_data E s b)) \<and>
      length (concat (hash_table tb)) + 2 * length (filter (kept s (ino_sync tr)) (t_buffers tr)) + 1 <
        unat (j_free s))"

definition new_committer :: "jstate \<Rightarrow> u64 list \<Rightarrow> u64 list \<Rightarrow> committer" where
  "new_committer s submitted log_bufs = \<lparr>cm_state = s, cm_descriptor = None, cm_wbuf = [], cm_tagp = 0,
     cm_space_left = 0, cm_first_tag = False, cm_crc = - 1, cm_submitted = submitted, cm_io_bufs = [],
     cm_log_bufs = log_bufs\<rparr>"

section \<open>The start of the log\<close>

text \<open>The state in which the loop starts is the one before as far as the loop is concerned.\<close>

definition same_buffers :: "jstate \<Rightarrow> jstate \<Rightarrow> bool" where
  "same_buffers s s' = (same_format s s' \<and> jhs s' = jhs s \<and> bhs s' = bhs s)"

lemma same_buffers_eq:
  assumes "same_buffers s s'"
  shows "kept s' = kept s" "journal_data E s' = journal_data E s" "log_entry E s' = log_entry E s"
    "buffer_ready s' = buffer_ready s"
proof -
  have f: "same_format s s'" and b: "jhs s' = jhs s" "bhs s' = bhs s" using assms by (simp_all add: same_buffers_def)
  show "kept s' = kept s" by (simp add: fun_eq_iff kept_def b)
  show "journal_data E s' = journal_data E s" by (simp add: fun_eq_iff journal_data_def b split: option.split)
  then show "log_entry E s' = log_entry E s" by (simp add: fun_eq_iff log_entry_def b)
  show "buffer_ready s' = buffer_ready s"
    by (simp add: fun_eq_iff buffer_ready_def blocknr_fits_def b same_format_fields [OF f])
qed

lemma commit_start_logging_ok:
  assumes r: "commit_ready E s t rt tr tb"
  shows "\<exists>s' sub bl. commit_start_logging E s t = Inr (new_committer s' sub (map fst bl)) \<and>
    logged s (length bl) bl s' \<and> same_buffers s s' \<and> lists_wf s' \<and> refs_wf s' \<and>
    trs s' = (trs s)(t \<mapsto> tr\<lparr>t_state := T_COMMIT\<rparr>) \<and> map fst bl = map (log_slot s) [0..<length bl] \<and>
    list_all (item_wf E s (t_tid tr)) (revoke_items bl) \<and>
    concat (map (item_revokes s) (revoke_items bl)) = map rr_blocknr (concat (hash_table tb)) \<and>
    length bl \<le> length (concat (hash_table tb))"
proof -
  have tr: "trs s t = Some tr" and cr: "t_nr_buffers tr \<le> t_outstanding_credits tr"
    and data: "data_ready E s t (t_inode_list tr)" and big: "j_blocksize s < 2 ^ 32"
    and tb: "revoke_table_of s (j_revoke s = Some False) = Some tb"
    and fit: "\<forall>x \<in> set (concat (hash_table tb)). blocknr_fits s (rr_blocknr x)"
    and ready: "log_ready E s" and free: "length (concat (hash_table tb)) + 1 \<le> unat (j_free s)"
    and wf: "lwf (trs s) (jhs s)" and refs: "refs_wf s"
    using r by (auto simp: commit_ready_def loop_ready_def lists_wf_def)
  obtain I where I: "journal_submit_data_buffers E s t = Inr (0, s\<lparr>inodes := I\<rparr>)"
    using submit_data_ok [OF data] tr by (auto simp: journal_submit_data_buffers_def)
  let ?s1 = "s\<lparr>inodes := I\<rparr>"
  have l1: "logged s 0 [] ?s1" by (simp add: logged_def same_format_def)
  have f1: "same_format s ?s1" by (simp add: same_format_def)
  have "blocknr_fits ?s1 = blocknr_fits s" by (simp add: fun_eq_iff blocknr_fits_def same_format_fields [OF f1])
  moreover have "revoke_table_of ?s1 (j_revoke ?s1 = Some False) = Some tb" using tb by (auto simp: revoke_table_of_def split: if_splits)
  ultimately obtain s2 bl where w: "jbd2_vmsep_journal_write_revoke_records E ?s1 (t_tid tr) [] = Inr (map fst bl, s2)"
    and l2: "logged ?s1 (length bl) bl s2" and st: "same_store ?s1 s2"
    and bl: "map fst bl = map (log_slot ?s1) [0..<length bl]" "list_all (item_wf E ?s1 (t_tid tr)) (revoke_items bl)"
      "concat (map (item_revokes ?s1) (revoke_items bl)) = map rr_blocknr (concat (hash_table tb))"
      "length bl \<le> length (concat (hash_table tb))"
    using write_revoke_ok [OF log_readyD [OF ready l1], of tb "t_tid tr"] big free fit by auto
  let ?s3 = "upd_tr t (\<lambda>tr. tr\<lparr>t_state := T_COMMIT\<rparr>) s2"
  have stores: "trs ?s3 = (trs s)(t \<mapsto> tr\<lparr>t_state := T_COMMIT\<rparr>)" "jhs ?s3 = jhs s" "bhs ?s3 = bhs s"
    using st tr by (simp_all add: same_store_def)
  have l3: "logged s (length bl) bl ?s3"
    using logged_frame [OF logged_trans [OF l1 l2], of ?s3] by simp
  have "tlist l (tr\<lparr>t_state := T_COMMIT\<rparr>) = tlist l tr" for l by (cases l) simp_all
  then have "lists_wf ?s3" "refs_wf ?s3"
    unfolding lists_wf_def refs_wf_def stores
    using lwf_tr [OF wf tr, of "tr\<lparr>t_state := T_COMMIT\<rparr>"] refs [unfolded refs_wf_def] by simp_all
  moreover have "log_slot ?s1 = log_slot s" using log_slot_shift [OF l1] by (simp add: fun_eq_iff)
  moreover have "commit_start_logging E s t = Inr (new_committer ?s3 (new_blocks ?s1 ?s3) (map fst bl))"
    using cr stores(1) tr st
    by (simp add: commit_start_logging_def I w new_committer_def Let_def J_ASSERT_def same_store_def)
  moreover have "same_buffers s ?s3" using l3 stores by (simp add: same_buffers_def logged_def)
  moreover have "item_wf E ?s1 = item_wf E s" "item_revokes ?s1 = item_revokes s"
    by (intro ext, rule item_format [OF f1])+
  ultimately show ?thesis using l3 stores(1) bl by metis
qed

lemma loop_start:
  assumes r: "commit_ready E s t rt tr tb" and l: "logged s k bl s'" and b: "same_buffers s s'"
    and wf: "lists_wf s'" "refs_wf s'" and trs: "trs s' = (trs s)(t \<mapsto> tr\<lparr>t_state := T_COMMIT\<rparr>)"
  shows "loop_ready E s' (ino_sync tr) (t_buffers tr)"
    "loop_at s' (t_tid tr) (ino_sync tr) t rt (t_buffers tr) (t_shadow_list tr) (t_buffers (the (trs s rt))) s'"
    "cm_inv E s' (t_tid tr) [] [] [] [] (new_committer s' sub lb)"
proof -
  have ready: "loop_ready E s (ino_sync tr) (t_buffers tr)" using r by (simp add: commit_ready_def)
  have f: "same_format s s'" "jhs s' = jhs s" using b by (simp_all add: same_buffers_def)
  have "log_ready E s'" using log_readyD [OF _ l] ready by (simp add: loop_ready_def)
  then show "loop_ready E s' (ino_sync tr) (t_buffers tr)"
    using ready by (simp add: loop_ready_def same_buffers_eq [OF b] same_format_fields [OF f(1)] f(2))
  show "loop_at s' (t_tid tr) (ino_sync tr) t rt (t_buffers tr) (t_shadow_list tr) (t_buffers (the (trs s rt))) s'"
    using wf r by (auto simp: loop_at_def trs commit_ready_def)
  show "cm_inv E s' (t_tid tr) [] [] [] [] (new_committer s' sub lb)"
    by (simp add: cm_inv_def cm_part_def new_committer_def cm_used_def cm_bufs_def logged_refl data_items_def)
qed

section \<open>The transaction in the log\<close>

lemma data_items_revokes: "data_items items \<Longrightarrow> concat (map (item_revokes s) items) = []"
  by (auto simp: data_items_def)

lemma revoke_items_writes: "concat (map (item_writes s) (revoke_items bl)) = []"
  by (induction bl) (auto simp: revoke_items_def)

lemma revoke_items_blocks: "concat (map item_blocks (revoke_items bl)) = map snd bl"
  by (induction bl) (auto simp: revoke_items_def)

lemma commit_loop_start:
  assumes r: "commit_ready E s t rt tr tb" and l: "logged s k bl0 s1" and b: "same_buffers s s1"
    and wf: "lists_wf s1" "refs_wf s1" and trs: "trs s1 = (trs s)(t \<mapsto> tr\<lparr>t_state := T_COMMIT\<rparr>)"
    and k: "k \<le> length (concat (hash_table tb))"
    and last: "t_buffers tr = [] \<or> kept s (ino_sync tr) (last (t_buffers tr))"
  shows "\<exists>c bl items. commit_loop E t rt (new_committer s1 sub lb) = Some (Inr c) \<and>
    logged s1 (length bl) bl (cm_state c) \<and> map fst bl = map (log_slot s1) [0..<length bl] \<and>
    map snd bl = concat (map item_blocks items) \<and> list_all (item_wf E s1 (t_tid tr)) items \<and> data_items items \<and>
    concat (map (item_writes s1) items) =
      map (tag_entry \<circ> log_entry E s) (filter (kept s (ino_sync tr)) (t_buffers tr)) \<and>
    length bl \<le> 2 * length (filter (kept s (ino_sync tr)) (t_buffers tr)) \<and>
    loop_at s1 (t_tid tr) (ino_sync tr) t rt [] (t_shadow_list tr @ filter (kept s (ino_sync tr)) (t_buffers tr))
      (t_buffers (the (trs s rt)) @ filter (\<lambda>b. \<not> kept s (ino_sync tr) b) (t_buffers tr)) (cm_state c)"
proof -
  let ?c0 = "new_committer s1 sub lb" and ?keep = "filter (kept s (ino_sync tr)) (t_buffers tr)"
  note start = loop_start [OF r l b wf trs]
  have eq: "kept s1 = kept s" "log_entry E s1 = log_entry E s" using same_buffers_eq [OF b] by simp_all
  have c0: "cm_used [] ?c0 = 0" "cm_state ?c0 = s1" "cm_descriptor ?c0 = None"
    by (simp_all add: cm_used_def cm_bufs_def new_committer_def)
  have "length (concat (hash_table tb)) + 2 * length ?keep + 1 < unat (j_free s)" using r by (simp add: commit_ready_def)
  moreover have "unat (j_free s1) = unat (j_free s) - k" using l by (simp add: logged_def)
  ultimately have "2 * length ?keep < unat (j_free s1)" using k by linarith
  then have free: "cm_used [] ?c0 + 2 * length (filter (kept s1 (ino_sync tr)) (t_buffers tr)) < unat (j_free s1)"
    by (simp add: eq c0)
  have rt: "rt \<noteq> t" using r by (simp add: commit_ready_def)
  have at: "loop_at s1 (t_tid tr) (ino_sync tr) t rt (t_buffers tr) (t_shadow_list tr) (t_buffers (the (trs s rt)))
      (cm_state ?c0)" using start(2) by (simp add: c0)
  obtain c bl items ws where c: "commit_loop E t rt ?c0 = Some (Inr c)"
    "cm_inv E s1 (t_tid tr) bl items ws ([] @ map (log_entry E s) ?keep) c"
    "loop_at s1 (t_tid tr) (ino_sync tr) t rt [] (t_shadow_list tr @ ?keep) (t_buffers (the (trs s rt)) @
        filter (\<lambda>b. \<not> kept s (ino_sync tr) b) (t_buffers tr)) (cm_state c)"
    "cm_used bl c \<le> cm_used [] ?c0 + 2 * length ?keep"
    "t_buffers tr = [] \<longrightarrow> cm_descriptor c = cm_descriptor ?c0"
    "t_buffers tr \<noteq> [] \<longrightarrow> kept s (ino_sync tr) (last (t_buffers tr)) \<longrightarrow> cm_descriptor c = None"
    using commit_loop_ok [OF rt start(1) start(3) at free, unfolded eq] by blast
  have none: "cm_descriptor c = None" using c(5,6) last c0(3) by (cases "t_buffers tr = []") simp_all
  then have "cm_bufs c = []" "ws = []" using c(2) by (auto simp: cm_inv_def cm_part_def cm_bufs_def)
  with c(1-4) show ?thesis
    by (intro exI [of _ c] exI [of _ bl] exI [of _ items]) (simp add: cm_inv_def cm_part_def cm_used_def [of bl] c0)
qed

lemma tx_of_items:
  assumes fmt: "same_format s s1" and it0: "list_all (item_wf E s tid) (revoke_items bl0)"
    and it: "map snd bl = concat (map item_blocks items)" "list_all (item_wf E s1 tid) items" "data_items items"
    and d: "has_header d JBD2_COMMIT_BLOCK tid" "jbd2_commit_block_csum_verify E s d"
  defines "tx \<equiv> (revoke_items bl0 @ items, d)"
  shows "tx_wf E s tid tx" "tx_writes s tx = concat (map (item_writes s1) items)"
    "tx_revokes s tx = concat (map (item_revokes s) (revoke_items bl0))"
    "tx_blocks tx = map snd (bl0 @ bl @ [(n, d)])"
proof -
  have "item_wf E s1 tid = item_wf E s tid" by (intro ext, rule item_format [OF fmt])
  then show "tx_wf E s tid tx" using it0 it(2) d by (simp add: tx_wf_def tx_def)
  have "item_writes s1 = item_writes s" by (intro ext, rule item_format [OF fmt])
  then show "tx_writes s tx = concat (map (item_writes s1) items)"
    using revoke_items_writes [of s bl0] by (simp add: tx_writes_def tx_def del: concat_eq_Nil_conv)
  show "tx_revokes s tx = concat (map (item_revokes s) (revoke_items bl0))"
    using data_items_revokes [OF it(3), of s] by (simp add: tx_revokes_def tx_def del: concat_eq_Nil_conv)
  show "tx_blocks tx = map snd (bl0 @ bl @ [(n, d)])"
    using revoke_items_blocks [of bl0] it(1) by (simp add: tx_blocks_def tx_def)
qed

lemma zip_slots: "map fst xs = map f [0..<length xs] \<Longrightarrow> xs = zip (map f [0..<length (map snd xs)]) (map snd xs)"
  by (metis zip_map_fst_snd length_map)

lemma logged_written: "logged s k bl s' \<Longrightarrow> log_written s' = rev bl @ log_written s"
  by (simp add: logged_def)

lemma slots_append:
  assumes l: "logged s (length bl0) bl0 s1" and bl0: "map fst bl0 = map (log_slot s) [0..<length bl0]"
    and bl: "map fst bl = map (log_slot s1) [0..<length bl]"
  shows "map fst (bl0 @ bl) = map (log_slot s) [0..<length bl0 + length bl]"
proof -
  have "map (log_slot s1) [0..<length bl] = map (log_slot s) [length bl0..<length bl0 + length bl]"
    by (rule nth_equalityI) (simp_all add: log_slot_shift [OF l])
  then show ?thesis using upt_add_eq_append [of 0 "length bl0" "length bl"] bl0 bl by simp
qed

lemma commit_logs_ok:
  assumes r: "commit_ready E s t rt tr tb"
    and last: "t_buffers tr = [] \<or> kept s (ino_sync tr) (last (t_buffers tr))"
  shows "\<exists>c0 c blk s' tx. commit_start_logging E s t = Inr c0 \<and> commit_loop E t rt c0 = Some (Inr c) \<and>
    commit_record E (cm_state c) t (cm_crc c) = Inr (0, Some blk, s') \<and>
    tx_wf E s (t_tid tr) tx \<and> length (tx_blocks tx) < unat (j_free s) \<and>
    tx_writes s tx = map (\<lambda>b. (b_blocknr (bhs s b), journal_data E s b))
      (filter (kept s (ino_sync tr)) (t_buffers tr)) \<and>
    tx_revokes s tx = map rr_blocknr (concat (hash_table tb)) \<and>
    logged s (length (tx_blocks tx)) (zip (map (log_slot s) [0..<length (tx_blocks tx)]) (tx_blocks tx)) s' \<and>
    t_buffers (the (trs s' t)) = [] \<and>
    t_buffers (the (trs s' rt)) = t_buffers (the (trs s rt)) @ filter (\<lambda>b. \<not> kept s (ino_sync tr) b) (t_buffers tr)"
proof -
  let ?keep = "filter (kept s (ino_sync tr)) (t_buffers tr)"
  obtain s1 sub bl0 where c0: "commit_start_logging E s t = Inr (new_committer s1 sub (map fst bl0))"
    and l1: "logged s (length bl0) bl0 s1" and b1: "same_buffers s s1" and wf1: "lists_wf s1" "refs_wf s1"
    and trs1: "trs s1 = (trs s)(t \<mapsto> tr\<lparr>t_state := T_COMMIT\<rparr>)" and slots0: "map fst bl0 = map (log_slot s) [0..<length bl0]"
    and it0: "list_all (item_wf E s (t_tid tr)) (revoke_items bl0)"
      "concat (map (item_revokes s) (revoke_items bl0)) = map rr_blocknr (concat (hash_table tb))"
    and len0: "length bl0 \<le> length (concat (hash_table tb))"
    using commit_start_logging_ok [OF r] by blast
  obtain c bl items where c: "commit_loop E t rt (new_committer s1 sub (map fst bl0)) = Some (Inr c)"
    and l2: "logged s1 (length bl) bl (cm_state c)" and slots: "map fst bl = map (log_slot s1) [0..<length bl]"
    and it: "map snd bl = concat (map item_blocks items)" "list_all (item_wf E s1 (t_tid tr)) items" "data_items items"
      "concat (map (item_writes s1) items) = map (tag_entry \<circ> log_entry E s) ?keep"
    and len: "length bl \<le> 2 * length ?keep"
    and at: "loop_at s1 (t_tid tr) (ino_sync tr) t rt [] (t_shadow_list tr @ ?keep) (t_buffers (the (trs s rt)) @
        filter (\<lambda>b. \<not> kept s (ino_sync tr) b) (t_buffers tr)) (cm_state c)"
    using commit_loop_start [OF r l1 b1 wf1 trs1 len0 last, of sub "map fst bl0"] by blast
  have l: "logged s (length bl0 + length bl) (bl0 @ bl) (cm_state c)" using logged_trans [OF l1 l2] .
  obtain tr2 where tr2: "trs (cm_state c) t = Some tr2" "t_tid tr2 = t_tid tr" using at by (auto simp: loop_at_def)
  have free: "length bl0 + length bl + 1 < unat (j_free s)" and ok: "\<And>n. submit_bh E n = 0" and ready: "log_ready E s"
    using r len0 len by (auto simp: commit_ready_def loop_ready_def)
  obtain s' d where cr: "commit_record E (cm_state c) t (cm_crc c) = Inr (0, Some (log_slot s (length bl0 + length bl)), s')"
    and l': "logged s (Suc (length bl0 + length bl)) ((bl0 @ bl) @ [(log_slot s (length bl0 + length bl), d)]) s'"
    and st: "same_store (cm_state c) s'" and d: "has_header d JBD2_COMMIT_BLOCK (t_tid tr)" "jbd2_commit_block_csum_verify E s d"
    using commit_record_ok [OF ready l free tr2(1) ok, of "cm_crc c"] tr2(2) by auto
  let ?n = "log_slot s (length bl0 + length bl)" and ?tx = "(revoke_items bl0 @ items, d)"
  have fmt: "same_format s s1" using l1 by (simp add: logged_def)
  note tx = tx_of_items [OF fmt it0(1) it(1-3) d]
  have "\<forall>b \<in> set ?keep. 4 \<le> length (journal_data E s b)" using r by (auto simp: commit_ready_def)
  then have "tx_writes s ?tx = map (\<lambda>b. (b_blocknr (bhs s b), journal_data E s b)) ?keep"
    unfolding tx(2) it(4) by (intro map_cong) (simp_all add: tag_entry_log_entry)
  moreover have "map fst (bl0 @ bl @ [(?n, d)]) = map (log_slot s) [0..<Suc (length bl0 + length bl)]"
    using slots_append [OF l1 slots0 slots] by simp
  then have "bl0 @ bl @ [(?n, d)] = zip (map (log_slot s) [0..<length (tx_blocks ?tx)]) (tx_blocks ?tx)"
    unfolding tx(4) [of ?n] by (intro zip_slots) simp
  then have "logged s (length (tx_blocks ?tx)) (zip (map (log_slot s) [0..<length (tx_blocks ?tx)]) (tx_blocks ?tx)) s'"
    using l' tx(4) [of ?n] by (metis append_assoc length_append_singleton length_append length_map add_Suc_right)
  moreover have "t_buffers (the (trs s' t)) = []" "t_buffers (the (trs s' rt)) = t_buffers (the (trs s rt)) @
      filter (\<lambda>b. \<not> kept s (ino_sync tr) b) (t_buffers tr)"
    using at st by (auto simp: loop_at_def same_store_def)
  moreover have "length (tx_blocks ?tx) < unat (j_free s)" unfolding tx(4) [of ?n] using free by simp
  moreover have "tx_revokes s ?tx = map rr_blocknr (concat (hash_table tb))" unfolding tx(3) by (rule it0(2))
  ultimately show ?thesis using c0 c cr tx(1) by blast
qed

text \<open>C4: what the writing phases of a commit log, under the following conditions: the state is \<open>commit_ready\<close>, which besides
  well-formed lists and working input and output demands that every metadata buffer of another inode has a reference other than
  that of the transaction (\<open>separate_buffer_moves\<close> shows the use after free otherwise); and the list of
  metadata buffers is empty or ends with a buffer of the inode of the commit (\<open>commit_loop_leaves_blocks\<close>
  shows what happens otherwise). The phases are taken on their own, since \<open>commit_always_fails\<close> shows that the whole commit
  does not get to them. Then writing the revoke
  records, the loop over the metadata buffers and writing the commit record all return. The blocks
  they write go to consecutive blocks of the log and are those of one well-formed transaction; the
  blocks it writes when it is replayed are the buffers of the inode, in order, with their data, and the
  blocks it revokes are those of the revoke table. The buffers of other inodes are moved, in order,
  to the end of the list of the running transaction.\<close>

theorem commit_logs_transaction:
  assumes r: "commit_ready E s t rt tr tb"
    and last: "t_buffers tr = [] \<or> kept s (ino_sync tr) (last (t_buffers tr))"
  shows "\<exists>c0 c blk s' tx. commit_start_logging E s t = Inr c0 \<and> commit_loop E t rt c0 = Some (Inr c) \<and>
    commit_record E (cm_state c) t (cm_crc c) = Inr (0, Some blk, s') \<and>
    tx_wf E s (t_tid tr) tx \<and>
    tx_writes s tx = map (\<lambda>b. (b_blocknr (bhs s b), journal_data E s b))
      (filter (kept s (ino_sync tr)) (t_buffers tr)) \<and>
    tx_revokes s tx = map rr_blocknr (concat (hash_table tb)) \<and>
    log_written s' = rev (zip (map (log_slot s) [0..<length (tx_blocks tx)]) (tx_blocks tx)) @ log_written s \<and>
    t_buffers (the (trs s' t)) = [] \<and>
    t_buffers (the (trs s' rt)) = t_buffers (the (trs s rt)) @ filter (\<lambda>b. \<not> kept s (ino_sync tr) b) (t_buffers tr)"
  using commit_logs_ok [OF assms] logged_written by blast

text \<open>A transaction with a buffer 5 of the inode 0, which the commit is for, and a buffer 6 of inode 12.\<close>

definition ex_commit_table :: revoke_table where
  "ex_commit_table = ex_revoke_table\<lparr>hash_table := [[], [\<lparr>rr_sequence = 7, rr_blocknr = 9\<rparr>]]\<rparr>"

definition ex_commit_state :: "bhp list \<Rightarrow> jstate" where
  "ex_commit_state bs = init_state\<lparr>j_uuid := replicate 16 0, j_revoke := Some True,
     j_revoke_table0 := Some ex_commit_table,
     trs := [0 \<mapsto> ex_transaction\<lparr>t_buffers := bs, t_nr_buffers := 2, t_outstanding_credits := 4\<rparr>,
             1 \<mapsto> ex_transaction\<lparr>t_tid := 8\<rparr>],
     jhs := [5 \<mapsto> new_journal_head\<lparr>b_jcount := 1, b_jlist := BJ_Metadata, b_transaction := Some 0\<rparr>,
             6 \<mapsto> new_journal_head\<lparr>b_jcount := 2, b_jlist := BJ_Metadata, b_transaction := Some 0, jh_ino := 12\<rparr>],
     bhs := (\<lambda>b. ex_buffer\<lparr>b_blocknr := of_nat (100 + b), b_data := replicate 1024 1, bh_jbddirty := True\<rparr>)\<rparr>"

lemma ex_commit_state_lists:
  assumes "bs = [6, 5] \<or> bs = [5, 6]"
  shows "lists_wf (ex_commit_state bs)" "refs_wf (ex_commit_state bs)"
proof -
  let ?s = "ex_commit_state bs"
  have bs: "distinct bs" "length bs = 2" "\<And>b. b \<in> set bs \<longleftrightarrow> b = 5 \<or> b = 6" using assms by auto
  have on: "on_list (jhs ?s) t l b \<longleftrightarrow> t = 0 \<and> l = BJ_Metadata \<and> (b = 5 \<or> b = 6)" for t l b
    by (auto simp: on_list_def ex_commit_state_def new_journal_head_def)
  have tl: "tlist l (ex_transaction\<lparr>t_tid := 8\<rparr>) = []"
    "tlist l (ex_transaction\<lparr>t_buffers := bs, t_nr_buffers := 2, t_outstanding_credits := 4\<rparr>) =
      (if l = BJ_Metadata then bs else [])" for l by (cases l; simp add: ex_transaction_def)+
  have trs: "trs ?s t = Some tr \<longleftrightarrow> t = 1 \<and> tr = ex_transaction\<lparr>t_tid := 8\<rparr> \<or>
      t = 0 \<and> tr = ex_transaction\<lparr>t_buffers := bs, t_nr_buffers := 2, t_outstanding_credits := 4\<rparr>" for t tr
    by (auto simp: ex_commit_state_def)
  have jhs: "b_transaction jh = Some 0" if "jhs ?s b = Some jh" for b jh
    using that by (auto simp: ex_commit_state_def split: if_splits)
  have "t_nr_buffers tr = int (length (t_buffers tr)) \<and>
      (\<forall>l. distinct (tlist l tr) \<and> (\<forall>b. b \<in> set (tlist l tr) \<longleftrightarrow> on_list (jhs ?s) t l b))" if "trs ?s t = Some tr" for t tr
    using that bs unfolding trs on by (elim disjE conjE) (simp_all add: tl, simp_all add: ex_transaction_def)
  moreover have "trs ?s 0 \<noteq> None" by (simp add: ex_commit_state_def)
  ultimately show "lists_wf ?s" unfolding lists_wf_def lwf_def using jhs by simp
  show "refs_wf (ex_commit_state bs)"
    by (auto simp: refs_wf_def ex_commit_state_def jh_refs_def new_journal_head_def)
qed

lemma ex_commit_kept: "kept (ex_commit_state bs) 0 5" "\<not> kept (ex_commit_state bs) 0 6"
  by (simp_all add: kept_def ex_commit_state_def new_journal_head_def)

lemma ex_commit_data: "journal_data ex_env (ex_commit_state bs) 5 = replicate 1024 1"
  by (simp add: journal_data_def ex_commit_state_def new_journal_head_def jbd2_vmsep_buffer_frozen_trigger_def)

lemma ex_commit_tr:
  "trs (ex_commit_state bs) 0 = Some (ex_transaction\<lparr>t_buffers := bs, t_nr_buffers := 2, t_outstanding_credits := 4\<rparr>)"
  "trs (ex_commit_state bs) (Suc 0) = Some (ex_transaction\<lparr>t_tid := 8\<rparr>)"
  by (simp_all add: ex_commit_state_def)

lemma ex_commit_loop_ready:
  assumes "bs = [6, 5] \<or> bs = [5, 6]"
  shows "loop_ready ex_env (ex_commit_state bs) 0 bs"
proof -
  let ?s = "ex_commit_state bs"
  have "\<not> is_journal_aborted ?s" by (simp add: is_journal_aborted_def ex_commit_state_def init_state_def)
  then have "log_ready ex_env ?s" by (simp add: log_ready_def ex_env_def ex_commit_state_def init_state_def)
  moreover have "buffer_ready ?s 5" "b_jcount (the (jhs ?s 6)) \<noteq> 1" "length (j_uuid ?s) = 16"
    by (simp_all add: blocknr_fits_def buffer_ready_def ex_commit_state_def)
  moreover have "b = 5 \<or> b = 6" if "b \<in> set bs" for b using assms that by auto
  moreover have "mem_alloc ex_env" by (simp add: ex_env_def)
  ultimately show ?thesis unfolding loop_ready_def using ex_commit_kept [of bs] by metis
qed

lemma ex_commit_ready:
  assumes bs: "bs = [6, 5] \<or> bs = [5, 6]"
  shows "commit_ready ex_env (ex_commit_state bs) 0 1 (the (trs (ex_commit_state bs) 0)) ex_commit_table"
proof -
  let ?s = "ex_commit_state bs" and ?tr = "the (trs (ex_commit_state bs) 0)"
  have tr: "t_buffers ?tr = bs" "ino_sync ?tr = 0" "t_inode_list ?tr = []" "t_nr_buffers ?tr \<le> t_outstanding_credits ?tr"
    "trs ?s 0 = Some ?tr" "trs ?s 1 \<noteq> None" by (simp_all add: ex_commit_state_def ex_transaction_def)
  have tb: "concat (hash_table ex_commit_table) = [\<lparr>rr_sequence = 7, rr_blocknr = 9\<rparr>]" by (simp add: ex_commit_table_def)
  have s: "j_blocksize ?s = 1024" "j_free ?s = 2045" "revoke_table_of ?s (j_revoke ?s = Some False) = Some ex_commit_table"
    by (simp_all add: ex_commit_state_def init_state_def revoke_table_of_def)
  have "length (filter (kept ?s 0) bs) = 1" "\<forall>b \<in> set bs. kept ?s 0 b \<longrightarrow> 4 \<le> length (journal_data ex_env ?s b)"
    using bs by (elim disjE; simp add: ex_commit_kept ex_commit_data)+
  moreover have "blocknr_fits ?s 9" by (simp add: blocknr_fits_def)
  moreover have "data_ready ex_env ?s 0 []" "\<forall>n. submit_bh ex_env n = 0" by (simp_all add: data_ready_def ex_env_def)
  ultimately show ?thesis
    unfolding commit_ready_def tr(1-3) tb s using ex_commit_state_lists [OF bs] ex_commit_loop_ready [OF bs] tr(4-6) by simp
qed

theorem commit_logs_transaction_witness:
  "\<exists>c0 c blk s' tx. commit_start_logging ex_env (ex_commit_state [6, 5]) 0 = Inr c0 \<and>
    commit_loop ex_env 0 1 c0 = Some (Inr c) \<and>
    commit_record ex_env (cm_state c) 0 (cm_crc c) = Inr (0, Some blk, s') \<and>
    tx_wf ex_env (ex_commit_state [6, 5]) 7 tx \<and>
    tx_writes (ex_commit_state [6, 5]) tx = [(105, replicate 1024 1)] \<and>
    tx_revokes (ex_commit_state [6, 5]) tx = [9] \<and> t_buffers (the (trs s' 1)) = [6]"
proof -
  have b: "b_blocknr (bhs (ex_commit_state [6, 5]) 5) = 105" by (simp add: ex_commit_state_def)
  show ?thesis using commit_logs_transaction [OF ex_commit_ready [of "[6, 5]"]]
    by (simp add: ex_commit_tr ex_transaction_def ex_commit_kept ex_commit_data b ex_commit_table_def) blast
qed

section \<open>Buffers of other inodes at the end of the list\<close>

text \<open>
  When the loop ends with a buffer of another inode, nothing submits the descriptor that is open and
  the buffers recorded in it.
\<close>

lemma stays_open_mono:
  assumes "tag_off s n + journal_vmsep_tag_bytes s + 16 + csum_size s \<le> j_blocksize s" and "n + 1 < j_wbufsize s" and "k < n"
  shows "stays_open s k"
proof -
  have "tag_off s (Suc k) \<le> tag_off s n"
    using tag_off_step [of "Suc k" n s] assms(3) by (cases "Suc k = n") auto
  then show ?thesis using assms by (simp add: stays_open_def)
qed

lemma commit_loop_open:
  assumes rt: "rt \<noteq> t" and room: "tag_off s0 n + journal_vmsep_tag_bytes s0 + 16 + csum_size s0 \<le> j_blocksize s0"
    and wb: "n + 1 < j_wbufsize s0" and free: "2 * n < unat (j_free s0)"
  shows "loop_ready E s0 ino bs \<Longrightarrow> cm_inv E s0 tid [] [] es es c \<Longrightarrow>
    loop_at s0 tid ino t rt bs sh mv (cm_state c) \<Longrightarrow> length es + length (filter (kept s0 ino) bs) = n \<Longrightarrow>
    cm_used [] c \<le> 2 * length es \<Longrightarrow> bs = [] \<or> \<not> kept s0 ino (last bs) \<Longrightarrow>
    \<exists>c'. commit_loop E t rt c = Some (Inr c') \<and>
      cm_inv E s0 tid [] [] (es @ map (log_entry E s0) (filter (kept s0 ino) bs))
        (es @ map (log_entry E s0) (filter (kept s0 ino) bs)) c'"
proof (induction bs arbitrary: es c sh mv)
  case Nil
  then have "commit_loop E t rt c = Some (Inr c)" by (subst commit_loop.simps) (auto simp: loop_at_def)
  with Nil show ?case by auto
next
  case (Cons b bs)
  have ready: "loop_ready E s0 ino bs" using Cons.prems(1) by (simp add: loop_ready_def)
  obtain tr where tr: "trs (cm_state c) t = Some tr" "t_buffers tr = b # bs" using loop_atD [OF Cons.prems(3)] by blast
  have step: "commit_loop E t rt c = commit_loop E t rt c1"
    if "commit_buffer E t rt (the (trs (cm_state c) t)) c b = Inr c1" for c1
    using that tr by (subst commit_loop.simps) simp
  show ?case
  proof (cases "kept s0 ino b")
    case True
    have ne: "bs \<noteq> []" using Cons.prems(6) True by auto
    have op: "stays_open s0 (length es)" using stays_open_mono [OF room wb] Cons.prems(4) True by simp
    obtain c1 where c1: "commit_buffer E t rt (the (trs (cm_state c) t)) c b = Inr c1"
      "cm_inv E s0 tid [] [] (es @ [log_entry E s0 b]) (es @ [log_entry E s0 b]) c1"
      "loop_at s0 tid ino t rt bs (sh @ [b]) mv (cm_state c1)" "cm_used [] c1 \<le> cm_used [] c + 2"
      using commit_buffer_kept [OF Cons.prems(1) True rt Cons.prems(2,3)] Cons.prems(4,5) True free ne op by auto
    show ?thesis unfolding step [OF c1(1)]
      using Cons.IH [OF ready c1(2,3)] Cons.prems(4-6) True c1(4) ne by auto
  next
    case False
    obtain s' where s': "commit_buffer E t rt (the (trs (cm_state c) t)) c b = Inr (c\<lparr>cm_state := s'\<rparr>)"
      "cm_inv E s0 tid [] [] es es (c\<lparr>cm_state := s'\<rparr>)" "loop_at s0 tid ino t rt bs sh (mv @ [b]) s'"
      using commit_buffer_moved [OF Cons.prems(1) False rt Cons.prems(2,3)] by blast
    have "cm_used [] (c\<lparr>cm_state := s'\<rparr>) = cm_used [] c" by (simp add: cm_used_def cm_bufs_def)
    then show ?thesis unfolding step [OF s'(1)]
      using Cons.IH [OF ready s'(2), of sh "mv @ [b]"] s'(3) Cons.prems(4-6) False by (cases "bs = []") auto
  qed
qed

text \<open>C8: buffers that are never written. Let the state be \<open>commit_ready\<close>, so that every buffer of another inode has a reference
  other than that of the transaction. If the metadata list of the committing transaction has at least one buffer of the inode of the commit but
  ends with a buffer of another inode, and the buffers of the inode fit into one descriptor that
  stays open, then the loop returns without having submitted any of its blocks: the descriptor and every buffer of
  the inode are allocated and recorded, but the log is as it was before the loop.\<close>

theorem commit_loop_leaves_blocks:
  assumes r: "commit_ready E s t rt tr tb"
    and last: "t_buffers tr \<noteq> []" "\<not> kept s (ino_sync tr) (last (t_buffers tr))"
    and some: "n = length (filter (kept s (ino_sync tr)) (t_buffers tr))" "0 < n" "n + 1 < j_wbufsize s"
    and room: "tag_off s n + journal_vmsep_tag_bytes s + 16 + csum_size s \<le> j_blocksize s"
  shows "\<exists>c0 c. commit_start_logging E s t = Inr c0 \<and> commit_loop E t rt c0 = Some (Inr c) \<and>
    length (cm_bufs c) = n + 1 \<and> log_written (cm_state c) = log_written (cm_state c0)"
proof -
  obtain s1 sub bl0 where c0: "commit_start_logging E s t = Inr (new_committer s1 sub (map fst bl0))"
    and l1: "logged s (length bl0) bl0 s1" and b1: "same_buffers s s1" and wf1: "lists_wf s1" "refs_wf s1"
    and trs1: "trs s1 = (trs s)(t \<mapsto> tr\<lparr>t_state := T_COMMIT\<rparr>)" and len0: "length bl0 \<le> length (concat (hash_table tb))"
    using commit_start_logging_ok [OF r] by blast
  let ?c0 = "new_committer s1 sub (map fst bl0)"
  note start = loop_start [OF r l1 b1 wf1 trs1]
  have k: "kept s1 = kept s" using same_buffers_eq(1) [OF b1] .
  have fmt: "same_format s s1" using b1 by (simp add: same_buffers_def)
  have c0': "cm_used [] ?c0 = 0" "cm_state ?c0 = s1" by (simp_all add: cm_used_def cm_bufs_def new_committer_def)
  have rt: "rt \<noteq> t" and "length (concat (hash_table tb)) + 2 * n + 1 < unat (j_free s)"
    using r some(1) by (simp_all add: commit_ready_def)
  moreover have "unat (j_free s1) = unat (j_free s) - length bl0" using l1 by (simp add: logged_def)
  ultimately have free: "2 * n < unat (j_free s1)" using len0 by linarith
  have toff: "tag_off s1 = tag_off s" by (simp add: fun_eq_iff tag_off_def same_format_formats [OF fmt])
  obtain c where c: "commit_loop E t rt ?c0 = Some (Inr c)"
    "cm_inv E s1 (t_tid tr) [] [] (map (log_entry E s1) (filter (kept s (ino_sync tr)) (t_buffers tr)))
      (map (log_entry E s1) (filter (kept s (ino_sync tr)) (t_buffers tr))) c"
    using commit_loop_open [OF rt _ _ free start(1) start(3) [of sub "map fst bl0"],
        of "t_shadow_list tr" "t_buffers (the (trs s rt))"] start(2) some last room
    by (auto simp: k c0' toff same_format_formats [OF fmt] same_format_fields [OF fmt])
  have "length (cm_bufs c) = n + 1"
    using c(2) some(1,2) by (cases "cm_descriptor c") (auto simp: cm_inv_def cm_part_def cm_bufs_def dest!: map_eq_imp_length_eq)
  moreover have "log_written (cm_state c) = log_written s1" using c(2) by (simp add: cm_inv_def cm_part_def logged_def)
  ultimately show ?thesis using c0 c(1) c0'(2) by auto
qed

theorem commit_loop_leaves_blocks_witness:
  "\<exists>c0 c. commit_start_logging ex_env (ex_commit_state [5, 6]) 0 = Inr c0 \<and>
    commit_loop ex_env 0 1 c0 = Some (Inr c) \<and> length (cm_bufs c) = 2 \<and>
    log_written (cm_state c) = log_written (cm_state c0)"
proof -
  have "j_wbufsize (ex_commit_state [5, 6]) = 64" "j_blocksize (ex_commit_state [5, 6]) = 1024"
    by (simp_all add: ex_commit_state_def init_state_def)
  moreover have "tag_off (ex_commit_state [5, 6]) 1 + journal_vmsep_tag_bytes (ex_commit_state [5, 6]) + 16 +
      csum_size (ex_commit_state [5, 6]) \<le> 1024"
    using journal_vmsep_tag_bytes_range [of "ex_commit_state [5, 6]"] by (auto simp: tag_off_def csum_size_def)
  ultimately show ?thesis
    using commit_loop_leaves_blocks [OF ex_commit_ready [of "[5, 6]"], of 1]
    by (simp add: ex_commit_tr ex_transaction_def ex_commit_kept numeral_2_eq_2)
qed

end
