(* ===== verification/Jbd2_Durable.thy ===== *)
theory Jbd2_Durable
  imports Jbd2_CommitReplay
begin

text \<open>
  A commit appends a transaction to the log on the disk. The abstract view of the disk is the list
  of complete transactions between the tail and the head of the log; the blocks that a commit
  writes extend that list by one transaction, and recovery after a crash replays the extended
  list.
\<close>

section \<open>The disk\<close>

text \<open>The disk after the blocks \<open>w\<close>, newest first, have been written.\<close>

definition disk_write :: "(u64 \<times> block_data) list \<Rightarrow> env \<Rightarrow> env" where
  "disk_write w E = E\<lparr>dev_read := \<lambda>n. case map_of w n of None \<Rightarrow> dev_read E n | Some d \<Rightarrow> Some d\<rparr>"

lemma disk_write_env [simp]:
  "chksum (disk_write w E) = chksum E" "sync_blockdev (disk_write w E) = sync_blockdev E"
  "issue_flush (disk_write w E) = issue_flush E"
  "recovery_ready (disk_write w E) s i = recovery_ready E s i"
  by (simp_all add: disk_write_def recovery_ready_def)

lemma item_wf_env: "chksum E' = chksum E \<Longrightarrow> item_wf E' s tid i = item_wf E s tid i"
  by (cases i) (simp_all add: jbd2_descriptor_block_csum_verify_def jbd2_block_tag_csum_verify_def tag_csum_def)

lemma tx_wf_env:
  assumes "chksum E' = chksum E"
  shows "tx_wf E' s tid tx = tx_wf E s tid tx"
proof -
  have "item_wf E' s tid = item_wf E s tid" using item_wf_env [OF assms] by blast
  then show ?thesis by (simp add: tx_wf_def jbd2_commit_block_csum_verify_def assms)
qed

lemma log_txs_wf_env:
  assumes "chksum E' = chksum E"
  shows "log_txs_wf E' s tid txs = log_txs_wf E s tid txs"
  by (induction txs arbitrary: tid) (simp_all add: tx_wf_env [OF assms])

lemma tx_format:
  assumes "same_format s s'"
  shows "tx_wf E s' tid tx = tx_wf E s tid tx" "tx_writes s' tx = tx_writes s tx" "tx_revokes s' tx = tx_revokes s tx"
proof -
  have "item_wf E s' tid = item_wf E s tid" "item_writes s' = item_writes s" "item_revokes s' = item_revokes s"
    using item_format [OF assms] by blast+
  then show "tx_wf E s' tid tx = tx_wf E s tid tx" "tx_writes s' tx = tx_writes s tx" "tx_revokes s' tx = tx_revokes s tx"
    by (simp_all add: tx_wf_def tx_writes_def tx_revokes_def same_format_formats(10) [OF assms])
qed

lemma log_result_format:
  assumes "same_format s s'"
  shows "log_result s' txs = log_result s txs"
  by (induction txs) (simp_all add: tx_format [OF assms])

lemma log_txs_wf_append:
  "log_txs_wf E s tid (txs @ [tx]) \<longleftrightarrow> log_txs_wf E s tid txs \<and> tx_wf E s (tid + of_nat (length txs)) tx"
  by (induction txs arbitrary: tid) (auto simp: add.assoc add.commute)

section \<open>Positions\<close>

text \<open>The superblock on the disk names the tail of the log.\<close>

definition names_tail :: "env \<Rightarrow> jstate \<Rightarrow> jstate \<Rightarrow> bool \<Rightarrow> bool" where
  "names_tail E s s2 i =
     (recovery_ready E s2 i \<and> same_format s s2 \<and> unat (s_start (j_superblock s2)) = unat (j_tail s) \<and>
      s_start (j_superblock s2) \<noteq> 0)"

lemma unat_log_at_pos:
  assumes "names_tail E s s2 i"
  shows "unat (log_at s2 k) = log_pos s k"
proof -
  have r: "recovery_ready E s2 i" and f: "same_format s s2" and t: "unat (s_start (j_superblock s2)) = unat (j_tail s)"
    using assms by (simp_all add: names_tail_def)
  show ?thesis using unat_log_at(1) [OF r, of k] by (simp add: log_pos_def log_cap_def same_format_fields [OF f] t)
qed

lemma take_log_blocks_pos:
  assumes wf: "log_wf s" and n: "n < unat (j_free s)"
  shows "unat (j_head ((take_log_block ^^ n) s)) = log_pos s (length (log_region s) + n)"
proof -
  let ?s = "(take_log_block ^^ n) s"
  have wf': "log_wf ?s" and fr: "unat (j_free ?s) = unat (j_free s) - n" using lq.pushes [OF wf n] by simp_all
  have same: "log_cap ?s = log_cap s" "log_pos ?s = log_pos s"
    by (induction n) (simp_all add: log_pos_def fun_eq_iff)
  have "length (log_region s) + n = log_cap s - (unat (j_free s) - n)"
    using n wf by (simp add: log_region_def log_wf_def)
  then show ?thesis using wf' by (simp add: log_wf_def same fr)
qed

lemma log_slot_at:
  assumes nt: "names_tail E s s2 i" and wf: "log_wf s" and n: "n < unat (j_free s)"
  shows "log_slot s n = jmap s2 (log_at s2 (length (log_region s) + n))"
proof -
  have "unat (log_at s2 (length (log_region s) + n)) = unat (j_head ((take_log_block ^^ n) s))"
    by (simp add: unat_log_at_pos [OF nt] take_log_blocks_pos [OF wf n])
  then have "log_at s2 (length (log_region s) + n) = j_head ((take_log_block ^^ n) s)"
    by (simp only: word_unat_eq_iff)
  moreover have "jmap s2 = jmap s" using nt same_format_formats(8) [of s s2] by (simp add: names_tail_def)
  ultimately show ?thesis by (simp add: log_slot_def)
qed

lemma log_at_inj:
  assumes nt: "names_tail E s s2 i" and inj: "inj (jmap s)" and k: "k < log_cap s" "k' < log_cap s" "k \<noteq> k'"
  shows "jmap s2 (log_at s2 k) \<noteq> jmap s2 (log_at s2 k')"
proof -
  have "log_pos s k \<noteq> log_pos s k'" using log_pos_inj [of k s k'] k by blast
  then have "log_at s2 k \<noteq> log_at s2 k'" using unat_log_at_pos [OF nt] by metis
  moreover have "jmap s2 = jmap s" using nt same_format_formats(8) [of s s2] by (simp add: names_tail_def)
  ultimately show ?thesis using inj by (simp add: inj_eq)
qed

section \<open>The log as a list of transactions\<close>

text \<open>
  The abstract view of the journal \<open>s\<close> on the disk \<open>E\<close>: the blocks from the tail to the head hold the
  transactions \<open>txs\<close>, the first of which has the sequence number of the superblock. \<open>s2\<close> is the
  journal as a mount finds it, with the superblock that names the tail.
\<close>

definition log_on_disk :: "env \<Rightarrow> jstate \<Rightarrow> jstate \<Rightarrow> bool \<Rightarrow> log_tx list \<Rightarrow> bool" where
  "log_on_disk E s s2 i txs =
     (names_tail E s s2 i \<and> log_txs_wf E s2 (s_sequence (j_superblock s2)) txs \<and>
      log_holds E s2 0 (concat (map tx_blocks txs)) \<and>
      length (concat (map tx_blocks txs)) = length (log_region s))"

lemma disk_write_other: "n \<notin> fst ` set w \<Longrightarrow> dev_read (disk_write w E) n = dev_read E n"
  using map_of_eq_None_iff [of w n] by (simp add: disk_write_def)

lemma disk_write_same:
  assumes "distinct ns" and "length ns = length ds" and "k < length ds"
  shows "dev_read (disk_write (rev (zip ns ds)) E) (ns ! k) = Some (ds ! k)"
proof -
  have d: "distinct (map fst (rev (zip ns ds)))" using assms(1,2) by (simp add: rev_map [symmetric])
  have "(ns ! k, ds ! k) \<in> set (rev (zip ns ds))" using assms(2,3) by (auto simp: in_set_zip)
  then show ?thesis using map_of_is_SomeI [OF d] by (simp add: disk_write_def)
qed

lemma logged_log_wf:
  assumes wf: "log_wf s" and l: "logged s k bl s'" and k: "k < unat (j_free s)"
  shows "log_wf s'" "log_pos s' = log_pos s" "log_cap s' = log_cap s"
    "length (log_region s') = length (log_region s) + k"
proof -
  have f: "same_format s s'" and t: "j_tail s' = j_tail s" and h: "j_head s' = j_head ((take_log_block ^^ k) s)"
    and fr: "unat (j_free s') = unat (j_free s) - k" using l by (simp_all add: logged_def)
  show pos: "log_pos s' = log_pos s" and cap: "log_cap s' = log_cap s"
    by (simp_all add: fun_eq_iff log_pos_def log_cap_def same_format_fields [OF f] t)
  show len: "length (log_region s') = length (log_region s) + k"
    using wf k by (simp add: log_region_def cap fr log_wf_def)
  show "log_wf s'"
    using wf k len take_log_blocks_pos [OF wf k]
    by (simp add: log_wf_def pos cap fr t same_format_fields [OF f] h log_region_def le_diff_conv trans_le_add1)
qed

text \<open>Writing the next \<open>length bs\<close> blocks of the log.\<close>

abbreviation next_writes :: "jstate \<Rightarrow> block_data list \<Rightarrow> (u64 \<times> block_data) list" where
  "next_writes s bs \<equiv> rev (zip (map (log_slot s) [0..<length bs]) bs)"

lemma next_slots:
  assumes nt: "names_tail E s s2 i" and wf: "log_wf s" and n: "n \<le> unat (j_free s)"
  shows "map (log_slot s) [0..<n] = map (\<lambda>k. jmap s2 (log_at s2 k)) [length (log_region s)..<length (log_region s) + n]"
  by (rule nth_equalityI) (use n in \<open>simp_all add: log_slot_at [OF nt wf]\<close>)

lemma log_region_cap: "log_wf s \<Longrightarrow> length (log_region s) + unat (j_free s) = log_cap s"
  by (simp add: log_region_def log_wf_def)

lemma log_block_disk_write:
  assumes nt: "names_tail E s s2 i" and wf: "log_wf s" and inj: "inj (jmap s)" and n: "length bs \<le> unat (j_free s)"
  shows "k < length (log_region s) \<Longrightarrow> log_block (disk_write (next_writes s bs) E) s2 k = log_block E s2 k"
    "k < length bs \<Longrightarrow> log_block (disk_write (next_writes s bs) E) s2 (length (log_region s) + k) = Some (bs ! k)"
    "\<lbrakk>length (log_region s) + length bs \<le> k; k < log_cap s\<rbrakk> \<Longrightarrow>
      log_block (disk_write (next_writes s bs) E) s2 k = log_block E s2 k"
proof -
  let ?r = "length (log_region s)" and ?a = "\<lambda>k. jmap s2 (log_at s2 k)"
  have cap: "?r + length bs \<le> log_cap s" using log_region_cap [OF wf] n by simp
  have a: "?a k \<noteq> ?a k'" if "k < log_cap s" "k' < log_cap s" "k \<noteq> k'" for k k' by (rule log_at_inj [OF nt inj that])
  have w: "fst ` set (next_writes s bs) = ?a ` {?r..<?r + length bs}"
    by (simp add: next_slots [OF nt wf n] flip: set_map) simp
  have out: "log_block (disk_write (next_writes s bs) E) s2 k = log_block E s2 k"
    if "k < log_cap s" "k < ?r \<or> ?r + length bs \<le> k" for k
  proof -
    have "?a k \<notin> ?a ` {?r..<?r + length bs}" using a that cap by fastforce
    then show ?thesis unfolding log_block_def by (intro disk_write_other) (simp only: w not_False_eq_True)
  qed
  show "k < ?r \<Longrightarrow> log_block (disk_write (next_writes s bs) E) s2 k = log_block E s2 k" using out cap by simp
  show "\<lbrakk>?r + length bs \<le> k; k < log_cap s\<rbrakk> \<Longrightarrow> log_block (disk_write (next_writes s bs) E) s2 k = log_block E s2 k"
    using out by simp
  have d: "distinct (map (log_slot s) [0..<length bs])"
    unfolding next_slots [OF nt wf n] using a cap by (auto simp: distinct_map inj_on_def) (metis less_le_trans)
  show "k < length bs \<Longrightarrow> log_block (disk_write (next_writes s bs) E) s2 (?r + k) = Some (bs ! k)"
    using disk_write_same [OF d, of bs k E] n by (simp add: log_block_def log_slot_at [OF nt wf])
qed

text \<open>A commit extends the list of transactions by the one it logs.\<close>

lemma log_on_disk_append:
  assumes d: "log_on_disk E s s2 i txs" and wf: "log_wf s" and inj: "inj (jmap s)"
    and tx: "tx_wf E s (s_sequence (j_superblock s2) + of_nat (length txs)) tx" and n: "length (tx_blocks tx) < unat (j_free s)"
    and l: "logged s (length (tx_blocks tx)) bl s'"
  shows "log_on_disk (disk_write (next_writes s (tx_blocks tx)) E) s' s2 i (txs @ [tx])"
proof -
  let ?E = "disk_write (next_writes s (tx_blocks tx)) E"
  have nt: "names_tail E s s2 i" and fmt: "same_format s s2"
    and txs: "log_txs_wf E s2 (s_sequence (j_superblock s2)) txs" "log_holds E s2 0 (concat (map tx_blocks txs))"
      "length (concat (map tx_blocks txs)) = length (log_region s)"
    using d by (simp_all add: log_on_disk_def names_tail_def)
  note blocks = log_block_disk_write [OF nt wf inj less_imp_le [OF n]]
  have "j_tail s' = j_tail s" "same_format s' s2"
    using l fmt by (auto simp: logged_def same_format_def)
  then have "names_tail ?E s' s2 i" using nt by (simp add: names_tail_def)
  moreover have "log_txs_wf ?E s2 (s_sequence (j_superblock s2)) (txs @ [tx])"
    using txs(1) tx by (simp add: log_txs_wf_append log_txs_wf_env [of ?E E] tx_wf_env [of ?E E] tx_format [OF fmt])
  moreover have "log_holds ?E s2 0 (concat (map tx_blocks (txs @ [tx])))"
    using txs(2,3) blocks(1,2) by (simp add: log_holds_append) (simp add: log_holds_def)
  ultimately show ?thesis
    using txs(3) logged_log_wf(4) [OF wf l n] by (simp add: log_on_disk_def)
qed

text \<open>Blocks that were written in an earlier round of the log do not continue it with \<open>tid\<close>.\<close>

definition stale_log :: "env \<Rightarrow> jstate \<Rightarrow> jstate \<Rightarrow> tid_t \<Rightarrow> bool" where
  "stale_log E s s2 tid = (\<forall>k. length (log_region s) \<le> k \<and> k < log_cap s \<longrightarrow> log_ends E s2 k tid)"

lemma log_ends_block: "log_block E' s k = log_block E s k \<Longrightarrow> log_ends E' s k tid = log_ends E s k tid"
  by (simp add: log_ends_def)

text \<open>The whole transaction is on the disk.\<close>

lemma log_complete_append:
  assumes d: "log_on_disk E s s2 i txs" and wf: "log_wf s" and inj: "inj (jmap s)"
    and tx: "tx_wf E s (s_sequence (j_superblock s2) + of_nat (length txs)) tx" and n: "length (tx_blocks tx) < unat (j_free s)"
    and stale: "stale_log E s s2 (s_sequence (j_superblock s2) + of_nat (length txs) + 1)"
    and len: "length txs + 1 < 2 ^ 31" and l: "logged s (length (tx_blocks tx)) bl s'"
  shows "log_complete (disk_write (next_writes s (tx_blocks tx)) E) s2 (txs @ [tx])"
proof -
  let ?E = "disk_write (next_writes s (tx_blocks tx)) E" and ?k = "length (log_region s) + length (tx_blocks tx)"
  have nt: "names_tail E s s2 i" and fmt: "same_format s s2" and sz: "length (concat (map tx_blocks txs)) = length (log_region s)"
    using d by (simp_all add: log_on_disk_def names_tail_def)
  have k: "?k < log_cap s" using n log_region_cap [OF wf] by simp
  have cap: "unat (j_last s2) - unat (j_first s2) = log_cap s" by (simp add: log_cap_def same_format_fields [OF fmt])
  have "log_ends ?E s2 ?k (s_sequence (j_superblock s2) + of_nat (length txs) + 1)"
    using log_ends_block [OF log_block_disk_write(3) [OF nt wf inj less_imp_le [OF n] le_refl k]] stale k by (simp add: stale_log_def)
  then have "log_stops ?E s2 (s_sequence (j_superblock s2) + of_nat (length (txs @ [tx])))
      (length (concat (map tx_blocks (txs @ [tx]))))" by (simp add: log_stops.ends sz add_ac)
  then show ?thesis using log_on_disk_append [OF d wf inj tx n l] len k
    by (simp add: log_complete_def Let_def log_on_disk_def cap sz)
qed

section \<open>Torn transactions\<close>

text \<open>Some of the blocks of a transaction are on the disk, but not its commit block.\<close>

lemma items_stop:
  assumes E: "chksum E' = chksum E" and "list_all (item_wf E s tid) its"
    and "length (concat (map item_blocks its)) \<le> unat (j_last s) - unat (j_first s)"
    and "\<And>j. j < length (concat (map item_blocks its)) \<Longrightarrow>
      log_ends E' s (k + j) tid \<or> log_block E' s (k + j) = Some (concat (map item_blocks its) ! j)"
    and "log_ends E' s (k + length (concat (map item_blocks its))) tid"
  shows "log_stops E' s tid k"
  using assms(2-)
proof (induction its arbitrary: k)
  case Nil
  then show ?case by (simp add: log_stops.ends)
next
  case (Cons it its)
  let ?n = "length (item_blocks it)"
  have pos: "0 < ?n" by (cases it) simp_all
  have stop: "log_stops E' s tid (k + ?n)"
  proof (rule Cons.IH)
    fix j assume j: "j < length (concat (map item_blocks its))"
    then show "log_ends E' s (k + ?n + j) tid \<or> log_block E' s (k + ?n + j) = Some (concat (map item_blocks its) ! j)"
      using Cons.prems(3) [of "?n + j"] by (simp add: nth_append add.assoc)
  qed (use Cons.prems in \<open>simp_all add: add.assoc\<close>)
  have wf: "item_wf E' s tid it" using Cons.prems(1) item_wf_env [OF E] by simp
  consider "log_ends E' s k tid" | "log_block E' s k = Some (item_blocks it ! 0)"
    using Cons.prems(3) [of 0] pos by (auto simp: nth_append)
  then show ?case
  proof cases
    case 2
    then show ?thesis
    proof (cases it)
      case (Data_item d ds)
      then have "count_tags s d = length ds" using wf by (auto simp: count_tags_length dest: list_all2_lengthD)
      moreover have "log_block E' s k = Some d" "has_header d JBD2_DESCRIPTOR_BLOCK tid"
        "jbd2_descriptor_block_csum_verify E' s d" using 2 wf Data_item by simp_all
      ultimately show ?thesis using stop Cons.prems(2) Data_item by (simp add: log_stops.descriptor)
    next
      case (Revoke_item d)
      then have "log_block E' s k = Some d" "has_header d JBD2_REVOKE_BLOCK tid" using 2 wf by simp_all
      then show ?thesis using stop Revoke_item by (simp add: log_stops.revoke)
    qed
  qed (rule log_stops.ends)
qed

lemma disk_write_sub:
  assumes "set w' \<subseteq> set w" and "distinct (map fst w)"
  shows "dev_read (disk_write w' E) n = dev_read E n \<or> dev_read (disk_write w' E) n = dev_read (disk_write w E) n"
proof (cases "map_of w' n")
  case (Some d)
  then have "(n, d) \<in> set w" using assms(1) map_of_SomeD by fast
  then have "map_of w n = Some d" by (rule map_of_is_SomeI [OF assms(2)])
  then show ?thesis using Some by (simp add: disk_write_def)
qed (simp add: disk_write_def)

lemma next_slots_distinct:
  assumes nt: "names_tail E s s2 i" and wf: "log_wf s" and inj: "inj (jmap s)" and n: "n \<le> unat (j_free s)"
  shows "distinct (map (log_slot s) [0..<n])"
proof -
  have "jmap s2 (log_at s2 k) \<noteq> jmap s2 (log_at s2 k')" if "k < log_cap s" "k' < log_cap s" "k \<noteq> k'" for k k'
    by (rule log_at_inj [OF nt inj that])
  moreover have "length (log_region s) + n \<le> log_cap s" using log_region_cap [OF wf] n by simp
  ultimately show ?thesis unfolding next_slots [OF nt wf n]
    by (auto simp: distinct_map inj_on_def) (metis less_le_trans)
qed

lemma log_complete_torn:
  assumes d: "log_on_disk E s s2 i txs" and wf: "log_wf s" and inj: "inj (jmap s)"
    and tx: "tx_wf E s (s_sequence (j_superblock s2) + of_nat (length txs)) tx" and n: "length (tx_blocks tx) < unat (j_free s)"
    and stale: "stale_log E s s2 (s_sequence (j_superblock s2) + of_nat (length txs))"
    and len: "length txs < 2 ^ 31" and w: "set w \<subseteq> set (next_writes s (concat (map item_blocks (fst tx))))"
  shows "log_complete (disk_write w E) s2 txs"
proof -
  let ?bs = "concat (map item_blocks (fst tx))" and ?E = "disk_write w E" and ?r = "length (log_region s)"
  let ?tid = "s_sequence (j_superblock s2) + of_nat (length txs)"
  have nt: "names_tail E s s2 i" and fmt: "same_format s s2" and sz: "length (concat (map tx_blocks txs)) = ?r"
    and txs: "log_txs_wf E s2 (s_sequence (j_superblock s2)) txs" "log_holds E s2 0 (concat (map tx_blocks txs))"
    using d by (simp_all add: log_on_disk_def names_tail_def)
  have nb: "length ?bs < unat (j_free s)" using n by (simp add: tx_blocks_def)
  then have k: "?r + length ?bs < log_cap s" using log_region_cap [OF wf] by simp
  have cap: "unat (j_last s2) - unat (j_first s2) = log_cap s" by (simp add: log_cap_def same_format_fields [OF fmt])
  note full = log_block_disk_write [OF nt wf inj less_imp_le [OF nb]]
  have "distinct (map fst (next_writes s ?bs))"
    using next_slots_distinct [OF nt wf inj less_imp_le [OF nb]] by (simp add: rev_map [symmetric])
  then have sub: "log_block ?E s2 k = log_block E s2 k \<or> log_block ?E s2 k = log_block (disk_write (next_writes s ?bs) E) s2 k" for k
    unfolding log_block_def by (rule disk_write_sub [OF w])
  have "log_stops ?E s2 ?tid ?r"
  proof (rule items_stop [where its = "fst tx" and E = E])
    show "list_all (item_wf E s2 ?tid) (fst tx)" using tx by (simp add: tx_wf_def list_all_iff item_format(1) [OF fmt])
    fix j assume j: "j < length ?bs"
    then have "log_ends E s2 (?r + j) ?tid" using stale k by (simp add: stale_log_def)
    then show "log_ends ?E s2 (?r + j) ?tid \<or> log_block ?E s2 (?r + j) = Some (?bs ! j)"
      using sub [of "?r + j"] full(2) [OF j] log_ends_block [of ?E s2 "?r + j" E ?tid] by argo
  next
    have "log_block ?E s2 (?r + length ?bs) = log_block E s2 (?r + length ?bs)"
      using sub [of "?r + length ?bs"] full(3) [OF le_refl k] by argo
    from log_ends_block [OF this] show "log_ends ?E s2 (?r + length ?bs) ?tid" using stale k by (simp add: stale_log_def)
  qed (use k cap in simp_all)
  moreover have "log_holds ?E s2 0 (concat (map tx_blocks txs))"
    unfolding log_holds_def sz
  proof (intro allI impI)
    fix n assume "n < ?r"
    then show "log_block ?E s2 (0 + n) = Some (concat (map tx_blocks txs) ! n)"
      using txs(2) sub [of n] full(1) [of n] by (simp add: log_holds_def sz)
  qed
  ultimately show ?thesis
    using txs(1) len k cap by (simp add: log_complete_def Let_def sz log_txs_wf_env [of ?E E])
qed

lemma log_result_append:
  "log_result s (txs @ [tx]) = filter (\<lambda>(b, _). b \<notin> set (tx_revokes s tx)) (log_result s txs @ tx_writes s tx)"
  by (induction txs) (auto intro: filter_cong)

section \<open>An example\<close>

text \<open>
  The log of \<open>ex_commit_state\<close> on the disk: the blocks 1 and 2 hold a transaction that revokes block 100.
\<close>

definition ex_disk_txs :: "log_tx list" where
  "ex_disk_txs = [([Revoke_item (ex_block [JBD2_MAGIC_NUMBER, JBD2_REVOKE_BLOCK, 6, 20, 100])],
     ex_block [JBD2_MAGIC_NUMBER, JBD2_COMMIT_BLOCK, 6])]"

definition ex_disk_env :: env where
  "ex_disk_env = ex_env\<lparr>dev_read := \<lambda>b. Some (if b = 1 then ex_block [JBD2_MAGIC_NUMBER, JBD2_REVOKE_BLOCK, 6, 20, 100]
     else if b = 2 then ex_block [JBD2_MAGIC_NUMBER, JBD2_COMMIT_BLOCK, 6] else ex_block [0, 0, 0])\<rparr>"

definition ex_mount_state :: jstate where
  "ex_mount_state = init_state\<lparr>j_uuid := replicate 16 0, j_revoke := Some True, j_revoke_table1 := Some ex_revoke_table,
     j_superblock := ex_superblock\<lparr>s_sequence := 6\<rparr>\<rparr>"

lemma commit_ready_dev: "commit_ready (E\<lparr>dev_read := r\<rparr>) s t rt tr tb = commit_ready E s t rt tr tb"
proof -
  have "journal_data (E\<lparr>dev_read := r\<rparr>) s = journal_data E s"
    by (auto simp: fun_eq_iff journal_data_def jbd2_vmsep_buffer_frozen_trigger_def split: option.split)
  moreover have "data_ready (E\<lparr>dev_read := r\<rparr>) s t is = data_ready E s t is" for "is" by (simp add: data_ready_def)
  moreover have "loop_ready (E\<lparr>dev_read := r\<rparr>) s ino bs = loop_ready E s ino bs" for ino bs
    by (simp add: loop_ready_def log_ready_def)
  ultimately show ?thesis by (simp add: commit_ready_def)
qed

lemma ex_disk_ready:
  "commit_ready ex_disk_env (ex_commit_state [6, 5]) 0 1 (the (trs (ex_commit_state [6, 5]) 0)) ex_commit_table"
  unfolding ex_disk_env_def commit_ready_dev by (rule ex_commit_ready) simp

lemma ex_disk_kept:
  "t_buffers (the (trs (ex_commit_state [6, 5]) 0)) = [] \<or>
    kept (ex_commit_state [6, 5]) (ino_sync (the (trs (ex_commit_state [6, 5]) 0))) (last (t_buffers (the (trs (ex_commit_state [6, 5]) 0))))"
  by (simp add: ex_commit_tr ex_transaction_def ex_commit_kept)

lemma ex_disk_wf: "log_wf (ex_commit_state [6, 5])" "log_region (ex_commit_state [6, 5]) = [1, 2]"
  "inj (jmap (ex_commit_state [6, 5]))"
proof -
  have "j_bmap (ex_commit_state [6, 5]) = None" by (simp add: ex_commit_state_def init_state_def)
  then show "inj (jmap (ex_commit_state [6, 5]))" by (simp add: inj_def jmap_def)
qed (simp_all add: log_wf_def log_region_def log_cap_def log_pos_def ex_commit_state_def init_state_def upt_rec)

lemma ex_disk_tid: "t_tid (the (trs (ex_commit_state [6, 5]) 0)) =
    s_sequence (j_superblock ex_mount_state) + of_nat (length ex_disk_txs)"
  by (simp add: ex_commit_tr ex_transaction_def ex_mount_state_def ex_disk_txs_def)

lemma ex_mount_log: "jmap ex_mount_state (log_at ex_mount_state k) = of_nat (1 + k mod 2047)"
  by (simp add: ex_mount_state_def ex_defs jmap_def log_at_def)

lemma ex_disk_log: "log_on_disk ex_disk_env (ex_commit_state [6, 5]) ex_mount_state True ex_disk_txs"
proof -
  have "recovery_ready ex_disk_env ex_mount_state True"
    by (simp add: recovery_ready_def ex_disk_env_def ex_mount_state_def ex_defs jbd2_has_compat_feature_def)
  moreover have "same_format (ex_commit_state [6, 5]) ex_mount_state"
    by (simp add: same_format_def ex_mount_state_def ex_commit_state_def ex_defs)
  ultimately have "names_tail ex_disk_env (ex_commit_state [6, 5]) ex_mount_state True"
    by (simp add: names_tail_def ex_mount_state_def ex_commit_state_def ex_defs)
  moreover have "csum_size ex_mount_state = 0" "\<not> jbd2_journal_has_csum_v2or3 ex_mount_state"
    by (simp_all add: ex_mount_state_def ex_defs csum_size_def jbd2_has_incompat_feature_def jbd2_journal_has_csum_v2or3_def)
  then have "log_txs_wf ex_disk_env ex_mount_state 6 ex_disk_txs"
    by (simp add: ex_disk_txs_def tx_wf_def has_header_def jbd2_descriptor_block_csum_verify_def
        jbd2_commit_block_csum_verify_def) (simp add: ex_mount_state_def ex_defs)
  moreover have "log_holds ex_disk_env ex_mount_state 0 (concat (map tx_blocks ex_disk_txs))"
    by (simp add: ex_disk_txs_def tx_blocks_def log_block_def ex_mount_log ex_disk_env_def)
  moreover have "length (concat (map tx_blocks ex_disk_txs)) = 2" by (simp add: ex_disk_txs_def tx_blocks_def)
  ultimately show ?thesis by (simp add: log_on_disk_def ex_disk_wf) (simp add: ex_mount_state_def ex_defs)
qed

lemma ex_disk_stale:
  "stale_log ex_disk_env (ex_commit_state [6, 5]) ex_mount_state tid"
  unfolding stale_log_def
proof (intro allI impI)
  fix k assume assms: "length (log_region (ex_commit_state [6, 5])) \<le> k \<and> k < log_cap (ex_commit_state [6, 5])"
  have "2 \<le> k" "k < 2047" using assms by (simp_all add: ex_disk_wf) (simp add: log_cap_def ex_commit_state_def init_state_def)
  then have "unat (of_nat (1 + k) :: u64) = 1 + k" by (subst unat_of_nat_small) simp_all
  then have "(of_nat (1 + k) :: u64) \<noteq> 1" "(of_nat (1 + k) :: u64) \<noteq> 2"
    using \<open>2 \<le> k\<close> by (metis add_left_imp_eq not_numeral_le_zero unat_1 Suc_1 add.right_neutral One_nat_def, fastforce)
  then show "log_ends ex_disk_env ex_mount_state k tid" using \<open>k < 2047\<close>
    by (simp add: log_ends_def log_block_def ex_mount_log ex_disk_env_def has_header_def)
qed

lemma ex_disk_table: "revoke_table_of ex_mount_state True = Some ex_revoke_table"
  by (simp add: revoke_table_of_def ex_mount_state_def)

lemma ex_disk_result: "log_result ex_mount_state ex_disk_txs = []"
  by (simp add: ex_disk_txs_def tx_writes_def)

section \<open>Commit and recovery\<close>

text \<open>
  The blocks the commit writes, newest first, are those of a transaction, the commit block first.
\<close>

lemma commit_writes_ok:
  assumes r: "commit_ready E s t rt tr tb" and last: "t_buffers tr = [] \<or> kept s (ino_sync tr) (last (t_buffers tr))"
    and wf: "log_wf s"
  shows "\<exists>c0 c blk s' w tx. commit_start_logging E s t = Inr c0 \<and> commit_loop E t rt c0 = Some (Inr c) \<and>
    commit_record E (cm_state c) t (cm_crc c) = Inr (0, Some blk, s') \<and> log_written s' = w @ log_written s \<and>
    w = next_writes s (tx_blocks tx) \<and> tl w = next_writes s (concat (map item_blocks (fst tx))) \<and>
    logged s (length (tx_blocks tx)) (rev w) s' \<and> log_wf s' \<and>
    tx_wf E s (t_tid tr) tx \<and> length (tx_blocks tx) < unat (j_free s) \<and>
    tx_writes s tx = map (\<lambda>b. (b_blocknr (bhs s b), journal_data E s b)) (filter (kept s (ino_sync tr)) (t_buffers tr)) \<and>
    tx_revokes s tx = map rr_blocknr (concat (hash_table tb))"
proof -
  have tl: "tl (next_writes s (tx_blocks tx)) = next_writes s (concat (map item_blocks (fst tx)))" for tx
    by (simp add: tx_blocks_def)
  obtain c0 c blk s' tx where h: "commit_start_logging E s t = Inr c0" "commit_loop E t rt c0 = Some (Inr c)"
    "commit_record E (cm_state c) t (cm_crc c) = Inr (0, Some blk, s')" "tx_wf E s (t_tid tr) tx"
    "length (tx_blocks tx) < unat (j_free s)"
    "tx_writes s tx = map (\<lambda>b. (b_blocknr (bhs s b), journal_data E s b)) (filter (kept s (ino_sync tr)) (t_buffers tr))"
    "tx_revokes s tx = map rr_blocknr (concat (hash_table tb))"
    and l: "logged s (length (tx_blocks tx)) (zip (map (log_slot s) [0..<length (tx_blocks tx)]) (tx_blocks tx)) s'"
    using commit_logs_ok [OF r last] by blast
  have "logged s (length (tx_blocks tx)) (rev (next_writes s (tx_blocks tx))) s'" using l by simp
  then show ?thesis using h tl logged_written [OF l] logged_log_wf(1) [OF wf l h(5)] by blast
qed

text \<open>C3: the writing phases of a commit refine appending a transaction, under the conditions
  of \<open>commit_logs_transaction\<close>: the writing phases are taken on their own, every metadata buffer of
  another inode has a reference other than that of the transaction, the list of metadata buffers is
  empty or ends with a buffer of the inode of the commit, the log has room, and memory and the input
  and output are there. Besides, the blocks of the log are mapped injectively, the superblock on the
  disk names the tail of the log, and the committing transaction has the sequence number after \<open>txs\<close>,
  the complete transactions that the disk holds from the tail to the head. Then
  the phases return, keep the invariant of the log, and with the blocks they write the
  log on the disk holds \<open>txs\<close> followed by one transaction: its writes are the buffers of the inode
  the commit is for, and its revocations are those of the revoke table.\<close>

theorem commit_appends_transaction:
  assumes "commit_ready E s t rt tr tb" and "t_buffers tr = [] \<or> kept s (ino_sync tr) (last (t_buffers tr))"
    and wf: "log_wf s" and inj: "inj (jmap s)" and d: "log_on_disk E s s2 i txs"
    and tid: "t_tid tr = s_sequence (j_superblock s2) + of_nat (length txs)"
  shows "\<exists>c0 c blk s' w tx. commit_start_logging E s t = Inr c0 \<and> commit_loop E t rt c0 = Some (Inr c) \<and>
    commit_record E (cm_state c) t (cm_crc c) = Inr (0, Some blk, s') \<and>
    log_written s' = w @ log_written s \<and> log_wf s' \<and> log_on_disk (disk_write w E) s' s2 i (txs @ [tx]) \<and>
    tx_writes s tx = map (\<lambda>b. (b_blocknr (bhs s b), journal_data E s b)) (filter (kept s (ino_sync tr)) (t_buffers tr)) \<and>
    tx_revokes s tx = map rr_blocknr (concat (hash_table tb))"
  using commit_writes_ok [OF assms(1-3)] log_on_disk_append [OF d wf inj, folded tid] by blast

theorem commit_appends_transaction_witness:
  "\<exists>(s' :: jstate) w tx. log_written s' = w @ log_written (ex_commit_state [6, 5]) \<and> log_wf s' \<and>
    log_on_disk (disk_write w ex_disk_env) s' ex_mount_state True (ex_disk_txs @ [tx]) \<and>
    tx_revokes (ex_commit_state [6, 5]) tx = [9]"
proof -
  have eq: "map rr_blocknr (concat (hash_table ex_commit_table)) = [9]" by (simp add: ex_commit_table_def)
  from commit_appends_transaction [OF ex_disk_ready ex_disk_kept ex_disk_wf(1,3) ex_disk_log ex_disk_tid]
  show ?thesis unfolding eq by blast
qed

text \<open>C1: what the writing phases of a commit have written survives a crash, under the conditions
  of \<open>commit_logs_transaction\<close>: the writing phases are taken on their own, every metadata buffer of
  another inode has a reference other than that of the transaction, the list of metadata buffers is
  empty or ends with a buffer of the inode of the commit, the log has room, and memory and the input
  and output are there. Besides, the blocks of the log are mapped injectively, the superblock on the
  disk names the tail of the log, and the committing transaction has the sequence number after \<open>txs\<close>,
  the complete transactions that the disk holds from the tail to the head. The log
  holds fewer than \<open>2 ^ 31\<close> transactions and the revoke table is empty when recovery starts. When all the blocks that the phases
  write are on the disk, and what the rest of the log held before does not carry the sequence number
  after that of the transaction, recovery of the disk returns and writes what recovery before the commit would have written
  followed by the buffers of the inode, without the blocks in the revoke table.\<close>

theorem committed_survives_crash:
  assumes "commit_ready E s t rt tr tb" and "t_buffers tr = [] \<or> kept s (ino_sync tr) (last (t_buffers tr))"
    and wf: "log_wf s" and inj: "inj (jmap s)" and d: "log_on_disk E s s2 i txs"
    and tid: "t_tid tr = s_sequence (j_superblock s2) + of_nat (length txs)"
    and stale: "stale_log E s s2 (t_tid tr + 1)"
    and len: "length txs + 1 < 2 ^ 31"
    and t2: "revoke_table_of s2 i = Some t2" "revoke_wf t2" "revoke_map t2 = Map.empty"
  shows "\<exists>c0 c blk s' w err st. commit_start_logging E s t = Inr c0 \<and> commit_loop E t rt c0 = Some (Inr c) \<and>
    commit_record E (cm_state c) t (cm_crc c) = Inr (0, Some blk, s') \<and> log_written s' = w @ log_written s \<and>
    jbd2_vmsep_journal_recover (disk_write w E) s2 = Some (Inr (err, st)) \<and>
    rev (ps_fs st) = filter (\<lambda>(b, _). b \<notin> rr_blocknr ` set (concat (hash_table tb))) (log_result s2 txs @
      map (\<lambda>b. (b_blocknr (bhs s b), journal_data E s b)) (filter (kept s (ino_sync tr)) (t_buffers tr)))"
proof -
  obtain c0 c blk s' w tx where h: "commit_start_logging E s t = Inr c0" "commit_loop E t rt c0 = Some (Inr c)"
    "commit_record E (cm_state c) t (cm_crc c) = Inr (0, Some blk, s')" "log_written s' = w @ log_written s"
    and w: "w = next_writes s (tx_blocks tx)" and l: "logged s (length (tx_blocks tx)) (rev w) s'"
    and tx: "tx_wf E s (t_tid tr) tx" "length (tx_blocks tx) < unat (j_free s)"
    "tx_writes s tx = map (\<lambda>b. (b_blocknr (bhs s b), journal_data E s b)) (filter (kept s (ino_sync tr)) (t_buffers tr))"
    "tx_revokes s tx = map rr_blocknr (concat (hash_table tb))"
    using commit_writes_ok [OF assms(1-3)] by blast
  have nt: "recovery_ready (disk_write w E) s2 i" "s_start (j_superblock s2) \<noteq> 0" and fmt: "same_format s s2"
    using d by (simp_all add: log_on_disk_def names_tail_def)
  have "log_complete (disk_write w E) s2 (txs @ [tx])" unfolding w
    by (rule log_complete_append [OF d wf inj tx(1) [unfolded tid] tx(2) stale [unfolded tid] len l])
  from recover_log_ok [OF nt(1) this nt(2) t2] obtain err st where
    "jbd2_vmsep_journal_recover (disk_write w E) s2 = Some (Inr (err, st))" "rev (ps_fs st) = log_result s2 (txs @ [tx])"
    by blast
  then have "jbd2_vmsep_journal_recover (disk_write w E) s2 = Some (Inr (err, st)) \<and>
    rev (ps_fs st) = filter (\<lambda>(b, _). b \<notin> rr_blocknr ` set (concat (hash_table tb))) (log_result s2 txs @
      map (\<lambda>b. (b_blocknr (bhs s b), journal_data E s b)) (filter (kept s (ino_sync tr)) (t_buffers tr)))"
    by (simp add: log_result_append tx_format [OF fmt] tx(3,4))
  with h show ?thesis by blast
qed

theorem committed_survives_crash_witness:
  "\<exists>(s' :: jstate) w err st. log_written s' = w @ log_written (ex_commit_state [6, 5]) \<and>
    jbd2_vmsep_journal_recover (disk_write w ex_disk_env) ex_mount_state = Some (Inr (err, st)) \<and>
    rev (ps_fs st) = [(105, replicate 1024 1)]"
proof -
  have d: "journal_data ex_disk_env (ex_commit_state [6, 5]) 5 = replicate 1024 1"
    "b_blocknr (bhs (ex_commit_state [6, 5]) 5) = 105"
    by (simp_all add: journal_data_def ex_commit_state_def new_journal_head_def jbd2_vmsep_buffer_frozen_trigger_def)
  have l: "length ex_disk_txs + 1 < 2 ^ 31" by (simp add: ex_disk_txs_def)
  have eq: "filter (\<lambda>(b, _). b \<notin> rr_blocknr ` set (concat (hash_table ex_commit_table))) (log_result ex_mount_state ex_disk_txs @
      map (\<lambda>b. (b_blocknr (bhs (ex_commit_state [6, 5]) b), journal_data ex_disk_env (ex_commit_state [6, 5]) b))
        (filter (kept (ex_commit_state [6, 5]) (ino_sync (the (trs (ex_commit_state [6, 5]) 0))))
          (t_buffers (the (trs (ex_commit_state [6, 5]) 0))))) = [(105, replicate 1024 1)]"
    by (simp add: ex_disk_result ex_commit_tr ex_transaction_def ex_commit_kept ex_commit_table_def d)
  from committed_survives_crash [OF ex_disk_ready ex_disk_kept ex_disk_wf(1,3) ex_disk_log ex_disk_tid ex_disk_stale l
      ex_disk_table ex_revoke_table_wf] show ?thesis unfolding eq by blast
qed

text \<open>C2: writing phases of a commit that a crash interrupts have no effect, under the conditions
  of \<open>commit_logs_transaction\<close>: the writing phases are taken on their own, every metadata buffer of
  another inode has a reference other than that of the transaction, the list of metadata buffers is
  empty or ends with a buffer of the inode of the commit, the log has room, and memory and the input
  and output are there. Besides, the blocks of the log are mapped injectively, the superblock on the
  disk names the tail of the log, and the committing transaction has the sequence number after \<open>txs\<close>,
  the complete transactions that the disk holds from the tail to the head. The log
  holds fewer than \<open>2 ^ 31\<close> transactions and the revoke table is empty when recovery starts. Whatever part of the blocks that the
  phases write has reached the disk when the system crashes, as long as the commit block has not, and if
  what the rest of the log held before does not carry the sequence number of the transaction,
  recovery of the disk returns and writes exactly what it would have written before the commit.\<close>

theorem torn_commit_ignored:
  assumes "commit_ready E s t rt tr tb" and "t_buffers tr = [] \<or> kept s (ino_sync tr) (last (t_buffers tr))"
    and wf: "log_wf s" and inj: "inj (jmap s)" and d: "log_on_disk E s s2 i txs"
    and tid: "t_tid tr = s_sequence (j_superblock s2) + of_nat (length txs)"
    and stale: "stale_log E s s2 (t_tid tr)"
    and len: "length txs < 2 ^ 31"
    and t2: "revoke_table_of s2 i = Some t2" "revoke_wf t2" "revoke_map t2 = Map.empty"
  shows "\<exists>c0 c blk s' w. commit_start_logging E s t = Inr c0 \<and> commit_loop E t rt c0 = Some (Inr c) \<and>
    commit_record E (cm_state c) t (cm_crc c) = Inr (0, Some blk, s') \<and> log_written s' = w @ log_written s \<and> w \<noteq> [] \<and>
    (\<forall>w'. set w' \<subseteq> set (tl w) \<longrightarrow> (\<exists>err st. jbd2_vmsep_journal_recover (disk_write w' E) s2 = Some (Inr (err, st)) \<and>
      rev (ps_fs st) = log_result s2 txs))"
proof -
  obtain c0 c blk s' w tx where h: "commit_start_logging E s t = Inr c0" "commit_loop E t rt c0 = Some (Inr c)"
    "commit_record E (cm_state c) t (cm_crc c) = Inr (0, Some blk, s')" "log_written s' = w @ log_written s"
    and w: "w = next_writes s (tx_blocks tx)" "tl w = next_writes s (concat (map item_blocks (fst tx)))"
    and tx: "tx_wf E s (t_tid tr) tx" "length (tx_blocks tx) < unat (j_free s)"
    using commit_writes_ok [OF assms(1-3)] by blast
  have "\<exists>err st. jbd2_vmsep_journal_recover (disk_write w' E) s2 = Some (Inr (err, st)) \<and> rev (ps_fs st) = log_result s2 txs"
    if w': "set w' \<subseteq> set (tl w)" for w'
  proof -
    have nt: "recovery_ready (disk_write w' E) s2 i" "s_start (j_superblock s2) \<noteq> 0"
      using d by (simp_all add: log_on_disk_def names_tail_def)
    have "log_complete (disk_write w' E) s2 txs"
      by (rule log_complete_torn [OF d wf inj tx(1) [unfolded tid] tx(2) stale [unfolded tid] len w' [unfolded w(2)]])
    from recover_log_ok [OF nt(1) this nt(2) t2] show ?thesis by blast
  qed
  moreover have "w \<noteq> []" by (simp add: w(1) tx_blocks_def)
  ultimately show ?thesis using h by blast
qed

theorem torn_commit_ignored_witness:
  "\<exists>(s' :: jstate) w. log_written s' = w @ log_written (ex_commit_state [6, 5]) \<and> w \<noteq> [] \<and>
    (\<exists>err st. jbd2_vmsep_journal_recover (disk_write (tl w) ex_disk_env) ex_mount_state = Some (Inr (err, st)) \<and>
      rev (ps_fs st) = [])"
proof -
  have l: "length ex_disk_txs < 2 ^ 31" by (simp add: ex_disk_txs_def)
  from torn_commit_ignored [OF ex_disk_ready ex_disk_kept ex_disk_wf(1,3) ex_disk_log ex_disk_tid ex_disk_stale l
      ex_disk_table ex_revoke_table_wf] obtain s' :: jstate and w where
    w: "log_written s' = w @ log_written (ex_commit_state [6, 5])" "w \<noteq> []"
    and r: "\<forall>w'. set w' \<subseteq> set (tl w) \<longrightarrow> (\<exists>err st. jbd2_vmsep_journal_recover (disk_write w' ex_disk_env) ex_mount_state =
      Some (Inr (err, st)) \<and> rev (ps_fs st) = [])" unfolding ex_disk_result by blast
  from w r [rule_format, OF subset_refl] show ?thesis by blast
qed

end
