(* ===== verification/Jbd2_Blist.thy ===== *)
theory Jbd2_Blist
  imports Jbd2_Checkpoint
begin

text \<open>
  The lists of buffers as the code has them: circular lists that are linked through fields of the
  journal heads. Each operation on the pointers refines the operation on lists that the rest of the
  model uses: \<open>__blist_add_buffer\<close> and \<open>__blist_del_buffer\<close> of \<open>kernel/fs/jbd2/transaction.c\<close> on the lists of a
  transaction (\<open>b_tnext\<close>, \<open>b_tprev\<close>), and \<open>__buffer_unlink\<close>, \<open>__buffer_relink_io\<close> and the insertion of
  \<open>__jbd2_vmsep_journal_insert_checkpoint\<close> of \<open>checkpoint.c\<close> on the checkpoint lists (\<open>b_cpnext\<close>, \<open>b_cpprev\<close>).
\<close>

section \<open>The operations on pointers\<close>

text \<open>The two link fields of all journal heads; a list is given by the pointer to its first element.\<close>

record links =
  lnext :: "bhp \<Rightarrow> bhp"
  lprev :: "bhp \<Rightarrow> bhp"

definition set_next :: "bhp \<Rightarrow> bhp \<Rightarrow> links \<Rightarrow> links" where
  "set_next a b L = L\<lparr>lnext := (lnext L)(a := b)\<rparr>"

definition set_prev :: "bhp \<Rightarrow> bhp \<Rightarrow> links \<Rightarrow> links" where
  "set_prev a b L = L\<lparr>lprev := (lprev L)(a := b)\<rparr>"

definition blist_add_ptr :: "links \<Rightarrow> bhp option \<Rightarrow> bhp \<Rightarrow> links \<times> bhp option" where
  "blist_add_ptr L list jh =
     (case list of
        None \<Rightarrow> (set_next jh jh (set_prev jh jh L), Some jh)
      | Some first \<Rightarrow>
          let last = lprev L first;
              L = set_prev jh last L;
              L = set_next jh first L;
              L = set_prev first jh L;
              L = set_next last jh L
          in (L, Some first))"

definition blist_del_ptr :: "links \<Rightarrow> bhp option \<Rightarrow> bhp \<Rightarrow> links \<times> bhp option" where
  "blist_del_ptr L list jh =
     (let list = (if list = Some jh then (if lnext L jh = jh then None else Some (lnext L jh)) else list);
          L = set_next (lprev L jh) (lnext L jh) L;
          L = set_prev (lnext L jh) (lprev L jh) L
      in (L, list))"

text \<open>The checkpoint lists of a transaction.\<close>

record cp_lists =
  cp_links :: links
  cp_list :: "bhp option"
  cp_io_list :: "bhp option"

definition buffer_unlink_first_ptr :: "bhp \<Rightarrow> cp_lists \<Rightarrow> cp_lists" where
  "buffer_unlink_first_ptr jh c =
     (let L = cp_links c;
          L = set_prev (lnext L jh) (lprev L jh) L;
          L = set_next (lprev L jh) (lnext L jh) L
      in c\<lparr>cp_links := L,
           cp_list := (if cp_list c = Some jh then (if lnext L jh = jh then None else Some (lnext L jh)) else cp_list c)\<rparr>)"

definition buffer_unlink_ptr :: "bhp \<Rightarrow> cp_lists \<Rightarrow> cp_lists" where
  "buffer_unlink_ptr jh c =
     (let c = buffer_unlink_first_ptr jh c; n = lnext (cp_links c) jh
      in c\<lparr>cp_io_list := (if cp_io_list c = Some jh then (if n = jh then None else Some n) else cp_io_list c)\<rparr>)"

definition cp_insert_ptr :: "links \<Rightarrow> bhp option \<Rightarrow> bhp \<Rightarrow> links \<times> bhp option" where
  "cp_insert_ptr L list jh =
     (case list of
        None \<Rightarrow> (set_next jh jh (set_prev jh jh L), Some jh)
      | Some first \<Rightarrow>
          let L = set_next jh first L;
              L = set_prev jh (lprev L first) L;
              L = set_next (lprev L jh) jh L;
              L = set_prev (lnext L jh) jh L
          in (L, Some jh))"

definition buffer_relink_io_ptr :: "bhp \<Rightarrow> cp_lists \<Rightarrow> cp_lists" where
  "buffer_relink_io_ptr jh c =
     (let c = buffer_unlink_first_ptr jh c;
          (L, io) = cp_insert_ptr (cp_links c) (cp_io_list c) jh
      in c\<lparr>cp_links := L, cp_io_list := io\<rparr>)"

definition insert_checkpoint_ptr :: "bhp \<Rightarrow> cp_lists \<Rightarrow> cp_lists" where
  "insert_checkpoint_ptr jh c =
     (let (L, list) = cp_insert_ptr (cp_links c) (cp_list c) jh in c\<lparr>cp_links := L, cp_list := list\<rparr>)"

section \<open>Rings\<close>

text \<open>\<open>chain L xs\<close>: neighbours of \<open>xs\<close> are linked in both directions.\<close>

fun chain :: "links \<Rightarrow> bhp list \<Rightarrow> bool" where
  "chain L (x # y # zs) = (lnext L x = y \<and> lprev L y = x \<and> chain L (y # zs))"
| "chain L _ = True"

text \<open>\<open>ring L list xs\<close>: the pointer \<open>list\<close> stands for the circular list of \<open>xs\<close>.\<close>

definition ring :: "links \<Rightarrow> bhp option \<Rightarrow> bhp list \<Rightarrow> bool" where
  "ring L list xs = (distinct xs \<and> list = (if xs = [] then None else Some (hd xs)) \<and> chain L (xs @ take 1 xs))"

lemma link_simps [simp]:
  "lnext (set_next a b L) = (lnext L)(a := b)" "lprev (set_next a b L) = lprev L"
  "lprev (set_prev a b L) = (lprev L)(a := b)" "lnext (set_prev a b L) = lnext L"
  by (simp_all add: set_next_def set_prev_def)

lemma chain_append: "chain L (xs @ y # zs) = (chain L (xs @ [y]) \<and> chain L (y # zs))"
  by (induction xs rule: chain.induct [of _ L]) (auto simp: neq_Nil_conv)

lemma chain_snoc2: "chain L (xs @ [a, b]) = (chain L (xs @ [a]) \<and> lnext L a = b \<and> lprev L b = a)"
  using chain_append [of L xs a "[b]"] by simp

text \<open>The links of a chain are those from all but its last and to all but its first element.\<close>

lemma chain_cong:
  assumes "\<And>x. x \<in> set (butlast xs) \<Longrightarrow> lnext L' x = lnext L x" and "\<And>x. x \<in> set (tl xs) \<Longrightarrow> lprev L' x = lprev L x"
  shows "chain L' xs = chain L xs"
  using assms by (induction L xs rule: chain.induct) auto

lemma chain_rotate: "chain L (x # xs @ [x]) = chain L (xs @ [x] @ take 1 (xs @ [x]))"
proof (cases xs)
  case (Cons y ys)
  have "chain L (y # ys @ [x, y]) = (chain L (y # ys @ [x]) \<and> lnext L x = y \<and> lprev L y = x)"
    using chain_snoc2 [of L "y # ys" x y] by simp
  then show ?thesis using Cons by auto
qed simp

lemma ring_rotate: "ring L (Some x) (x # xs) \<Longrightarrow> ring L (Some (hd (xs @ [x]))) (xs @ [x])"
  using chain_rotate [of L x xs] by (auto simp: ring_def)

lemma ring_rotates: "xs \<noteq> [] \<Longrightarrow> ys \<noteq> [] \<Longrightarrow> ring L (Some (hd xs)) (xs @ ys) \<Longrightarrow> ring L (Some (hd ys)) (ys @ xs)"
proof (induction xs arbitrary: ys)
  case (Cons x xs)
  then have r: "ring L (Some (hd (xs @ ys @ [x]))) (xs @ ys @ [x])" using ring_rotate [of L x "xs @ ys"] by simp
  show ?case
  proof (cases "xs = []")
    case True
    then show ?thesis using r Cons.prems(2) by simp
  next
    case False
    then show ?thesis using Cons.IH [of "ys @ [x]"] r Cons.prems(2) by simp
  qed
qed simp

lemma ring_single: "lnext L b = b \<Longrightarrow> lprev L b = b \<Longrightarrow> ring L (Some b) [b]"
  by (simp add: ring_def)

lemma ring_last:
  assumes "ring L (Some f) xs"
  shows "xs \<noteq> []" "f = hd xs" "lprev L f = last xs" "lnext L (last xs) = f" "chain L xs" "distinct xs"
proof -
  show xs: "xs \<noteq> []" and f: "f = hd xs" and "distinct xs" using assms by (auto simp: ring_def split: if_splits)
  have "take 1 xs = [f]" using xs f by (cases xs) auto
  then have "chain L (butlast xs @ [last xs, f])"
    using assms xs append_butlast_last_id [OF xs] by (metis append.assoc append_Cons append_Nil ring_def)
  then show "lprev L f = last xs" "lnext L (last xs) = f" "chain L xs"
    using xs append_butlast_last_id [OF xs] by (auto simp: chain_snoc2)
qed

lemma ring_insert:
  assumes r: "ring L (Some f) xs" and b: "b \<notin> set xs"
    and n: "lnext L' = (lnext L)(b := f, lprev L f := b)" and p: "lprev L' = (lprev L)(b := lprev L f, f := b)"
  shows "ring L' (Some f) (xs @ [b])"
proof -
  note l = ring_last [OF r]
  have ne: "b \<noteq> f" "b \<noteq> last xs" using b l(1,2) by auto
  have "last xs \<notin> set (butlast xs)" using l(1,6) by (cases xs rule: rev_cases) auto
  moreover have "f \<notin> set (tl xs)" using l(1,2,6) by (cases xs) auto
  moreover have "b \<notin> set (butlast xs)" "b \<notin> set (tl xs)" using b by (auto dest: in_set_butlastD list.set_sel(2) [OF l(1)])
  ultimately have "chain L' xs = chain L xs" by (intro chain_cong) (auto simp: n p l(3))
  then have "chain L' (butlast xs @ [last xs])" using l(1,5) by simp
  then have "chain L' (butlast xs @ [last xs, b])" using ne chain_snoc2 [of L' "butlast xs" "last xs" b] by (simp add: n p l(3))
  moreover have "butlast xs @ [last xs, b] = xs @ [b]" using append_butlast_last_id [OF l(1)] by (metis append.assoc append_Cons append_Nil)
  ultimately have "chain L' (xs @ [b, f])" using ne chain_snoc2 [of L' xs b f] by (simp add: n p l(3))
  then show ?thesis using l(1,2,6) b by (cases xs) (auto simp: ring_def)
qed

lemma ring_remove_hd:
  assumes r: "ring L (Some b) (b # ws)" and ws: "ws \<noteq> []"
    and n: "lnext L' = (lnext L)(lprev L b := lnext L b)" and p: "lprev L' = (lprev L)(lnext L b := lprev L b)"
  shows "ring L' (Some (hd ws)) ws" "lnext L b = hd ws"
proof -
  note l = ring_last [OF r]
  obtain w ws' where w: "ws = w # ws'" using ws by (cases ws) auto
  have b: "lprev L b = last ws" "lnext L b = w" and "chain L ws" using l(3,5) w by auto
  have d: "distinct ws" "b \<notin> set ws" using l(6) by auto
  have "last ws \<notin> set (butlast ws)" using d(1) ws by (cases ws rule: rev_cases) auto
  then have "chain L' ws = chain L ws" using d(1) by (intro chain_cong) (auto simp: n p b w)
  then have "chain L' (butlast ws @ [last ws])" using \<open>chain L ws\<close> ws by simp
  then have "chain L' (butlast ws @ [last ws, w])" using chain_snoc2 [of L' "butlast ws" "last ws" w] by (simp add: n p b)
  moreover have "butlast ws @ [last ws, w] = ws @ take 1 ws" using append_butlast_last_id [OF ws] w by (metis append.assoc append_Cons append_Nil take_Suc_Cons take0 One_nat_def)
  ultimately have "chain L' (ws @ take 1 ws)" by simp
  then show "ring L' (Some (hd ws)) ws" using d(1) ws by (simp add: ring_def)
  show "lnext L b = hd ws" using b w by simp
qed

lemma ring_remove:
  assumes r: "ring L list xs" and b: "b \<in> set xs"
    and n: "lnext L' = (lnext L)(lprev L b := lnext L b)" and p: "lprev L' = (lprev L)(lnext L b := lprev L b)"
  shows "ring L' (if list = Some b then (if lnext L b = b then None else Some (lnext L b)) else list) (remove1 b xs)"
proof -
  obtain us vs where xs: "xs = us @ b # vs" "b \<notin> set us" using b by (meson split_list_first)
  have d: "distinct xs" and h: "list = Some (hd xs)" using r b by (auto simp: ring_def)
  have rm: "remove1 b xs = us @ vs" using xs by (simp add: remove1_append)
  have rot: "ring L (Some b) (b # vs @ us)"
  proof (cases "us = []")
    case False
    then show ?thesis using ring_rotates [of us "b # vs" L] r h xs by simp
  qed (use r h xs in simp)
  show ?thesis
  proof (cases "vs @ us = []")
    case True
    then have "lnext L b = b" using ring_last(4) [OF rot] by simp
    then show ?thesis using True h xs rm by (simp add: ring_def)
  next
    case False
    note m = ring_remove_hd [OF rot False n p]
    have "hd (vs @ us) \<in> set (vs @ us)" "b \<notin> set (vs @ us)" using hd_in_set [OF False] d xs by auto
    then have nb: "lnext L b \<noteq> b" using m(2) by metis
    show ?thesis
    proof (cases "us = []")
      case True
      then show ?thesis using m nb h xs rm by simp
    next
      case us: False
      have "hd xs = hd us" "hd us \<noteq> b" using us xs by (cases us; auto)+
      moreover have "ring L' (Some (hd us)) (us @ vs)"
        using ring_rotates [of vs us L'] m(1) us by (cases "vs = []") auto
      ultimately show ?thesis using h rm by simp
    qed
  qed
qed

section \<open>Refinement\<close>

lemma ring_None: "ring L None xs \<longleftrightarrow> xs = []"
  by (auto simp: ring_def)

lemma blist_add_ring:
  assumes "ring L list xs" and "b \<notin> set xs"
  shows "ring (fst (blist_add_ptr L list b)) (snd (blist_add_ptr L list b)) (xs @ [b])"
proof (cases list)
  case None
  then show ?thesis using assms by (simp add: blist_add_ptr_def ring_None) (simp add: ring_def)
next
  case (Some f)
  have "lprev L f \<in> set xs" "f \<in> set xs" using ring_last [of L f xs] assms(1) Some by auto
  then have "b \<noteq> lprev L f" "b \<noteq> f" using assms(2) by auto
  then have "ring (fst (blist_add_ptr L list b)) (Some f) (xs @ [b])"
    using assms Some by (intro ring_insert [of L f xs b]) (simp_all add: blist_add_ptr_def Let_def)
  then show ?thesis using Some by (simp add: blist_add_ptr_def Let_def)
qed

lemma cp_insert_ring:
  assumes "ring L list xs" and "b \<notin> set xs"
  shows "ring (fst (cp_insert_ptr L list b)) (snd (cp_insert_ptr L list b)) (b # xs)"
proof (cases list)
  case None
  then show ?thesis using assms by (simp add: cp_insert_ptr_def ring_None) (simp add: ring_def)
next
  case (Some f)
  have f: "lprev L f \<in> set xs" "f \<in> set xs" "f = hd xs" "xs \<noteq> []" using ring_last [of L f xs] assms(1) Some by auto
  then have "b \<noteq> lprev L f" "b \<noteq> f" using assms(2) by auto
  then have "ring (fst (cp_insert_ptr L list b)) (Some f) (xs @ [b])"
    using assms Some by (intro ring_insert [of L f xs b]) (simp_all add: cp_insert_ptr_def Let_def)
  then have "ring (fst (cp_insert_ptr L list b)) (Some b) ([b] @ xs)" using ring_rotates [of xs "[b]"] f(3,4) by simp
  then show ?thesis using Some by (simp add: cp_insert_ptr_def Let_def)
qed

text \<open>A list is not affected by links of journal heads that are not on it.\<close>

lemma ring_frame:
  assumes "ring L list xs" and "\<And>x. x \<in> set xs \<Longrightarrow> lnext L' x = lnext L x \<and> lprev L' x = lprev L x"
  shows "ring L' list xs"
proof -
  have "set (butlast (xs @ take 1 xs)) \<subseteq> set xs" "set (tl (xs @ take 1 xs)) \<subseteq> set xs"
    by (cases xs; auto dest: in_set_butlastD in_set_takeD)+
  then have "chain L' (xs @ take 1 xs) = chain L (xs @ take 1 xs)" using assms(2) by (intro chain_cong) blast+
  then show ?thesis using assms(1) by (simp add: ring_def)
qed

lemma ring_at:
  assumes r: "ring L list xs" and b: "b \<in> set xs"
  shows "lnext L b \<in> set xs" "lprev L b \<in> set xs"
proof -
  obtain us vs where xs: "xs = us @ b # vs" using b by (meson split_list)
  have "ring L (Some b) (b # vs @ us)"
  proof (cases "us = []")
    case False
    then show ?thesis using ring_rotates [of us "b # vs" L] r xs by (simp add: ring_def)
  qed (use r xs in \<open>simp add: ring_def\<close>)
  note l = ring_last [OF this]
  have "lprev L b \<in> set (b # vs @ us)" using l(3) last_in_set [of "b # vs @ us"] by simp
  then show "lprev L b \<in> set xs" using xs by auto
  have "lnext L b \<in> set (b # vs @ us)" using l(4,5) by (cases "vs @ us") auto
  then show "lnext L b \<in> set xs" using xs by auto
qed

lemma blist_del_ring:
  assumes "ring L list xs" and "b \<in> set xs"
  shows "ring (fst (blist_del_ptr L list b)) (snd (blist_del_ptr L list b)) (remove1 b xs)"
proof -
  have "lnext (fst (blist_del_ptr L list b)) = (lnext L)(lprev L b := lnext L b)"
    "lprev (fst (blist_del_ptr L list b)) = (lprev L)(lnext L b := lprev L b)"
    by (auto simp: blist_del_ptr_def Let_def fun_upd_def)
  from ring_remove [OF assms this] show ?thesis by (simp add: blist_del_ptr_def Let_def)
qed

lemma buffer_unlink_first_links:
  "lnext (cp_links (buffer_unlink_first_ptr b c)) = (lnext (cp_links c))(lprev (cp_links c) b := lnext (cp_links c) b)"
  "lprev (cp_links (buffer_unlink_first_ptr b c)) = (lprev (cp_links c))(lnext (cp_links c) b := lprev (cp_links c) b)"
  "cp_io_list (buffer_unlink_first_ptr b c) = cp_io_list c"
  by (auto simp: buffer_unlink_first_ptr_def Let_def fun_upd_def)

text \<open>C35: the circular lists of buffers refine lists. On the pointers of a list of a transaction,
  \<open>__blist_add_buffer\<close> appends a buffer and \<open>__blist_del_buffer\<close> removes one, as \<open>blist_add_buffer\<close> and
  \<open>blist_del_buffer\<close> do on the list that the pointers stand for, empty lists and lists of one buffer included; the other
  lists that are linked through the same fields stay what they are.\<close>

theorem blist_refines:
  assumes "ring L list xs"
  shows "(b \<notin> set xs \<longrightarrow> (case blist_add_ptr L list b of (L', list') \<Rightarrow> ring L' list' (blist_add_buffer b xs) \<and>
      (\<forall>l ys. ring L l ys \<and> set ys \<inter> set (b # xs) = {} \<longrightarrow> ring L' l ys))) \<and>
    (b \<in> set xs \<longrightarrow> (case blist_del_ptr L list b of (L', list') \<Rightarrow> ring L' list' (blist_del_buffer b xs) \<and>
      (\<forall>l ys. ring L l ys \<and> set ys \<inter> set xs = {} \<longrightarrow> ring L' l ys)))"
proof (intro conjI impI)
  assume b: "b \<notin> set xs"
  obtain L' list' where a: "blist_add_ptr L list b = (L', list')" by fastforce
  have "ring L' list' (xs @ [b])" using blist_add_ring [OF assms b] a by simp
  moreover have "ring L' l ys" if "ring L l ys" "set ys \<inter> set (b # xs) = {}" for l ys
  proof (rule ring_frame [OF that(1)])
    fix x assume "x \<in> set ys"
    then have x: "x \<noteq> b" "x \<notin> set xs" using that(2) by auto
    then show "lnext L' x = lnext L x \<and> lprev L' x = lprev L x"
    proof (cases list)
      case (Some f)
      have "lprev L f \<in> set xs" "f \<in> set xs" using ring_last [of L f xs] assms Some by auto
      then show ?thesis using x a Some by (auto simp: blist_add_ptr_def Let_def)
    qed (use a x in \<open>auto simp: blist_add_ptr_def\<close>)
  qed
  ultimately show "case blist_add_ptr L list b of (L', list') \<Rightarrow> ring L' list' (blist_add_buffer b xs) \<and>
      (\<forall>l ys. ring L l ys \<and> set ys \<inter> set (b # xs) = {} \<longrightarrow> ring L' l ys)" by (simp add: a blist_add_buffer_def)
next
  assume b: "b \<in> set xs"
  obtain L' list' where d: "blist_del_ptr L list b = (L', list')" by fastforce
  have "ring L' list' (remove1 b xs)" using blist_del_ring [OF assms b] d by simp
  moreover have "ring L' l ys" if "ring L l ys" "set ys \<inter> set xs = {}" for l ys
    by (rule ring_frame [OF that(1)]) (use ring_at [OF assms b] that(2) d in \<open>auto simp: blist_del_ptr_def Let_def\<close>)
  ultimately show "case blist_del_ptr L list b of (L', list') \<Rightarrow> ring L' list' (blist_del_buffer b xs) \<and>
      (\<forall>l ys. ring L l ys \<and> set ys \<inter> set xs = {} \<longrightarrow> ring L' l ys)" by (simp add: d blist_del_buffer_def)
qed

theorem blist_refines_witness:
  "let L = \<lparr>lnext = id(1 := 2, 2 := 1), lprev = id(1 := 2, 2 := 1)\<rparr>
   in ring (fst (blist_add_ptr L (Some 1) 3)) (Some 1) [1, 2, 3] \<and> ring (fst (blist_del_ptr L (Some 1) 1)) (Some 2) [2]"
proof -
  let ?L = "\<lparr>lnext = id(1 := 2, 2 := 1), lprev = id(1 := 2, 2 := 1)\<rparr> :: links"
  have "ring ?L (Some 1) [1, 2]" by (simp add: ring_def)
  from blist_refines [OF this, of 3] blist_refines [OF this, of 1] show ?thesis
    by (simp add: blist_add_ptr_def blist_del_ptr_def Let_def blist_add_buffer_def blist_del_buffer_def)
qed

text \<open>The pointers to the checkpoint lists of a transaction stand for the two lists of its model.\<close>

definition cp_rep :: "cp_lists \<Rightarrow> transaction_t \<Rightarrow> bool" where
  "cp_rep c tr = (ring (cp_links c) (cp_list c) (t_checkpoint_list tr) \<and>
     ring (cp_links c) (cp_io_list c) (t_checkpoint_io_list tr) \<and>
     set (t_checkpoint_list tr) \<inter> set (t_checkpoint_io_list tr) = {})"

lemma unlink_first_next: "lnext (cp_links (buffer_unlink_first_ptr b c)) b = lnext (cp_links c) b"
  by (simp add: buffer_unlink_first_links)

lemma unlink_first_list:
  "cp_list (buffer_unlink_first_ptr b c) =
     (if cp_list c = Some b then (if lnext (cp_links c) b = b then None else Some (lnext (cp_links c) b)) else cp_list c)"
  by (simp add: buffer_unlink_first_ptr_def Let_def)

lemma unlink_first_frame:
  assumes "ring (cp_links c) l xs" and "b \<in> set xs" and "ring (cp_links c) m ys" and "set xs \<inter> set ys = {}"
  shows "ring (cp_links (buffer_unlink_first_ptr b c)) m ys"
  by (rule ring_frame [OF assms(3)]) (use ring_at [OF assms(1,2)] assms(4) in \<open>auto simp: buffer_unlink_first_links\<close>)

lemma ring_hd: "ring L (Some b) xs \<Longrightarrow> b \<in> set xs"
  by (auto simp: ring_def split: if_splits)

lemma unlink_first_rep:
  assumes "cp_rep c tr" and "b \<in> set (t_checkpoint_list tr)"
  shows "cp_rep (buffer_unlink_first_ptr b c) (buffer_unlink b tr)" "cp_io_list c \<noteq> Some b"
    "b \<notin> set (t_checkpoint_list (buffer_unlink b tr))"
proof -
  have r: "ring (cp_links c) (cp_list c) (t_checkpoint_list tr)" "ring (cp_links c) (cp_io_list c) (t_checkpoint_io_list tr)"
    "set (t_checkpoint_list tr) \<inter> set (t_checkpoint_io_list tr) = {}" using assms(1) by (simp_all add: cp_rep_def)
  have b: "b \<notin> set (t_checkpoint_io_list tr)" using r(3) assms(2) by auto
  have d: "set (remove1 b (t_checkpoint_list tr)) \<inter> set (t_checkpoint_io_list tr) = {}"
    using r(3) set_remove1_subset [of b "t_checkpoint_list tr"] by blast
  have "ring (cp_links (buffer_unlink_first_ptr b c)) (cp_list (buffer_unlink_first_ptr b c)) (remove1 b (t_checkpoint_list tr))"
    unfolding unlink_first_list by (rule ring_remove [OF r(1) assms(2)]) (simp_all add: buffer_unlink_first_links)
  then show "cp_rep (buffer_unlink_first_ptr b c) (buffer_unlink b tr)"
    using unlink_first_frame [OF r(1) assms(2) r(2,3)] b d
    by (simp add: cp_rep_def buffer_unlink_def buffer_unlink_first_links remove1_idem)
  show "cp_io_list c \<noteq> Some b" using b r(2) by (auto dest: ring_hd)
  show "b \<notin> set (t_checkpoint_list (buffer_unlink b tr))" using r(1) by (simp add: buffer_unlink_def ring_def)
qed

lemma unlink_rep:
  assumes c: "cp_rep c tr" and b: "b \<in> set (t_checkpoint_list tr) \<union> set (t_checkpoint_io_list tr)"
  shows "cp_rep (buffer_unlink_ptr b c) (buffer_unlink b tr)"
proof (cases "b \<in> set (t_checkpoint_list tr)")
  case True
  then show ?thesis using unlink_first_rep [OF c True]
    by (simp add: cp_rep_def buffer_unlink_ptr_def Let_def buffer_unlink_first_links(3))
next
  case False
  then have io: "b \<in> set (t_checkpoint_io_list tr)" using b by simp
  have r: "ring (cp_links c) (cp_list c) (t_checkpoint_list tr)" "ring (cp_links c) (cp_io_list c) (t_checkpoint_io_list tr)"
    "set (t_checkpoint_io_list tr) \<inter> set (t_checkpoint_list tr) = {}" using c by (auto simp: cp_rep_def)
  have l: "cp_list c \<noteq> Some b" using False r(1) by (auto dest: ring_hd)
  have "set (t_checkpoint_list tr) \<inter> set (remove1 b (t_checkpoint_io_list tr)) = {}"
    using r(3) set_remove1_subset [of b "t_checkpoint_io_list tr"] by blast
  moreover have "ring (cp_links (buffer_unlink_ptr b c)) (cp_io_list (buffer_unlink_ptr b c)) (remove1 b (t_checkpoint_io_list tr))"
    using ring_remove [OF r(2) io buffer_unlink_first_links(1,2)]
    by (simp add: buffer_unlink_ptr_def Let_def buffer_unlink_first_links(3) unlink_first_next split: if_splits)
  ultimately show ?thesis using unlink_first_frame [OF r(2) io r(1,3)] False l
    by (simp add: cp_rep_def buffer_unlink_def remove1_idem buffer_unlink_ptr_def Let_def unlink_first_list)
qed

lemma cp_insert_frame:
  assumes "ring L list xs" and "ring L l ys" and "set ys \<inter> set (b # xs) = {}"
  shows "ring (fst (cp_insert_ptr L list b)) l ys"
proof (rule ring_frame [OF assms(2)])
  fix x assume "x \<in> set ys"
  then have x: "x \<noteq> b" "x \<notin> set xs" using assms(3) by auto
  show "lnext (fst (cp_insert_ptr L list b)) x = lnext L x \<and> lprev (fst (cp_insert_ptr L list b)) x = lprev L x"
  proof (cases list)
    case (Some f)
    have "lprev L f \<in> set xs" "f \<in> set xs" using ring_last [of L f xs] assms(1) Some by auto
    then show ?thesis using x Some by (auto simp: cp_insert_ptr_def Let_def)
  qed (use x in \<open>auto simp: cp_insert_ptr_def\<close>)
qed

text \<open>C36: the operations on the pointers of the checkpoint lists refine those on the lists of the
  transaction: \<open>__buffer_unlink\<close> removes a buffer from whichever of the two lists has it, \<open>__buffer_relink_io\<close> moves a
  buffer from the checkpoint list to the front of the I/O list, and \<open>__jbd2_vmsep_journal_insert_checkpoint\<close> puts a
  new buffer in front of the checkpoint list; the two lists share the link fields and stay apart.\<close>

theorem checkpoint_lists_refine:
  assumes "cp_rep c tr"
  shows "(b \<in> set (t_checkpoint_list tr) \<union> set (t_checkpoint_io_list tr) \<longrightarrow> cp_rep (buffer_unlink_ptr b c) (buffer_unlink b tr)) \<and>
    (b \<in> set (t_checkpoint_list tr) \<longrightarrow> cp_rep (buffer_relink_io_ptr b c) (buffer_relink_io b tr)) \<and>
    (b \<notin> set (t_checkpoint_list tr) \<union> set (t_checkpoint_io_list tr) \<longrightarrow>
       cp_rep (insert_checkpoint_ptr b c) (tr\<lparr>t_checkpoint_list := b # t_checkpoint_list tr\<rparr>))"
proof (intro conjI impI)
  assume "b \<in> set (t_checkpoint_list tr) \<union> set (t_checkpoint_io_list tr)"
  then show "cp_rep (buffer_unlink_ptr b c) (buffer_unlink b tr)" by (rule unlink_rep [OF assms])
next
  assume b: "b \<in> set (t_checkpoint_list tr)"
  let ?c = "buffer_unlink_first_ptr b c" and ?tr = "buffer_unlink b tr"
  note u = unlink_first_rep [OF assms b]
  have bio: "b \<notin> set (t_checkpoint_io_list tr)" using assms b by (auto simp: cp_rep_def)
  then have t: "t_checkpoint_io_list ?tr = t_checkpoint_io_list tr" "t_checkpoint_list ?tr = remove1 b (t_checkpoint_list tr)"
    by (simp_all add: buffer_unlink_def remove1_idem)
  have r: "ring (cp_links ?c) (cp_list ?c) (t_checkpoint_list ?tr)" "ring (cp_links ?c) (cp_io_list ?c) (t_checkpoint_io_list ?tr)"
    "set (t_checkpoint_list ?tr) \<inter> set (b # t_checkpoint_io_list ?tr) = {}" using u by (auto simp: cp_rep_def)
  have "b \<notin> set (t_checkpoint_io_list ?tr)" using bio t by simp
  from cp_insert_ring [OF r(2) this] cp_insert_frame [OF r(2,1,3)] r(3)
  show "cp_rep (buffer_relink_io_ptr b c) (buffer_relink_io b tr)"
    by (simp add: cp_rep_def buffer_relink_io_ptr_def Let_def split_beta buffer_relink_io_def t)
next
  assume b: "b \<notin> set (t_checkpoint_list tr) \<union> set (t_checkpoint_io_list tr)"
  have r: "ring (cp_links c) (cp_list c) (t_checkpoint_list tr)" "ring (cp_links c) (cp_io_list c) (t_checkpoint_io_list tr)"
    "set (t_checkpoint_io_list tr) \<inter> set (b # t_checkpoint_list tr) = {}" using assms b by (auto simp: cp_rep_def)
  from cp_insert_ring [OF r(1)] cp_insert_frame [OF r] b r(3)
  show "cp_rep (insert_checkpoint_ptr b c) (tr\<lparr>t_checkpoint_list := b # t_checkpoint_list tr\<rparr>)"
    by (auto simp: cp_rep_def insert_checkpoint_ptr_def Let_def split_beta)
qed

theorem checkpoint_lists_refine_witness:
  "let c = \<lparr>cp_links = \<lparr>lnext = id(1 := 2, 2 := 1), lprev = id(1 := 2, 2 := 1)\<rparr>, cp_list = Some 1, cp_io_list = Some 3\<rparr>;
       tr = ex_transaction\<lparr>t_checkpoint_list := [1, 2], t_checkpoint_io_list := [3]\<rparr>
   in cp_rep c tr \<and> cp_rep (buffer_relink_io_ptr 1 c) (tr\<lparr>t_checkpoint_list := [2], t_checkpoint_io_list := [1, 3]\<rparr>)"
proof -
  let ?c = "\<lparr>cp_links = \<lparr>lnext = id(1 := 2, 2 := 1), lprev = id(1 := 2, 2 := 1)\<rparr>, cp_list = Some 1, cp_io_list = Some 3\<rparr>"
  let ?tr = "ex_transaction\<lparr>t_checkpoint_list := [1, 2], t_checkpoint_io_list := [3]\<rparr>"
  have "cp_rep ?c ?tr" by (simp add: cp_rep_def ring_def)
  moreover from checkpoint_lists_refine [OF this, of 1] have "cp_rep (buffer_relink_io_ptr 1 ?c) (buffer_relink_io 1 ?tr)" by simp
  ultimately show ?thesis by (simp add: buffer_relink_io_def)
qed

end
