(* ===== verification/Ext4_Es.thy ===== *)
theory Ext4_Es
  imports Jbd2_Prelude "HOL-Library.Tree"
begin

text \<open>
  The extent status tree of ext4 (\<open>fs/ext4/extents_status.c\<close>, \<open>extents_status.h\<close>): a cache, one tree
  per inode, of the state of ranges of logical blocks. The nodes of the tree are objects in the slab
  \<open>es_heap\<close> and are modified in place; the tree itself holds pointers. The red-black tree library
  (\<open>rb_next\<close>, \<open>rb_prev\<close>, \<open>rb_erase\<close>, \<open>rb_insert_color\<close>), the outcome of memory allocations and of
  taking the lock of another inode are parameters in \<open>es_env\<close>. Scan times are left out.
\<close>

type_synonym ext4_lblk_t = u32
type_synonym ext4_fsblk_t = u64
type_synonym ext4_inop = nat
type_synonym esp = nat

section \<open>Extents\<close>

record extent_status =
  es_lblk :: ext4_lblk_t
  es_len :: ext4_lblk_t
  es_pblk :: ext4_fsblk_t

abbreviation EXTENT_STATUS_WRITTEN :: u32 where "EXTENT_STATUS_WRITTEN \<equiv> 1"
abbreviation EXTENT_STATUS_UNWRITTEN :: u32 where "EXTENT_STATUS_UNWRITTEN \<equiv> 2"
abbreviation EXTENT_STATUS_DELAYED :: u32 where "EXTENT_STATUS_DELAYED \<equiv> 4"
abbreviation EXTENT_STATUS_HOLE :: u32 where "EXTENT_STATUS_HOLE \<equiv> 8"
abbreviation EXTENT_STATUS_REFERENCED :: u32 where "EXTENT_STATUS_REFERENCED \<equiv> 16"

definition ES_SHIFT :: nat where "ES_SHIFT = 59"
definition ES_MASK :: u64 where "ES_MASK = push_bit ES_SHIFT (- 1)"
definition ES_TYPE_MASK :: u64 where "ES_TYPE_MASK = push_bit ES_SHIFT 15"
abbreviation EXT_MAX_BLOCKS :: u32 where "EXT_MAX_BLOCKS \<equiv> 0xFFFFFFFF"

definition ext4_es_status :: "extent_status \<Rightarrow> u32" where
  "ext4_es_status es = ucast (drop_bit ES_SHIFT (es_pblk es))"

definition ext4_es_type :: "extent_status \<Rightarrow> u32" where
  "ext4_es_type es = ucast (drop_bit ES_SHIFT (es_pblk es AND ES_TYPE_MASK))"

definition ext4_es_is_written :: "extent_status \<Rightarrow> bool" where
  "ext4_es_is_written es = (ext4_es_type es AND EXTENT_STATUS_WRITTEN \<noteq> 0)"

definition ext4_es_is_unwritten :: "extent_status \<Rightarrow> bool" where
  "ext4_es_is_unwritten es = (ext4_es_type es AND EXTENT_STATUS_UNWRITTEN \<noteq> 0)"

definition ext4_es_is_delayed :: "extent_status \<Rightarrow> bool" where
  "ext4_es_is_delayed es = (ext4_es_type es AND EXTENT_STATUS_DELAYED \<noteq> 0)"

definition ext4_es_is_hole :: "extent_status \<Rightarrow> bool" where
  "ext4_es_is_hole es = (ext4_es_type es AND EXTENT_STATUS_HOLE \<noteq> 0)"

definition ext4_es_set_referenced :: "extent_status \<Rightarrow> extent_status" where
  "ext4_es_set_referenced es = es\<lparr>es_pblk := es_pblk es OR push_bit ES_SHIFT (ucast EXTENT_STATUS_REFERENCED)\<rparr>"

definition ext4_es_clear_referenced :: "extent_status \<Rightarrow> extent_status" where
  "ext4_es_clear_referenced es =
     es\<lparr>es_pblk := es_pblk es AND NOT (push_bit ES_SHIFT (ucast EXTENT_STATUS_REFERENCED))\<rparr>"

definition ext4_es_is_referenced :: "extent_status \<Rightarrow> bool" where
  "ext4_es_is_referenced es = (ext4_es_status es AND EXTENT_STATUS_REFERENCED \<noteq> 0)"

definition ext4_es_pblock :: "extent_status \<Rightarrow> ext4_fsblk_t" where
  "ext4_es_pblock es = es_pblk es AND NOT ES_MASK"

definition ext4_es_store_pblock :: "ext4_fsblk_t \<Rightarrow> extent_status \<Rightarrow> extent_status" where
  "ext4_es_store_pblock pb es = es\<lparr>es_pblk := (pb AND NOT ES_MASK) OR (es_pblk es AND ES_MASK)\<rparr>"

definition ext4_es_store_pblock_status :: "ext4_fsblk_t \<Rightarrow> u32 \<Rightarrow> extent_status \<Rightarrow> extent_status" where
  "ext4_es_store_pblock_status pb status es =
     es\<lparr>es_pblk := (push_bit ES_SHIFT (ucast status) AND ES_MASK) OR (pb AND NOT ES_MASK)\<rparr>"

definition in_range :: "u32 \<Rightarrow> u32 \<Rightarrow> u32 \<Rightarrow> bool" where
  "in_range b first len = (first \<le> b \<and> b \<le> first + len - 1)"

definition ext4_es_end :: "extent_status \<Rightarrow> ext4_lblk_t res" where
  "ext4_es_end es = J_ASSERT (\<not> es_lblk es + es_len es < es_lblk es) (Inr (es_lblk es + es_len es - 1))"

definition ext4_es_can_be_merged :: "extent_status \<Rightarrow> extent_status \<Rightarrow> bool" where
  "ext4_es_can_be_merged es1 es2 =
     (if ext4_es_type es1 \<noteq> ext4_es_type es2 then False
      else if (ucast (es_len es1) :: u64) + ucast (es_len es2) > ucast EXT_MAX_BLOCKS then False
      else if (ucast (es_lblk es1) :: u64) + ucast (es_len es1) \<noteq> ucast (es_lblk es2) then False
      else if (ext4_es_is_written es1 \<or> ext4_es_is_unwritten es1) \<and>
              ext4_es_pblock es1 + ucast (es_len es1) = ext4_es_pblock es2 then True
      else if ext4_es_is_hole es1 then True
      else ext4_es_is_delayed es1 \<and> \<not> ext4_es_is_unwritten es1)"

section \<open>The state\<close>

text \<open>
  \<open>es_inode\<close> is the part of \<open>ext4_inode_info\<close> that belongs to the tree; \<open>s_es_list\<close> has the inodes with
  extents that can be reclaimed, the one to be shrunk next first.
\<close>

record es_inode =
  i_es_root :: "esp tree"
  cache_es :: "esp option"
  i_es_all_nr :: u32
  i_es_shk_nr :: u32
  i_es_shrink_lblk :: ext4_lblk_t
  i_es_precached :: bool

record es_state =
  es_inodes :: "ext4_inop \<Rightarrow> es_inode"
  es_heap :: "esp \<Rightarrow> extent_status option"
  es_next :: esp
  s_es_list :: "ext4_inop list"
  s_es_nr_inode :: int
  es_stats_all_cnt :: int
  es_stats_shk_cnt :: int
  es_stats_cache_hits :: ulong
  es_stats_cache_misses :: ulong

record es_env =
  rb_next :: "esp tree \<Rightarrow> esp \<Rightarrow> esp option"
  rb_prev :: "esp tree \<Rightarrow> esp \<Rightarrow> esp option"
  rb_erase :: "esp \<Rightarrow> esp tree \<Rightarrow> esp tree"
  rb_insert_color :: "esp \<Rightarrow> esp tree \<Rightarrow> esp tree"
  es_alloc :: "es_state \<Rightarrow> bool"
  es_trylock :: "es_state \<Rightarrow> ext4_inop \<Rightarrow> bool"

abbreviation es_root :: "es_state \<Rightarrow> ext4_inop \<Rightarrow> esp tree" where
  "es_root s i \<equiv> i_es_root (es_inodes s i)"

definition upd_ei :: "ext4_inop \<Rightarrow> (es_inode \<Rightarrow> es_inode) \<Rightarrow> es_state \<Rightarrow> es_state" where
  "upd_ei i f s = s\<lparr>es_inodes := (es_inodes s)(i := f (es_inodes s i))\<rparr>"

definition upd_es :: "esp \<Rightarrow> (extent_status \<Rightarrow> extent_status) \<Rightarrow> es_state \<Rightarrow> es_state" where
  "upd_es p f s = s\<lparr>es_heap := (es_heap s)(p := map_option f (es_heap s p))\<rparr>"

definition with_es :: "es_state \<Rightarrow> esp \<Rightarrow> (extent_status \<Rightarrow> 'a res) \<Rightarrow> 'a res" where
  "with_es s p f = deref (es_heap s p) UAF f"

definition set_cache_es :: "ext4_inop \<Rightarrow> esp option \<Rightarrow> es_state \<Rightarrow> es_state" where
  "set_cache_es i c = upd_ei i (\<lambda>ei. ei\<lparr>cache_es := c\<rparr>)"

definition ext4_es_init_tree :: "ext4_inop \<Rightarrow> es_state \<Rightarrow> es_state" where
  "ext4_es_init_tree i = upd_ei i (\<lambda>ei. ei\<lparr>i_es_root := \<langle>\<rangle>, cache_es := None\<rparr>)"

section \<open>Searching\<close>

text \<open>The loop returns whether the block was found, and the last node it has visited.\<close>

fun es_search_loop :: "es_state \<Rightarrow> ext4_lblk_t \<Rightarrow> esp tree \<Rightarrow> esp option \<Rightarrow> (bool \<times> esp option) res" where
  "es_search_loop s lblk \<langle>\<rangle> es = Inr (False, es)"
| "es_search_loop s lblk \<langle>l, p, r\<rangle> es =
     with_es s p (\<lambda>e.
       if lblk < es_lblk e then es_search_loop s lblk l (Some p)
       else bind_res (ext4_es_end e) (\<lambda>e_end.
         if lblk > e_end then es_search_loop s lblk r (Some p) else Inr (True, Some p)))"

definition es_tree_search :: "es_env \<Rightarrow> es_state \<Rightarrow> ext4_inop \<Rightarrow> ext4_lblk_t \<Rightarrow> esp option res" where
  "es_tree_search E s i lblk =
     bind_res (es_search_loop s lblk (es_root s i) None) (\<lambda>(found, es).
       case es of
         None \<Rightarrow> Inr None
       | Some p \<Rightarrow>
           if found then Inr (Some p)
           else with_es s p (\<lambda>e.
             if lblk < es_lblk e then Inr (Some p)
             else bind_res (ext4_es_end e) (\<lambda>e_end.
               if lblk > e_end then Inr (rb_next E (es_root s i) p) else Inr None)))"

text \<open>The loop of \<open>ext4_es_find_delayed_extent_range\<close> over the extents that follow \<open>p\<close>.\<close>

partial_function (option) find_delayed_loop ::
    "es_env \<Rightarrow> es_state \<Rightarrow> ext4_inop \<Rightarrow> ext4_lblk_t \<Rightarrow> esp \<Rightarrow> esp option res option" where
  "find_delayed_loop E s i e_end p =
     (case rb_next E (es_root s i) p of
        None \<Rightarrow> Some (Inr (Some p))
      | Some q \<Rightarrow>
          (case es_heap s q of
             None \<Rightarrow> Some (Inl UAF)
           | Some e \<Rightarrow>
               if es_lblk e > e_end then Some (Inr None)
               else if ext4_es_is_delayed e then Some (Inr (Some q))
               else find_delayed_loop E s i e_end q))"

definition es_zero :: extent_status where
  "es_zero = \<lparr>es_lblk = 0, es_len = 0, es_pblk = 0\<rparr>"

text \<open>A node found in the cache, if the cached extent covers the block.\<close>

definition es_cached :: "es_state \<Rightarrow> ext4_inop \<Rightarrow> ext4_lblk_t \<Rightarrow> esp option res" where
  "es_cached s i lblk =
     (case cache_es (es_inodes s i) of
        None \<Rightarrow> Inr None
      | Some p \<Rightarrow> with_es s p (\<lambda>e. Inr (if in_range lblk (es_lblk e) (es_len e) then Some p else None)))"

definition ext4_es_find_delayed_extent_range ::
    "es_env \<Rightarrow> es_state \<Rightarrow> ext4_inop \<Rightarrow> ext4_lblk_t \<Rightarrow> ext4_lblk_t \<Rightarrow> (extent_status \<times> es_state) res option" where
  "ext4_es_find_delayed_extent_range E s i lblk e_end =
     (if e_end < lblk then Some (Inl BUG)
      else bind_ro (Some (bind_res (es_cached s i lblk) (\<lambda>c.
             case c of Some p \<Rightarrow> Inr (Some p) | None \<Rightarrow> es_tree_search E s i lblk))) (\<lambda>es1.
        bind_ro (case es1 of
                   None \<Rightarrow> Some (Inr None)
                 | Some p \<Rightarrow> bind_ro (Some (with_es s p Inr)) (\<lambda>e.
                     if ext4_es_is_delayed e then Some (Inr (Some p)) else find_delayed_loop E s i e_end p)) (\<lambda>es1.
          case es1 of
            None \<Rightarrow> Some (Inr (es_zero, s))
          | Some p \<Rightarrow> Some (with_es s p (\<lambda>e.
              if ext4_es_is_delayed e then Inr (e, set_cache_es i (Some p) s) else Inr (es_zero, s))))))"

section \<open>Allocating and freeing extents\<close>

definition ext4_es_list_add :: "ext4_inop \<Rightarrow> es_state \<Rightarrow> es_state" where
  "ext4_es_list_add i s =
     (if i \<in> set (s_es_list s) then s
      else s\<lparr>s_es_list := s_es_list s @ [i], s_es_nr_inode := s_es_nr_inode s + 1\<rparr>)"

definition ext4_es_list_del :: "ext4_inop \<Rightarrow> es_state \<Rightarrow> es_state" where
  "ext4_es_list_del i s =
     (if i \<in> set (s_es_list s)
      then s\<lparr>s_es_list := remove1 i (s_es_list s), s_es_nr_inode := s_es_nr_inode s - 1\<rparr> else s)"

definition ext4_es_alloc_extent ::
    "es_env \<Rightarrow> es_state \<Rightarrow> ext4_inop \<Rightarrow> extent_status \<Rightarrow> esp option \<times> es_state" where
  "ext4_es_alloc_extent E s i es =
     (if \<not> es_alloc E s then (None, s)
      else let p = es_next s;
               s = s\<lparr>es_heap := (es_heap s)(p \<mapsto> es), es_next := p + 1\<rparr>;
               s = (if ext4_es_is_delayed es then s
                    else let first = (i_es_shk_nr (es_inodes s i) = 0);
                             s = upd_ei i (\<lambda>ei. ei\<lparr>i_es_shk_nr := i_es_shk_nr ei + 1\<rparr>) s;
                             s = (if first then ext4_es_list_add i s else s)
                         in s\<lparr>es_stats_shk_cnt := es_stats_shk_cnt s + 1\<rparr>);
               s = upd_ei i (\<lambda>ei. ei\<lparr>i_es_all_nr := i_es_all_nr ei + 1\<rparr>) s
           in (Some p, s\<lparr>es_stats_all_cnt := es_stats_all_cnt s + 1\<rparr>))"

definition ext4_es_free_extent :: "es_state \<Rightarrow> ext4_inop \<Rightarrow> esp \<Rightarrow> es_state res" where
  "ext4_es_free_extent s i p =
     (let s = upd_ei i (\<lambda>ei. ei\<lparr>i_es_all_nr := i_es_all_nr ei - 1\<rparr>) s;
          s = s\<lparr>es_stats_all_cnt := es_stats_all_cnt s - 1\<rparr>
      in with_es s p (\<lambda>es.
        bind_res
          (if ext4_es_is_delayed es then Inr s
           else J_ASSERT (i_es_shk_nr (es_inodes s i) \<noteq> 0)
             (let s = upd_ei i (\<lambda>ei. ei\<lparr>i_es_shk_nr := i_es_shk_nr ei - 1\<rparr>) s;
                  s = (if i_es_shk_nr (es_inodes s i) = 0 then ext4_es_list_del i s else s)
              in Inr (s\<lparr>es_stats_shk_cnt := es_stats_shk_cnt s - 1\<rparr>)))
          (\<lambda>s. Inr (s\<lparr>es_heap := (es_heap s)(p := None)\<rparr>))))"

text \<open>\<open>rb_erase\<close> followed by \<open>ext4_es_free_extent\<close>.\<close>

definition es_erase :: "es_env \<Rightarrow> es_state \<Rightarrow> ext4_inop \<Rightarrow> esp \<Rightarrow> es_state res" where
  "es_erase E s i p = ext4_es_free_extent (upd_ei i (\<lambda>ei. ei\<lparr>i_es_root := rb_erase E p (i_es_root ei)\<rparr>) s) i p"

section \<open>Merging and inserting\<close>

text \<open>The extent \<open>p\<close> grows by the extent \<open>q\<close>, which follows it, and \<open>q\<close> is freed.\<close>

definition es_absorb :: "es_env \<Rightarrow> es_state \<Rightarrow> ext4_inop \<Rightarrow> esp \<Rightarrow> esp \<Rightarrow> es_state res" where
  "es_absorb E s i p q =
     with_es s q (\<lambda>eq.
       es_erase E (upd_es p (\<lambda>e. let e = e\<lparr>es_len := es_len e + es_len eq\<rparr>
         in if ext4_es_is_referenced eq then ext4_es_set_referenced e else e) s) i q)"

definition ext4_es_try_to_merge_left :: "es_env \<Rightarrow> es_state \<Rightarrow> ext4_inop \<Rightarrow> esp \<Rightarrow> (esp \<times> es_state) res" where
  "ext4_es_try_to_merge_left E s i es =
     (case rb_prev E (es_root s i) es of
        None \<Rightarrow> Inr (es, s)
      | Some es1 \<Rightarrow>
          with_es s es1 (\<lambda>e1. with_es s es (\<lambda>e.
            if ext4_es_can_be_merged e1 e
            then bind_res (es_absorb E s i es1 es) (\<lambda>s. Inr (es1, s))
            else Inr (es, s))))"

definition ext4_es_try_to_merge_right :: "es_env \<Rightarrow> es_state \<Rightarrow> ext4_inop \<Rightarrow> esp \<Rightarrow> (esp \<times> es_state) res" where
  "ext4_es_try_to_merge_right E s i es =
     (case rb_next E (es_root s i) es of
        None \<Rightarrow> Inr (es, s)
      | Some es1 \<Rightarrow>
          with_es s es1 (\<lambda>e1. with_es s es (\<lambda>e.
            if ext4_es_can_be_merged e e1
            then bind_res (es_absorb E s i es es1) (\<lambda>s. Inr (es, s))
            else Inr (es, s))))"

text \<open>
  The walk down the tree ends at a node that the new extent can be merged with or at an empty
  place, which is given by the directions that lead to it.
\<close>

datatype rb_dir = Rb_left | Rb_right

datatype es_place = Merge_before esp | Merge_after esp | Link_at "rb_dir list"

fun es_insert_walk :: "es_state \<Rightarrow> extent_status \<Rightarrow> esp tree \<Rightarrow> rb_dir list \<Rightarrow> es_place res" where
  "es_insert_walk s newes \<langle>\<rangle> dirs = Inr (Link_at dirs)"
| "es_insert_walk s newes \<langle>l, p, r\<rangle> dirs =
     with_es s p (\<lambda>es.
       if es_lblk newes < es_lblk es
       then if ext4_es_can_be_merged newes es then Inr (Merge_before p)
            else es_insert_walk s newes l (dirs @ [Rb_left])
       else bind_res (ext4_es_end es) (\<lambda>es_end.
         if es_lblk newes > es_end
         then if ext4_es_can_be_merged es newes then Inr (Merge_after p)
              else es_insert_walk s newes r (dirs @ [Rb_right])
         else Inl BUG))"

fun rb_link_node :: "esp \<Rightarrow> rb_dir list \<Rightarrow> esp tree \<Rightarrow> esp tree" where
  "rb_link_node p [] t = \<langle>\<langle>\<rangle>, p, \<langle>\<rangle>\<rangle>"
| "rb_link_node p (d # dirs) \<langle>\<rangle> = \<langle>\<rangle>"
| "rb_link_node p (Rb_left # dirs) \<langle>l, q, r\<rangle> = \<langle>rb_link_node p dirs l, q, r\<rangle>"
| "rb_link_node p (Rb_right # dirs) \<langle>l, q, r\<rangle> = \<langle>l, q, rb_link_node p dirs r\<rangle>"

definition es_insert_extent_raw ::
    "es_env \<Rightarrow> es_state \<Rightarrow> ext4_inop \<Rightarrow> extent_status \<Rightarrow> (int \<times> es_state) res" where
  "es_insert_extent_raw E s i newes =
     bind_res (es_insert_walk s newes (es_root s i) []) (\<lambda>place.
       case place of
         Merge_before p \<Rightarrow>
           let s = upd_es p (\<lambda>es.
                 let es = es\<lparr>es_lblk := es_lblk newes, es_len := es_len es + es_len newes\<rparr>
                 in if ext4_es_is_written es \<or> ext4_es_is_unwritten es
                    then ext4_es_store_pblock (es_pblk newes) es else es) s
           in bind_res (ext4_es_try_to_merge_left E s i p) (\<lambda>(p, s). Inr (0, set_cache_es i (Some p) s))
       | Merge_after p \<Rightarrow>
           let s = upd_es p (\<lambda>es. es\<lparr>es_len := es_len es + es_len newes\<rparr>) s
           in bind_res (ext4_es_try_to_merge_right E s i p) (\<lambda>(p, s). Inr (0, set_cache_es i (Some p) s))
       | Link_at dirs \<Rightarrow>
           (case ext4_es_alloc_extent E s i newes of
              (None, s) \<Rightarrow> Inr (- ENOMEM, s)
            | (Some p, s) \<Rightarrow>
                Inr (0, set_cache_es i (Some p) (upd_ei i (\<lambda>ei. ei\<lparr>i_es_root :=
                  rb_insert_color E p (rb_link_node p dirs (i_es_root ei))\<rparr>) s))))"

definition ext4_es_cache_extent ::
    "es_env \<Rightarrow> es_state \<Rightarrow> ext4_inop \<Rightarrow> ext4_lblk_t \<Rightarrow> ext4_lblk_t \<Rightarrow> ext4_fsblk_t \<Rightarrow> u32 \<Rightarrow> es_state res" where
  "ext4_es_cache_extent E s i lblk len pblk status =
     (let e_end = lblk + len - 1;
          newes = ext4_es_store_pblock_status pblk status \<lparr>es_lblk = lblk, es_len = len, es_pblk = 0\<rparr>
      in if len = 0 then Inr s
         else J_ASSERT (\<not> e_end < lblk)
           (bind_res (es_tree_search E s i lblk) (\<lambda>es.
             bind_res (case es of None \<Rightarrow> Inr True | Some p \<Rightarrow> with_es s p (\<lambda>e. Inr (es_lblk e > e_end))) (\<lambda>free.
               if free then bind_res (es_insert_extent_raw E s i newes) (\<lambda>(_, s). Inr s) else Inr s))))"

definition ext4_es_lookup_extent ::
    "es_state \<Rightarrow> ext4_inop \<Rightarrow> ext4_lblk_t \<Rightarrow> (bool \<times> extent_status \<times> es_state) res" where
  "ext4_es_lookup_extent s i lblk =
     bind_res (es_cached s i lblk) (\<lambda>c.
     bind_res (case c of Some p \<Rightarrow> Inr (True, Some p) | None \<Rightarrow> es_search_loop s lblk (es_root s i) None)
       (\<lambda>(found, es1).
          if \<not> found then Inr (False, es_zero, s\<lparr>es_stats_cache_misses := es_stats_cache_misses s + 1\<rparr>)
          else deref es1 BUG (\<lambda>p. with_es s p (\<lambda>e.
            let s = (if ext4_es_is_referenced e then s else upd_es p ext4_es_set_referenced s)
            in Inr (True, e, s\<lparr>es_stats_cache_hits := es_stats_cache_hits s + 1\<rparr>)))))"

section \<open>Shrinking\<close>

text \<open>
  The loop of \<open>es_do_reclaim_extents\<close>, with \<open>n\<close> the value of \<open>*nr_to_scan\<close> and \<open>nr\<close> that of \<open>*nr_shrunk\<close>.
  The result has the return value first.
\<close>

definition set_shrink_lblk :: "ext4_inop \<Rightarrow> ext4_lblk_t \<Rightarrow> es_state \<Rightarrow> es_state" where
  "set_shrink_lblk i lblk = upd_ei i (\<lambda>ei. ei\<lparr>i_es_shrink_lblk := lblk\<rparr>)"

text \<open>What happens to one extent: the result says whether it was freed.\<close>

definition es_reclaim_one :: "es_env \<Rightarrow> es_state \<Rightarrow> ext4_inop \<Rightarrow> esp \<Rightarrow> extent_status \<Rightarrow> (bool \<times> es_state) res" where
  "es_reclaim_one E s i p e =
     (if ext4_es_is_delayed e then Inr (False, s)
      else if ext4_es_is_referenced e then Inr (False, upd_es p ext4_es_clear_referenced s)
      else bind_res (es_erase E s i p) (\<lambda>s. Inr (True, s)))"

fun es_reclaim_loop ::
    "es_env \<Rightarrow> ext4_inop \<Rightarrow> ext4_lblk_t \<Rightarrow> nat \<Rightarrow> nat \<Rightarrow> es_state \<Rightarrow> esp \<Rightarrow> (bool \<times> nat \<times> nat \<times> es_state) res" where
  "es_reclaim_loop E i e_end 0 nr s p =
     with_es s p (\<lambda>e. Inr (True, 0, nr, set_shrink_lblk i (es_lblk e) s))"
| "es_reclaim_loop E i e_end (Suc n) nr s p =
     with_es s p (\<lambda>e.
       if es_lblk e > e_end then Inr (False, Suc n, nr, set_shrink_lblk i (e_end + 1) s)
       else let node = rb_next E (es_root s i) p
            in bind_res (es_reclaim_one E s i p e) (\<lambda>(freed, s).
                 let nr = (if freed then nr + 1 else nr)
                 in case node of
                      None \<Rightarrow> Inr (False, n, nr, set_shrink_lblk i 0 s)
                    | Some q \<Rightarrow> es_reclaim_loop E i e_end n nr s q))"

definition es_do_reclaim_extents ::
    "es_env \<Rightarrow> es_state \<Rightarrow> ext4_inop \<Rightarrow> ext4_lblk_t \<Rightarrow> nat \<Rightarrow> nat \<Rightarrow> (bool \<times> nat \<times> nat \<times> es_state) res" where
  "es_do_reclaim_extents E s i e_end nr_to_scan nr_shrunk =
     bind_res (es_tree_search E s i (i_es_shrink_lblk (es_inodes s i))) (\<lambda>es.
       case es of
         None \<Rightarrow> Inr (False, nr_to_scan, nr_shrunk, set_shrink_lblk i 0 s)
       | Some p \<Rightarrow> es_reclaim_loop E i e_end nr_to_scan nr_shrunk s p)"

definition es_reclaim_extents :: "es_env \<Rightarrow> es_state \<Rightarrow> ext4_inop \<Rightarrow> nat \<Rightarrow> (nat \<times> nat \<times> es_state) res" where
  "es_reclaim_extents E s i nr_to_scan =
     (let start = i_es_shrink_lblk (es_inodes s i)
      in if i_es_shk_nr (es_inodes s i) = 0 then Inr (0, nr_to_scan, s)
         else bind_res (es_do_reclaim_extents E s i EXT_MAX_BLOCKS nr_to_scan 0) (\<lambda>(more, nr_to_scan, nr_shrunk, s).
           bind_res (if \<not> more \<and> start \<noteq> 0 then es_do_reclaim_extents E s i (start - 1) nr_to_scan nr_shrunk
                     else Inr (more, nr_to_scan, nr_shrunk, s)) (\<lambda>(_, nr_to_scan, nr_shrunk, s).
             Inr (nr_shrunk, nr_to_scan, set_cache_es i None s))))"

text \<open>
  One round over the list of inodes. The first component of the result is set when the round ends
  with \<open>goto out\<close>.
\<close>

fun es_shrink_walk ::
    "es_env \<Rightarrow> ext4_inop option \<Rightarrow> bool \<Rightarrow> nat \<Rightarrow> nat \<Rightarrow> nat \<Rightarrow> nat \<Rightarrow> es_state \<Rightarrow>
      (bool \<times> nat \<times> nat \<times> nat \<times> es_state) res" where
  "es_shrink_walk E locked retried 0 nr_to_scan nr_shrunk nr_skipped s =
     Inr (False, nr_to_scan, nr_shrunk, nr_skipped, s)"
| "es_shrink_walk E locked retried (Suc n) nr_to_scan nr_shrunk nr_skipped s =
     (case s_es_list s of
        [] \<Rightarrow> Inr (True, nr_to_scan, nr_shrunk, nr_skipped, s)
      | i # is \<Rightarrow>
          let s = s\<lparr>s_es_list := is @ [i]\<rparr>
          in if \<not> retried \<and> i_es_precached (es_inodes s i)
             then es_shrink_walk E locked retried n nr_to_scan nr_shrunk (nr_skipped + 1) s
             else if Some i = locked \<or> \<not> es_trylock E s i
             then es_shrink_walk E locked retried n nr_to_scan nr_shrunk (nr_skipped + 1) s
             else bind_res (es_reclaim_extents E s i nr_to_scan) (\<lambda>(nr, nr_to_scan, s).
               if nr_to_scan = 0 then Inr (True, nr_to_scan, nr_shrunk + nr, nr_skipped, s)
               else es_shrink_walk E locked retried n nr_to_scan (nr_shrunk + nr) nr_skipped s))"

definition es_shrink :: "es_env \<Rightarrow> es_state \<Rightarrow> nat \<Rightarrow> ext4_inop option \<Rightarrow> (nat \<times> es_state) res" where
  "es_shrink E s nr_to_scan locked =
     bind_res (es_shrink_walk E locked False (nat (s_es_nr_inode s)) nr_to_scan 0 0 s)
       (\<lambda>(out, nr_to_scan, nr_shrunk, nr_skipped, s).
     if out then Inr (nr_shrunk, s)
     else bind_res
       (if nr_shrunk = 0 \<and> nr_skipped \<noteq> 0
        then es_shrink_walk E locked True (nat (s_es_nr_inode s)) nr_to_scan nr_shrunk nr_skipped s
        else Inr (False, nr_to_scan, nr_shrunk, nr_skipped, s))
       (\<lambda>(out, nr_to_scan, nr_shrunk, nr_skipped, s).
     if out then Inr (nr_shrunk, s)
     else case locked of
         None \<Rightarrow> Inr (nr_shrunk, s)
       | Some i \<Rightarrow>
           if nr_shrunk = 0
           then bind_res (es_reclaim_extents E s i nr_to_scan) (\<lambda>(nr, _, s). Inr (nr, s))
           else Inr (nr_shrunk, s)))"

text \<open>The scan of the shrinker; \<open>cnt\<close> is the value that \<open>percpu_counter_read_positive\<close> has for its counter. The number
  to scan is below \<open>2 ^ 31\<close>, so that its conversion to \<open>int\<close> keeps it.\<close>

definition ext4_es_scan :: "es_env \<Rightarrow> es_state \<Rightarrow> nat \<Rightarrow> nat \<Rightarrow> (nat \<times> es_state) res" where
  "ext4_es_scan E s cnt nr_to_scan = (if nr_to_scan = 0 then Inr (cnt, s) else es_shrink E s nr_to_scan None)"

section \<open>Removing\<close>

text \<open>Erase the extents from \<open>es\<close> on that end within the range; the result has the first one that does not.\<close>

partial_function (option) es_erase_loop ::
    "es_env \<Rightarrow> ext4_inop \<Rightarrow> ext4_lblk_t \<Rightarrow> es_state \<Rightarrow> esp option \<Rightarrow> (es_state \<times> esp option) res option" where
  "es_erase_loop E i e_end s es =
     (case es of
        None \<Rightarrow> Some (Inr (s, None))
      | Some p \<Rightarrow>
          (case with_es s p ext4_es_end of
             Inl err \<Rightarrow> Some (Inl err)
           | Inr es_end \<Rightarrow>
               if es_end \<le> e_end
               then (case es_erase E s i p of
                       Inl err \<Rightarrow> Some (Inl err)
                     | Inr s' \<Rightarrow> es_erase_loop E i e_end s' (rb_next E (es_root s i) p))
               else Some (Inr (s, Some p))))"

text \<open>Cut the blocks up to \<open>e_end\<close> from the front of an extent, which keeps \<open>len\<close> blocks.\<close>

definition es_cut_front :: "ext4_lblk_t \<Rightarrow> ext4_lblk_t \<Rightarrow> extent_status \<Rightarrow> extent_status" where
  "es_cut_front e_end len es =
     (let orig = es;
          es = es\<lparr>es_lblk := e_end + 1, es_len := len\<rparr>
      in if ext4_es_is_written es \<or> ext4_es_is_unwritten es
         then ext4_es_store_pblock (es_pblk orig + ucast (es_len orig) - ucast len) es else es)"

text \<open>The part of an extent behind \<open>e_end\<close>, as a new extent.\<close>

definition es_split_tail :: "ext4_lblk_t \<Rightarrow> ext4_lblk_t \<Rightarrow> extent_status \<Rightarrow> extent_status" where
  "es_split_tail e_end len2 orig =
     ext4_es_store_pblock_status
       (if ext4_es_is_written orig \<or> ext4_es_is_unwritten orig
        then ext4_es_pblock orig + ucast (es_len orig) - ucast len2 else 0x7FDEADBEEF)
       (ext4_es_status orig) \<lparr>es_lblk = e_end + 1, es_len = len2, es_pblk = 0\<rparr>"

text \<open>The removal when the extent \<open>p\<close>, found at \<open>lblk\<close>, ends behind the range.\<close>

definition es_remove_within ::
    "es_env \<Rightarrow> es_state \<Rightarrow> ext4_inop \<Rightarrow> ext4_lblk_t \<Rightarrow> ext4_lblk_t \<Rightarrow> ext4_lblk_t \<Rightarrow> esp \<Rightarrow> extent_status \<Rightarrow>
      (int \<times> es_state) res" where
  "es_remove_within E s i e_end len1 len2 p orig =
     (if len1 > 0
      then bind_res (es_insert_extent_raw E (upd_es p (\<lambda>es. es\<lparr>es_len := len1\<rparr>) s) i (es_split_tail e_end len2 orig))
        (\<lambda>(err, s).
           Inr (err, if err \<noteq> 0 then upd_es p (\<lambda>es. es\<lparr>es_lblk := es_lblk orig, es_len := es_len orig\<rparr>) s else s))
      else Inr (0, upd_es p (es_cut_front e_end len2) s))"

text \<open>The removal when the range reaches the end of the extent found or goes beyond it.\<close>

definition es_remove_across ::
    "es_env \<Rightarrow> es_state \<Rightarrow> ext4_inop \<Rightarrow> ext4_lblk_t \<Rightarrow> ext4_lblk_t \<Rightarrow> esp \<Rightarrow> (int \<times> es_state) res option" where
  "es_remove_across E s i e_end len1 p =
     (let s = (if len1 > 0 then upd_es p (\<lambda>es. es\<lparr>es_len := len1\<rparr>) s else s);
          es = (if len1 > 0 then rb_next E (es_root s i) p else Some p)
      in bind_ro (es_erase_loop E i e_end s es) (\<lambda>(s, es).
           case es of
             None \<Rightarrow> Some (Inr (0, s))
           | Some q \<Rightarrow> Some (with_es s q (\<lambda>e.
               if es_lblk e < e_end + 1
               then bind_res (ext4_es_end e) (\<lambda>es_end. Inr (0, upd_es q (es_cut_front e_end (es_end - e_end)) s))
               else Inr (0, s)))))"

partial_function (option) es_remove_extent_raw ::
    "es_env \<Rightarrow> es_state \<Rightarrow> ext4_inop \<Rightarrow> ext4_lblk_t \<Rightarrow> ext4_lblk_t \<Rightarrow> (int \<times> es_state) res option" where
  "es_remove_extent_raw E s i lblk e_end =
     (case bind_res (es_tree_search E s i lblk) (\<lambda>es.
        case es of
          None \<Rightarrow> Inr None
        | Some p \<Rightarrow> with_es s p (\<lambda>e.
            if es_lblk e > e_end then Inr None
            else bind_res (ext4_es_end e) (\<lambda>es_end. Inr (Some (p, e, es_end))))) of
        Inl err \<Rightarrow> Some (Inl err)
      | Inr None \<Rightarrow> Some (Inr (0, s))
      | Inr (Some (p, e, es_end)) \<Rightarrow>
          (let s = set_cache_es i None s;
               len1 = (if lblk > es_lblk e then lblk - es_lblk e else 0);
               len2 = (if es_end > e_end then es_end - e_end else 0)
           in if len2 > 0
              then (case es_remove_within E s i e_end len1 len2 p e of
                      Inl err \<Rightarrow> Some (Inl err)
                    | Inr (err, s) \<Rightarrow>
                        if err = - ENOMEM
                        then (case es_shrink E s 128 (Some i) of
                                Inl err \<Rightarrow> Some (Inl err)
                              | Inr (nr, s) \<Rightarrow>
                                  if nr \<noteq> 0 then es_remove_extent_raw E s i lblk e_end else Some (Inr (err, s)))
                        else Some (Inr (err, s)))
              else es_remove_across E s i e_end len1 p))"

definition ext4_es_remove_extent ::
    "es_env \<Rightarrow> es_state \<Rightarrow> ext4_inop \<Rightarrow> ext4_lblk_t \<Rightarrow> ext4_lblk_t \<Rightarrow> (int \<times> es_state) res option" where
  "ext4_es_remove_extent E s i lblk len =
     (let e_end = lblk + len - 1
      in if len = 0 then Some (Inr (0, s))
         else if e_end < lblk then Some (Inl BUG) else es_remove_extent_raw E s i lblk e_end)"

text \<open>The loop around the label \<open>retry\<close> of \<open>ext4_es_insert_extent\<close>.\<close>

partial_function (option) es_insert_retry ::
    "es_env \<Rightarrow> ext4_inop \<Rightarrow> extent_status \<Rightarrow> es_state \<Rightarrow> (int \<times> es_state) res option" where
  "es_insert_retry E i newes s =
     (case es_insert_extent_raw E s i newes of
        Inl err \<Rightarrow> Some (Inl err)
      | Inr (err, s) \<Rightarrow>
          if err = - ENOMEM
          then (case es_shrink E s 128 (Some i) of
                  Inl err \<Rightarrow> Some (Inl err)
                | Inr (nr, s) \<Rightarrow>
                    if nr \<noteq> 0 then es_insert_retry E i newes s
                    else Some (Inr (if ext4_es_is_delayed newes then err else 0, s)))
          else Some (Inr (err, s)))"

definition ext4_es_insert_extent ::
    "es_env \<Rightarrow> es_state \<Rightarrow> ext4_inop \<Rightarrow> ext4_lblk_t \<Rightarrow> ext4_lblk_t \<Rightarrow> ext4_fsblk_t \<Rightarrow> u32 \<Rightarrow>
      (int \<times> es_state) res option" where
  "ext4_es_insert_extent E s i lblk len pblk status =
     (let e_end = lblk + len - 1;
          newes = ext4_es_store_pblock_status pblk status \<lparr>es_lblk = lblk, es_len = len, es_pblk = 0\<rparr>
      in if len = 0 then Some (Inr (0, s))
         else if e_end < lblk then Some (Inl BUG)
         else bind_ro (es_remove_extent_raw E s i lblk e_end) (\<lambda>(err, s).
           if err \<noteq> 0 then Some (Inr (err, s)) else es_insert_retry E i newes s))"

end
