(* ===== verification/Ext4_EsList.thy ===== *)
theory Ext4_EsList
  imports Ext4_Es
begin

text \<open>
  Lists of extents, the abstract view of an extent status tree: the extents in the order of their
  blocks, and the map from blocks to their state that they stand for.
\<close>

section \<open>Extents\<close>

lemma take_bit_not_mask: "(w :: u64) AND NOT ES_MASK = take_bit 59 w"
  by (rule bit_word_eqI) (auto simp: ES_MASK_def ES_SHIFT_def bit_simps)

lemma take_bit_add_left: "take_bit 59 (take_bit 59 a + b) = take_bit 59 (a + b :: u64)"
proof -
  have "((x mod 2 ^ 59 + y) mod 2 ^ 64) mod 2 ^ 59 = ((x + y) mod 2 ^ 64) mod 2 ^ 59" for x y :: nat
    by (simp add: mod_mod_cancel mod_simps le_imp_power_dvd)
  then show ?thesis by (simp add: word_unat_eq_iff unat_word_ariths unsigned_take_bit_eq take_bit_eq_mod)
qed

lemma es_pblock_bit: "bit (ext4_es_pblock e) n \<longleftrightarrow> n < 59 \<and> bit (es_pblk e) n"
  by (simp add: ext4_es_pblock_def take_bit_not_mask bit_simps)

lemma bit_15: "bit (15 :: int) n \<longleftrightarrow> n < 4" "bit (15 :: nat) n \<longleftrightarrow> n < 4"
proof -
  have "(15 :: int) = mask 4" "(15 :: nat) = mask 4" by (simp_all add: mask_eq_exp_minus_1)
  then show "bit (15 :: int) n \<longleftrightarrow> n < 4" "bit (15 :: nat) n \<longleftrightarrow> n < 4"
    by (simp_all only: bit_mask_iff) auto
qed

lemma es_type_bit: "bit (ext4_es_type e) n \<longleftrightarrow> n < 4 \<and> bit (es_pblk e) (59 + n)"
  by (auto simp: ext4_es_type_def ES_TYPE_MASK_def ES_SHIFT_def bit_simps bit_15)

lemma referenced_bit: "push_bit ES_SHIFT (ucast EXTENT_STATUS_REFERENCED :: u64) = 2 ^ 63"
  by (simp add: ES_SHIFT_def push_bit_eq_mult)

lemma set_referenced_bit: "bit (es_pblk (ext4_es_set_referenced e)) n \<longleftrightarrow> n = 63 \<or> bit (es_pblk e) n"
proof -
  have "bit (es_pblk (ext4_es_set_referenced e)) n \<longleftrightarrow> bit (es_pblk e OR 2 ^ 63) n"
    unfolding ext4_es_set_referenced_def referenced_bit by simp
  then show ?thesis by (simp only: bit_or_iff bit_exp_iff) auto
qed

lemma clear_referenced_bit: "bit (es_pblk (ext4_es_clear_referenced e)) n \<longleftrightarrow> n \<noteq> 63 \<and> bit (es_pblk e) n"
proof -
  have "bit (es_pblk (ext4_es_clear_referenced e)) n \<longleftrightarrow> bit (es_pblk e AND NOT (2 ^ 63)) n"
    unfolding ext4_es_clear_referenced_def referenced_bit by simp
  then show ?thesis by (simp only: bit_and_iff bit_not_iff bit_exp_iff) (auto dest: bit_imp_le_length)
qed

lemma store_pblock_bit:
  "bit (es_pblk (ext4_es_store_pblock pb e)) n \<longleftrightarrow> (if n < 59 then bit pb n else bit (es_pblk e) n)"
  by (auto simp: ext4_es_store_pblock_def ES_MASK_def ES_SHIFT_def bit_simps dest: bit_imp_le_length)

lemma store_status_bit:
  "bit (es_pblk (ext4_es_store_pblock_status pb status e)) n \<longleftrightarrow>
    (if n < 59 then bit pb n else n < 64 \<and> bit status (n - 59))"
  by (auto simp: ext4_es_store_pblock_status_def ES_MASK_def ES_SHIFT_def bit_simps dest: bit_imp_le_length)

lemma es_fields [simp]:
  "ext4_es_type (e\<lparr>es_lblk := l\<rparr>) = ext4_es_type e" "ext4_es_type (e\<lparr>es_len := n\<rparr>) = ext4_es_type e"
  "ext4_es_pblock (e\<lparr>es_lblk := l\<rparr>) = ext4_es_pblock e" "ext4_es_pblock (e\<lparr>es_len := n\<rparr>) = ext4_es_pblock e"
  by (simp_all add: ext4_es_type_def ext4_es_pblock_def)

lemma es_type_kept [simp]:
  "ext4_es_type (ext4_es_set_referenced e) = ext4_es_type e"
  "ext4_es_type (ext4_es_clear_referenced e) = ext4_es_type e"
  "ext4_es_type (ext4_es_store_pblock pb e) = ext4_es_type e"
  by (rule bit_word_eqI; auto simp: es_type_bit set_referenced_bit clear_referenced_bit store_pblock_bit)+

lemma es_pblock_kept [simp]:
  "ext4_es_pblock (ext4_es_set_referenced e) = ext4_es_pblock e"
  "ext4_es_pblock (ext4_es_clear_referenced e) = ext4_es_pblock e"
  by (rule bit_word_eqI; auto simp: es_pblock_bit set_referenced_bit clear_referenced_bit)+

lemma es_pblock_stored [simp]:
  "ext4_es_pblock (ext4_es_store_pblock pb e) = take_bit 59 pb"
  "ext4_es_pblock (ext4_es_store_pblock_status pb status e) = take_bit 59 pb"
  by (rule bit_word_eqI; auto simp: es_pblock_bit store_pblock_bit store_status_bit bit_simps)+

lemma es_type_stored: "ext4_es_type (ext4_es_store_pblock_status pb status e) = status AND 15"
  by (rule bit_word_eqI) (auto simp: es_type_bit store_status_bit bit_simps bit_15)

lemma es_type_status: "ext4_es_status e AND 15 = ext4_es_type e"
  by (rule bit_word_eqI) (auto simp: es_type_bit ext4_es_status_def ES_SHIFT_def bit_simps bit_15)

lemma es_place_fields [simp]:
  "es_lblk (ext4_es_set_referenced e) = es_lblk e" "es_len (ext4_es_set_referenced e) = es_len e"
  "es_lblk (ext4_es_clear_referenced e) = es_lblk e" "es_len (ext4_es_clear_referenced e) = es_len e"
  "es_lblk (ext4_es_store_pblock pb e) = es_lblk e" "es_len (ext4_es_store_pblock pb e) = es_len e"
  "es_lblk (ext4_es_store_pblock_status pb status e) = es_lblk e"
  "es_len (ext4_es_store_pblock_status pb status e) = es_len e"
  by (simp_all add: ext4_es_set_referenced_def ext4_es_clear_referenced_def ext4_es_store_pblock_def
      ext4_es_store_pblock_status_def)

text \<open>
  The blocks of an extent, as natural numbers. An extent of the tree is not empty and ends before
  the last block number, and its state is one that the file system uses: a written extent is not
  delayed, and a hole is not allocated.
\<close>

definition ext_end :: "extent_status \<Rightarrow> nat" where
  "ext_end e = unat (es_lblk e) + unat (es_len e)"

definition status_ok :: "u32 \<Rightarrow> bool" where
  "status_ok st =
     (\<not> (st AND EXTENT_STATUS_DELAYED \<noteq> 0 \<and> st AND EXTENT_STATUS_WRITTEN \<noteq> 0) \<and>
      \<not> (st AND EXTENT_STATUS_HOLE \<noteq> 0 \<and> (st AND EXTENT_STATUS_WRITTEN \<noteq> 0 \<or> st AND EXTENT_STATUS_UNWRITTEN \<noteq> 0)))"

definition ext_ok :: "extent_status \<Rightarrow> bool" where
  "ext_ok e = (0 < unat (es_len e) \<and> ext_end e < 2 ^ 32 \<and> status_ok (ext4_es_type e))"

definition covers :: "extent_status \<Rightarrow> ext4_lblk_t \<Rightarrow> bool" where
  "covers e b = (unat (es_lblk e) \<le> unat b \<and> unat b < ext_end e)"

text \<open>The state of a block: its type and, for an allocated block, the physical block.\<close>

definition es_val :: "extent_status \<Rightarrow> ext4_lblk_t \<Rightarrow> u32 \<times> ext4_fsblk_t option" where
  "es_val e b = (ext4_es_type e,
     if ext4_es_is_written e \<or> ext4_es_is_unwritten e
     then Some (take_bit 59 (ext4_es_pblock e + of_nat (unat b - unat (es_lblk e)))) else None)"

definition ext_before :: "extent_status \<Rightarrow> extent_status \<Rightarrow> bool" where
  "ext_before a b = (ext_end a \<le> unat (es_lblk b))"

definition exts_ok :: "extent_status list \<Rightarrow> bool" where
  "exts_ok L = (list_all ext_ok L \<and> sorted_wrt ext_before L)"

definition ext_map :: "extent_status list \<Rightarrow> ext4_lblk_t \<Rightarrow> (u32 \<times> ext4_fsblk_t option) option" where
  "ext_map L b = map_option (\<lambda>e. es_val e b) (find (\<lambda>e. covers e b) L)"

definition ext_put ::
    "(ext4_lblk_t \<Rightarrow> (u32 \<times> ext4_fsblk_t option) option) \<Rightarrow> extent_status \<Rightarrow> ext4_lblk_t \<Rightarrow> (u32 \<times> ext4_fsblk_t option) option" where
  "ext_put m e b = (if covers e b then Some (es_val e b) else m b)"

definition ext_del ::
    "(ext4_lblk_t \<Rightarrow> (u32 \<times> ext4_fsblk_t option) option) \<Rightarrow> ext4_lblk_t \<Rightarrow> ext4_lblk_t \<Rightarrow> ext4_lblk_t \<Rightarrow> (u32 \<times> ext4_fsblk_t option) option" where
  "ext_del m lo hi b = (if lo \<le> b \<and> b \<le> hi then None else m b)"

lemma es_flags_type:
  "ext4_es_type e = ext4_es_type e' \<Longrightarrow> ext4_es_is_written e = ext4_es_is_written e'"
  "ext4_es_type e = ext4_es_type e' \<Longrightarrow> ext4_es_is_unwritten e = ext4_es_is_unwritten e'"
  "ext4_es_type e = ext4_es_type e' \<Longrightarrow> ext4_es_is_delayed e = ext4_es_is_delayed e'"
  "ext4_es_type e = ext4_es_type e' \<Longrightarrow> ext4_es_is_hole e = ext4_es_is_hole e'"
  by (simp_all add: ext4_es_is_written_def ext4_es_is_unwritten_def ext4_es_is_delayed_def ext4_es_is_hole_def)

lemma unat_lt_32: "unat (w :: u32) < 2 ^ 32"
  using unsigned_less [of w, where 'a = nat] by simp

lemma unat_es_last: "ext_ok e \<Longrightarrow> unat (es_lblk e + es_len e - 1) = ext_end e - 1"
proof -
  assume ok: "ext_ok e"
  then have "unat (es_lblk e + es_len e) = ext_end e" by (simp add: ext_ok_def ext_end_def unat_add_small)
  moreover have "0 < ext_end e" using ok by (simp add: ext_ok_def ext_end_def)
  ultimately show ?thesis by (metis unat_minus_one unat_0 less_nat_zero_code)
qed

lemma es_end_ok: "ext_ok e \<Longrightarrow> ext4_es_end e = Inr (es_lblk e + es_len e - 1)"
  by (simp add: ext4_es_end_def ext_ok_def word_less_nat_alt unat_add_small ext_end_def)

lemma es_last_compare:
  assumes "ext_ok e"
  shows "b > es_lblk e + es_len e - 1 \<longleftrightarrow> ext_end e \<le> unat b" "es_lblk e + es_len e - 1 < b \<longleftrightarrow> ext_end e \<le> unat b"
    "es_lblk e + es_len e - 1 \<le> b \<longleftrightarrow> ext_end e \<le> Suc (unat b)"
proof -
  have "0 < ext_end e" using assms by (simp add: ext_ok_def ext_end_def)
  then show "b > es_lblk e + es_len e - 1 \<longleftrightarrow> ext_end e \<le> unat b" "es_lblk e + es_len e - 1 < b \<longleftrightarrow> ext_end e \<le> unat b"
    "es_lblk e + es_len e - 1 \<le> b \<longleftrightarrow> ext_end e \<le> Suc (unat b)"
    by (auto simp: word_less_nat_alt word_le_nat_alt unat_es_last [OF assms])
qed

lemma in_range_covers: "ext_ok e \<Longrightarrow> in_range b (es_lblk e) (es_len e) = covers e b"
proof -
  assume ok: "ext_ok e"
  then have "0 < ext_end e" by (simp add: ext_ok_def ext_end_def)
  then show ?thesis by (auto simp: in_range_def covers_def word_le_nat_alt unat_es_last [OF ok])
qed

section \<open>Merging extents\<close>

text \<open>\<open>e\<close> has the blocks of \<open>e1\<close> and of \<open>e2\<close>, which follow them.\<close>

definition merged :: "extent_status \<Rightarrow> extent_status \<Rightarrow> extent_status \<Rightarrow> bool" where
  "merged e1 e2 e =
     (es_lblk e = es_lblk e1 \<and> es_len e = es_len e1 + es_len e2 \<and> ext4_es_type e = ext4_es_type e1 \<and>
      (ext4_es_is_written e \<or> ext4_es_is_unwritten e \<longrightarrow> ext4_es_pblock e = ext4_es_pblock e1))"

lemma can_be_mergedD:
  assumes m: "ext4_es_can_be_merged e1 e2" and ok: "ext_ok e1" "ext_ok e2"
  shows "ext4_es_type e1 = ext4_es_type e2" "ext_end e1 = unat (es_lblk e2)"
    "ext4_es_is_written e1 \<or> ext4_es_is_unwritten e1 \<Longrightarrow> ext4_es_pblock e2 = ext4_es_pblock e1 + ucast (es_len e1)"
proof -
  show "ext4_es_type e1 = ext4_es_type e2" using m by (auto simp: ext4_es_can_be_merged_def split: if_splits)
  have "(ucast (es_lblk e1) :: u64) + ucast (es_len e1) = ucast (es_lblk e2)"
    using m by (auto simp: ext4_es_can_be_merged_def split: if_splits)
  then have "unat ((ucast (es_lblk e1) :: u64) + ucast (es_len e1)) = unat (es_lblk e2)" by (simp add: unat_ucast64)
  then show "ext_end e1 = unat (es_lblk e2)"
    using unat_lt_32 [of "es_lblk e1"] unat_lt_32 [of "es_len e1"]
    by (subst (asm) unat_add_small) (simp_all add: unat_ucast64 ext_end_def)
  show "ext4_es_pblock e2 = ext4_es_pblock e1 + ucast (es_len e1)"
    if "ext4_es_is_written e1 \<or> ext4_es_is_unwritten e1"
  proof -
    have "\<not> ext4_es_is_hole e1" "ext4_es_is_delayed e1 \<Longrightarrow> ext4_es_is_unwritten e1"
      using ok(1) that by (auto simp: ext_ok_def status_ok_def ext4_es_is_written_def ext4_es_is_unwritten_def
          ext4_es_is_hole_def ext4_es_is_delayed_def)
    then show ?thesis using m that by (auto simp: ext4_es_can_be_merged_def split: if_splits)
  qed
qed

lemma merged_ok:
  assumes m: "ext4_es_can_be_merged e1 e2" and ok: "ext_ok e1" "ext_ok e2" and e: "merged e1 e2 e"
  shows "ext_ok e" "es_lblk e = es_lblk e1" "ext_end e = ext_end e2"
    "covers e b \<longleftrightarrow> covers e1 b \<or> covers e2 b" "covers e1 b \<Longrightarrow> es_val e b = es_val e1 b" "covers e2 b \<Longrightarrow> es_val e b = es_val e2 b"
proof -
  note d = can_be_mergedD [OF m ok]
  have f: "es_lblk e = es_lblk e1" "es_len e = es_len e1 + es_len e2" "ext4_es_type e = ext4_es_type e1"
    and pb: "ext4_es_is_written e1 \<or> ext4_es_is_unwritten e1 \<Longrightarrow> ext4_es_pblock e = ext4_es_pblock e1"
    using e es_flags_type [of e e1] by (auto simp: merged_def)
  note fl = es_flags_type [OF f(3)] es_flags_type [OF d(1)]
  show "es_lblk e = es_lblk e1" by (rule f)
  have sum: "ext_end e1 + unat (es_len e2) = ext_end e2" using d(2) by (simp add: ext_end_def)
  then have "unat (es_len e1) + unat (es_len e2) < 2 ^ 32" using ok(2) by (simp add: ext_ok_def ext_end_def)
  then have "unat (es_len e) = unat (es_len e1) + unat (es_len e2)" by (simp add: f(2) unat_add_small)
  then show end': "ext_end e = ext_end e2" using sum by (simp add: ext_end_def f(1))
  then show "ext_ok e" using ok \<open>unat (es_len e) = _\<close> by (simp add: ext_ok_def f)
  have l: "unat (es_lblk e1) < ext_end e1" "unat (es_lblk e2) < ext_end e2" using ok by (simp_all add: ext_ok_def ext_end_def)
  show "covers e b \<longleftrightarrow> covers e1 b \<or> covers e2 b"
    using l d(2) unfolding covers_def f(1) end' by linarith
  show "covers e1 b \<Longrightarrow> es_val e b = es_val e1 b" using pb by (auto simp: es_val_def f(1,3) fl(1,2))
  have "take_bit 59 (ext4_es_pblock e1 + of_nat (unat b - unat (es_lblk e1))) =
      take_bit 59 (ext4_es_pblock e1 + ucast (es_len e1) + of_nat (unat b - unat (es_lblk e2)))" if "covers e2 b"
  proof -
    have "unat b - unat (es_lblk e1) = unat (es_len e1) + (unat b - unat (es_lblk e2))"
      using that l d(2) by (simp add: covers_def ext_end_def)
    moreover have "(of_nat (unat (es_len e1)) :: u64) = ucast (es_len e1)" by simp
    ultimately show ?thesis by (simp add: add.assoc)
  qed
  then show "covers e2 b \<Longrightarrow> es_val e b = es_val e2 b"
    using pb d(3) by (auto simp: es_val_def f(1,3) d(1) fl)
qed

section \<open>Lists of extents\<close>

lemma exts_ok_append:
  "exts_ok (A @ B) \<longleftrightarrow> exts_ok A \<and> exts_ok B \<and> (\<forall>a \<in> set A. \<forall>b \<in> set B. ext_before a b)"
  by (auto simp: exts_ok_def sorted_wrt_append)

lemma exts_ok_Cons: "exts_ok (e # L) \<longleftrightarrow> ext_ok e \<and> exts_ok L \<and> (\<forall>b \<in> set L. ext_before e b)"
  by (auto simp: exts_ok_def)

lemma exts_ok_Nil [simp]: "exts_ok []"
  by (simp add: exts_ok_def)

lemmas exts_ok_simps = exts_ok_append exts_ok_Cons exts_ok_Nil

lemma exts_ok_in: "exts_ok L \<Longrightarrow> e \<in> set L \<Longrightarrow> ext_ok e"
  by (auto simp: exts_ok_def list_all_iff)

lemma ext_before_lblk: "ext_before a b \<Longrightarrow> ext_ok a \<Longrightarrow> unat (es_lblk a) < unat (es_lblk b)"
  by (simp add: ext_before_def ext_ok_def ext_end_def)

lemma exts_ok_disjoint:
  assumes "exts_ok L" "e \<in> set L" "e' \<in> set L" "covers e b" "covers e' b"
  shows "e = e'"
  using assms
proof (induction L)
  case (Cons x L)
  then show ?case by (auto simp: exts_ok_Cons covers_def ext_before_def)
qed simp

lemma ext_map_iff:
  assumes "exts_ok L"
  shows "ext_map L b = Some v \<longleftrightarrow> (\<exists>e \<in> set L. covers e b \<and> v = es_val e b)"
proof
  assume "ext_map L b = Some v"
  then show "\<exists>e \<in> set L. covers e b \<and> v = es_val e b"
    by (auto simp: ext_map_def find_Some_iff)
next
  assume "\<exists>e \<in> set L. covers e b \<and> v = es_val e b"
  then obtain e where e: "e \<in> set L" "covers e b" "v = es_val e b" by blast
  then obtain e' where e': "find (\<lambda>e. covers e b) L = Some e'"
    by (metis find_None_iff not_None_eq)
  then have "e' \<in> set L" "covers e' b" by (auto simp: find_Some_iff)
  then have "e = e'" using exts_ok_disjoint [OF assms e(1) _ e(2)] by blast
  then show "ext_map L b = Some v" using e e' by (simp add: ext_map_def)
qed

lemma ext_map_None: "ext_map L b = None \<longleftrightarrow> (\<forall>e \<in> set L. \<not> covers e b)"
  by (auto simp: ext_map_def find_None_iff)

lemma ext_map_eqI:
  assumes "exts_ok L" and "\<And>e b. e \<in> set L \<Longrightarrow> covers e b \<Longrightarrow> m b = Some (es_val e b)"
    and "\<And>b. m b \<noteq> None \<Longrightarrow> \<exists>e \<in> set L. covers e b"
  shows "ext_map L = m"
proof
  fix b
  show "ext_map L b = m b"
  proof (cases "\<exists>e \<in> set L. covers e b")
    case True
    then show ?thesis using assms(2) ext_map_iff [OF assms(1)] by metis
  next
    case False
    then show ?thesis using assms(3) ext_map_None [of L b] by metis
  qed
qed

lemma exts_insert:
  assumes "exts_ok (A @ B)" and "ext_ok e" and "\<And>a. a \<in> set A \<Longrightarrow> ext_before a e" and "\<And>b. b \<in> set B \<Longrightarrow> ext_before e b"
  shows "exts_ok (A @ e # B)" "ext_map (A @ e # B) = ext_put (ext_map (A @ B)) e"
proof -
  show ok: "exts_ok (A @ e # B)" using assms by (auto simp: exts_ok_simps)
  show "ext_map (A @ e # B) = ext_put (ext_map (A @ B)) e"
  proof (rule ext_map_eqI [OF ok])
    fix x b assume x: "x \<in> set (A @ e # B)" "covers x b"
    show "ext_put (ext_map (A @ B)) e b = Some (es_val x b)"
    proof (cases "covers e b")
      case True
      then show ?thesis using exts_ok_disjoint [OF ok x(1) _ x(2), of e] by (simp add: ext_put_def)
    next
      case False
      then have "x \<in> set (A @ B)" using x by auto
      then show ?thesis using False x(2) ext_map_iff [OF assms(1)] by (auto simp: ext_put_def)
    qed
  next
    fix b assume "ext_put (ext_map (A @ B)) e b \<noteq> None"
    then show "\<exists>x \<in> set (A @ e # B). covers x b"
      using ext_map_None [of "A @ B" b] by (auto simp: ext_put_def split: if_splits)
  qed
qed

lemma exts_merge:
  assumes ok: "exts_ok (A @ e1 # e2 # B)" and m: "ext4_es_can_be_merged e1 e2" and e: "merged e1 e2 e"
  shows "exts_ok (A @ e # B)" "ext_map (A @ e # B) = ext_map (A @ e1 # e2 # B)"
proof -
  have ok12: "ext_ok e1" "ext_ok e2" using ok by (simp_all add: exts_ok_simps)
  note mo = merged_ok [OF m ok12 e]
  show ok': "exts_ok (A @ e # B)" using ok mo(1-3) by (auto simp: exts_ok_simps ext_before_def)
  show "ext_map (A @ e # B) = ext_map (A @ e1 # e2 # B)"
  proof (rule ext_map_eqI [OF ok'])
    fix x b assume "x \<in> set (A @ e # B)" "covers x b"
    then show "ext_map (A @ e1 # e2 # B) b = Some (es_val x b)"
      using mo(4-6) [of b] unfolding ext_map_iff [OF ok] by auto
  next
    fix b assume "ext_map (A @ e1 # e2 # B) b \<noteq> None"
    then show "\<exists>x \<in> set (A @ e # B). covers x b" using mo(4) [of b] unfolding ext_map_None by auto
  qed
qed

section \<open>Parts of extents\<close>

text \<open>\<open>e'\<close> has some of the blocks of \<open>e\<close>, in the same state.\<close>

definition sub_ext :: "extent_status \<Rightarrow> extent_status \<Rightarrow> bool" where
  "sub_ext e' e =
     (ext_ok e' \<and> unat (es_lblk e) \<le> unat (es_lblk e') \<and> ext_end e' \<le> ext_end e \<and>
      (\<forall>b. covers e' b \<longrightarrow> es_val e' b = es_val e b))"

lemma sub_ext_refl: "ext_ok e \<Longrightarrow> sub_ext e e"
  by (simp add: sub_ext_def)

lemma sub_ext_len:
  assumes "ext_ok e" and "0 < unat n" and "unat n \<le> unat (es_len e)"
  shows "sub_ext (e\<lparr>es_len := n\<rparr>) e" "ext_end (e\<lparr>es_len := n\<rparr>) = unat (es_lblk e) + unat n"
  using assms es_flags_type [of "e\<lparr>es_len := n\<rparr>" e] by (simp_all add: sub_ext_def ext_ok_def ext_end_def es_val_def)

text \<open>The blocks of \<open>e\<close> behind \<open>hi\<close>.\<close>

lemma sub_ext_tail:
  assumes e: "ext_ok e" and hi: "unat (es_lblk e) \<le> unat hi" "unat hi + 1 < ext_end e"
    and n: "unat n = ext_end e - 1 - unat hi"
    and e': "es_lblk e' = hi + 1" "es_len e' = n" "ext4_es_type e' = ext4_es_type e"
    and pb: "ext4_es_is_written e \<or> ext4_es_is_unwritten e \<Longrightarrow>
      ext4_es_pblock e' = take_bit 59 (ext4_es_pblock e + ucast (es_len e) - ucast n)"
  shows "sub_ext e' e" "unat (es_lblk e') = unat hi + 1" "ext_end e' = ext_end e"
proof -
  have "unat hi + 1 < 2 ^ 32" using e hi(2) by (simp add: ext_ok_def)
  then show l: "unat (es_lblk e') = unat hi + 1" unfolding e'(1) by (subst unat_add_small) simp_all
  then show end': "ext_end e' = ext_end e" using hi(2) by (simp add: ext_end_def [of e'] e'(2) n)
  have ok: "ext_ok e'" using e hi(2) n end' by (simp add: ext_ok_def e')
  have "es_val e' b = es_val e b" if b: "covers e' b" for b
  proof -
    have eq: "unat (es_len e) + (unat b - unat (es_lblk e')) = unat n + (unat b - unat (es_lblk e))"
      using b hi n l by (simp add: covers_def end') (simp add: ext_end_def)
    have "(ucast (es_len e) :: u64) + of_nat (unat b - unat (es_lblk e')) = ucast n + of_nat (unat b - unat (es_lblk e))"
      using arg_cong [OF eq, of "of_nat :: nat \<Rightarrow> u64"] by simp
    then have "ext4_es_pblock e + ucast (es_len e) - ucast n + of_nat (unat b - unat (es_lblk e')) =
        ext4_es_pblock e + of_nat (unat b - unat (es_lblk e))"
      by (simp add: algebra_simps)
    then have "take_bit 59 (take_bit 59 (ext4_es_pblock e + ucast (es_len e) - ucast n) + of_nat (unat b - unat (es_lblk e'))) =
        take_bit 59 (ext4_es_pblock e + of_nat (unat b - unat (es_lblk e)))"
      unfolding take_bit_add_left by (rule arg_cong)
    then show ?thesis using pb es_flags_type [OF e'(3)] by (auto simp: es_val_def e'(3))
  qed
  then show "sub_ext e' e" using ok l hi(1) end' by (simp add: sub_ext_def)
qed

lemma sub_ext_cut_front:
  assumes "ext_ok e" and "unat (es_lblk e) \<le> unat hi" and "unat hi + 1 < ext_end e" and "unat n = ext_end e - 1 - unat hi"
  shows "sub_ext (es_cut_front hi n e) e" "unat (es_lblk (es_cut_front hi n e)) = unat hi + 1"
    "ext_end (es_cut_front hi n e) = ext_end e"
proof -
  let ?e = "es_cut_front hi n e"
  have t: "ext4_es_type ?e = ext4_es_type e" and l: "es_lblk ?e = hi + 1" "es_len ?e = n"
    by (simp_all add: es_cut_front_def Let_def)
  have "ext4_es_pblock ?e = take_bit 59 (ext4_es_pblock e + ucast (es_len e) - ucast n)"
    if "ext4_es_is_written e \<or> ext4_es_is_unwritten e"
  proof -
    have "ext4_es_pblock ?e = take_bit 59 (es_pblk e + ucast (es_len e) - ucast n)"
      using that es_flags_type [of "e\<lparr>es_lblk := hi + 1, es_len := n\<rparr>" e] by (simp add: es_cut_front_def)
    also have "\<dots> = take_bit 59 (take_bit 59 (es_pblk e) + ucast (es_len e) - ucast n)"
      unfolding add_diff_eq [symmetric] by (rule take_bit_add_left [symmetric])
    finally show ?thesis by (simp add: ext4_es_pblock_def take_bit_not_mask)
  qed
  from sub_ext_tail [OF assms l t this] show "sub_ext ?e e" "unat (es_lblk ?e) = unat hi + 1" "ext_end ?e = ext_end e"
    by simp_all
qed

lemma sub_ext_split_tail:
  assumes "ext_ok e" and "unat (es_lblk e) \<le> unat hi" and "unat hi + 1 < ext_end e" and "unat n = ext_end e - 1 - unat hi"
  shows "sub_ext (es_split_tail hi n e) e" "unat (es_lblk (es_split_tail hi n e)) = unat hi + 1"
    "ext_end (es_split_tail hi n e) = ext_end e" "ext4_es_type (es_split_tail hi n e) = ext4_es_type e"
proof -
  let ?e = "es_split_tail hi n e"
  show t: "ext4_es_type ?e = ext4_es_type e"
    by (simp add: es_split_tail_def es_type_stored es_type_status)
  have l: "es_lblk ?e = hi + 1" "es_len ?e = n" by (simp_all add: es_split_tail_def)
  have "ext4_es_pblock ?e = take_bit 59 (ext4_es_pblock e + ucast (es_len e) - ucast n)"
    if "ext4_es_is_written e \<or> ext4_es_is_unwritten e"
    using that by (simp add: es_split_tail_def)
  from sub_ext_tail [OF assms l t this] show "sub_ext ?e e" "unat (es_lblk ?e) = unat hi + 1" "ext_end ?e = ext_end e"
    by simp_all
qed

text \<open>The map of a list of parts of extents.\<close>

lemma ext_map_sub:
  assumes ok: "exts_ok L" "exts_ok L'" and sub: "\<And>e'. e' \<in> set L' \<Longrightarrow> \<exists>e \<in> set L. sub_ext e' e"
    and cov: "\<And>b. (\<exists>e' \<in> set L'. covers e' b) \<longleftrightarrow> (\<exists>e \<in> set L. covers e b) \<and> \<not> (lo \<le> b \<and> b \<le> hi)"
  shows "ext_map L' = ext_del (ext_map L) lo hi"
proof (rule ext_map_eqI [OF ok(2)])
  fix e' b assume e': "e' \<in> set L'" "covers e' b"
  obtain e where e: "e \<in> set L" "sub_ext e' e" using sub [OF e'(1)] by blast
  then have "covers e b" "es_val e' b = es_val e b" using e'(2) by (auto simp: sub_ext_def covers_def)
  moreover have "\<not> (lo \<le> b \<and> b \<le> hi)" using cov [of b] e' by blast
  ultimately show "ext_del (ext_map L) lo hi b = Some (es_val e' b)"
    using e(1) ext_map_iff [OF ok(1)] by (auto simp: ext_del_def)
next
  fix b assume "ext_del (ext_map L) lo hi b \<noteq> None"
  then show "\<exists>e \<in> set L'. covers e b"
    using cov [of b] ext_map_None [of L b] by (auto simp: ext_del_def split: if_splits)
qed

end
