(* ===== verification/Ext4_EsTree.thy ===== *)
theory Ext4_EsTree
  imports Ext4_EsList
begin

text \<open>
  The extent status tree implements the map from blocks to their state: the invariant of the trees of
  all inodes, and what searching, erasing, merging and inserting do to the list of extents in the order
  of the tree.
\<close>

section \<open>The red-black tree library\<close>

fun next_in :: "'a list \<Rightarrow> 'a \<Rightarrow> 'a option" where
  "next_in [] x = None"
| "next_in (y # ys) x = (if y = x then (case ys of [] \<Rightarrow> None | z # _ \<Rightarrow> Some z) else next_in ys x)"

definition prev_in :: "'a list \<Rightarrow> 'a \<Rightarrow> 'a option" where
  "prev_in xs x = next_in (rev xs) x"

lemma next_in_split: "x \<notin> set xs \<Longrightarrow> next_in (xs @ x # ys) x = (case ys of [] \<Rightarrow> None | z # _ \<Rightarrow> Some z)"
  by (induction xs) auto

lemma prev_in_split:
  "x \<notin> set ys \<Longrightarrow> prev_in (xs @ x # ys) x = (if xs = [] then None else Some (last xs))"
  using next_in_split [of x "rev ys" "rev xs"]
  by (auto simp: prev_in_def last_conv_nth hd_rev [symmetric] neq_Nil_conv split: list.split)

text \<open>
  What the code relies on: \<open>rb_next\<close> and \<open>rb_prev\<close> give the neighbours in the order of the tree,
  \<open>rb_erase\<close> takes a node out and \<open>rb_insert_color\<close> rebalances, both without changing the order.
\<close>

definition rb_ok :: "es_env \<Rightarrow> bool" where
  "rb_ok E = (\<forall>t p. distinct (inorder t) \<and> p \<in> set (inorder t) \<longrightarrow>
     rb_next E t p = next_in (inorder t) p \<and> rb_prev E t p = prev_in (inorder t) p \<and>
     inorder (rb_erase E p t) = remove1 p (inorder t) \<and> inorder (rb_insert_color E p t) = inorder t)"

text \<open>A library that does what \<open>rb_ok\<close> asks, with memory as \<open>mem\<close> says.\<close>

primrec list_tree :: "'a list \<Rightarrow> 'a tree" where
  "list_tree [] = \<langle>\<rangle>"
| "list_tree (x # xs) = \<langle>\<langle>\<rangle>, x, list_tree xs\<rangle>"

definition es_lib :: "bool \<Rightarrow> es_env" where
  "es_lib mem = \<lparr>rb_next = (\<lambda>t p. next_in (inorder t) p), rb_prev = (\<lambda>t p. prev_in (inorder t) p),
     rb_erase = (\<lambda>p t. list_tree (remove1 p (inorder t))), rb_insert_color = (\<lambda>p t. t),
     es_alloc = (\<lambda>s. mem), es_trylock = (\<lambda>s i. True)\<rparr>"

lemma inorder_list_tree [simp]: "inorder (list_tree xs) = xs"
  by (induction xs) auto

lemma es_lib_ok [simp]: "rb_ok (es_lib mem)"
  by (simp add: rb_ok_def es_lib_def)

lemma es_lib_alloc: "es_alloc (es_lib mem) s = mem"
  by (simp add: es_lib_def)

section \<open>The invariant\<close>

definition es_ptrs :: "es_state \<Rightarrow> ext4_inop \<Rightarrow> esp list" where
  "es_ptrs s i = inorder (es_root s i)"

definition es_of :: "es_state \<Rightarrow> esp \<Rightarrow> extent_status" where
  "es_of s p = the (es_heap s p)"

definition es_list :: "es_state \<Rightarrow> ext4_inop \<Rightarrow> extent_status list" where
  "es_list s i = map (es_of s) (es_ptrs s i)"

definition es_abs :: "es_state \<Rightarrow> ext4_inop \<Rightarrow> ext4_lblk_t \<Rightarrow> (u32 \<times> ext4_fsblk_t option) option" where
  "es_abs s i = ext_map (es_list s i)"

text \<open>
  The tree of an inode: its nodes are allocated and ordered, and the two counters have the number of
  its extents and of those that can be reclaimed; the inode is on the list of the shrinker when it
  has any of these.
\<close>

definition tree_core :: "es_state \<Rightarrow> ext4_inop \<Rightarrow> bool" where
  "tree_core s i =
     (distinct (es_ptrs s i) \<and> (\<forall>p \<in> set (es_ptrs s i). es_heap s p \<noteq> None) \<and> exts_ok (es_list s i) \<and>
      unat (i_es_all_nr (es_inodes s i)) = length (es_ptrs s i) \<and>
      unat (i_es_shk_nr (es_inodes s i)) = length (filter (\<lambda>e. \<not> ext4_es_is_delayed e) (es_list s i)) \<and>
      (i \<in> set (s_es_list s) \<longleftrightarrow> i_es_shk_nr (es_inodes s i) \<noteq> 0))"

definition es_core :: "es_state \<Rightarrow> bool" where
  "es_core s =
     ((\<forall>i. tree_core s i) \<and> (\<forall>i j. i \<noteq> j \<longrightarrow> set (es_ptrs s i) \<inter> set (es_ptrs s j) = {}) \<and>
      (\<forall>p. es_heap s p \<noteq> None \<longrightarrow> p < es_next s \<and> (\<exists>i. p \<in> set (es_ptrs s i))) \<and>
      distinct (s_es_list s) \<and> s_es_nr_inode s = int (length (s_es_list s)))"

definition cache_ok :: "es_state \<Rightarrow> ext4_inop \<Rightarrow> bool" where
  "cache_ok s i = (\<forall>p. cache_es (es_inodes s i) = Some p \<longrightarrow> p \<in> set (es_ptrs s i))"

definition es_inv :: "es_state \<Rightarrow> bool" where
  "es_inv s = (es_core s \<and> (\<forall>i. cache_ok s i))"

text \<open>Nothing happens to the trees of other inodes.\<close>

definition es_frame :: "ext4_inop \<Rightarrow> es_state \<Rightarrow> es_state \<Rightarrow> bool" where
  "es_frame i s s' =
     (\<forall>j. j \<noteq> i \<longrightarrow> es_inodes s' j = es_inodes s j \<and> (\<forall>p \<in> set (es_ptrs s j). es_heap s' p = es_heap s p))"

lemma es_frame_refl [simp]: "es_frame i s s"
  by (simp add: es_frame_def)

lemma es_frame_ptrs: "es_frame i s s' \<Longrightarrow> j \<noteq> i \<Longrightarrow> es_ptrs s' j = es_ptrs s j"
  by (simp add: es_frame_def es_ptrs_def)

lemma es_frame_list: "es_frame i s s' \<Longrightarrow> j \<noteq> i \<Longrightarrow> es_list s' j = es_list s j"
  using es_frame_ptrs [of i s s' j] by (auto simp: es_list_def es_frame_def es_of_def)

lemma es_frame_trans: "es_frame i s s' \<Longrightarrow> es_frame i s' s'' \<Longrightarrow> es_frame i s s''"
  using es_frame_ptrs [of i s s'] by (simp add: es_frame_def)

lemma es_frame_abs: "es_frame i s s' \<Longrightarrow> j \<noteq> i \<Longrightarrow> es_abs s' j = es_abs s j"
  by (simp add: es_abs_def es_frame_list)

lemma es_frame_cache: "es_frame i s s' \<Longrightarrow> j \<noteq> i \<Longrightarrow> cache_ok s j \<Longrightarrow> cache_ok s' j"
  using es_frame_ptrs [of i s s' j] by (simp add: cache_ok_def) (simp add: es_frame_def)

lemma es_inv_frame:
  assumes "es_inv s" and "es_frame i s s'" and "es_core s'" and "cache_ok s' i"
  shows "es_inv s'"
  using assms es_frame_cache [OF assms(2)] unfolding es_inv_def by metis

lemma tree_coreD:
  assumes "es_core s"
  shows "distinct (es_ptrs s i)" "p \<in> set (es_ptrs s i) \<Longrightarrow> es_heap s p = Some (es_of s p)" "exts_ok (es_list s i)"
    "unat (i_es_all_nr (es_inodes s i)) = length (es_ptrs s i)"
    "unat (i_es_shk_nr (es_inodes s i)) = length (filter (\<lambda>e. \<not> ext4_es_is_delayed e) (es_list s i))"
    "i \<in> set (s_es_list s) \<longleftrightarrow> i_es_shk_nr (es_inodes s i) \<noteq> 0"
  using assms by (auto simp: es_core_def tree_core_def es_of_def)

lemma es_of_ok: "es_core s \<Longrightarrow> p \<in> set (es_ptrs s i) \<Longrightarrow> ext_ok (es_of s p)"
  using tree_coreD(3) [of s i] by (auto simp: es_list_def intro: exts_ok_in)

lemma with_es_ok [simp]: "es_heap s p = Some e \<Longrightarrow> with_es s p f = f e"
  by (simp add: with_es_def)

lemma rb_next_in:
  assumes "rb_ok E" and "es_core s" and "es_ptrs s i = xs @ p # ys"
  shows "rb_next E (es_root s i) p = (case ys of [] \<Rightarrow> None | q # _ \<Rightarrow> Some q)"
    "rb_prev E (es_root s i) p = (if xs = [] then None else Some (last xs))"
    "inorder (rb_erase E p (es_root s i)) = xs @ ys"
proof -
  have d: "distinct (xs @ p # ys)" using tree_coreD(1) [OF assms(2), of i] assms(3) by simp
  have "inorder (es_root s i) = xs @ p # ys" using assms(3) by (simp add: es_ptrs_def)
  then have "rb_next E (es_root s i) p = next_in (xs @ p # ys) p" "rb_prev E (es_root s i) p = prev_in (xs @ p # ys) p"
    "inorder (rb_erase E p (es_root s i)) = remove1 p (xs @ p # ys)"
    using assms(1) d unfolding rb_ok_def by (metis in_set_conv_decomp)+
  then show "rb_next E (es_root s i) p = (case ys of [] \<Rightarrow> None | q # _ \<Rightarrow> Some q)"
    "rb_prev E (es_root s i) p = (if xs = [] then None else Some (last xs))"
    "inorder (rb_erase E p (es_root s i)) = xs @ ys"
    using d next_in_split [of p xs ys] prev_in_split [of p ys xs] by (simp_all add: remove1_append)
qed

section \<open>Searching\<close>

text \<open>Where a search that does not find the block stops.\<close>

definition search_stop :: "es_state \<Rightarrow> ext4_lblk_t \<Rightarrow> esp list \<Rightarrow> esp \<Rightarrow> bool" where
  "search_stop s lblk ps p =
     (\<exists>xs ys. ps = xs @ p # ys \<and>
        (unat lblk < unat (es_lblk (es_of s p)) \<and> (\<forall>x \<in> set xs. ext_end (es_of s x) \<le> unat lblk) \<or>
         ext_end (es_of s p) \<le> unat lblk \<and> (\<forall>y \<in> set ys. unat lblk < unat (es_lblk (es_of s y)))))"

lemma es_search_loop_ok:
  assumes "\<And>p. p \<in> set (inorder t) \<Longrightarrow> es_heap s p \<noteq> None" and "exts_ok (map (es_of s) (inorder t))"
  shows "(\<exists>p \<in> set (inorder t). covers (es_of s p) lblk \<and> es_search_loop s lblk t es = Inr (True, Some p)) \<or>
    (\<forall>p \<in> set (inorder t). \<not> covers (es_of s p) lblk) \<and>
    (if t = \<langle>\<rangle> then es_search_loop s lblk t es = Inr (False, es)
     else \<exists>p. es_search_loop s lblk t es = Inr (False, Some p) \<and> search_stop s lblk (inorder t) p)"
  using assms
proof (induction t arbitrary: es)
  case Leaf
  then show ?case by simp
next
  case (Node l p r)
  let ?e = "es_of s p"
  have p: "es_heap s p = Some ?e" using Node.prems(1) by (force simp: es_of_def)
  have ok: "ext_ok ?e" "exts_ok (map (es_of s) (inorder l))" "exts_ok (map (es_of s) (inorder r))"
    and bef: "\<And>x. x \<in> set (inorder l) \<Longrightarrow> ext_before (es_of s x) ?e" "\<And>y. y \<in> set (inorder r) \<Longrightarrow> ext_before ?e (es_of s y)"
    using Node.prems(2) by (auto simp: exts_ok_simps)
  note last = es_end_ok [OF ok(1)] es_last_compare [OF ok(1)]
  have pos: "unat (es_lblk ?e) < ext_end ?e" using ok(1) by (simp add: ext_ok_def ext_end_def)
  consider (left) "unat lblk < unat (es_lblk ?e)" | (right) "ext_end ?e \<le> unat lblk" | (here) "covers ?e lblk"
    by (fastforce simp: covers_def)
  then show ?case
  proof cases
    case left
    then have step: "es_search_loop s lblk \<langle>l, p, r\<rangle> es = es_search_loop s lblk l (Some p)"
      using p by (simp add: word_less_nat_alt)
    have out: "\<not> covers ?e lblk" "y \<in> set (inorder r) \<Longrightarrow> unat lblk < unat (es_lblk (es_of s y))" for y
      using left bef(2) [of y] pos by (auto simp: covers_def ext_before_def)
    then have nc: "y \<in> set (inorder r) \<Longrightarrow> \<not> covers (es_of s y) lblk" for y by (force simp: covers_def)
    have "search_stop s lblk (inorder \<langle>l, p, r\<rangle>) q" if st: "search_stop s lblk (inorder l) q" for q
    proof -
      obtain xs ys where "inorder l = xs @ q # ys"
        "unat lblk < unat (es_lblk (es_of s q)) \<and> (\<forall>x \<in> set xs. ext_end (es_of s x) \<le> unat lblk) \<or>
         ext_end (es_of s q) \<le> unat lblk \<and> (\<forall>y \<in> set ys. unat lblk < unat (es_lblk (es_of s y)))"
        using st unfolding search_stop_def by blast
      then show ?thesis using left out(2) unfolding search_stop_def
        by (intro exI [of _ xs] exI [of _ "ys @ p # inorder r"]) auto
    qed
    moreover have "search_stop s lblk (inorder \<langle>\<langle>\<rangle>, p, r\<rangle>) p"
      using left unfolding search_stop_def by (intro exI [of _ "[]"] exI [of _ "inorder r"]) simp
    ultimately show ?thesis
      using Node.IH(1) [of "Some p"] Node.prems(1) ok(2) out nc unfolding step by (cases "l = \<langle>\<rangle>") auto
  next
    case right
    have step: "es_search_loop s lblk \<langle>l, p, r\<rangle> es = es_search_loop s lblk r (Some p)"
    proof -
      have "ext_end ?e - 1 < unat lblk" "\<not> unat lblk < unat (es_lblk ?e)" using right pos by linarith+
      then show ?thesis using p by (simp add: last(1) word_less_nat_alt unat_es_last [OF ok(1)])
    qed
    have out: "\<not> covers ?e lblk" "x \<in> set (inorder l) \<Longrightarrow> ext_end (es_of s x) \<le> unat lblk" for x
      using right bef(1) [of x] pos by (auto simp: covers_def ext_before_def)
    then have nc: "x \<in> set (inorder l) \<Longrightarrow> \<not> covers (es_of s x) lblk" for x by (force simp: covers_def)
    have "search_stop s lblk (inorder \<langle>l, p, r\<rangle>) q" if st: "search_stop s lblk (inorder r) q" for q
    proof -
      obtain xs ys where "inorder r = xs @ q # ys"
        "unat lblk < unat (es_lblk (es_of s q)) \<and> (\<forall>x \<in> set xs. ext_end (es_of s x) \<le> unat lblk) \<or>
         ext_end (es_of s q) \<le> unat lblk \<and> (\<forall>y \<in> set ys. unat lblk < unat (es_lblk (es_of s y)))"
        using st unfolding search_stop_def by blast
      then show ?thesis using right out(2) unfolding search_stop_def
        by (intro exI [of _ "inorder l @ p # xs"] exI [of _ ys]) auto
    qed
    moreover have "search_stop s lblk (inorder \<langle>l, p, \<langle>\<rangle>\<rangle>) p"
      using right unfolding search_stop_def by (intro exI [of _ "inorder l"] exI [of _ "[]"]) simp
    ultimately show ?thesis
      using Node.IH(2) [of "Some p"] Node.prems(1) ok(3) out nc unfolding step by (cases "r = \<langle>\<rangle>") auto
  next
    case here
    then have "\<not> ext_end ?e - 1 < unat lblk" "\<not> unat lblk < unat (es_lblk ?e)" by (auto simp: covers_def)
    then have "es_search_loop s lblk \<langle>l, p, r\<rangle> es = Inr (True, Some p)"
      using p by (simp add: last(1) word_less_nat_alt unat_es_last [OF ok(1)])
    then show ?thesis using here by (intro disjI1) auto
  qed
qed

text \<open>\<open>__es_tree_search\<close> returns the first extent that ends behind the block.\<close>

definition first_behind :: "es_state \<Rightarrow> ext4_inop \<Rightarrow> ext4_lblk_t \<Rightarrow> esp option" where
  "first_behind s i lblk = find (\<lambda>p. unat lblk < ext_end (es_of s p)) (es_ptrs s i)"

lemma find_split: "(\<And>x. x \<in> set xs \<Longrightarrow> \<not> P x) \<Longrightarrow> P p \<Longrightarrow> find P (xs @ p # ys) = Some p"
  by (induction xs) auto

lemma es_before_split:
  assumes "es_core s" and "es_ptrs s i = xs @ p # ys"
  shows "x \<in> set xs \<Longrightarrow> ext_end (es_of s x) \<le> unat (es_lblk (es_of s p))"
    "y \<in> set ys \<Longrightarrow> ext_end (es_of s p) \<le> unat (es_lblk (es_of s y))" "ext_ok (es_of s p)"
    "x \<in> set xs \<Longrightarrow> ext_ok (es_of s x)" "y \<in> set ys \<Longrightarrow> ext_ok (es_of s y)"
  using tree_coreD(3) [OF assms(1), of i] assms(2)
  by (auto simp: es_list_def exts_ok_simps ext_before_def intro: exts_ok_in)

lemma es_tree_search_ok:
  assumes rb: "rb_ok E" and core: "es_core s"
  shows "es_tree_search E s i lblk = Inr (first_behind s i lblk)"
proof -
  have search: "(\<exists>p \<in> set (es_ptrs s i). covers (es_of s p) lblk \<and> es_search_loop s lblk (es_root s i) None = Inr (True, Some p)) \<or>
    (\<forall>p \<in> set (es_ptrs s i). \<not> covers (es_of s p) lblk) \<and>
    (if es_root s i = \<langle>\<rangle> then es_search_loop s lblk (es_root s i) None = Inr (False, None)
     else \<exists>p. es_search_loop s lblk (es_root s i) None = Inr (False, Some p) \<and> search_stop s lblk (es_ptrs s i) p)"
    unfolding es_ptrs_def by (rule es_search_loop_ok)
      (use tree_coreD(2) [OF core, of _ i] tree_coreD(3) [OF core, of i] in \<open>auto simp: es_ptrs_def es_list_def\<close>)
  have ok: "ext_ok (es_of s p)" "es_heap s p = Some (es_of s p)" if "p \<in> set (es_ptrs s i)" for p
    using es_of_ok [OF core that] tree_coreD(2) [OF core that] by simp_all
  consider (found) p where "p \<in> set (es_ptrs s i)" "covers (es_of s p) lblk"
      "es_search_loop s lblk (es_root s i) None = Inr (True, Some p)"
    | (empty) "es_root s i = \<langle>\<rangle>" "es_search_loop s lblk (es_root s i) None = Inr (False, None)"
    | (stop) p where "es_search_loop s lblk (es_root s i) None = Inr (False, Some p)" "search_stop s lblk (es_ptrs s i) p"
    using search by (auto split: if_splits)
  then show ?thesis
  proof cases
    case found
    obtain xs ys where xy: "es_ptrs s i = xs @ p # ys" using found(1) by (meson split_list)
    have "first_behind s i lblk = Some p" unfolding first_behind_def xy
      using es_before_split(1) [OF core xy] found(2) by (intro find_split) (fastforce simp: covers_def)+
    then show ?thesis using found(3) by (simp add: es_tree_search_def)
  next
    case empty
    then show ?thesis by (simp add: es_tree_search_def first_behind_def es_ptrs_def)
  next
    case stop
    obtain xs ys where xy: "es_ptrs s i = xs @ p # ys" and
      c: "unat lblk < unat (es_lblk (es_of s p)) \<and> (\<forall>x \<in> set xs. ext_end (es_of s x) \<le> unat lblk) \<or>
         ext_end (es_of s p) \<le> unat lblk \<and> (\<forall>y \<in> set ys. unat lblk < unat (es_lblk (es_of s y)))"
      using stop(2) unfolding search_stop_def by blast
    have p: "ext_ok (es_of s p)" "es_heap s p = Some (es_of s p)" using ok xy by auto
    have pos: "unat (es_lblk (es_of s p)) < ext_end (es_of s p)" using p(1) by (simp add: ext_ok_def ext_end_def)
    from c show ?thesis
    proof (elim disjE conjE)
      assume l: "unat lblk < unat (es_lblk (es_of s p))" and "\<forall>x \<in> set xs. ext_end (es_of s x) \<le> unat lblk"
      then have "first_behind s i lblk = Some p" unfolding first_behind_def xy using pos by (intro find_split) auto
      then show ?thesis using stop(1) p l by (simp add: es_tree_search_def word_less_nat_alt)
    next
      assume r: "ext_end (es_of s p) \<le> unat lblk" and ys: "\<forall>y \<in> set ys. unat lblk < unat (es_lblk (es_of s y))"
      have pre: "x \<in> set (xs @ [p]) \<Longrightarrow> \<not> unat lblk < ext_end (es_of s x)" for x
        using es_before_split(1) [OF core xy, of x] r pos by auto
      have "first_behind s i lblk = (case ys of [] \<Rightarrow> None | q # _ \<Rightarrow> Some q)"
      proof (cases ys)
        case Nil
        then show ?thesis using pre by (auto simp: first_behind_def xy find_None_iff)
      next
        case (Cons q zs)
        have "find (\<lambda>p. unat lblk < ext_end (es_of s p)) ((xs @ [p]) @ q # zs) = Some q"
          using ys Cons pre by (intro find_split) (auto simp: ext_end_def)
        then show ?thesis by (simp add: first_behind_def xy Cons)
      qed
      then show ?thesis using stop(1) p r pos rb_next_in(1) [OF rb core xy]
        by (simp add: es_tree_search_def word_less_nat_alt es_end_ok unat_es_last) linarith
    qed
  qed
qed

section \<open>Changes to one tree\<close>

lemma es_core_update:
  assumes core: "es_core s" and frame: "es_frame i s s'" and tree: "tree_core s' i"
    and others: "\<And>j. j \<noteq> i \<Longrightarrow> j \<in> set (s_es_list s') \<longleftrightarrow> j \<in> set (s_es_list s)"
    and disj: "\<And>j. j \<noteq> i \<Longrightarrow> set (es_ptrs s' i) \<inter> set (es_ptrs s j) = {}"
    and heap: "\<And>p. es_heap s' p \<noteq> None \<Longrightarrow> p < es_next s' \<and> (p \<in> set (es_ptrs s' i) \<or> (\<exists>j. j \<noteq> i \<and> p \<in> set (es_ptrs s j)))"
    and list: "distinct (s_es_list s')" "s_es_nr_inode s' = int (length (s_es_list s'))"
  shows "es_core s'"
proof -
  have ptrs: "es_ptrs s' j = es_ptrs s j" if "j \<noteq> i" for j by (rule es_frame_ptrs [OF frame that])
  have "tree_core s' j" for j
  proof (cases "j = i")
    case False
    have "tree_core s j" using core by (simp add: es_core_def)
    moreover have "es_inodes s' j = es_inodes s j" "\<forall>p \<in> set (es_ptrs s j). es_heap s' p = es_heap s p"
      using frame False by (simp_all add: es_frame_def)
    ultimately show ?thesis
      using others [OF False] ptrs [OF False] es_frame_list [OF frame False] by (simp add: tree_core_def)
  qed (use tree in simp)
  moreover have "set (es_ptrs s' j) \<inter> set (es_ptrs s' k) = {}" if "j \<noteq> k" for j k
    using that disj ptrs core unfolding es_core_def by (metis Int_commute)
  moreover have "p < es_next s' \<and> (\<exists>j. p \<in> set (es_ptrs s' j))" if "es_heap s' p \<noteq> None" for p
    using heap [OF that] ptrs by metis
  ultimately show ?thesis using list unfolding es_core_def by blast
qed

lemma es_disjoint: "es_core s \<Longrightarrow> p \<in> set (es_ptrs s i) \<Longrightarrow> j \<noteq> i \<Longrightarrow> p \<notin> set (es_ptrs s j)"
  unfolding es_core_def by blast

lemma es_heap_in: "es_core s \<Longrightarrow> es_heap s p \<noteq> None \<Longrightarrow> p < es_next s \<and> (p \<in> set (es_ptrs s i) \<or> (\<exists>j. j \<noteq> i \<and> p \<in> set (es_ptrs s j)))"
  unfolding es_core_def by metis

text \<open>A change of one extent in place.\<close>

lemma upd_es_simps [simp]:
  "es_inodes (upd_es p f s) = es_inodes s" "es_next (upd_es p f s) = es_next s" "s_es_list (upd_es p f s) = s_es_list s"
  "s_es_nr_inode (upd_es p f s) = s_es_nr_inode s" "es_ptrs (upd_es p f s) i = es_ptrs s i"
  "es_heap (upd_es p f s) q = (if q = p then map_option f (es_heap s p) else es_heap s q)"
  by (simp_all add: upd_es_def es_ptrs_def)

lemma upd_es_list:
  assumes "es_core s" and "es_ptrs s i = xs @ p # ys"
  shows "es_list (upd_es p f s) i = map (es_of s) xs @ f (es_of s p) # map (es_of s) ys"
proof -
  have "distinct (xs @ p # ys)" "es_heap s p = Some (es_of s p)"
    using tree_coreD(1,2) [OF assms(1)] assms(2) by (metis, metis in_set_conv_decomp)
  moreover from this(2) have "es_of (upd_es p f s) q = (if q = p then f (es_of s p) else es_of s q)" for q
    by (cases "es_heap s p") (auto simp: es_of_def)
  ultimately show ?thesis using assms(2) by (auto simp: es_list_def)
qed

lemma upd_es_core:
  assumes core: "es_core s" and xy: "es_ptrs s i = xs @ p # ys"
    and ok: "exts_ok (map (es_of s) xs @ f (es_of s p) # map (es_of s) ys)"
    and d: "ext4_es_is_delayed (f (es_of s p)) = ext4_es_is_delayed (es_of s p)"
  shows "es_core (upd_es p f s)" "es_frame i s (upd_es p f s)"
proof -
  have p: "p \<in> set (es_ptrs s i)" using xy by simp
  have "es_heap s q = es_heap (upd_es p f s) q" if "j \<noteq> i" "q \<in> set (es_ptrs s j)" for j q
    using es_disjoint [OF core p that(1)] that(2) by auto
  then show frame: "es_frame i s (upd_es p f s)" by (simp add: es_frame_def)
  have l: "es_list s i = map (es_of s) xs @ es_of s p # map (es_of s) ys" by (simp add: es_list_def xy)
  have "tree_core (upd_es p f s) i"
    using tree_coreD [OF core, of i] tree_coreD(2) [OF core] ok d
    by (auto simp: tree_core_def upd_es_list [OF core xy] l)
  then show "es_core (upd_es p f s)"
  proof (rule es_core_update [OF core frame])
    show "set (es_ptrs (upd_es p f s) i) \<inter> set (es_ptrs s j) = {}" if "j \<noteq> i" for j
      using core that by (simp add: es_core_def)
    show "q < es_next (upd_es p f s) \<and> (q \<in> set (es_ptrs (upd_es p f s) i) \<or> (\<exists>j. j \<noteq> i \<and> q \<in> set (es_ptrs s j)))"
      if "es_heap (upd_es p f s) q \<noteq> None" for q
      using that es_heap_in [OF core, of q i] by (simp split: if_splits)
  qed (use core in \<open>simp_all add: es_core_def\<close>)
qed

text \<open>A change of the referenced mark changes nothing that the map shows.\<close>

lemma upd_es_same:
  assumes core: "es_core s" and p: "p \<in> set (es_ptrs s i)"
    and f: "\<And>e. es_lblk (f e) = es_lblk e" "\<And>e. es_len (f e) = es_len e" "\<And>e. ext4_es_type (f e) = ext4_es_type e"
      "\<And>e. ext4_es_pblock (f e) = ext4_es_pblock e"
  shows "es_core (upd_es p f s)" "es_frame i s (upd_es p f s)" "es_abs (upd_es p f s) i = es_abs s i"
proof -
  let ?e = "es_of s p"
  obtain xs ys where xy: "es_ptrs s i = xs @ p # ys" using p by (meson split_list)
  have l: "es_list s i = map (es_of s) xs @ ?e # map (es_of s) ys" by (simp add: es_list_def xy)
  have eq: "ext_ok (f ?e) = ext_ok ?e" "ext_end (f ?e) = ext_end ?e" "covers (f ?e) b = covers ?e b" "es_val (f ?e) b = es_val ?e b" for b
    using es_flags_type [of "f ?e" ?e] by (simp_all add: f ext_ok_def ext_end_def covers_def es_val_def)
  have ok: "exts_ok (map (es_of s) xs @ f ?e # map (es_of s) ys)"
    using tree_coreD(3) [OF core, of i] eq f by (auto simp: l exts_ok_simps ext_before_def)
  have "ext_map (map (es_of s) xs @ f ?e # map (es_of s) ys) = ext_map (es_list s i)"
    using ext_map_iff [OF tree_coreD(3) [OF core, of i]] ext_map_None [of "es_list s i"] eq unfolding l
    by (intro ext_map_eqI [OF ok]) (auto simp: l)
  then show "es_abs (upd_es p f s) i = es_abs s i" by (simp add: es_abs_def upd_es_list [OF core xy])
  show "es_core (upd_es p f s)" "es_frame i s (upd_es p f s)"
    using upd_es_core [OF core xy, of f, OF ok] es_flags_type(3) [of "f ?e" ?e] f by simp_all
qed

text \<open>Erasing an extent.\<close>

lemma unat_dec: "0 < unat (w :: u32) \<Longrightarrow> unat (w - 1) = unat w - 1"
  by (metis unat_minus_one unat_0 less_nat_zero_code)

definition es_drop :: "extent_status \<Rightarrow> es_inode \<Rightarrow> es_inode" where
  "es_drop e ei = ei\<lparr>i_es_all_nr := i_es_all_nr ei - 1,
     i_es_shk_nr := (if ext4_es_is_delayed e then i_es_shk_nr ei else i_es_shk_nr ei - 1)\<rparr>"

lemma es_drop_simps [simp]:
  "i_es_root (es_drop e ei) = i_es_root ei" "cache_es (es_drop e ei) = cache_es ei"
  "i_es_all_nr (es_drop e ei) = i_es_all_nr ei - 1" "i_es_shrink_lblk (es_drop e ei) = i_es_shrink_lblk ei"
  "i_es_shk_nr (es_drop e ei) = (if ext4_es_is_delayed e then i_es_shk_nr ei else i_es_shk_nr ei - 1)"
  "i_es_precached (es_drop e ei) = i_es_precached ei"
  by (simp_all add: es_drop_def)

lemma es_erase_fields:
  assumes "es_heap s p = Some e" and "\<not> ext4_es_is_delayed e \<Longrightarrow> i_es_shk_nr (es_inodes s i) \<noteq> 0"
    and "distinct (s_es_list s)" and "i \<in> set (s_es_list s) \<longleftrightarrow> i_es_shk_nr (es_inodes s i) \<noteq> 0"
    and "s_es_nr_inode s = int (length (s_es_list s))"
  shows "\<exists>s'. es_erase E s i p = Inr s' \<and>
    es_inodes s' = (es_inodes s)(i := (es_drop e (es_inodes s i))\<lparr>i_es_root := rb_erase E p (es_root s i)\<rparr>) \<and>
    es_heap s' = (es_heap s)(p := None) \<and> es_next s' = es_next s \<and>
    s_es_list s' = (if \<not> ext4_es_is_delayed e \<and> i_es_shk_nr (es_inodes s i) = 1 then remove1 i (s_es_list s) else s_es_list s) \<and>
    s_es_nr_inode s' = int (length (s_es_list s'))"
proof -
  have sub: "i_es_shk_nr (es_inodes s i) - 1 = 0 \<longleftrightarrow> i_es_shk_nr (es_inodes s i) = 1" by (simp add: eq_iff_diff_eq_0 [symmetric])
  have len: "i \<in> set (s_es_list s) \<Longrightarrow> int (length (s_es_list s)) - 1 = int (length (remove1 i (s_es_list s)))"
  proof -
    assume i: "i \<in> set (s_es_list s)"
    then have "0 < length (s_es_list s)" by (rule length_pos_if_in_set)
    then have "length (s_es_list s) = Suc (length (remove1 i (s_es_list s)))" using i by (simp only: length_remove1) simp
    then show ?thesis by simp
  qed
  show ?thesis
    using assms len
    by (auto simp: es_erase_def ext4_es_free_extent_def upd_ei_def Let_def ext4_es_list_del_def es_drop_def sub fun_eq_iff)
qed

lemma es_erase_core:
  assumes rb: "rb_ok E" and core: "es_core s" and xy: "es_ptrs s i = xs @ p # ys"
  shows "\<exists>s'. es_erase E s i p = Inr s' \<and> es_core s' \<and> es_frame i s s' \<and> es_ptrs s' i = xs @ ys \<and>
    es_list s' i = map (es_of s) (xs @ ys) \<and> es_heap s' = (es_heap s)(p := None) \<and> es_next s' = es_next s \<and>
    cache_es (es_inodes s' i) = cache_es (es_inodes s i) \<and>
    i_es_shrink_lblk (es_inodes s' i) = i_es_shrink_lblk (es_inodes s i)"
proof -
  let ?e = "es_of s p" and ?n = "i_es_shk_nr (es_inodes s i)"
  have p: "p \<in> set (es_ptrs s i)" using xy by simp
  have h: "es_heap s p = Some ?e" by (rule tree_coreD(2) [OF core p])
  have l: "es_list s i = map (es_of s) xs @ ?e # map (es_of s) ys" by (simp add: es_list_def xy)
  have nd: "0 < unat ?n" if "\<not> ext4_es_is_delayed ?e" using tree_coreD(5) [OF core, of i] that by (simp add: l)
  have dl: "distinct (s_es_list s)" and nr: "s_es_nr_inode s = int (length (s_es_list s))"
    using core by (simp_all add: es_core_def)
  obtain s' where s': "es_erase E s i p = Inr s'"
    and ino: "es_inodes s' = (es_inodes s)(i := (es_drop ?e (es_inodes s i))\<lparr>i_es_root := rb_erase E p (es_root s i)\<rparr>)"
    and hp: "es_heap s' = (es_heap s)(p := None)" "es_next s' = es_next s"
    and ls: "s_es_list s' = (if \<not> ext4_es_is_delayed ?e \<and> ?n = 1 then remove1 i (s_es_list s) else s_es_list s)"
      "s_es_nr_inode s' = int (length (s_es_list s'))"
    using es_erase_fields [OF h _ dl tree_coreD(6) [OF core, of i] nr, of E] nd by (metis unat_0 less_nat_zero_code)
  have ptrs: "es_ptrs s' i = xs @ ys" using rb_next_in(3) [OF rb core xy] by (simp add: es_ptrs_def ino)
  have d: "distinct (xs @ p # ys)" using tree_coreD(1) [OF core, of i] xy by simp
  then have "map (es_of s') (xs @ ys) = map (es_of s) (xs @ ys)" by (auto simp: es_of_def hp)
  then have list: "es_list s' i = map (es_of s) (xs @ ys)" by (simp add: es_list_def ptrs)
  have frame: "es_frame i s s'" using es_disjoint [OF core p] by (auto simp: es_frame_def ino hp)
  have "unat (i_es_all_nr (es_inodes s' i)) = length (xs @ ys)"
    using tree_coreD(4) [OF core, of i] unat_dec [of "i_es_all_nr (es_inodes s i)"] by (simp add: ino xy)
  moreover have "unat (i_es_shk_nr (es_inodes s' i)) = length (filter (\<lambda>e. \<not> ext4_es_is_delayed e) (es_list s' i))"
    using tree_coreD(5) [OF core, of i] nd unat_dec [of ?n] by (simp add: ino list l)
  moreover have "exts_ok (es_list s' i)" using tree_coreD(3) [OF core, of i] by (auto simp: list l exts_ok_simps)
  moreover have "\<forall>q \<in> set (es_ptrs s' i). es_heap s' q \<noteq> None"
    using d tree_coreD(2) [OF core, of _ i] by (auto simp: ptrs hp xy)
  moreover have "i \<in> set (s_es_list s') \<longleftrightarrow> i_es_shk_nr (es_inodes s' i) \<noteq> 0"
    using tree_coreD(6) [OF core, of i] dl nd by (auto simp: ls ino)
  ultimately have "tree_core s' i" using d by (simp add: tree_core_def ptrs)
  then have "es_core s'"
  proof (rule es_core_update [OF core frame])
    show "set (es_ptrs s' i) \<inter> set (es_ptrs s j) = {}" if "j \<noteq> i" for j
      using es_disjoint [OF core _ that] by (auto simp: ptrs xy)
    show "q < es_next s' \<and> (q \<in> set (es_ptrs s' i) \<or> (\<exists>j. j \<noteq> i \<and> q \<in> set (es_ptrs s j)))" if "es_heap s' q \<noteq> None" for q
      using that es_heap_in [OF core, of q i] by (auto simp: hp ptrs xy split: if_splits)
  qed (use dl ls in auto)
  then show ?thesis using s' frame ptrs list hp by (simp add: ino)
qed

section \<open>Merging\<close>

lemma es_erase_upd:
  assumes "p \<noteq> q"
  shows "es_erase E (upd_es p f s) i q = bind_res (es_erase E s i q) (\<lambda>s. Inr (upd_es p f s))"
  using assms
  by (simp add: es_erase_def ext4_es_free_extent_def upd_es_def upd_ei_def with_es_def deref_def J_ASSERT_def Let_def
      ext4_es_list_del_def bind_res_def fun_upd_twist split: option.split)

text \<open>Neighbours that can be merged are replaced by one extent; the map stays the same.\<close>

lemma es_absorb_core:
  assumes rb: "rb_ok E" and core: "es_core s" and xy: "es_ptrs s i = xs @ p # q # ys"
    and m: "ext4_es_can_be_merged (es_of s p) (es_of s q)"
  shows "\<exists>s'. es_absorb E s i p q = Inr s' \<and> es_core s' \<and> es_frame i s s' \<and> es_ptrs s' i = xs @ p # ys \<and>
    es_abs s' i = es_abs s i \<and> dom (es_heap s') = dom (es_heap s) - {q}"
proof -
  let ?f = "\<lambda>e. let e = e\<lparr>es_len := es_len e + es_len (es_of s q)\<rparr>
    in if ext4_es_is_referenced (es_of s q) then ext4_es_set_referenced e else e"
  have d: "distinct (xs @ p # q # ys)" using tree_coreD(1) [OF core, of i] xy by simp
  have q: "es_heap s q = Some (es_of s q)" "es_heap s p \<noteq> None" using tree_coreD(2) [OF core, of _ i] xy by simp_all
  have xy': "es_ptrs s i = (xs @ [p]) @ q # ys" by (simp add: xy)
  obtain s1 where s1: "es_erase E s i q = Inr s1" "es_core s1" "es_frame i s s1" "es_ptrs s1 i = xs @ p # ys"
    "es_heap s1 = (es_heap s)(q := None)"
    using es_erase_core [OF rb core xy'] by auto
  have same: "es_of s1 r = es_of s r" if "r \<noteq> q" for r using that by (simp add: es_of_def s1(5))
  have "q \<notin> set xs" "q \<notin> set ys" "p \<noteq> q" using d by auto
  then have maps: "map (es_of s1) xs = map (es_of s) xs" "map (es_of s1) ys = map (es_of s) ys" "es_of s1 p = es_of s p"
    unfolding map_eq_conv using same by metis+
  have l: "es_list s i = map (es_of s) xs @ es_of s p # es_of s q # map (es_of s) ys" by (simp add: es_list_def xy)
  have mg: "merged (es_of s p) (es_of s q) (?f (es_of s p))" by (simp add: merged_def Let_def)
  note mo = exts_merge [OF tree_coreD(3) [OF core, of i, unfolded l] m mg]
  have t: "ext4_es_is_delayed (?f (es_of s p)) = ext4_es_is_delayed (es_of s p)"
    by (rule es_flags_type(3)) (simp add: Let_def)
  note up = upd_es_core [OF s1(2,4), of ?f, unfolded maps, OF mo(1) t]
  have "es_absorb E s i p q = Inr (upd_es p ?f s1)"
    using d q by (simp add: es_absorb_def es_erase_upd s1(1))
  moreover have "es_abs (upd_es p ?f s1) i = es_abs s i"
    using mo(2) by (simp add: es_abs_def upd_es_list [OF s1(2,4)] maps l)
  moreover have "dom (es_heap (upd_es p ?f s1)) = dom (es_heap s) - {q}"
    using q(2) d by (auto simp: s1(5) split: if_splits)
  ultimately show ?thesis using up s1(4) es_frame_trans [OF s1(3) up(2)] by auto
qed

text \<open>\<open>es_merges i s p s'\<close>: from \<open>s\<close> to \<open>s'\<close> at most the nodes of the tree of \<open>i\<close> change, but not the map.\<close>

definition es_merges :: "ext4_inop \<Rightarrow> es_state \<Rightarrow> esp \<Rightarrow> es_state \<Rightarrow> bool" where
  "es_merges i s p s' =
     (es_core s' \<and> es_frame i s s' \<and> p \<in> set (es_ptrs s' i) \<and> es_abs s' i = es_abs s i)"

lemma try_to_merge_left_ok:
  assumes rb: "rb_ok E" and core: "es_core s" and p: "p \<in> set (es_ptrs s i)"
  shows "\<exists>p' s'. ext4_es_try_to_merge_left E s i p = Inr (p', s') \<and> es_merges i s p' s'"
proof -
  obtain xs ys where xy: "es_ptrs s i = xs @ p # ys" using p by (meson split_list)
  have h: "es_heap s p = Some (es_of s p)" by (rule tree_coreD(2) [OF core p])
  show ?thesis
  proof (cases xs rule: rev_cases)
    case Nil
    then show ?thesis using rb_next_in(2) [OF rb core xy] p core by (simp add: ext4_es_try_to_merge_left_def es_merges_def)
  next
    case (snoc zs q)
    then have qh: "es_heap s q = Some (es_of s q)" using tree_coreD(2) [OF core, of q i] xy by simp
    have xy': "es_ptrs s i = zs @ q # p # ys" by (simp add: xy snoc)
    have prev: "rb_prev E (es_root s i) p = Some q" using rb_next_in(2) [OF rb core xy] by (simp add: snoc)
    show ?thesis
    proof (cases "ext4_es_can_be_merged (es_of s q) (es_of s p)")
      case True
      then show ?thesis using es_absorb_core [OF rb core xy' True] prev h qh
        by (auto simp: ext4_es_try_to_merge_left_def es_merges_def)
    next
      case False
      then show ?thesis using prev h qh p core by (simp add: ext4_es_try_to_merge_left_def es_merges_def)
    qed
  qed
qed

lemma try_to_merge_right_ok:
  assumes rb: "rb_ok E" and core: "es_core s" and p: "p \<in> set (es_ptrs s i)"
  shows "\<exists>p' s'. ext4_es_try_to_merge_right E s i p = Inr (p', s') \<and> es_merges i s p' s'"
proof -
  obtain xs ys where xy: "es_ptrs s i = xs @ p # ys" using p by (meson split_list)
  have h: "es_heap s p = Some (es_of s p)" by (rule tree_coreD(2) [OF core p])
  show ?thesis
  proof (cases ys)
    case Nil
    then show ?thesis using rb_next_in(1) [OF rb core xy] p core by (simp add: ext4_es_try_to_merge_right_def es_merges_def)
  next
    case (Cons q zs)
    then have qh: "es_heap s q = Some (es_of s q)" using tree_coreD(2) [OF core, of q i] xy by simp
    have xy': "es_ptrs s i = xs @ p # q # zs" by (simp add: xy Cons)
    have nxt: "rb_next E (es_root s i) p = Some q" using rb_next_in(1) [OF rb core xy] by (simp add: Cons)
    show ?thesis
    proof (cases "ext4_es_can_be_merged (es_of s p) (es_of s q)")
      case True
      then show ?thesis using es_absorb_core [OF rb core xy' True] nxt h qh
        by (auto simp: ext4_es_try_to_merge_right_def es_merges_def)
    next
      case False
      then show ?thesis using nxt h qh p core by (simp add: ext4_es_try_to_merge_right_def es_merges_def)
    qed
  qed
qed

end
