(* ===== verification/Ext4_EsInsert.thy ===== *)
theory Ext4_EsInsert
  imports Ext4_EsTree
begin

text \<open>
  Inserting extents: the walk down the tree finds a node to merge with or the place for a new node,
  and the map of the tree changes by the inserted extent only.
\<close>

section \<open>The walk\<close>

text \<open>Where the walk of an insertion may end.\<close>

definition walk_end :: "es_state \<Rightarrow> extent_status \<Rightarrow> rb_dir list \<Rightarrow> esp tree \<Rightarrow> es_place \<Rightarrow> bool" where
  "walk_end s newes dirs t place =
     (case place of
        Merge_before p \<Rightarrow> p \<in> set (inorder t) \<and> ext4_es_can_be_merged newes (es_of s p)
      | Merge_after p \<Rightarrow> p \<in> set (inorder t) \<and> ext4_es_can_be_merged (es_of s p) newes
      | Link_at path \<Rightarrow> \<exists>ds xs ys. path = dirs @ ds \<and> inorder t = xs @ ys \<and>
          (\<forall>q. inorder (rb_link_node q ds t) = xs @ q # ys) \<and>
          (\<forall>x \<in> set xs. ext_before (es_of s x) newes) \<and> (\<forall>y \<in> set ys. ext_before newes (es_of s y)))"

definition es_apart :: "es_state \<Rightarrow> extent_status \<Rightarrow> esp list \<Rightarrow> bool" where
  "es_apart s e ps = (\<forall>p \<in> set ps. ext_before (es_of s p) e \<or> ext_before e (es_of s p))"

lemma es_insert_walk_ok:
  assumes "\<And>p. p \<in> set (inorder t) \<Longrightarrow> es_heap s p \<noteq> None" and "exts_ok (map (es_of s) (inorder t))"
    and n: "ext_ok newes" and "es_apart s newes (inorder t)"
  shows "\<exists>place. es_insert_walk s newes t dirs = Inr place \<and> walk_end s newes dirs t place"
  using assms(1,2,4)
proof (induction t arbitrary: dirs)
  case Leaf
  then show ?case by (auto simp: walk_end_def intro: exI [of _ "[]"])
next
  case (Node l p r)
  let ?e = "es_of s p"
  have p: "es_heap s p = Some ?e" using Node.prems(1) by (force simp: es_of_def)
  have ok: "ext_ok ?e" "exts_ok (map (es_of s) (inorder l))" "exts_ok (map (es_of s) (inorder r))"
    and bef: "\<And>x. x \<in> set (inorder l) \<Longrightarrow> ext_before (es_of s x) ?e" "\<And>y. y \<in> set (inorder r) \<Longrightarrow> ext_before ?e (es_of s y)"
    using Node.prems(2) by (auto simp: exts_ok_simps)
  have ap: "es_apart s newes (inorder l)" "es_apart s newes (inorder r)" "ext_before ?e newes \<or> ext_before newes ?e"
    using Node.prems(3) by (auto simp: es_apart_def)
  have pos: "unat (es_lblk ?e) < ext_end ?e" "unat (es_lblk newes) < ext_end newes"
    using ok(1) n by (simp_all add: ext_ok_def ext_end_def)
  consider (left) "ext_before newes ?e" | (right) "ext_before ?e newes" using ap(3) by blast
  then show ?case
  proof cases
    case left
    have lt: "es_lblk newes < es_lblk ?e" using left pos by (simp add: ext_before_def word_less_nat_alt)
    have later: "ext_before newes (es_of s y)" if "y \<in> set (inorder r)" for y
      using left bef(2) [OF that] pos by (simp add: ext_before_def)
    show ?thesis
    proof (cases "ext4_es_can_be_merged newes ?e")
      case True
      then show ?thesis using p lt by (auto simp: walk_end_def)
    next
      case False
      obtain place where pl: "es_insert_walk s newes l (dirs @ [Rb_left]) = Inr place" "walk_end s newes (dirs @ [Rb_left]) l place"
        using Node.IH(1) [of "dirs @ [Rb_left]"] Node.prems(1) ok(2) ap(1) by auto
      have "walk_end s newes dirs \<langle>l, p, r\<rangle> place"
      proof (cases place)
        case (Link_at path)
        then obtain ds xs ys where *: "path = (dirs @ [Rb_left]) @ ds" "inorder l = xs @ ys"
          "\<forall>q. inorder (rb_link_node q ds l) = xs @ q # ys" "\<forall>x \<in> set xs. ext_before (es_of s x) newes"
          "\<forall>y \<in> set ys. ext_before newes (es_of s y)"
          using pl(2) unfolding walk_end_def by auto
        then show ?thesis using left later unfolding walk_end_def Link_at
          by (simp, intro exI [of _ "Rb_left # ds"] exI [of _ xs] exI [of _ "ys @ p # inorder r"]) auto
      qed (use pl(2) in \<open>auto simp: walk_end_def\<close>)
      then show ?thesis using pl(1) p lt False by simp
    qed
  next
    case right
    have gt: "\<not> es_lblk newes < es_lblk ?e" "es_lblk ?e + es_len ?e - 1 < es_lblk newes"
      using right pos by (simp_all add: ext_before_def word_less_nat_alt unat_es_last [OF ok(1)])
    have earlier: "ext_before (es_of s x) newes" if "x \<in> set (inorder l)" for x
      using right bef(1) [OF that] pos by (simp add: ext_before_def)
    show ?thesis
    proof (cases "ext4_es_can_be_merged ?e newes")
      case True
      then show ?thesis using p gt es_end_ok [OF ok(1)] by (auto simp: walk_end_def)
    next
      case False
      obtain place where pl: "es_insert_walk s newes r (dirs @ [Rb_right]) = Inr place" "walk_end s newes (dirs @ [Rb_right]) r place"
        using Node.IH(2) [of "dirs @ [Rb_right]"] Node.prems(1) ok(3) ap(2) by auto
      have "walk_end s newes dirs \<langle>l, p, r\<rangle> place"
      proof (cases place)
        case (Link_at path)
        then obtain ds xs ys where *: "path = (dirs @ [Rb_right]) @ ds" "inorder r = xs @ ys"
          "\<forall>q. inorder (rb_link_node q ds r) = xs @ q # ys" "\<forall>x \<in> set xs. ext_before (es_of s x) newes"
          "\<forall>y \<in> set ys. ext_before newes (es_of s y)"
          using pl(2) unfolding walk_end_def by auto
        then show ?thesis using right earlier unfolding walk_end_def Link_at
          by (simp, intro exI [of _ "Rb_right # ds"] exI [of _ "inorder l @ p # xs"] exI [of _ ys]) auto
      qed (use pl(2) in \<open>auto simp: walk_end_def\<close>)
      then show ?thesis using pl(1) p gt es_end_ok [OF ok(1)] False by simp
    qed
  qed
qed

section \<open>A new node\<close>

definition es_grow :: "extent_status \<Rightarrow> es_inode \<Rightarrow> es_inode" where
  "es_grow e ei = ei\<lparr>i_es_all_nr := i_es_all_nr ei + 1,
     i_es_shk_nr := (if ext4_es_is_delayed e then i_es_shk_nr ei else i_es_shk_nr ei + 1)\<rparr>"

lemma es_grow_simps [simp]:
  "i_es_root (es_grow e ei) = i_es_root ei" "cache_es (es_grow e ei) = cache_es ei"
  "i_es_all_nr (es_grow e ei) = i_es_all_nr ei + 1" "i_es_shrink_lblk (es_grow e ei) = i_es_shrink_lblk ei"
  "i_es_shk_nr (es_grow e ei) = (if ext4_es_is_delayed e then i_es_shk_nr ei else i_es_shk_nr ei + 1)"
  by (simp_all add: es_grow_def)

lemma es_alloc_fields:
  assumes "es_alloc E s" and "i \<in> set (s_es_list s) \<longleftrightarrow> i_es_shk_nr (es_inodes s i) \<noteq> 0"
  shows "\<exists>s'. ext4_es_alloc_extent E s i e = (Some (es_next s), s') \<and>
    es_inodes s' = (es_inodes s)(i := es_grow e (es_inodes s i)) \<and>
    es_heap s' = (es_heap s)(es_next s \<mapsto> e) \<and> es_next s' = es_next s + 1 \<and>
    s_es_list s' = (if \<not> ext4_es_is_delayed e \<and> i_es_shk_nr (es_inodes s i) = 0 then s_es_list s @ [i] else s_es_list s) \<and>
    s_es_nr_inode s' - int (length (s_es_list s')) = s_es_nr_inode s - int (length (s_es_list s))"
  using assms by (auto simp: ext4_es_alloc_extent_def upd_ei_def Let_def ext4_es_list_add_def es_grow_def fun_eq_iff)

lemma exts_ok_length: "exts_ok L \<Longrightarrow> length L < 2 ^ 32"
proof -
  have "L \<noteq> [] \<Longrightarrow> length L \<le> ext_end (last L) \<and> ext_end (last L) < 2 ^ 32" if "exts_ok L"
    using that
  proof (induction L rule: rev_induct)
    case (snoc e L)
    then have e: "ext_ok e" "exts_ok L" "\<forall>a \<in> set L. ext_before a e" by (auto simp: exts_ok_simps)
    then have "ext_end e < 2 ^ 32" "unat (es_lblk e) < ext_end e" by (simp_all add: ext_ok_def ext_end_def)
    moreover have "L \<noteq> [] \<Longrightarrow> ext_end (last L) \<le> unat (es_lblk e)" using e(3) by (simp add: ext_before_def)
    ultimately show ?case using snoc.IH e(2) by (cases "L = []") auto
  qed simp
  then show "exts_ok L \<Longrightarrow> length L < 2 ^ 32" by (cases "L = []") auto
qed

lemma unat_inc: "unat (w :: u32) + 1 < 2 ^ 32 \<Longrightarrow> unat (w + 1) = unat w + 1"
  by (simp add: unat_add_small)

definition es_linked :: "es_env \<Rightarrow> rb_dir list \<Rightarrow> ext4_inop \<Rightarrow> esp \<Rightarrow> es_state \<Rightarrow> es_state" where
  "es_linked E dirs i p s = set_cache_es i (Some p) (upd_ei i (\<lambda>ei. ei\<lparr>i_es_root :=
     rb_insert_color E p (rb_link_node p dirs (i_es_root ei))\<rparr>) s)"

lemma es_linked_simps [simp]:
  "es_heap (es_linked E dirs i p s) = es_heap s" "es_next (es_linked E dirs i p s) = es_next s"
  "s_es_list (es_linked E dirs i p s) = s_es_list s" "s_es_nr_inode (es_linked E dirs i p s) = s_es_nr_inode s"
  "es_inodes (es_linked E dirs i p s) = (es_inodes s)(i := (es_inodes s i)\<lparr>i_es_root :=
     rb_insert_color E p (rb_link_node p dirs (es_root s i)), cache_es := Some p\<rparr>)"
  by (simp_all add: es_linked_def set_cache_es_def upd_ei_def)

lemma rb_insert_in:
  assumes "rb_ok E" and "inorder t = xs @ p # ys" and "distinct (xs @ p # ys)"
  shows "inorder (rb_insert_color E p t) = xs @ p # ys"
proof -
  have "distinct (inorder t) \<and> p \<in> set (inorder t)" unfolding assms(2) using assms(3) by simp
  then show ?thesis using assms(1,2) unfolding rb_ok_def by metis
qed

lemma es_link_core:
  assumes rb: "rb_ok E" and core: "es_core s" and alloc: "es_alloc E s" and e: "ext_ok e"
    and xy: "es_ptrs s i = xs @ ys" and link: "\<And>q. inorder (rb_link_node q dirs (es_root s i)) = xs @ q # ys"
    and bef: "\<And>x. x \<in> set xs \<Longrightarrow> ext_before (es_of s x) e" "\<And>y. y \<in> set ys \<Longrightarrow> ext_before e (es_of s y)"
  shows "\<exists>p s1. ext4_es_alloc_extent E s i e = (Some p, s1) \<and> es_core (es_linked E dirs i p s1) \<and>
    es_frame i s (es_linked E dirs i p s1) \<and> cache_ok (es_linked E dirs i p s1) i \<and>
    es_abs (es_linked E dirs i p s1) i = ext_put (es_abs s i) e"
proof -
  let ?p = "es_next s"
  obtain s1 where s1: "ext4_es_alloc_extent E s i e = (Some ?p, s1)"
    and ino: "es_inodes s1 = (es_inodes s)(i := es_grow e (es_inodes s i))"
    and hp: "es_heap s1 = (es_heap s)(?p \<mapsto> e)" "es_next s1 = ?p + 1"
    and ls: "s_es_list s1 = (if \<not> ext4_es_is_delayed e \<and> i_es_shk_nr (es_inodes s i) = 0 then s_es_list s @ [i] else s_es_list s)"
    and nr: "s_es_nr_inode s1 - int (length (s_es_list s1)) = s_es_nr_inode s - int (length (s_es_list s))"
    using es_alloc_fields [OF alloc tree_coreD(6) [OF core, of i]] by blast
  define s' where "s' = es_linked E dirs i ?p s1"
  have fresh: "?p \<notin> set (es_ptrs s j)" for j
    using tree_coreD(2) [OF core, of ?p j] es_heap_in [OF core, of ?p i] by auto
  have d: "distinct (xs @ ?p # ys)" using tree_coreD(1) [OF core, of i] fresh [of i] by (auto simp: xy)
  have ptrs: "es_ptrs s' i = xs @ ?p # ys"
    using rb_insert_in [OF rb link d] by (simp add: es_ptrs_def s'_def ino)
  have of': "es_of s' p = (if p = ?p then e else es_of s p)" for p by (simp add: es_of_def s'_def hp)
  have l: "es_list s i = map (es_of s) xs @ map (es_of s) ys" by (simp add: es_list_def xy)
  have list: "es_list s' i = map (es_of s) xs @ e # map (es_of s) ys"
    using d by (auto simp: es_list_def ptrs of')
  note ins = exts_insert [OF tree_coreD(3) [OF core, of i, unfolded l] e]
  have ok: "exts_ok (es_list s' i)" unfolding list by (rule ins(1)) (use bef in auto)
  have len: "length (es_ptrs s i) + 1 < 2 ^ 32" using exts_ok_length [OF ok] by (simp add: list xy)
  have frame: "es_frame i s s'" using fresh by (auto simp: es_frame_def s'_def ino hp)
  have flt: "length (filter (\<lambda>e. \<not> ext4_es_is_delayed e) (es_list s i)) \<le> length (es_ptrs s i)"
    by (simp add: es_list_def)
  have "unat (i_es_all_nr (es_inodes s' i)) = length (es_ptrs s' i)"
    using tree_coreD(4) [OF core, of i] unat_inc [of "i_es_all_nr (es_inodes s i)"] len by (simp add: s'_def ino ptrs [unfolded s'_def] xy)
  moreover have "unat (i_es_shk_nr (es_inodes s' i)) = length (filter (\<lambda>e. \<not> ext4_es_is_delayed e) (es_list s' i))"
    and pos: "\<not> ext4_es_is_delayed e \<Longrightarrow> i_es_shk_nr (es_inodes s i) + 1 \<noteq> 0"
    using tree_coreD(5) [OF core, of i] unat_inc [of "i_es_shk_nr (es_inodes s i)"] len flt
    by (auto simp: s'_def ino list [unfolded s'_def] l)
  moreover have "\<forall>p \<in> set (es_ptrs s' i). es_heap s' p \<noteq> None"
    using tree_coreD(2) [OF core, of _ i] by (auto simp: ptrs) (simp_all add: s'_def hp xy)
  moreover have "i \<in> set (s_es_list s') \<longleftrightarrow> i_es_shk_nr (es_inodes s' i) \<noteq> 0"
    using tree_coreD(6) [OF core, of i] pos by (auto simp: s'_def ls ino)
  ultimately have "tree_core s' i" using d ok by (simp add: tree_core_def ptrs)
  then have "es_core s'"
  proof (rule es_core_update [OF core frame])
    show "set (es_ptrs s' i) \<inter> set (es_ptrs s j) = {}" if "j \<noteq> i" for j
      using es_disjoint [OF core _ that] fresh by (auto simp: ptrs xy)
    show "q < es_next s' \<and> (q \<in> set (es_ptrs s' i) \<or> (\<exists>j. j \<noteq> i \<and> q \<in> set (es_ptrs s j)))" if "es_heap s' q \<noteq> None" for q
      using that es_heap_in [OF core, of q i] by (auto simp: ptrs [unfolded s'_def] xy s'_def hp split: if_splits)
  qed (use core nr tree_coreD(6) [OF core, of i] in \<open>auto simp: s'_def ls es_core_def\<close>)
  moreover have "es_abs s' i = ext_put (es_abs s i) e"
    unfolding es_abs_def list l by (rule ins(2)) (use bef in auto)
  moreover have "cache_ok s' i" unfolding cache_ok_def ptrs by (simp add: s'_def)
  ultimately show ?thesis using s1 frame unfolding s'_def by blast
qed

section \<open>Inserting\<close>

lemma apart_before:
  assumes core: "es_core s" and xy: "es_ptrs s i = xs @ p # ys" and ap: "es_apart s e (es_ptrs s i)" and e: "ext_ok e"
  shows "ext_end e = unat (es_lblk (es_of s p)) \<Longrightarrow> x \<in> set xs \<Longrightarrow> ext_before (es_of s x) e"
    "unat (es_lblk e) = ext_end (es_of s p) \<Longrightarrow> y \<in> set ys \<Longrightarrow> ext_before e (es_of s y)"
proof -
  note b = es_before_split [OF core xy]
  show "ext_before (es_of s x) e" if eq: "ext_end e = unat (es_lblk (es_of s p))" and x: "x \<in> set xs"
  proof (rule ccontr)
    assume "\<not> ext_before (es_of s x) e"
    then have "ext_before e (es_of s x)" using ap x by (auto simp: es_apart_def xy)
    then show False using b(1) [OF x] b(4) [OF x] eq by (simp add: ext_before_def ext_ok_def ext_end_def)
  qed
  show "ext_before e (es_of s y)" if eq: "unat (es_lblk e) = ext_end (es_of s p)" and y: "y \<in> set ys"
  proof (rule ccontr)
    assume "\<not> ext_before e (es_of s y)"
    then have "ext_before (es_of s y) e" using ap y by (auto simp: es_apart_def xy)
    then show False using b(2) [OF y] b(5) [OF y] eq by (simp add: ext_before_def ext_ok_def ext_end_def)
  qed
qed

lemma set_cache_simps [simp]:
  "es_heap (set_cache_es i c s) = es_heap s" "es_next (set_cache_es i c s) = es_next s"
  "s_es_list (set_cache_es i c s) = s_es_list s" "s_es_nr_inode (set_cache_es i c s) = s_es_nr_inode s"
  "es_inodes (set_cache_es i c s) = (es_inodes s)(i := (es_inodes s i)\<lparr>cache_es := c\<rparr>)"
  by (simp_all add: set_cache_es_def upd_ei_def)

lemma set_cache_lists [simp]:
  "es_ptrs (set_cache_es i c s) j = es_ptrs s j" "es_of (set_cache_es i c s) = es_of s"
  "es_list (set_cache_es i c s) j = es_list s j" "es_abs (set_cache_es i c s) j = es_abs s j"
proof -
  show p: "es_ptrs (set_cache_es i c s) j = es_ptrs s j" "es_of (set_cache_es i c s) = es_of s"
    by (simp_all add: es_ptrs_def es_of_def fun_eq_iff)
  then show l: "es_list (set_cache_es i c s) j = es_list s j" by (simp add: es_list_def)
  then show "es_abs (set_cache_es i c s) j = es_abs s j" by (simp add: es_abs_def)
qed

lemma set_cache_core [simp]: "es_core (set_cache_es i c s) = es_core s"
proof -
  have "tree_core (set_cache_es i c s) j = tree_core s j" for j by (simp add: tree_core_def)
  then show ?thesis by (simp add: es_core_def)
qed

lemma set_cache_frame: "es_frame i s' s \<Longrightarrow> es_frame i s' (set_cache_es i c s)"
  by (simp add: es_frame_def)

text \<open>The effect of a change of the node \<open>p\<close> and merging it with a neighbour.\<close>

lemma merge_result:
  assumes "es_core s1" and "es_frame i s s1" and "es_abs s1 i = m" and "es_merges i s1 p' s2"
  shows "es_core (set_cache_es i (Some p') s2) \<and> es_frame i s (set_cache_es i (Some p') s2) \<and>
    cache_ok (set_cache_es i (Some p') s2) i \<and> es_abs (set_cache_es i (Some p') s2) i = m"
  using assms es_frame_trans [OF assms(2)] by (auto simp: es_merges_def cache_ok_def intro!: set_cache_frame)

definition es_inserted :: "es_env \<Rightarrow> es_state \<Rightarrow> ext4_inop \<Rightarrow> extent_status \<Rightarrow> int \<Rightarrow> es_state \<Rightarrow> bool" where
  "es_inserted E s i e err s' =
     (es_core s' \<and> es_frame i s s' \<and>
      (err = 0 \<and> cache_ok s' i \<and> es_abs s' i = ext_put (es_abs s i) e \<or> err = - ENOMEM \<and> s' = s \<and> \<not> es_alloc E s))"

lemma insert_merge_before:
  assumes rb: "rb_ok E" and core: "es_core s" and e: "ext_ok e" and ap: "es_apart s e (es_ptrs s i)"
    and p: "p \<in> set (es_ptrs s i)" and m: "ext4_es_can_be_merged e (es_of s p)"
    and walk: "es_insert_walk s e (es_root s i) [] = Inr (Merge_before p)"
  shows "\<exists>s'. es_insert_extent_raw E s i e = Inr (0, s') \<and> es_inserted E s i e 0 s'"
proof -
  let ?f = "\<lambda>es. let es = es\<lparr>es_lblk := es_lblk e, es_len := es_len es + es_len e\<rparr>
    in if ext4_es_is_written es \<or> ext4_es_is_unwritten es then ext4_es_store_pblock (es_pblk e) es else es"
  let ?e = "es_of s p"
  obtain xs ys where xy: "es_ptrs s i = xs @ p # ys" using p by (meson split_list)
  have ok: "ext_ok ?e" by (rule es_of_ok [OF core p])
  note md = can_be_mergedD [OF m e ok]
  have l: "es_list s i = map (es_of s) xs @ ?e # map (es_of s) ys" by (simp add: es_list_def xy)
  have bef: "\<And>b. b \<in> set (?e # map (es_of s) ys) \<Longrightarrow> ext_before e b"
    using md(2) es_before_split(2) [OF core xy] ok by (fastforce simp: ext_before_def ext_ok_def ext_end_def)
  note ins = exts_insert [OF tree_coreD(3) [OF core, of i, unfolded l] e, OF _ bef]
  have aft: "\<And>a. a \<in> set (map (es_of s) xs) \<Longrightarrow> ext_before a e"
    using apart_before(1) [OF core xy ap e md(2)] by auto
  have mg: "merged e ?e (?f ?e)"
    using md(1) by (auto simp: merged_def Let_def add.commute ext4_es_pblock_def [of e] take_bit_not_mask)
  note mo = exts_merge [OF ins(1) [OF aft] m mg]
  have t: "ext4_es_is_delayed (?f ?e) = ext4_es_is_delayed ?e" by (rule es_flags_type(3)) (simp add: Let_def)
  note up = upd_es_core [OF core xy, of ?f, OF mo(1) t]
  have abs: "es_abs (upd_es p ?f s) i = ext_put (es_abs s i) e"
    using mo(2) ins(2) [OF aft] by (simp add: es_abs_def upd_es_list [OF core xy] l)
  obtain p' s2 where s2: "ext4_es_try_to_merge_left E (upd_es p ?f s) i p = Inr (p', s2)" "es_merges i (upd_es p ?f s) p' s2"
    using try_to_merge_left_ok [OF rb up(1), of p i] p by auto
  show ?thesis using merge_result [OF up abs s2(2)] s2(1) walk
    by (auto simp: es_insert_extent_raw_def es_inserted_def)
qed

lemma insert_merge_after:
  assumes rb: "rb_ok E" and core: "es_core s" and e: "ext_ok e" and ap: "es_apart s e (es_ptrs s i)"
    and p: "p \<in> set (es_ptrs s i)" and m: "ext4_es_can_be_merged (es_of s p) e"
    and walk: "es_insert_walk s e (es_root s i) [] = Inr (Merge_after p)"
  shows "\<exists>s'. es_insert_extent_raw E s i e = Inr (0, s') \<and> es_inserted E s i e 0 s'"
proof -
  let ?f = "\<lambda>es. es\<lparr>es_len := es_len es + es_len e\<rparr>" and ?e = "es_of s p"
  obtain xs ys where xy: "es_ptrs s i = xs @ p # ys" using p by (meson split_list)
  have ok: "ext_ok ?e" by (rule es_of_ok [OF core p])
  note md = can_be_mergedD [OF m ok e]
  have l: "es_list s i = (map (es_of s) xs @ [?e]) @ map (es_of s) ys" by (simp add: es_list_def xy)
  have aft: "\<And>a. a \<in> set (map (es_of s) xs @ [?e]) \<Longrightarrow> ext_before a e"
    using md(2) es_before_split(1) [OF core xy] ok by (fastforce simp: ext_before_def ext_ok_def ext_end_def)
  have bef: "\<And>b. b \<in> set (map (es_of s) ys) \<Longrightarrow> ext_before e b"
    using apart_before(2) [OF core xy ap e md(2) [symmetric]] by auto
  note ins = exts_insert [OF tree_coreD(3) [OF core, of i, unfolded l] e aft bef]
  have mg: "merged ?e e (?f ?e)" by (simp add: merged_def)
  have ins1: "exts_ok (map (es_of s) xs @ ?e # e # map (es_of s) ys)" using ins(1) by simp
  note mo = exts_merge [OF ins1 m mg]
  have t: "ext4_es_is_delayed (?f ?e) = ext4_es_is_delayed ?e" by (rule es_flags_type(3)) simp
  note up = upd_es_core [OF core xy, of ?f, OF mo(1) t]
  have abs: "es_abs (upd_es p ?f s) i = ext_put (es_abs s i) e"
    using mo(2) ins(2) by (simp add: es_abs_def upd_es_list [OF core xy] l)
  obtain p' s2 where s2: "ext4_es_try_to_merge_right E (upd_es p ?f s) i p = Inr (p', s2)" "es_merges i (upd_es p ?f s) p' s2"
    using try_to_merge_right_ok [OF rb up(1), of p i] p by auto
  show ?thesis using merge_result [OF up abs s2(2)] s2(1) walk
    by (auto simp: es_insert_extent_raw_def es_inserted_def)
qed

lemma insert_link:
  assumes rb: "rb_ok E" and core: "es_core s" and e: "ext_ok e"
    and walk: "es_insert_walk s e (es_root s i) [] = Inr (Link_at dirs)" "walk_end s e [] (es_root s i) (Link_at dirs)"
  shows "\<exists>err s'. es_insert_extent_raw E s i e = Inr (err, s') \<and> es_inserted E s i e err s'"
proof (cases "es_alloc E s")
  case True
  obtain xs ys where w: "es_ptrs s i = xs @ ys" "\<And>q. inorder (rb_link_node q dirs (es_root s i)) = xs @ q # ys"
    "\<And>x. x \<in> set xs \<Longrightarrow> ext_before (es_of s x) e" "\<And>y. y \<in> set ys \<Longrightarrow> ext_before e (es_of s y)"
    using walk(2) by (auto simp: walk_end_def es_ptrs_def)
  from es_link_core [OF rb core True e w] obtain p s1 where "ext4_es_alloc_extent E s i e = (Some p, s1)"
    "es_inserted E s i e 0 (es_linked E dirs i p s1)" by (auto simp: es_inserted_def)
  then show ?thesis using walk(1) by (auto simp: es_insert_extent_raw_def es_linked_def)
next
  case False
  then show ?thesis using walk(1) core by (simp add: es_insert_extent_raw_def ext4_es_alloc_extent_def es_inserted_def)
qed

lemma es_insert_extent_raw_ok:
  assumes rb: "rb_ok E" and core: "es_core s" and e: "ext_ok e" and ap: "es_apart s e (es_ptrs s i)"
  shows "\<exists>err s'. es_insert_extent_raw E s i e = Inr (err, s') \<and> es_inserted E s i e err s'"
proof -
  obtain place where w: "es_insert_walk s e (es_root s i) [] = Inr place" "walk_end s e [] (es_root s i) place"
    using es_insert_walk_ok [of "es_root s i" s e "[]"] tree_coreD(2) [OF core, of _ i] tree_coreD(3) [OF core, of i] e ap
    by (auto simp: es_ptrs_def es_list_def)
  show ?thesis
  proof (cases place)
    case (Merge_before p)
    then show ?thesis using insert_merge_before [OF rb core e ap, of p] w by (auto simp: walk_end_def es_ptrs_def)
  next
    case (Merge_after p)
    then show ?thesis using insert_merge_after [OF rb core e ap, of p] w by (auto simp: walk_end_def es_ptrs_def)
  next
    case (Link_at dirs)
    then show ?thesis using insert_link [OF rb core e] w by blast
  qed
qed

end
