(* ===== verification/Ext4_EsShrink.thy ===== *)
theory Ext4_EsShrink
  imports Ext4_EsInsert
begin

text \<open>
  Shrinking forgets extents, but never one that is delayed, and counts the extents it frees. Each
  retry of an insertion or a removal therefore has fewer extents to look at, so that these end.
\<close>

section \<open>Forgetting\<close>

definition forgets :: "(ext4_lblk_t \<Rightarrow> (u32 \<times> ext4_fsblk_t option) option) \<Rightarrow> (ext4_lblk_t \<Rightarrow> (u32 \<times> ext4_fsblk_t option) option) \<Rightarrow> bool" where
  "forgets m m' = (\<forall>b. m' b = m b \<or> m' b = None \<and> (\<forall>v. m b = Some v \<longrightarrow> fst v AND EXTENT_STATUS_DELAYED = 0))"

lemma forgets_refl [simp]: "forgets m m"
  by (simp add: forgets_def)

lemma forgets_trans: "forgets m m' \<Longrightarrow> forgets m' m'' \<Longrightarrow> forgets m m''"
  unfolding forgets_def by metis

lemma forgets_erase:
  assumes "exts_ok (A @ e # B)" and "\<not> ext4_es_is_delayed e"
  shows "forgets (ext_map (A @ e # B)) (ext_map (A @ B))"
  unfolding forgets_def
proof
  fix b
  have ok: "exts_ok (A @ B)" using assms(1) by (auto simp: exts_ok_simps)
  show "ext_map (A @ B) b = ext_map (A @ e # B) b \<or>
    ext_map (A @ B) b = None \<and> (\<forall>v. ext_map (A @ e # B) b = Some v \<longrightarrow> fst v AND EXTENT_STATUS_DELAYED = 0)"
  proof (cases "covers e b")
    case True
    then have "x \<in> set (A @ e # B) \<Longrightarrow> covers x b \<Longrightarrow> x = e" for x
      using exts_ok_disjoint [OF assms(1), of e x b] by simp
    moreover have "e \<notin> set (A @ B)"
      using assms(1) by (auto simp: exts_ok_simps ext_before_def ext_ok_def ext_end_def)
    ultimately have "ext_map (A @ B) b = None" by (auto simp: ext_map_None)
    moreover have "ext_map (A @ e # B) b = Some (es_val e b)" using True ext_map_iff [OF assms(1)] by auto
    ultimately show ?thesis using assms(2) by (simp add: es_val_def ext4_es_is_delayed_def)
  next
    case False
    then have "ext_map (A @ B) b = Some v \<longleftrightarrow> ext_map (A @ e # B) b = Some v" for v
      using ext_map_iff [OF ok] ext_map_iff [OF assms(1)] by auto
    then show ?thesis by (metis option.exhaust)
  qed
qed

text \<open>The operations on the tree of \<open>i\<close> free \<open>nr\<close> extents.\<close>

definition es_less :: "ext4_inop \<Rightarrow> es_state \<Rightarrow> nat \<Rightarrow> es_state \<Rightarrow> bool" where
  "es_less i s nr s' =
     (es_core s' \<and> es_frame i s s' \<and> forgets (es_abs s i) (es_abs s' i) \<and>
      card (dom (es_heap s)) = card (dom (es_heap s')) + nr)"

lemma es_less_refl: "es_core s \<Longrightarrow> es_less i s 0 s"
  by (simp add: es_less_def)

lemma es_less_trans: "es_less i s n s' \<Longrightarrow> es_less i s' n' s'' \<Longrightarrow> es_less i s (n + n') s''"
  using es_frame_trans [of i s s' s''] forgets_trans by (simp add: es_less_def) blast

lemma es_heap_finite: "es_core s \<Longrightarrow> finite (dom (es_heap s))"
  by (rule finite_subset [of _ "{..<es_next s}"]) (auto simp: es_core_def)

lemma set_shrink_simps [simp]:
  "es_heap (set_shrink_lblk i l s) = es_heap s" "es_next (set_shrink_lblk i l s) = es_next s"
  "s_es_list (set_shrink_lblk i l s) = s_es_list s" "s_es_nr_inode (set_shrink_lblk i l s) = s_es_nr_inode s"
  "es_inodes (set_shrink_lblk i l s) = (es_inodes s)(i := (es_inodes s i)\<lparr>i_es_shrink_lblk := l\<rparr>)"
  by (simp_all add: set_shrink_lblk_def upd_ei_def)

lemma set_shrink_lists [simp]:
  "es_ptrs (set_shrink_lblk i l s) j = es_ptrs s j" "es_of (set_shrink_lblk i l s) = es_of s"
  "es_list (set_shrink_lblk i l s) j = es_list s j" "es_abs (set_shrink_lblk i l s) j = es_abs s j"
proof -
  show p: "es_ptrs (set_shrink_lblk i l s) j = es_ptrs s j" "es_of (set_shrink_lblk i l s) = es_of s"
    by (simp_all add: es_ptrs_def es_of_def fun_eq_iff)
  then show l: "es_list (set_shrink_lblk i l s) j = es_list s j" by (simp add: es_list_def)
  then show "es_abs (set_shrink_lblk i l s) j = es_abs s j" by (simp add: es_abs_def)
qed

lemma set_shrink_core [simp]: "es_core (set_shrink_lblk i l s) = es_core s"
proof -
  have "tree_core (set_shrink_lblk i l s) j = tree_core s j" for j by (simp add: tree_core_def)
  then show ?thesis by (simp add: es_core_def)
qed

lemma es_less_shrink: "es_less i s nr s' \<Longrightarrow> es_less i s nr (set_shrink_lblk i l s')"
  by (simp add: es_less_def es_frame_def)

lemma es_less_cache: "es_less i s nr s' \<Longrightarrow> es_less i s nr (set_cache_es i c s')"
  by (simp add: es_less_def set_cache_frame)

section \<open>Reclaiming the extents of an inode\<close>

lemma es_reclaim_one_ok:
  assumes rb: "rb_ok E" and core: "es_core s" and xy: "es_ptrs s i = xs @ p # ys"
  shows "\<exists>freed s'. es_reclaim_one E s i p (es_of s p) = Inr (freed, s') \<and>
    es_less i s (if freed then 1 else 0) s' \<and> set ys \<subseteq> set (es_ptrs s' i)"
proof -
  let ?e = "es_of s p"
  have p: "p \<in> set (es_ptrs s i)" using xy by simp
  have h: "es_heap s p = Some ?e" by (rule tree_coreD(2) [OF core p])
  have l: "es_list s i = map (es_of s) xs @ ?e # map (es_of s) ys" by (simp add: es_list_def xy)
  consider (delayed) "ext4_es_is_delayed ?e" | (ref) "\<not> ext4_es_is_delayed ?e" "ext4_es_is_referenced ?e"
    | (free) "\<not> ext4_es_is_delayed ?e" "\<not> ext4_es_is_referenced ?e" by blast
  then show ?thesis
  proof cases
    case delayed
    then show ?thesis using es_less_refl [OF core, of i] by (auto simp: es_reclaim_one_def xy)
  next
    case ref
    let ?f = ext4_es_clear_referenced
    have "dom (es_heap (upd_es p ?f s)) = dom (es_heap s)" by (auto split: if_splits)
    then have "es_less i s 0 (upd_es p ?f s)" using upd_es_same [OF core p, of ?f] by (simp add: es_less_def)
    then show ?thesis using ref by (auto simp: es_reclaim_one_def xy)
  next
    case free
    obtain s' where s': "es_erase E s i p = Inr s'" "es_core s'" "es_frame i s s'" "es_ptrs s' i = xs @ ys"
      "es_list s' i = map (es_of s) (xs @ ys)" "es_heap s' = (es_heap s)(p := None)"
      using es_erase_core [OF rb core xy] by blast
    have "forgets (es_abs s i) (es_abs s' i)"
      using forgets_erase [OF tree_coreD(3) [OF core, of i, unfolded l] free(1)] by (simp add: es_abs_def l s'(5))
    moreover have "card (dom (es_heap s)) = card (dom (es_heap s')) + 1"
      using card_Suc_Diff1 [OF es_heap_finite [OF core] domI, OF h] by (simp add: s'(6))
    ultimately show ?thesis using free s' by (auto simp: es_reclaim_one_def es_less_def)
  qed
qed

lemma es_reclaim_loop_ok:
  assumes rb: "rb_ok E" and "es_core s" and "p \<in> set (es_ptrs s i)"
  shows "\<exists>more n' k s'. es_reclaim_loop E i e_end n nr s p = Inr (more, n', nr + k, s') \<and> es_less i s k s'"
  using assms(2,3)
proof (induction n arbitrary: s p nr)
  case 0
  then show ?case using tree_coreD(2) [OF 0(1,2)] es_less_shrink [OF es_less_refl [OF 0(1), of i], of "es_lblk (es_of s p)"]
    by (auto intro!: exI [of _ 0])
next
  case (Suc n)
  have h: "es_heap s p = Some (es_of s p)" by (rule tree_coreD(2) [OF Suc.prems])
  obtain xs ys where xy: "es_ptrs s i = xs @ p # ys" using Suc.prems(2) by (meson split_list)
  show ?case
  proof (cases "e_end < es_lblk (es_of s p)")
    case True
    then show ?thesis using h es_less_shrink [OF es_less_refl [OF Suc.prems(1), of i]] by (auto intro!: exI [of _ 0])
  next
    case False
    obtain freed s1 where s1: "es_reclaim_one E s i p (es_of s p) = Inr (freed, s1)"
      and less: "es_less i s (if freed then 1 else 0) s1" and ys: "set ys \<subseteq> set (es_ptrs s1 i)"
      using es_reclaim_one_ok [OF rb Suc.prems(1) xy] by blast
    let ?k = "if freed then 1 else 0 :: nat"
    have nxt: "rb_next E (es_root s i) p = (case ys of [] \<Rightarrow> None | q # _ \<Rightarrow> Some q)"
      by (rule rb_next_in(1) [OF rb Suc.prems(1) xy])
    have nr: "(if freed then nr + 1 else nr) = nr + ?k" by simp
    show ?thesis
    proof (cases ys)
      case Nil
      then show ?thesis using False h s1 nxt nr es_less_shrink [OF less, of 0] by (auto simp: Let_def)
    next
      case (Cons q zs)
      have "es_core s1" "q \<in> set (es_ptrs s1 i)" using less ys Cons by (auto simp: es_less_def)
      from Suc.IH [OF this, of "nr + ?k"] obtain more n' k s' where
        "es_reclaim_loop E i e_end n (nr + ?k) s1 q = Inr (more, n', nr + (?k + k), s')" "es_less i s1 k s'"
        by (auto simp: add.assoc)
      then show ?thesis using False h s1 nxt nr Cons es_less_trans [OF less] by (auto simp: Let_def)
    qed
  qed
qed

lemma es_do_reclaim_ok:
  assumes rb: "rb_ok E" and core: "es_core s"
  shows "\<exists>more n' k s'. es_do_reclaim_extents E s i e_end n nr = Inr (more, n', nr + k, s') \<and> es_less i s k s'"
proof (cases "first_behind s i (i_es_shrink_lblk (es_inodes s i))")
  case None
  then show ?thesis using es_tree_search_ok [OF rb core, of i] es_less_shrink [OF es_less_refl [OF core, of i], of 0]
    by (auto simp: es_do_reclaim_extents_def intro!: exI [of _ 0])
next
  case (Some p)
  then have "p \<in> set (es_ptrs s i)" by (auto simp: first_behind_def find_Some_iff)
  from es_reclaim_loop_ok [OF rb core this] show ?thesis
    using es_tree_search_ok [OF rb core, of i] Some by (simp add: es_do_reclaim_extents_def)
qed

text \<open>The effect on all inodes.\<close>

definition es_shrunk :: "es_state \<Rightarrow> nat \<Rightarrow> es_state \<Rightarrow> bool" where
  "es_shrunk s nr s' =
     (es_inv s' \<and> (\<forall>j. forgets (es_abs s j) (es_abs s' j)) \<and> card (dom (es_heap s)) = card (dom (es_heap s')) + nr)"

lemma es_shrunk_refl: "es_inv s \<Longrightarrow> es_shrunk s 0 s"
  by (simp add: es_shrunk_def)

lemma es_shrunk_trans: "es_shrunk s n s' \<Longrightarrow> es_shrunk s' n' s'' \<Longrightarrow> es_shrunk s (n + n') s''"
  using forgets_trans by (simp add: es_shrunk_def) blast

lemma es_less_shrunk:
  assumes "es_inv s" and less: "es_less i s nr s'"
  shows "es_shrunk s nr (set_cache_es i None s')"
proof -
  have f: "es_frame i s (set_cache_es i None s')" using es_less_cache [OF less] by (simp add: es_less_def)
  have "es_inv (set_cache_es i None s')"
    by (rule es_inv_frame [OF assms(1) f]) (use less in \<open>simp_all add: es_less_def cache_ok_def\<close>)
  moreover have "forgets (es_abs s j) (es_abs s' j)" for j
    using less es_frame_abs [of i s s' j] by (cases "j = i") (simp_all add: es_less_def)
  ultimately show ?thesis using less by (simp add: es_shrunk_def es_less_def)
qed

lemma es_reclaim_extents_ok:
  assumes rb: "rb_ok E" and inv: "es_inv s"
  shows "\<exists>k n' s'. es_reclaim_extents E s i n = Inr (k, n', s') \<and> es_shrunk s k s'"
proof (cases "i_es_shk_nr (es_inodes s i) = 0")
  case True
  then show ?thesis using es_shrunk_refl [OF inv] by (simp add: es_reclaim_extents_def)
next
  case False
  let ?start = "i_es_shrink_lblk (es_inodes s i)"
  have core: "es_core s" using inv by (simp add: es_inv_def)
  obtain more n1 k1 s1 where r1: "es_do_reclaim_extents E s i EXT_MAX_BLOCKS n 0 = Inr (more, n1, k1, s1)" "es_less i s k1 s1"
    using es_do_reclaim_ok [OF rb core, of i EXT_MAX_BLOCKS n 0] by auto
  have core1: "es_core s1" using r1(2) by (simp add: es_less_def)
  obtain more2 n2 k2 s2 where r2: "es_do_reclaim_extents E s1 i (?start - 1) n1 k1 = Inr (more2, n2, k1 + k2, s2)" "es_less i s1 k2 s2"
    using es_do_reclaim_ok [OF rb core1] by blast
  show ?thesis
    using False r1(1) r2(1) es_less_shrunk [OF inv r1(2)] es_less_shrunk [OF inv es_less_trans [OF r1(2) r2(2)]]
    by (cases "\<not> more \<and> ?start \<noteq> 0") (auto simp: es_reclaim_extents_def Let_def)
qed

section \<open>Shrinking all inodes\<close>

lemma es_rotate_inv:
  assumes "es_inv s" and "s_es_list s = i # is"
  shows "es_shrunk s 0 (s\<lparr>s_es_list := is @ [i]\<rparr>)"
proof -
  let ?s = "s\<lparr>s_es_list := is @ [i]\<rparr>"
  have of': "es_of ?s = es_of s" by (simp add: es_of_def fun_eq_iff)
  have f: "es_ptrs ?s j = es_ptrs s j" "es_list ?s j = es_list s j" "es_abs ?s j = es_abs s j" for j
    by (simp_all add: es_ptrs_def es_list_def es_abs_def of')
  have "tree_core ?s j = tree_core s j" for j using assms(2) by (auto simp: tree_core_def f)
  then show ?thesis using assms by (auto simp: es_shrunk_def es_inv_def es_core_def cache_ok_def f)
qed

lemma es_shrink_walk_ok:
  assumes rb: "rb_ok E" and "es_inv s"
  shows "\<exists>out n' k sk s'. es_shrink_walk E locked retried m n nr skipped s = Inr (out, n', nr + k, sk, s') \<and> es_shrunk s k s'"
  using assms(2)
proof (induction m arbitrary: n nr skipped s)
  case 0
  then show ?case using es_shrunk_refl by (auto intro!: exI [of _ 0])
next
  case (Suc m)
  show ?case
  proof (cases "s_es_list s")
    case Nil
    then show ?thesis using es_shrunk_refl [OF Suc.prems] by (auto intro!: exI [of _ 0])
  next
    case (Cons i "is")
    let ?s = "s\<lparr>s_es_list := is @ [i]\<rparr>"
    note rot = es_rotate_inv [OF Suc.prems Cons]
    then have inv: "es_inv ?s" by (simp add: es_shrunk_def)
    obtain k n1 s1 where r: "es_reclaim_extents E ?s i n = Inr (k, n1, s1)" "es_shrunk ?s k s1"
      using es_reclaim_extents_ok [OF rb inv] by blast
    have "es_inv s1" using r(2) by (simp add: es_shrunk_def)
    obtain out n' k' sk s' where w: "es_shrink_walk E locked retried m n1 (nr + k) skipped s1 = Inr (out, n', nr + (k + k'), sk, s')"
      "es_shrunk s1 k' s'"
      using Suc.IH [OF \<open>es_inv s1\<close>, of n1 "nr + k" skipped] by (auto simp: add.assoc)
    have sk: "\<exists>out n' k sk s'. es_shrink_walk E locked retried m n nr (skipped + 1) ?s = Inr (out, n', nr + k, sk, s') \<and> es_shrunk s k s'"
      using Suc.IH [OF inv, of n nr "skipped + 1"] es_shrunk_trans [OF rot] by fastforce
    have go: "\<exists>out n' k sk s'. es_shrink_walk E locked retried m n1 (nr + k0) skipped s1 = Inr (out, n', nr + k, sk, s') \<and> es_shrunk s k s'"
      if "k0 = k" for k0 using w that es_shrunk_trans [OF es_shrunk_trans [OF rot r(2)] w(2)] by auto
    show ?thesis
      using Cons sk go r(1) es_shrunk_trans [OF rot r(2)] by (auto simp: Let_def split: if_splits)
  qed
qed

lemma es_shrink_ok:
  assumes rb: "rb_ok E" and inv: "es_inv s"
  shows "\<exists>k s'. es_shrink E s n locked = Inr (k, s') \<and> es_shrunk s k s'"
proof -
  obtain out n1 k1 sk1 s1 where w1: "es_shrink_walk E locked False (nat (s_es_nr_inode s)) n 0 0 s = Inr (out, n1, k1, sk1, s1)"
    "es_shrunk s k1 s1"
    using es_shrink_walk_ok [OF rb inv, of locked False "nat (s_es_nr_inode s)" n 0 0] by auto
  have inv1: "es_inv s1" using w1(2) by (simp add: es_shrunk_def)
  obtain out2 n2 k2 sk2 s2 where w2: "es_shrink_walk E locked True (nat (s_es_nr_inode s1)) n1 k1 sk1 s1 = Inr (out2, n2, k1 + k2, sk2, s2)"
    "es_shrunk s1 k2 s2"
    using es_shrink_walk_ok [OF rb inv1] by blast
  have s2: "es_shrunk s (k1 + k2) s2" by (rule es_shrunk_trans [OF w1(2) w2(2)])
  have last: "\<exists>k' s'. (if o' then Inr (k, s3) else case locked of None \<Rightarrow> Inr (k, s3)
       | Some i \<Rightarrow> if k = 0 then bind_res (es_reclaim_extents E s3 i m) (\<lambda>(nr, _, s). Inr (nr, s)) else Inr (k, s3)) =
      Inr (k', s') \<and> es_shrunk s k' s'" if s3: "es_shrunk s k s3" for o' k s3 m
  proof (cases "o' \<or> locked = None \<or> k \<noteq> 0")
    case True
    then show ?thesis using s3 by (auto split: option.split)
  next
    case False
    then obtain i where i: "locked = Some i" "k = 0" "\<not> o'" by auto
    have "es_inv s3" using s3 by (simp add: es_shrunk_def)
    then obtain k' n' s' where "es_reclaim_extents E s3 i m = Inr (k', n', s')" "es_shrunk s3 k' s'"
      using es_reclaim_extents_ok [OF rb] by blast
    then show ?thesis using i es_shrunk_trans [OF s3] by simp
  qed
  show ?thesis
  proof (cases "out \<or> \<not> (k1 = 0 \<and> sk1 \<noteq> 0)")
    case True
    then show ?thesis using w1 last [OF w1(2), of False n1] by (cases out) (auto simp: es_shrink_def)
  next
    case False
    then have z: "k1 = 0" "sk1 \<noteq> 0" "\<not> out" by auto
    then show ?thesis using w1(1) w2(1) last [OF s2, of out2 n2, unfolded z(1) add_0]
      by (cases out2) (simp_all add: es_shrink_def)
  qed
qed

end
