(* ===== verification/Ext4_EsRemove.thy ===== *)
theory Ext4_EsRemove
  imports Ext4_EsShrink
begin

text \<open>
  Removing a range of blocks from an extent status tree takes exactly these blocks out of the map of
  the tree, unless memory runs out, when extents may be forgotten.
\<close>

section \<open>Erasing extents within a range\<close>

lemma es_erase_loop_ok:
  assumes rb: "rb_ok E" and "es_core s" and "es_ptrs s i = xs @ ys"
  shows "\<exists>s' ws zs. es_erase_loop E i e_end s (case ys of [] \<Rightarrow> None | p # _ \<Rightarrow> Some p) =
      Some (Inr (s', case zs of [] \<Rightarrow> None | p # _ \<Rightarrow> Some p)) \<and> ys = ws @ zs \<and> es_core s' \<and> es_frame i s s' \<and>
    es_ptrs s' i = xs @ zs \<and> map (es_of s') (xs @ zs) = map (es_of s) (xs @ zs) \<and>
    (\<forall>w \<in> set ws. ext_end (es_of s w) \<le> Suc (unat e_end)) \<and>
    (\<forall>p ps. zs = p # ps \<longrightarrow> Suc (unat e_end) < ext_end (es_of s p)) \<and>
    cache_es (es_inodes s' i) = cache_es (es_inodes s i)"
  using assms(2,3)
proof (induction ys arbitrary: s)
  case Nil
  then show ?case by (auto simp: es_erase_loop.simps [of E i e_end s None])
next
  case (Cons p ys)
  have p: "p \<in> set (es_ptrs s i)" using Cons.prems(2) by simp
  have h: "es_heap s p = Some (es_of s p)" by (rule tree_coreD(2) [OF Cons.prems(1) p])
  have ok: "ext_ok (es_of s p)" by (rule es_of_ok [OF Cons.prems(1) p])
  show ?case
  proof (cases "ext_end (es_of s p) \<le> Suc (unat e_end)")
    case True
    obtain s1 where s1: "es_erase E s i p = Inr s1" "es_core s1" "es_frame i s s1" "es_ptrs s1 i = xs @ ys"
      "es_list s1 i = map (es_of s) (xs @ ys)" "cache_es (es_inodes s1 i) = cache_es (es_inodes s i)"
      using es_erase_core [OF rb Cons.prems] by blast
    have same: "map (es_of s1) (xs @ ys) = map (es_of s) (xs @ ys)" using s1(4,5) by (simp add: es_list_def)
    obtain s' ws zs where IH: "es_erase_loop E i e_end s1 (case ys of [] \<Rightarrow> None | p # _ \<Rightarrow> Some p) =
      Some (Inr (s', case zs of [] \<Rightarrow> None | p # _ \<Rightarrow> Some p))" "ys = ws @ zs" "es_core s'" "es_frame i s1 s'"
      "es_ptrs s' i = xs @ zs" "map (es_of s') (xs @ zs) = map (es_of s1) (xs @ zs)"
      "\<forall>w \<in> set ws. ext_end (es_of s1 w) \<le> Suc (unat e_end)"
      "\<forall>p ps. zs = p # ps \<longrightarrow> Suc (unat e_end) < ext_end (es_of s1 p)"
      "cache_es (es_inodes s' i) = cache_es (es_inodes s1 i)"
      using Cons.IH [OF s1(2,4)] by blast
    have step: "es_erase_loop E i e_end s (Some p) = es_erase_loop E i e_end s1 (case ys of [] \<Rightarrow> None | p # _ \<Rightarrow> Some p)"
      using h True s1(1) rb_next_in(1) [OF rb Cons.prems]
      by (subst es_erase_loop.simps) (simp add: es_end_ok [OF ok] es_last_compare [OF ok])
    show ?thesis
      by (rule exI [of _ s'], rule exI [of _ "p # ws"], rule exI [of _ zs])
        (use step True IH s1(6) same es_frame_trans [OF s1(3) IH(4)] in auto)
  next
    case False
    then have step: "es_erase_loop E i e_end s (Some p) = Some (Inr (s, Some p))"
      using h by (subst es_erase_loop.simps) (simp add: es_end_ok [OF ok] es_last_compare [OF ok])
    show ?thesis
      by (rule exI [of _ s], rule exI [of _ "[]"], rule exI [of _ "p # ys"]) (use step False Cons.prems in auto)
  qed
qed

section \<open>One round of the removal\<close>

definition es_dels :: "es_state \<Rightarrow> ext4_inop \<Rightarrow> ext4_lblk_t \<Rightarrow> ext4_lblk_t \<Rightarrow> es_state \<Rightarrow> bool" where
  "es_dels s i lo hi s' = (es_core s' \<and> es_frame i s s' \<and> es_abs s' i = ext_del (es_abs s i) lo hi)"

text \<open>The extents behind the part of the tree that is before \<open>lo\<close>.\<close>

lemma first_behind_split:
  assumes "first_behind s i lo = Some p"
  shows "\<exists>xs ys. es_ptrs s i = xs @ p # ys \<and> (\<forall>x \<in> set xs. ext_end (es_of s x) \<le> unat lo) \<and> unat lo < ext_end (es_of s p)"
proof -
  obtain n where n: "n < length (es_ptrs s i)" "p = es_ptrs s i ! n" "unat lo < ext_end (es_of s p)"
    "\<forall>j < n. \<not> unat lo < ext_end (es_of s (es_ptrs s i ! j))"
    using assms by (auto simp: first_behind_def find_Some_iff)
  have "es_ptrs s i = take n (es_ptrs s i) @ p # drop (Suc n) (es_ptrs s i)" using n(1,2) by (simp add: id_take_nth_drop)
  moreover have "\<forall>x \<in> set (take n (es_ptrs s i)). ext_end (es_of s x) \<le> unat lo"
    using n(1,4) by (auto simp: in_set_conv_nth) (metis not_le)
  ultimately show ?thesis using n(3) by blast
qed

lemma first_behind_None: "first_behind s i lo = None \<Longrightarrow> p \<in> set (es_ptrs s i) \<Longrightarrow> ext_end (es_of s p) \<le> unat lo"
  by (auto simp: first_behind_def find_None_iff)

text \<open>Nothing to remove.\<close>

lemma ext_del_none:
  assumes "\<And>e. e \<in> set L \<Longrightarrow> ext_end e \<le> unat lo \<or> unat hi < unat (es_lblk e)"
  shows "ext_del (ext_map L) lo hi = ext_map L"
proof
  fix b
  show "ext_del (ext_map L) lo hi b = ext_map L b"
  proof (cases "lo \<le> b \<and> b \<le> hi")
    case True
    then have "\<not> covers e b" if "e \<in> set L" for e using assms [OF that] by (auto simp: covers_def word_le_nat_alt)
    then have "ext_map L b = None" by (simp add: ext_map_None)
    then show ?thesis by (simp add: ext_del_def)
  qed (auto simp: ext_del_def)
qed

text \<open>The extents of a list that do not touch the range, and one part \<open>e'\<close> of an extent \<open>e\<close> that does.\<close>

lemma ext_map_del:
  assumes ok: "exts_ok (A @ M @ B)" and ok': "exts_ok (A @ M' @ B)"
    and sub: "\<And>e'. e' \<in> set M' \<Longrightarrow> \<exists>e \<in> set M. sub_ext e' e"
    and out: "\<And>e. e \<in> set A \<Longrightarrow> ext_end e \<le> unat lo" "\<And>e. e \<in> set B \<Longrightarrow> unat hi < unat (es_lblk e)"
    and cov: "\<And>b. (\<exists>e' \<in> set M'. covers e' b) \<longleftrightarrow> (\<exists>e \<in> set M. covers e b) \<and> \<not> (lo \<le> b \<and> b \<le> hi)"
  shows "ext_map (A @ M' @ B) = ext_del (ext_map (A @ M @ B)) lo hi"
proof (rule ext_map_sub [OF ok ok'])
  have "sub_ext e e" if "e \<in> set A \<union> set B" for e using that exts_ok_in [OF ok, of e] by (auto intro: sub_ext_refl)
  then show "\<exists>e \<in> set (A @ M @ B). sub_ext e' e" if "e' \<in> set (A @ M' @ B)" for e' using that sub by fastforce
  have AB: "\<not> (lo \<le> b \<and> b \<le> hi)" if "e \<in> set A \<union> set B" "covers e b" for e b
    using that out by (fastforce simp: covers_def word_le_nat_alt)
  show "(\<exists>e' \<in> set (A @ M' @ B). covers e' b) \<longleftrightarrow> (\<exists>e \<in> set (A @ M @ B). covers e b) \<and> \<not> (lo \<le> b \<and> b \<le> hi)" for b
    using cov [of b] AB [of _ b] by auto
qed

text \<open>
  The end of the removal: the extents \<open>ys\<close> start in the range or behind it; those that end in it are
  erased, and the next one is cut.
\<close>

lemma covers_nat: "lo \<le> b \<and> b \<le> hi \<longleftrightarrow> unat lo \<le> unat b \<and> unat b \<le> unat (hi :: u32)"
  by (simp add: word_le_nat_alt)

lemma unat_es_last_diff: "ext_ok e \<Longrightarrow> Suc (unat hi) < ext_end e \<Longrightarrow> unat (es_lblk e + es_len e - 1 - hi) = ext_end e - 1 - unat hi"
  by (subst unat_sub) (auto simp: word_le_nat_alt unat_es_last)

lemma es_del_tail:
  assumes rb: "rb_ok E" and core: "es_core s" and xy: "es_ptrs s i = xs @ ys" and hi: "unat hi + 1 < 2 ^ 32"
    and xs: "\<And>x. x \<in> set xs \<Longrightarrow> ext_end (es_of s x) \<le> unat lo"
    and ys: "\<And>y. y \<in> set ys \<Longrightarrow> unat lo \<le> unat (es_lblk (es_of s y))"
  shows "\<exists>s'. bind_ro (es_erase_loop E i hi s (case ys of [] \<Rightarrow> None | p # _ \<Rightarrow> Some p)) (\<lambda>(s, es).
      case es of
        None \<Rightarrow> Some (Inr (0, s))
      | Some q \<Rightarrow> Some (with_es s q (\<lambda>e.
          if es_lblk e < hi + 1
          then bind_res (ext4_es_end e) (\<lambda>es_end. Inr (0, upd_es q (es_cut_front hi (es_end - hi)) s))
          else Inr (0, s)))) = Some (Inr (0 :: int, s')) \<and> es_dels s i lo hi s' \<and> cache_es (es_inodes s' i) = cache_es (es_inodes s i)"
proof -
  obtain s1 ws zs where loop: "es_erase_loop E i hi s (case ys of [] \<Rightarrow> None | p # _ \<Rightarrow> Some p) =
      Some (Inr (s1, case zs of [] \<Rightarrow> None | p # _ \<Rightarrow> Some p))" and wz: "ys = ws @ zs" and core1: "es_core s1"
    and frame: "es_frame i s s1" and ptrs: "es_ptrs s1 i = xs @ zs" and same: "map (es_of s1) (xs @ zs) = map (es_of s) (xs @ zs)"
    and ws: "\<And>w. w \<in> set ws \<Longrightarrow> ext_end (es_of s w) \<le> Suc (unat hi)"
    and zs: "\<And>p ps. zs = p # ps \<Longrightarrow> Suc (unat hi) < ext_end (es_of s p)"
    and cache: "cache_es (es_inodes s1 i) = cache_es (es_inodes s i)"
    using es_erase_loop_ok [OF rb core xy, of hi] by blast
  let ?A = "map (es_of s) xs" and ?W = "map (es_of s) ws"
  have l: "es_list s i = ?A @ ?W @ map (es_of s) zs" by (simp add: es_list_def xy wz)
  have l1: "es_list s1 i = ?A @ map (es_of s) zs" using same by (simp add: es_list_def ptrs)
  have ok: "exts_ok (?A @ ?W @ map (es_of s) zs)" "exts_ok (?A @ map (es_of s) zs)"
    using tree_coreD(3) [OF core, of i] tree_coreD(3) [OF core1, of i] by (simp_all add: l l1)
  have A: "\<And>e. e \<in> set ?A \<Longrightarrow> ext_end e \<le> unat lo" using xs by auto
  have W: "lo \<le> b \<and> b \<le> hi" if "w \<in> set ws" "covers (es_of s w) b" for w b
    using that(2) ws [OF that(1)] ys [of w] that(1) wz unfolding covers_nat by (simp add: covers_def)
  have hi1: "unat (hi + 1) = Suc (unat hi)" using hi by (simp add: unat_inc)
  show ?thesis
  proof (cases "\<exists>q ps. zs = q # ps \<and> unat (es_lblk (es_of s q)) \<le> unat hi")
    case False
    then have B: "unat hi < unat (es_lblk e)" if "e \<in> set (map (es_of s) zs)" for e
    proof (cases zs)
      case (Cons q ps)
      with ok(2) that False show ?thesis by (auto simp: exts_ok_simps ext_before_def ext_ok_def ext_end_def)
    qed (use that in simp)
    have "ext_map (?A @ [] @ map (es_of s) zs) = ext_del (ext_map (?A @ ?W @ map (es_of s) zs)) lo hi"
      by (rule ext_map_del) (use ok A B in \<open>auto dest: W\<close>)
    then have "es_dels s i lo hi s1" using core1 frame by (simp add: es_dels_def es_abs_def l l1)
    moreover have "\<not> es_lblk (es_of s1 q) < hi + 1" "es_heap s1 q = Some (es_of s1 q)" if "zs = q # ps" for q ps
      using B [of "es_of s q"] same tree_coreD(2) [OF core1, of q i] that by (auto simp: ptrs word_less_nat_alt hi1)
    ultimately show ?thesis using cache by (cases zs) (auto simp: loop)
  next
    case True
    then obtain q ps where q: "zs = q # ps" "unat (es_lblk (es_of s q)) \<le> unat hi" by blast
    let ?e = "es_of s q" and ?n = "es_lblk (es_of s q) + es_len (es_of s q) - 1 - hi"
    let ?e' = "es_cut_front hi ?n ?e"
    have qe: "es_of s1 q = ?e" "es_heap s1 q = Some ?e" "map (es_of s1) xs = ?A" "map (es_of s1) ps = map (es_of s) ps"
      using same tree_coreD(2) [OF core1, of q i] by (auto simp: ptrs q(1))
    have eok: "ext_ok ?e" using ok(2) by (simp add: q(1) exts_ok_simps)
    have n: "unat ?n = ext_end ?e - 1 - unat hi" by (rule unat_es_last_diff [OF eok zs [OF q(1)]])
    have end2: "unat hi + 1 < ext_end ?e" using zs [OF q(1)] by simp
    note cut = sub_ext_cut_front [OF eok q(2) end2 n]
    have B: "unat hi < unat (es_lblk e)" if "e \<in> set (map (es_of s) ps)" for e
      using ok(2) that end2 by (auto simp: q(1) exts_ok_simps ext_before_def)
    have ok': "exts_ok (?A @ [?e'] @ map (es_of s) ps)"
      using ok(2) cut q(2) by (auto simp: q(1) exts_ok_simps ext_before_def sub_ext_def)
    have cov: "covers ?e' b \<longleftrightarrow> covers ?e b \<and> \<not> (lo \<le> b \<and> b \<le> hi)" for b
      using ys [of q] q wz unfolding covers_nat covers_def cut(2,3) by auto
    have "ext_map (?A @ [?e'] @ map (es_of s) ps) = ext_del (ext_map (?A @ (?W @ [?e]) @ map (es_of s) ps)) lo hi"
      by (rule ext_map_del) (use ok(1) ok' A B cov cut(1) in \<open>auto simp: q(1) dest: W\<close>)
    moreover have xy1: "es_ptrs s1 i = xs @ q # ps" by (simp add: ptrs q(1))
    moreover have t: "ext4_es_is_delayed ?e' = ext4_es_is_delayed ?e" by (rule es_flags_type(3)) (simp add: es_cut_front_def Let_def)
    moreover note up = upd_es_core [OF core1 xy1, of "es_cut_front hi ?n", unfolded qe]
    ultimately have "es_dels s i lo hi (upd_es q (es_cut_front hi ?n) s1)"
      using ok' es_frame_trans [OF frame] by (simp add: es_dels_def es_abs_def l upd_es_list [OF core1 xy1] qe q(1))
    moreover have "es_lblk ?e < hi + 1" using q(2) by (simp add: word_less_nat_alt hi1)
    ultimately show ?thesis using cache qe(2) by (auto simp: loop q(1) es_end_ok [OF eok])
  qed
qed

lemma upd_es_of: "es_heap s p = Some e \<Longrightarrow> es_of (upd_es p f s) q = (if q = p then f (es_of s p) else es_of s q)"
  by (auto simp: es_of_def)

lemma upd_es_id: "es_heap s p = Some e \<Longrightarrow> g (f e) = e \<Longrightarrow> upd_es p g (upd_es p f s) = s"
  by (cases s) (auto simp: upd_es_def fun_eq_iff)

lemma ext_del_del: "unat k \<le> unat hi \<Longrightarrow> ext_del (ext_del m lo k) lo hi = ext_del m lo hi"
  by (auto simp: ext_del_def fun_eq_iff word_le_nat_alt)

text \<open>The extent \<open>p\<close> is the first one that ends behind \<open>lo\<close>.\<close>

lemma es_remove_across_ok:
  assumes rb: "rb_ok E" and core: "es_core s" and xy: "es_ptrs s i = xs @ p # ys" and hi: "unat hi + 1 < 2 ^ 32"
    and xs: "\<And>x. x \<in> set xs \<Longrightarrow> ext_end (es_of s x) \<le> unat lo" and lo: "unat lo < ext_end (es_of s p)"
    and e: "ext_end (es_of s p) \<le> Suc (unat hi)"
    and len1: "len1 = (if es_lblk (es_of s p) < lo then lo - es_lblk (es_of s p) else 0)"
  shows "\<exists>s'. es_remove_across E s i hi len1 p = Some (Inr (0, s')) \<and> es_dels s i lo hi s' \<and>
    cache_es (es_inodes s' i) = cache_es (es_inodes s i)"
proof (cases "es_lblk (es_of s p) < lo")
  case False
  note b = es_before_split [OF core xy]
  have "unat lo \<le> unat (es_lblk (es_of s y))" if "y \<in> set (p # ys)" for y
    using False that b(2) [of y] b(3) by (auto simp: word_less_nat_alt ext_ok_def ext_end_def)
  from es_del_tail [OF rb core xy hi xs this] show ?thesis
    using False by (simp add: es_remove_across_def len1)
next
  case True
  let ?e = "es_of s p"
  let ?f = "\<lambda>es. es\<lparr>es_len := len1\<rparr>"
  note b = es_before_split [OF core xy]
  have u1: "unat len1 = unat lo - unat (es_lblk ?e)" using True by (simp add: len1 unat_sub word_le_nat_alt word_less_nat_alt)
  have pos: "0 < unat len1" "unat len1 \<le> unat (es_len ?e)" using True u1 lo by (simp_all add: word_less_nat_alt ext_end_def)
  note sub = sub_ext_len [OF b(3) pos]
  have end1: "ext_end (?f ?e) = unat lo" using True u1 sub(2) by (simp add: word_less_nat_alt)
  let ?A = "map (es_of s) xs" and ?B = "map (es_of s) ys"
  have l: "es_list s i = ?A @ [?e] @ ?B" by (simp add: es_list_def xy)
  have ok: "exts_ok (?A @ [?e] @ ?B)" using tree_coreD(3) [OF core, of i] by (simp add: l)
  have ok': "exts_ok (?A @ [?f ?e] @ ?B)" using ok sub lo end1 by (auto simp: exts_ok_simps ext_before_def sub_ext_def)
  have t: "ext4_es_is_delayed (?f ?e) = ext4_es_is_delayed ?e" by (rule es_flags_type(3)) simp
  note up = upd_es_core [OF core xy, of ?f, OF ok' [simplified] t]
  define k where "k = es_lblk ?e + es_len ?e - 1"
  have k: "unat k = ext_end ?e - 1" unfolding k_def by (rule unat_es_last [OF b(3)])
  have "ext_map (?A @ [?f ?e] @ ?B) = ext_del (ext_map (?A @ [?e] @ ?B)) lo k"
  proof (rule ext_map_del [OF ok ok'])
    show "unat k < unat (es_lblk e)" if "e \<in> set ?B" for e using that b(2) k lo by fastforce
    show "(\<exists>e' \<in> set [?f ?e]. covers e' b) \<longleftrightarrow> (\<exists>e \<in> set [?e]. covers e b) \<and> \<not> (lo \<le> b \<and> b \<le> k)" for b
      using end1 k lo by (auto simp: covers_def covers_nat)
  qed (use xs sub(1) in auto)
  then have abs: "es_abs (upd_es p ?f s) i = ext_del (es_abs s i) lo k"
    by (simp add: es_abs_def upd_es_list [OF core xy] l)
  have xy1: "es_ptrs (upd_es p ?f s) i = (xs @ [p]) @ ys" by (simp add: xy)
  have p: "es_heap s p = Some ?e" using tree_coreD(2) [OF core, of p i] xy by simp
  have d: "distinct (xs @ p # ys)" using tree_coreD(1) [OF core, of i] xy by simp
  then have of1: "es_of (upd_es p ?f s) x = es_of s x" if "x \<in> set xs \<or> x \<in> set ys" for x using that by (auto simp: es_of_def)
  have of2: "es_of (upd_es p ?f s) p = ?f ?e" using p by (simp add: upd_es_of)
  have "\<exists>s'. bind_ro (es_erase_loop E i hi (upd_es p ?f s) (case ys of [] \<Rightarrow> None | p # _ \<Rightarrow> Some p)) (\<lambda>(s, es).
      case es of
        None \<Rightarrow> Some (Inr (0, s))
      | Some q \<Rightarrow> Some (with_es s q (\<lambda>e.
          if es_lblk e < hi + 1
          then bind_res (ext4_es_end e) (\<lambda>es_end. Inr (0, upd_es q (es_cut_front hi (es_end - hi)) s))
          else Inr (0, s)))) = Some (Inr (0 :: int, s')) \<and> es_dels (upd_es p ?f s) i lo hi s' \<and>
      cache_es (es_inodes s' i) = cache_es (es_inodes (upd_es p ?f s) i)"
    by (rule es_del_tail [OF rb up(1) xy1 hi]) (use xs of1 of2 end1 b(2) lo in fastforce)+
  moreover have "es_dels s i lo hi s'" if "es_dels (upd_es p ?f s) i lo hi s'" for s'
    using that abs ext_del_del [of k hi "es_abs s i" lo] k e es_frame_trans [OF up(2)] by (simp add: es_dels_def)
  moreover have "0 < len1" using pos(1) by (simp add: word_less_nat_alt)
  moreover have "rb_next E (es_root s i) p = (case ys of [] \<Rightarrow> None | q # _ \<Rightarrow> Some q)" by (rule rb_next_in(1) [OF rb core xy])
  ultimately show ?thesis by (auto simp: es_remove_across_def Let_def)
qed

lemma es_remove_within_ok:
  assumes rb: "rb_ok E" and core: "es_core s" and xy: "es_ptrs s i = xs @ p # ys" and lh: "unat lo \<le> unat hi"
    and xs: "\<And>x. x \<in> set xs \<Longrightarrow> ext_end (es_of s x) \<le> unat lo" and lhi: "unat (es_lblk (es_of s p)) \<le> unat hi"
    and e: "Suc (unat hi) < ext_end (es_of s p)"
    and len1: "len1 = (if es_lblk (es_of s p) < lo then lo - es_lblk (es_of s p) else 0)"
    and len2: "unat len2 = ext_end (es_of s p) - 1 - unat hi"
  shows "\<exists>err s'. es_remove_within E s i hi len1 len2 p (es_of s p) = Inr (err, s') \<and>
    (err = 0 \<and> es_dels s i lo hi s' \<and> (cache_ok s' i \<or> cache_es (es_inodes s' i) = cache_es (es_inodes s i)) \<or>
     err = - ENOMEM \<and> s' = s \<and> \<not> (\<forall>s. es_alloc E s))"
proof -
  let ?e = "es_of s p" and ?A = "map (es_of s) xs" and ?B = "map (es_of s) ys"
  note b = es_before_split [OF core xy]
  have p: "es_heap s p = Some ?e" using tree_coreD(2) [OF core, of p i] xy by simp
  have e': "unat hi + 1 < ext_end ?e" using e by simp
  have l: "es_list s i = ?A @ [?e] @ ?B" by (simp add: es_list_def xy)
  have ok: "exts_ok (?A @ [?e] @ ?B)" using tree_coreD(3) [OF core, of i] by (simp add: l)
  have A: "ext_end e \<le> unat lo" if "e \<in> set ?A" for e using that xs by auto
  have B: "unat hi < unat (es_lblk e)" if "e \<in> set ?B" for e using that b(2) e by fastforce
  show ?thesis
  proof (cases "es_lblk ?e < lo")
    case False
    let ?e' = "es_cut_front hi len2 ?e"
    note cut = sub_ext_cut_front [OF b(3) lhi e' len2]
    have ok': "exts_ok (?A @ [?e'] @ ?B)" using ok cut lhi by (auto simp: exts_ok_simps ext_before_def sub_ext_def)
    have "ext_map (?A @ [?e'] @ ?B) = ext_del (ext_map (?A @ [?e] @ ?B)) lo hi"
    proof (rule ext_map_del [OF ok ok' _ A B])
      show "(\<exists>e' \<in> set [?e']. covers e' b) \<longleftrightarrow> (\<exists>e \<in> set [?e]. covers e b) \<and> \<not> (lo \<le> b \<and> b \<le> hi)" for b
        using False lhi e by (auto simp: covers_def covers_nat cut word_less_nat_alt)
    qed (use cut(1) in auto)
    moreover have "ext4_es_is_delayed ?e' = ext4_es_is_delayed ?e" by (rule es_flags_type(3)) (simp add: es_cut_front_def Let_def)
    moreover note up = upd_es_core [OF core xy, of "es_cut_front hi len2", OF ok' [simplified]]
    ultimately have "es_dels s i lo hi (upd_es p (es_cut_front hi len2) s)"
      by (simp add: es_dels_def es_abs_def upd_es_list [OF core xy] l)
    then show ?thesis using False by (simp add: es_remove_within_def len1)
  next
    case True
    let ?f = "\<lambda>es. es\<lparr>es_len := len1\<rparr>" and ?t = "es_split_tail hi len2 ?e"
    have u1: "unat len1 = unat lo - unat (es_lblk ?e)" using True by (simp add: len1 unat_sub word_le_nat_alt word_less_nat_alt)
    have pos: "0 < unat len1" "unat len1 \<le> unat (es_len ?e)" using True u1 lh e by (simp_all add: word_less_nat_alt ext_end_def)
    note sub = sub_ext_len [OF b(3) pos]
    have end1: "ext_end (?f ?e) = unat lo" using True u1 sub(2) by (simp add: word_less_nat_alt)
    note tail = sub_ext_split_tail [OF b(3) lhi e' len2]
    have tok: "ext_ok ?t" using tail(1) by (simp add: sub_ext_def)
    have ok1: "exts_ok ((?A @ [?f ?e]) @ ?B)" using ok sub end1 lh e by (auto simp: exts_ok_simps ext_before_def sub_ext_def)
    have bt: "a \<in> set (?A @ [?f ?e]) \<Longrightarrow> ext_before a ?t" "c \<in> set ?B \<Longrightarrow> ext_before ?t c" for a c
      using A [of a] end1 lh b(2) by (auto simp: ext_before_def tail)
    note ins = exts_insert [OF ok1 tok bt]
    have t: "ext4_es_is_delayed (?f ?e) = ext4_es_is_delayed ?e" by (rule es_flags_type(3)) simp
    note up = upd_es_core [OF core xy, of ?f, OF ok1 [simplified] t]
    let ?s = "upd_es p ?f s"
    have of1: "es_of ?s x = (if x = p then ?f ?e else es_of s x)" for x using p by (simp add: upd_es_of)
    have "es_apart ?s ?t (es_ptrs ?s i)"
      using bt unfolding es_apart_def by (auto simp: xy of1)
    from es_insert_extent_raw_ok [OF rb up(1) tok this] obtain err s2 where
      s2: "es_insert_extent_raw E ?s i ?t = Inr (err, s2)" "es_inserted E ?s i ?t err s2" by blast
    have del: "ext_map ((?A @ [?f ?e]) @ ?t # ?B) = ext_del (ext_map (?A @ [?e] @ ?B)) lo hi"
    proof -
      have "ext_map (?A @ [?f ?e, ?t] @ ?B) = ext_del (ext_map (?A @ [?e] @ ?B)) lo hi"
      proof (rule ext_map_del [OF ok _ _ A B])
        show "(\<exists>e' \<in> set [?f ?e, ?t]. covers e' b) \<longleftrightarrow> (\<exists>e \<in> set [?e]. covers e b) \<and> \<not> (lo \<le> b \<and> b \<le> hi)" for b
          using True lhi lh e end1 by (auto simp: covers_def covers_nat tail word_less_nat_alt)
      qed (use ins(1) sub(1) tail(1) in auto)
      then show ?thesis by simp
    qed
    have abs1: "es_abs ?s i = ext_map ((?A @ [?f ?e]) @ ?B)" by (simp add: es_abs_def upd_es_list [OF core xy])
    have dels: "es_dels s i lo hi s2" if "err = 0"
      using s2(2) that abs1 ins(2) del es_frame_trans [OF up(2)] by (simp add: es_inserted_def es_dels_def es_abs_def [of s] l)
    have restored: "upd_es p (\<lambda>es. es\<lparr>es_lblk := es_lblk ?e, es_len := es_len ?e\<rparr>) ?s = s" by (rule upd_es_id [OF p]) simp
    have "0 < len1" using pos(1) by (simp add: word_less_nat_alt)
    then show ?thesis using s2 dels restored by (auto simp: es_remove_within_def es_inserted_def)
  qed
qed

section \<open>The removal with its retries\<close>

definition es_removed :: "es_env \<Rightarrow> es_state \<Rightarrow> ext4_inop \<Rightarrow> ext4_lblk_t \<Rightarrow> ext4_lblk_t \<Rightarrow> int \<Rightarrow> es_state \<Rightarrow> bool" where
  "es_removed E s i lo hi err s' =
     (es_inv s' \<and> (\<forall>j. j \<noteq> i \<longrightarrow> forgets (es_abs s j) (es_abs s' j)) \<and>
      (\<exists>m. forgets (es_abs s i) m \<and> (err = 0 \<and> es_abs s' i = ext_del m lo hi \<or> err = - ENOMEM \<and> es_abs s' i = m)) \<and>
      ((\<forall>s. es_alloc E s) \<longrightarrow> err = 0 \<and> es_frame i s s' \<and> es_abs s' i = ext_del (es_abs s i) lo hi))"

lemma es_dels_removed:
  assumes "es_inv s" and "es_dels s i lo hi s'" and "cache_ok s' i"
  shows "es_removed E s i lo hi 0 s'"
  using assms es_inv_frame [OF assms(1)] es_frame_abs [of i s s']
  by (auto simp: es_removed_def es_dels_def intro: exI [of _ "es_abs s i"])

lemma es_removed_shrunk:
  assumes "es_shrunk s k s1" and "es_removed E s1 i lo hi err s'" and "\<not> (\<forall>s. es_alloc E s)"
  shows "es_removed E s i lo hi err s'"
  using assms forgets_trans unfolding es_removed_def es_shrunk_def by blast

lemma set_cache_inv: "es_inv s \<Longrightarrow> es_inv (set_cache_es i None s)"
  by (auto simp: es_inv_def cache_ok_def)

lemma es_removed_cache: "es_removed E (set_cache_es i None s) i lo hi err s' = es_removed E s i lo hi err s'"
  by (simp add: es_removed_def es_frame_def)

lemma es_remove_extent_raw_ok:
  assumes rb: "rb_ok E" and "es_inv s" and lh: "unat lo \<le> unat hi" and hi: "unat hi + 1 < 2 ^ 32"
  shows "\<exists>err s'. es_remove_extent_raw E s i lo hi = Some (Inr (err, s')) \<and> es_removed E s i lo hi err s'"
  using assms(2)
proof (induction "card (dom (es_heap s))" arbitrary: s rule: less_induct)
  case less
  have core: "es_core s" using less.prems by (simp add: es_inv_def)
  have search: "es_tree_search E s i lo = Inr (first_behind s i lo)" by (rule es_tree_search_ok [OF rb core])
  have untouched: "es_removed E s i lo hi 0 s" if "\<And>p. p \<in> set (es_ptrs s i) \<Longrightarrow> ext_end (es_of s p) \<le> unat lo \<or> unat hi < unat (es_lblk (es_of s p))"
  proof -
    have "ext_del (es_abs s i) lo hi = es_abs s i"
      unfolding es_abs_def by (rule ext_del_none) (use that in \<open>auto simp: es_list_def\<close>)
    then show ?thesis using less.prems by (intro es_dels_removed) (simp_all add: es_dels_def es_inv_def)
  qed
  show ?case
  proof (cases "first_behind s i lo")
    case None
    have "es_removed E s i lo hi 0 s" by (rule untouched) (use first_behind_None [OF None] in blast)
    then show ?thesis using None search by (subst es_remove_extent_raw.simps) auto
  next
    case (Some p)
    obtain xs ys where xy: "es_ptrs s i = xs @ p # ys" and xs: "\<And>x. x \<in> set xs \<Longrightarrow> ext_end (es_of s x) \<le> unat lo"
      and lo: "unat lo < ext_end (es_of s p)" using first_behind_split [OF Some] by blast
    let ?e = "es_of s p"
    note b = es_before_split [OF core xy]
    have p: "es_heap s p = Some ?e" using tree_coreD(2) [OF core, of p i] xy by simp
    show ?thesis
    proof (cases "es_lblk ?e > hi")
      case True
      have "ext_end (es_of s q) \<le> unat lo \<or> unat hi < unat (es_lblk (es_of s q))" if "q \<in> set (es_ptrs s i)" for q
        using that xs [of q] b(2) [of q] b(3) True by (auto simp: xy word_less_nat_alt ext_ok_def ext_end_def)
      then have "es_removed E s i lo hi 0 s" by (rule untouched)
      then show ?thesis using search Some p True by (subst es_remove_extent_raw.simps) auto
    next
      case False
      let ?s = "set_cache_es i None s" and ?last = "es_lblk ?e + es_len ?e - 1"
      let ?len1 = "if es_lblk ?e < lo then lo - es_lblk ?e else 0"
      have s0: "es_core ?s" "es_ptrs ?s i = xs @ p # ys" "es_of ?s = es_of s" "es_inv ?s"
        using core xy set_cache_inv [OF less.prems] by simp_all
      have lhi: "unat (es_lblk ?e) \<le> unat hi" using False by (simp add: word_less_nat_alt)
      have cache: "cache_es (es_inodes ?s i) = None" by simp
      show ?thesis
      proof (cases "Suc (unat hi) < ext_end ?e")
        case True
        then have gt: "?last > hi" using b(3) by (simp add: word_less_nat_alt unat_es_last)
        have len2: "unat (?last - hi) = ext_end ?e - 1 - unat hi" by (rule unat_es_last_diff [OF b(3) True])
        obtain err s1 where w: "es_remove_within E ?s i hi ?len1 (?last - hi) p ?e = Inr (err, s1)"
          "err = 0 \<and> es_dels ?s i lo hi s1 \<and> cache_ok s1 i \<or> err = - ENOMEM \<and> s1 = ?s \<and> \<not> (\<forall>s. es_alloc E s)"
          using es_remove_within_ok [OF rb s0(1,2) lh, unfolded s0(3), OF xs lhi True refl len2] cache
          by (auto simp: cache_ok_def)
        have pos: "0 < ?last - hi" using gt by (simp add: word_gt_0)
        show ?thesis
        proof (cases "err = 0")
          case True
          then have "es_removed E s i lo hi 0 s1"
            using w(2) es_dels_removed [OF s0(4), of i lo hi s1 E] es_removed_cache [of E i s] by auto
          then show ?thesis using True search Some p False w(1) gt pos
            by (subst es_remove_extent_raw.simps) (simp add: es_end_ok [OF b(3)] Let_def)
        next
          case nomem: False
          then have s1: "err = - ENOMEM" "s1 = ?s" "\<not> (\<forall>s. es_alloc E s)" using w(2) by auto
          obtain k s2 where sh: "es_shrink E ?s 128 (Some i) = Inr (k, s2)" "es_shrunk ?s k s2"
            using es_shrink_ok [OF rb s0(4)] by blast
          have step: "es_remove_extent_raw E s i lo hi = (if k \<noteq> 0 then es_remove_extent_raw E s2 i lo hi else Some (Inr (- ENOMEM, s2)))"
            using s1 search Some p False w(1) gt pos sh(1)
            by (subst es_remove_extent_raw.simps) (simp add: es_end_ok [OF b(3)] Let_def)
          have inv2: "es_inv s2" and c: "card (dom (es_heap s)) = card (dom (es_heap s2)) + k"
            using sh(2) by (simp_all add: es_shrunk_def)
          show ?thesis
          proof (cases "k = 0")
            case True
            then have "es_removed E ?s i lo hi (- ENOMEM) s2" using sh(2) s1(3) by (auto simp: es_removed_def es_shrunk_def)
            then show ?thesis using step True es_removed_cache by auto
          next
            case False
            then have "card (dom (es_heap s2)) < card (dom (es_heap s))" using c by simp
            from less.hyps [OF this inv2] obtain err' s' where
              "es_remove_extent_raw E s2 i lo hi = Some (Inr (err', s'))" "es_removed E s2 i lo hi err' s'" by blast
            then show ?thesis
              using step False es_removed_shrunk [OF sh(2) _ s1(3), of i lo hi err' s'] es_removed_cache [of E i s] by auto
          qed
        qed
      next
        case across: False
        then have le: "ext_end ?e \<le> Suc (unat hi)" by simp
        then have "\<not> ?last > hi" using b(3) by (simp add: word_less_nat_alt unat_es_last)
        moreover obtain s1 where s1: "es_remove_across E ?s i hi ?len1 p = Some (Inr (0, s1))" "es_dels ?s i lo hi s1"
          "cache_es (es_inodes s1 i) = None"
          using es_remove_across_ok [OF rb s0(1,2) hi, unfolded s0(3), OF xs lo le refl] cache by auto
        moreover have "es_removed E s i lo hi 0 s1"
          using es_dels_removed [OF s0(4) s1(2)] s1(3) es_removed_cache by (simp add: cache_ok_def)
        ultimately show ?thesis using search Some p False
          by (subst es_remove_extent_raw.simps) (simp add: es_end_ok [OF b(3)] Let_def)
      qed
    qed
  qed
qed

end
