(* ===== verification/Ext4_EsMap.thy ===== *)
theory Ext4_EsMap
  imports Ext4_EsRemove
begin

text \<open>
  The contract of the extent status tree: looking up, inserting and removing extents implement a map
  from blocks to their state, the cached node is never stale, and shrinking under memory pressure
  loses no delayed extent.
\<close>

section \<open>Inserting with its retries\<close>

definition new_extent :: "ext4_lblk_t \<Rightarrow> ext4_lblk_t \<Rightarrow> ext4_fsblk_t \<Rightarrow> u32 \<Rightarrow> extent_status" where
  "new_extent lblk len pblk status =
     ext4_es_store_pblock_status pblk status \<lparr>es_lblk = lblk, es_len = len, es_pblk = 0\<rparr>"

lemma status_and_15: "(w AND 15) AND EXTENT_STATUS_WRITTEN = w AND EXTENT_STATUS_WRITTEN"
  "(w AND 15) AND EXTENT_STATUS_UNWRITTEN = w AND EXTENT_STATUS_UNWRITTEN"
  "(w AND 15) AND EXTENT_STATUS_DELAYED = w AND EXTENT_STATUS_DELAYED"
  "(w AND 15) AND EXTENT_STATUS_HOLE = w AND EXTENT_STATUS_HOLE"
  by (simp_all add: and.assoc)

lemma new_extent_ok:
  assumes "len \<noteq> 0" and "unat lblk + unat len < 2 ^ 32" and "status_ok status"
  shows "ext_ok (new_extent lblk len pblk status)" "ext_end (new_extent lblk len pblk status) = unat lblk + unat len"
    "es_lblk (new_extent lblk len pblk status) = lblk"
    "\<not> lblk + len - 1 < lblk" "unat (lblk + len - 1) = unat lblk + unat len - 1"
    "covers (new_extent lblk len pblk status) b \<longleftrightarrow> lblk \<le> b \<and> b \<le> lblk + len - 1"
proof -
  let ?e = "new_extent lblk len pblk status"
  have f: "es_lblk ?e = lblk" "es_len ?e = len" by (simp_all add: new_extent_def)
  have pos: "0 < unat len" using assms(1) by (simp add: unat_gt_0)
  show "ext_end ?e = unat lblk + unat len" "es_lblk ?e = lblk" by (simp_all add: ext_end_def f)
  then show ok: "ext_ok ?e"
    using assms pos by (simp add: ext_ok_def f new_extent_def es_type_stored status_ok_def status_and_15)
  show l: "unat (lblk + len - 1) = unat lblk + unat len - 1" using unat_es_last [OF ok] by (simp add: f ext_end_def)
  then show "\<not> lblk + len - 1 < lblk" using pos by (simp add: word_less_nat_alt)
  show "covers ?e b \<longleftrightarrow> lblk \<le> b \<and> b \<le> lblk + len - 1"
    using pos by (auto simp: covers_def ext_end_def f word_le_nat_alt l)
qed

lemma es_apart_abs:
  assumes "es_core s" and e: "ext_ok e" and none: "\<And>b. covers e b \<Longrightarrow> es_abs s i b = None"
  shows "es_apart s e (es_ptrs s i)"
  unfolding es_apart_def
proof
  fix p assume p: "p \<in> set (es_ptrs s i)"
  let ?x = "es_of s p"
  have x: "ext_ok ?x" by (rule es_of_ok [OF assms(1) p])
  show "ext_before ?x e \<or> ext_before e ?x"
  proof (rule ccontr)
    assume n: "\<not> (ext_before ?x e \<or> ext_before e ?x)"
    define b where "b = (if es_lblk e \<le> es_lblk ?x then es_lblk ?x else es_lblk e)"
    have "covers e b" "covers ?x b"
      using n x e by (auto simp: b_def covers_def ext_before_def word_le_nat_alt ext_ok_def ext_end_def)
    moreover have "?x \<in> set (es_list s i)" using p by (simp add: es_list_def)
    ultimately show False using none ext_map_None [of "es_list s i" b] by (auto simp: es_abs_def)
  qed
qed

text \<open>
  The effect of an insertion on the map \<open>m\<close> of the inode: the extent is in it, or there was no memory
  for the extent and its blocks are not.
\<close>

definition es_put_result :: "es_env \<Rightarrow> es_state \<Rightarrow> ext4_inop \<Rightarrow> extent_status \<Rightarrow> int \<Rightarrow> es_state \<Rightarrow> bool" where
  "es_put_result E s i e err s' =
     (es_inv s' \<and> (\<forall>j. j \<noteq> i \<longrightarrow> forgets (es_abs s j) (es_abs s' j)) \<and>
      (\<exists>m. forgets (es_abs s i) m \<and>
         (err = 0 \<and> es_abs s' i = ext_put m e \<or>
          err = (if ext4_es_is_delayed e then - ENOMEM else 0) \<and> es_abs s' i = m)) \<and>
      ((\<forall>s. es_alloc E s) \<longrightarrow> err = 0 \<and> es_frame i s s' \<and> es_abs s' i = ext_put (es_abs s i) e))"

lemma es_insert_retry_ok:
  assumes rb: "rb_ok E" and "es_inv s" and e: "ext_ok e" and "\<And>b. covers e b \<Longrightarrow> es_abs s i b = None"
  shows "\<exists>err s'. es_insert_retry E i e s = Some (Inr (err, s')) \<and> es_put_result E s i e err s'"
  using assms(2,4)
proof (induction "card (dom (es_heap s))" arbitrary: s rule: less_induct)
  case less
  have core: "es_core s" using less.prems(1) by (simp add: es_inv_def)
  obtain err s1 where ins: "es_insert_extent_raw E s i e = Inr (err, s1)" "es_inserted E s i e err s1"
    using es_insert_extent_raw_ok [OF rb core e es_apart_abs [OF core e less.prems(2)]] by blast
  show ?case
  proof (cases "err = 0")
    case True
    then have "es_inv s1" using ins(2) es_inv_frame [OF less.prems(1)] by (auto simp: es_inserted_def)
    then have "es_put_result E s i e 0 s1" using ins(2) True es_frame_abs [of i s s1]
      by (auto simp: es_inserted_def es_put_result_def intro: exI [of _ "es_abs s i"])
    then show ?thesis using ins(1) True by (subst es_insert_retry.simps) auto
  next
    case False
    then have nomem: "err = - ENOMEM" "s1 = s" "\<not> (\<forall>s. es_alloc E s)" using ins(2) by (auto simp: es_inserted_def)
    obtain k s2 where sh: "es_shrink E s 128 (Some i) = Inr (k, s2)" "es_shrunk s k s2"
      using es_shrink_ok [OF rb less.prems(1)] by blast
    have inv2: "es_inv s2" and c: "card (dom (es_heap s)) = card (dom (es_heap s2)) + k"
      and f: "\<And>j. forgets (es_abs s j) (es_abs s2 j)" using sh(2) by (simp_all add: es_shrunk_def)
    have step: "es_insert_retry E i e s = (if k \<noteq> 0 then es_insert_retry E i e s2
        else Some (Inr (if ext4_es_is_delayed e then - ENOMEM else 0, s2)))"
      using ins(1) nomem sh(1) by (subst es_insert_retry.simps) simp
    show ?thesis
    proof (cases "k = 0")
      case True
      have "es_put_result E s i e (if ext4_es_is_delayed e then - ENOMEM else 0) s2"
        using inv2 f nomem(3) by (auto simp: es_put_result_def)
      then show ?thesis using step True by auto
    next
      case False
      have "card (dom (es_heap s2)) < card (dom (es_heap s))" using c False by simp
      moreover have "es_abs s2 i b = None" if "covers e b" for b
        using f [of i] less.prems(2) [OF that] unfolding forgets_def by metis
      ultimately obtain err' s' where r: "es_insert_retry E i e s2 = Some (Inr (err', s'))" "es_put_result E s2 i e err' s'"
        using less.hyps [OF _ inv2] by blast
      have "es_put_result E s i e err' s'"
        using r(2) f nomem(3) forgets_trans unfolding es_put_result_def by blast
      then show ?thesis using step False r(1) by auto
    qed
  qed
qed

section \<open>Looking up\<close>

lemma es_cached_ok:
  assumes "es_inv s"
  shows "\<exists>c. es_cached s i lblk = Inr c \<and> (\<forall>p. c = Some p \<longrightarrow> p \<in> set (es_ptrs s i) \<and> covers (es_of s p) lblk)"
proof (cases "cache_es (es_inodes s i)")
  case None
  then show ?thesis by (simp add: es_cached_def)
next
  case (Some p)
  have core: "es_core s" and p: "p \<in> set (es_ptrs s i)" using assms Some by (simp_all add: es_inv_def cache_ok_def)
  show ?thesis using Some p in_range_covers [OF es_of_ok [OF core p], of lblk] tree_coreD(2) [OF core p] by (simp add: es_cached_def)
qed

lemma es_search_found:
  assumes core: "es_core s"
  shows "\<exists>found q. es_search_loop s lblk (es_root s i) None = Inr (found, q) \<and>
    (if found then \<exists>p. q = Some p \<and> p \<in> set (es_ptrs s i) \<and> covers (es_of s p) lblk
     else \<forall>p \<in> set (es_ptrs s i). \<not> covers (es_of s p) lblk)"
  using es_search_loop_ok [of "es_root s i" s lblk None] tree_coreD(2) [OF core, of _ i] tree_coreD(3) [OF core, of i]
  by (fastforce simp: es_ptrs_def es_list_def split: if_splits)

lemma es_stats_of: "es_of (s\<lparr>es_stats_cache_misses := m\<rparr>) = es_of s" "es_of (s\<lparr>es_stats_cache_hits := m\<rparr>) = es_of s"
  by (simp_all add: es_of_def fun_eq_iff)

lemma es_stats_same:
  "es_inv (s\<lparr>es_stats_cache_misses := m\<rparr>) = es_inv s" "es_abs (s\<lparr>es_stats_cache_misses := m\<rparr>) = es_abs s"
  "es_inv (s\<lparr>es_stats_cache_hits := m\<rparr>) = es_inv s" "es_abs (s\<lparr>es_stats_cache_hits := m\<rparr>) = es_abs s"
  by (simp_all add: es_inv_def es_core_def tree_core_def cache_ok_def es_abs_def es_list_def es_ptrs_def es_stats_of fun_eq_iff)

text \<open>The node that a lookup has found, marked as referenced.\<close>

lemma es_touch_ok:
  assumes inv: "es_inv s" and p: "p \<in> set (es_ptrs s i)" and f: "f = ext4_es_set_referenced \<or> f = ext4_es_clear_referenced"
  shows "es_inv (upd_es p f s)" "es_abs (upd_es p f s) j = es_abs s j"
proof -
  have core: "es_core s" using inv by (simp add: es_inv_def)
  have u: "es_core (upd_es p f s)" "es_frame i s (upd_es p f s)" "es_abs (upd_es p f s) i = es_abs s i"
    using upd_es_same [OF core p, of f] f by auto
  have "cache_ok (upd_es p f s) i" using inv by (simp add: es_inv_def cache_ok_def)
  then show "es_inv (upd_es p f s)" by (rule es_inv_frame [OF inv u(2,1)])
  show "es_abs (upd_es p f s) j = es_abs s j" using u(3) es_frame_abs [OF u(2)] by (cases "j = i") auto
qed

lemma es_lookup_ok:
  assumes inv: "es_inv s"
  shows "\<exists>found e s'. ext4_es_lookup_extent s i lblk = Inr (found, e, s') \<and> es_inv s' \<and> (\<forall>j. es_abs s' j = es_abs s j) \<and>
    (if found then e \<in> set (es_list s i) \<and> covers e lblk \<and> es_abs s i lblk = Some (es_val e lblk)
     else e = es_zero \<and> es_abs s i lblk = None)"
proof -
  have core: "es_core s" using inv by (simp add: es_inv_def)
  have hit: "es_of s p \<in> set (es_list s i)" "es_abs s i lblk = Some (es_val (es_of s p) lblk)" "es_heap s p = Some (es_of s p)"
    if "p \<in> set (es_ptrs s i)" "covers (es_of s p) lblk" for p
    using that ext_map_iff [OF tree_coreD(3) [OF core], of i lblk] tree_coreD(2) [OF core that(1)]
    by (auto simp: es_abs_def es_list_def)
  have miss: "es_abs s i lblk = None" if "\<forall>p \<in> set (es_ptrs s i). \<not> covers (es_of s p) lblk"
    using that by (auto simp: es_abs_def ext_map_None es_list_def)
  obtain c where c: "es_cached s i lblk = Inr c" "\<forall>p. c = Some p \<longrightarrow> p \<in> set (es_ptrs s i) \<and> covers (es_of s p) lblk"
    using es_cached_ok [OF inv] by blast
  obtain found q where q: "(case c of Some p \<Rightarrow> Inr (True, Some p) | None \<Rightarrow> es_search_loop s lblk (es_root s i) None) = Inr (found, q)"
    "if found then \<exists>p. q = Some p \<and> p \<in> set (es_ptrs s i) \<and> covers (es_of s p) lblk
     else \<forall>p \<in> set (es_ptrs s i). \<not> covers (es_of s p) lblk"
    using es_search_found [OF core, of lblk i] c(2) by (cases c) fastforce+
  show ?thesis
  proof (cases found)
    case False
    then show ?thesis using q miss inv by (auto simp: ext4_es_lookup_extent_def c(1) es_stats_same)
  next
    case True
    then obtain p where p: "q = Some p" "p \<in> set (es_ptrs s i)" "covers (es_of s p) lblk" using q(2) by auto
    show ?thesis
      using True q(1) p hit [OF p(2,3)] es_touch_ok [OF inv p(2)] inv
      by (auto simp: ext4_es_lookup_extent_def c(1) es_stats_same Let_def)
  qed
qed

section \<open>The contract\<close>

lemma ext_put_del:
  assumes "\<And>b. covers e b \<longleftrightarrow> lo \<le> b \<and> b \<le> hi"
  shows "ext_put (ext_del m lo hi) e = ext_put m e" "covers e b \<Longrightarrow> ext_del m lo hi b = None"
  using assms by (auto simp: ext_put_def ext_del_def fun_eq_iff)

lemma forgets_del:
  assumes "forgets (ext_del m lo hi) m'"
  shows "\<exists>m1. forgets m m1 \<and> m' = ext_del m1 lo hi"
proof -
  let ?m1 = "\<lambda>b. if lo \<le> b \<and> b \<le> hi then m b else m' b"
  have "forgets m ?m1" using assms unfolding forgets_def ext_del_def by metis
  moreover have "m' = ext_del ?m1 lo hi"
    using assms unfolding forgets_def ext_del_def by (intro ext) metis
  ultimately show ?thesis by blast
qed

text \<open>What an insertion may leave, with and without memory.\<close>

lemma es_insert_extent_ok:
  fixes pblk :: ext4_fsblk_t
  assumes rb: "rb_ok E" and inv: "es_inv s" and len: "len \<noteq> 0" "unat lblk + unat len < 2 ^ 32" and st: "status_ok status"
  defines "e \<equiv> new_extent lblk len pblk status"
  shows "\<exists>err s'. ext4_es_insert_extent E s i lblk len pblk status = Some (Inr (err, s')) \<and> es_inv s' \<and>
    (\<forall>j. j \<noteq> i \<longrightarrow> forgets (es_abs s j) (es_abs s' j)) \<and>
    (\<exists>m. forgets (es_abs s i) m \<and>
      (err = 0 \<and> es_abs s' i = ext_put m e \<or> err = 0 \<and> \<not> ext4_es_is_delayed e \<and> es_abs s' i = ext_del m lblk (lblk + len - 1) \<or>
       err = - ENOMEM \<and> (es_abs s' i = m \<or> es_abs s' i = ext_del m lblk (lblk + len - 1)))) \<and>
    ((\<forall>s. es_alloc E s) \<longrightarrow> err = 0 \<and> (\<forall>j. j \<noteq> i \<longrightarrow> es_abs s' j = es_abs s j) \<and> es_abs s' i = ext_put (es_abs s i) e)"
proof -
  let ?hi = "lblk + len - 1"
  note n = new_extent_ok [OF len st]
  have e: "ext_ok e" "\<And>b. covers e b \<longleftrightarrow> lblk \<le> b \<and> b \<le> ?hi" unfolding e_def by (rule n)+
  note pd = ext_put_del [OF e(2)]
  have pos: "0 < unat len" using len(1) by (simp add: unat_gt_0)
  obtain err s1 where rm: "es_remove_extent_raw E s i lblk ?hi = Some (Inr (err, s1))" "es_removed E s i lblk ?hi err s1"
    using es_remove_extent_raw_ok [OF rb inv, of lblk ?hi i] len(2) pos unfolding n(5) by fastforce
  have unf: "ext4_es_insert_extent E s i lblk len pblk status = (if err \<noteq> 0 then Some (Inr (err, s1)) else es_insert_retry E i e s1)"
    using len(1) n(4) rm(1) by (simp add: ext4_es_insert_extent_def e_def new_extent_def Let_def)
  show ?thesis
  proof (cases "err = 0")
    case False
    then have "ext4_es_insert_extent E s i lblk len pblk status = Some (Inr (err, s1))" using unf by simp
    then show ?thesis using rm(2) False unfolding es_removed_def by auto
  next
    case True
    obtain m where m: "forgets (es_abs s i) m" "es_abs s1 i = ext_del m lblk ?hi" using rm(2) True by (auto simp: es_removed_def)
    have inv1: "es_inv s1" and oth: "\<And>j. j \<noteq> i \<Longrightarrow> forgets (es_abs s j) (es_abs s1 j)" using rm(2) by (simp_all add: es_removed_def)
    obtain err2 s2 where ins: "es_insert_retry E i e s1 = Some (Inr (err2, s2))" "es_put_result E s1 i e err2 s2"
      using es_insert_retry_ok [OF rb inv1 e(1), of i] pd(2) m(2) by auto
    obtain m' where m': "forgets (es_abs s1 i) m'"
      "err2 = 0 \<and> es_abs s2 i = ext_put m' e \<or> err2 = (if ext4_es_is_delayed e then - ENOMEM else 0) \<and> es_abs s2 i = m'"
      using ins(2) unfolding es_put_result_def by blast
    obtain m1 where m1: "forgets m m1" "m' = ext_del m1 lblk ?hi" using forgets_del m'(1) unfolding m(2) by blast
    have "forgets (es_abs s i) m1" by (rule forgets_trans [OF m(1) m1(1)])
    moreover have "err2 = 0 \<and> es_abs s2 i = ext_put m1 e \<or>
        err2 = 0 \<and> \<not> ext4_es_is_delayed e \<and> es_abs s2 i = ext_del m1 lblk ?hi \<or>
        err2 = - ENOMEM \<and> (es_abs s2 i = m1 \<or> es_abs s2 i = ext_del m1 lblk ?hi)"
      using m'(2) pd(1) by (auto simp: m1(2) split: if_splits)
    moreover have "es_inv s2" "\<And>j. j \<noteq> i \<Longrightarrow> forgets (es_abs s j) (es_abs s2 j)"
      using ins(2) oth forgets_trans unfolding es_put_result_def by blast+
    moreover have "err2 = 0 \<and> (\<forall>j. j \<noteq> i \<longrightarrow> es_abs s2 j = es_abs s j) \<and> es_abs s2 i = ext_put (es_abs s i) e" if "\<forall>s. es_alloc E s"
    proof -
      have f: "es_frame i s s1" "es_abs s1 i = ext_del (es_abs s i) lblk ?hi" "err2 = 0" "es_frame i s1 s2" "es_abs s2 i = ext_put (es_abs s1 i) e"
        using that rm(2) ins(2) by (simp_all add: es_removed_def es_put_result_def)
      then show ?thesis using es_frame_abs [OF es_frame_trans [OF f(1,4)]] pd(1) by simp
    qed
    ultimately show ?thesis using unf True ins(1) by (intro exI [of _ err2] exI [of _ s2]) auto
  qed
qed

section \<open>An instance of the library\<close>

text \<open>
  A state with one inode that has a delayed extent of ten blocks from block 5 on.
\<close>

definition es_one :: es_state where
  "es_one = \<lparr>es_inodes = (\<lambda>i. \<lparr>i_es_root = (if i = 0 then \<langle>\<langle>\<rangle>, 0, \<langle>\<rangle>\<rangle> else \<langle>\<rangle>), cache_es = None,
       i_es_all_nr = (if i = 0 then 1 else 0), i_es_shk_nr = 0, i_es_shrink_lblk = 0, i_es_precached = False\<rparr>),
     es_heap = [0 \<mapsto> new_extent 5 10 0 EXTENT_STATUS_DELAYED], es_next = 1, s_es_list = [], s_es_nr_inode = 0,
     es_stats_all_cnt = 1, es_stats_shk_cnt = 0, es_stats_cache_hits = 0, es_stats_cache_misses = 0\<rparr>"

lemma take_bit_u64: "take_bit 59 100 = (100 :: u64)" "take_bit 59 101 = (101 :: u64)" "take_bit 59 102 = (102 :: u64)"
  by code_simp+

lemma es_one_list: "es_list es_one i = (if i = 0 then [new_extent 5 10 0 EXTENT_STATUS_DELAYED] else [])"
  by (simp add: es_list_def es_one_def es_ptrs_def es_of_def)

lemma es_one_ext: "ext_ok (new_extent 5 10 pblk EXTENT_STATUS_DELAYED)"
  "ext4_es_is_delayed (new_extent 5 10 pblk EXTENT_STATUS_DELAYED)"
  using new_extent_ok(1) [of 10 5 EXTENT_STATUS_DELAYED]
  by (simp_all add: status_ok_def ext4_es_is_delayed_def new_extent_def es_type_stored)

lemma es_one_inv [simp]: "es_inv es_one"
proof -
  have p: "es_ptrs es_one i = (if i = 0 then [0] else [])" for i by (simp add: es_ptrs_def es_one_def)
  have f: "es_heap es_one = [0 \<mapsto> new_extent 5 10 0 EXTENT_STATUS_DELAYED]" "s_es_list es_one = []" "s_es_nr_inode es_one = 0"
    "es_next es_one = 1" "i_es_all_nr (es_inodes es_one i) = (if i = 0 then 1 else 0)" "i_es_shk_nr (es_inodes es_one i) = 0"
    "cache_es (es_inodes es_one i) = None" for i by (simp_all add: es_one_def)
  show ?thesis
    by (auto simp: es_inv_def es_core_def tree_core_def cache_ok_def p f es_one_list es_one_ext exts_ok_def)
qed

lemma es_one_abs: "es_abs es_one i b = (if i = 0 \<and> 5 \<le> b \<and> b \<le> 14 then Some (EXTENT_STATUS_DELAYED, None) else None)"
proof -
  have "covers (new_extent 5 10 0 EXTENT_STATUS_DELAYED) b \<longleftrightarrow> 5 \<le> b \<and> b \<le> 14"
    using new_extent_ok(6) [of 10 5 EXTENT_STATUS_DELAYED 0 b] by (simp add: status_ok_def)
  moreover have "es_val (new_extent 5 10 0 EXTENT_STATUS_DELAYED) b = (EXTENT_STATUS_DELAYED, None)"
    by (simp add: es_val_def new_extent_def es_type_stored ext4_es_is_written_def ext4_es_is_unwritten_def)
  ultimately show ?thesis by (simp add: es_abs_def es_one_list ext_map_def)
qed

section \<open>The theorems\<close>

lemma es_insert_memory:
  assumes "rb_ok E" and "es_inv s" and "len \<noteq> 0" and "unat lblk + unat len < 2 ^ 32" and "status_ok status"
    and m: "\<forall>s. es_alloc E s"
  shows "\<exists>s'. ext4_es_insert_extent E s i lblk len pblk status = Some (Inr (0, s')) \<and> es_inv s' \<and>
    es_abs s' i = ext_put (es_abs s i) (new_extent lblk len pblk status) \<and> (\<forall>j. j \<noteq> i \<longrightarrow> es_abs s' j = es_abs s j)"
proof -
  obtain err s' where "ext4_es_insert_extent E s i lblk len pblk status = Some (Inr (err, s'))" "es_inv s'"
    and r: "(\<forall>s. es_alloc E s) \<longrightarrow> err = 0 \<and> (\<forall>j. j \<noteq> i \<longrightarrow> es_abs s' j = es_abs s j) \<and>
      es_abs s' i = ext_put (es_abs s i) (new_extent lblk len pblk status)"
    using es_insert_extent_ok [OF assms(1-5), of i pblk] by (elim exE conjE) (rule that)
  then show ?thesis using mp [OF r m] by simp
qed

text \<open>C15: inserting an extent is the update of a map. With memory for the nodes,
  \<open>ext4_es_insert_extent\<close> returns 0 and keeps the invariant of the trees, their counters and the
  shrinker's list; afterwards the blocks of the extent have exactly its state and physical blocks,
  whatever extents it overlapped, split or was merged with, and no other block and no other inode
  has changed.\<close>

theorem es_insert_refines:
  assumes "rb_ok E" and "es_inv s" and "len \<noteq> 0" and "unat lblk + unat len < 2 ^ 32" and "status_ok status"
    and "\<forall>s. es_alloc E s"
  shows "\<exists>s'. ext4_es_insert_extent E s i lblk len pblk status = Some (Inr (0, s')) \<and> es_inv s' \<and>
    es_abs s' i = ext_put (es_abs s i) (ext4_es_store_pblock_status pblk status \<lparr>es_lblk = lblk, es_len = len, es_pblk = 0\<rparr>) \<and>
    (\<forall>j. j \<noteq> i \<longrightarrow> es_abs s' j = es_abs s j)"
  using es_insert_memory [OF assms, of i pblk] unfolding new_extent_def .

theorem es_insert_refines_witness:
  "\<exists>s'. ext4_es_insert_extent (es_lib True) es_one 0 8 3 100 EXTENT_STATUS_WRITTEN = Some (Inr (0, s')) \<and> es_inv s' \<and>
    es_abs s' 0 7 = Some (EXTENT_STATUS_DELAYED, None) \<and> es_abs s' 0 9 = Some (EXTENT_STATUS_WRITTEN, Some 101) \<and>
    es_abs s' 0 11 = Some (EXTENT_STATUS_DELAYED, None)"
proof -
  obtain s' where s': "ext4_es_insert_extent (es_lib True) es_one 0 8 3 100 EXTENT_STATUS_WRITTEN = Some (Inr (0, s'))" "es_inv s'"
    "es_abs s' 0 = ext_put (es_abs es_one 0)
      (ext4_es_store_pblock_status 100 EXTENT_STATUS_WRITTEN \<lparr>es_lblk = 8, es_len = 3, es_pblk = 0\<rparr>)"
    using es_insert_refines [of "es_lib True" es_one 3 8 EXTENT_STATUS_WRITTEN 0 100] by (auto simp: status_ok_def es_lib_alloc)
  have "es_abs s' 0 7 = Some (EXTENT_STATUS_DELAYED, None)" "es_abs s' 0 9 = Some (EXTENT_STATUS_WRITTEN, Some 101)"
    "es_abs s' 0 11 = Some (EXTENT_STATUS_DELAYED, None)"
    by (simp_all add: s'(3) ext_put_def covers_def ext_end_def es_one_abs es_val_def es_type_stored ext4_es_is_written_def take_bit_u64)
  then show ?thesis using s'(1,2) by blast
qed

text \<open>C18: an insertion without memory returns and tells nothing wrong. However allocations fail, the
  loop of retries ends; a block of any other inode, and a block of the inode outside of the extent, has
  kept its state or was forgotten, which happens to no delayed block; a block of the extent has the
  new state, or is not cached, or the caller is told \<open>-ENOMEM\<close>.\<close>

theorem es_insert_returns:
  assumes "rb_ok E" and "es_inv s" and "len \<noteq> 0" and "unat lblk + unat len < 2 ^ 32" and "status_ok status"
  shows "\<exists>err s'. ext4_es_insert_extent E s i lblk len pblk status = Some (Inr (err, s')) \<and> es_inv s' \<and>
    (err = 0 \<or> err = - ENOMEM) \<and> (\<forall>j. j \<noteq> i \<longrightarrow> forgets (es_abs s j) (es_abs s' j)) \<and>
    (\<forall>b. \<not> (lblk \<le> b \<and> b \<le> lblk + len - 1) \<longrightarrow>
       es_abs s' i b = es_abs s i b \<or>
       es_abs s' i b = None \<and> (\<forall>v. es_abs s i b = Some v \<longrightarrow> fst v AND EXTENT_STATUS_DELAYED = 0)) \<and>
    (\<forall>b. lblk \<le> b \<and> b \<le> lblk + len - 1 \<longrightarrow>
       es_abs s' i b = None \<and> (err = 0 \<longrightarrow> status AND EXTENT_STATUS_DELAYED = 0) \<or>
       es_abs s' i b = Some (es_val (ext4_es_store_pblock_status pblk status \<lparr>es_lblk = lblk, es_len = len, es_pblk = 0\<rparr>) b) \<or>
       err = - ENOMEM \<and> es_abs s' i b = es_abs s i b)"
proof -
  note n = new_extent_ok [OF assms(3-5)]
  have d: "ext4_es_is_delayed (new_extent lblk len pblk status) \<longleftrightarrow> status AND EXTENT_STATUS_DELAYED \<noteq> 0"
    by (simp add: ext4_es_is_delayed_def new_extent_def es_type_stored status_and_15)
  obtain err s' m where r: "ext4_es_insert_extent E s i lblk len pblk status = Some (Inr (err, s'))" "es_inv s'"
    "\<forall>j. j \<noteq> i \<longrightarrow> forgets (es_abs s j) (es_abs s' j)" and m: "forgets (es_abs s i) m"
    "err = 0 \<and> es_abs s' i = ext_put m (new_extent lblk len pblk status) \<or>
     err = 0 \<and> status AND EXTENT_STATUS_DELAYED = 0 \<and> es_abs s' i = ext_del m lblk (lblk + len - 1) \<or>
     err = - ENOMEM \<and> (es_abs s' i = m \<or> es_abs s' i = ext_del m lblk (lblk + len - 1))"
    using es_insert_extent_ok [OF assms, of i pblk] unfolding d not_not by (elim exE conjE) (rule that)
  have f: "m b = es_abs s i b \<or> m b = None \<and> (\<forall>v. es_abs s i b = Some v \<longrightarrow> fst v AND EXTENT_STATUS_DELAYED = 0)" for b
    using m(1) by (simp add: forgets_def)
  have out: "es_abs s' i b = m b" if "\<not> (lblk \<le> b \<and> b \<le> lblk + len - 1)" for b
    using m(2) that by (auto simp: ext_put_def ext_del_def n(6))
  have inside: "es_abs s' i b = None \<and> (err = 0 \<longrightarrow> status AND EXTENT_STATUS_DELAYED = 0) \<or>
      es_abs s' i b = Some (es_val (new_extent lblk len pblk status) b) \<or> err = - ENOMEM \<and> es_abs s' i b = es_abs s i b"
    if "lblk \<le> b \<and> b \<le> lblk + len - 1" for b
    using m(2) that f [of b] by (auto simp: ext_put_def ext_del_def n(6))
  have "err = 0 \<or> err = - ENOMEM" using m(2) by blast
  then show ?thesis using r f out inside unfolding new_extent_def by (intro exI [of _ err] exI [of _ s']) simp
qed

theorem es_insert_returns_witness:
  "\<exists>err s'. ext4_es_insert_extent (es_lib False) es_one 0 8 3 100 EXTENT_STATUS_WRITTEN = Some (Inr (err, s')) \<and> es_inv s' \<and>
    (err = 0 \<or> err = - ENOMEM) \<and> es_abs s' 0 7 = Some (EXTENT_STATUS_DELAYED, None)"
proof -
  have hyps: "(3 :: ext4_lblk_t) \<noteq> 0" "unat (8 :: ext4_lblk_t) + unat (3 :: ext4_lblk_t) < 2 ^ 32" "status_ok EXTENT_STATUS_WRITTEN"
    by (simp_all add: status_ok_def)
  obtain err s' where s': "ext4_es_insert_extent (es_lib False) es_one 0 8 3 100 EXTENT_STATUS_WRITTEN = Some (Inr (err, s'))"
    "es_inv s'" "err = 0 \<or> err = - ENOMEM"
    and "\<forall>b. \<not> (8 \<le> b \<and> b \<le> 8 + 3 - 1) \<longrightarrow> es_abs s' 0 b = es_abs es_one 0 b \<or>
      es_abs s' 0 b = None \<and> (\<forall>v. es_abs es_one 0 b = Some v \<longrightarrow> fst v AND EXTENT_STATUS_DELAYED = 0)"
    using es_insert_returns [of "es_lib False" es_one 3 8 EXTENT_STATUS_WRITTEN 0 100, OF es_lib_ok es_one_inv hyps]
    by (elim exE conjE) (rule that)
  from this(4) [rule_format, of 7] have "es_abs s' 0 7 = Some (EXTENT_STATUS_DELAYED, None)" by (simp add: es_one_abs)
  then show ?thesis using s' by blast
qed

text \<open>C16: removing a range is the removal from a map, with all the cases that split and cut extents;
  without memory for a split, \<open>ext4_es_remove_extent\<close> returns \<open>-ENOMEM\<close> and the range has kept its state
  or was forgotten.\<close>

theorem es_remove_refines:
  assumes rb: "rb_ok E" and inv: "es_inv s" and len: "len \<noteq> 0" "unat lblk + unat len < 2 ^ 32"
  shows "\<exists>err s'. ext4_es_remove_extent E s i lblk len = Some (Inr (err, s')) \<and> es_inv s' \<and>
    (\<forall>j. j \<noteq> i \<longrightarrow> forgets (es_abs s j) (es_abs s' j)) \<and>
    (\<exists>m. forgets (es_abs s i) m \<and>
       (err = 0 \<and> es_abs s' i = ext_del m lblk (lblk + len - 1) \<or> err = - ENOMEM \<and> es_abs s' i = m)) \<and>
    ((\<forall>s. es_alloc E s) \<longrightarrow> err = 0 \<and> es_abs s' i = ext_del (es_abs s i) lblk (lblk + len - 1) \<and>
       (\<forall>j. j \<noteq> i \<longrightarrow> es_abs s' j = es_abs s j))"
proof -
  have "status_ok 0" by (simp add: status_ok_def)
  note n = new_extent_ok(4,5) [OF len this]
  have pos: "0 < unat len" using len(1) by (simp add: unat_gt_0)
  obtain err s' where r: "es_remove_extent_raw E s i lblk (lblk + len - 1) = Some (Inr (err, s'))"
    "es_removed E s i lblk (lblk + len - 1) err s'"
    using es_remove_extent_raw_ok [OF rb inv, of lblk "lblk + len - 1" i] len(2) pos unfolding n(2) by fastforce
  then have "ext4_es_remove_extent E s i lblk len = Some (Inr (err, s'))" using len(1) n(1) by (simp add: ext4_es_remove_extent_def Let_def)
  then show ?thesis using r(2) es_frame_abs [of i s s'] unfolding es_removed_def by blast
qed

theorem es_remove_refines_witness:
  "\<exists>s'. ext4_es_remove_extent (es_lib True) es_one 0 8 3 = Some (Inr (0, s')) \<and> es_inv s' \<and>
    es_abs s' 0 7 = Some (EXTENT_STATUS_DELAYED, None) \<and> es_abs s' 0 9 = None \<and>
    es_abs s' 0 11 = Some (EXTENT_STATUS_DELAYED, None)"
proof -
  obtain s' where s': "ext4_es_remove_extent (es_lib True) es_one 0 8 3 = Some (Inr (0, s'))" "es_inv s'"
    "es_abs s' 0 = ext_del (es_abs es_one 0) 8 (8 + 3 - 1)"
    using es_remove_refines [of "es_lib True" es_one 3 8 0] by (auto simp: es_lib_alloc)
  have "es_abs s' 0 7 = Some (EXTENT_STATUS_DELAYED, None)" "es_abs s' 0 9 = None" "es_abs s' 0 11 = Some (EXTENT_STATUS_DELAYED, None)"
    by (simp_all add: s'(3) ext_del_def es_one_abs)
  then show ?thesis using s'(1,2) by blast
qed

text \<open>C17: a lookup is exact. \<open>ext4_es_lookup_extent\<close>, with the node cached by the last insertion or
  search and with its use of the tree, finds an extent exactly when the map has the block; the extent
  that it returns covers the block and has its state and physical block, and the lookup changes
  neither the map nor the invariant.\<close>

theorem es_lookup_exact:
  assumes "es_inv s"
  shows "\<exists>found e s'. ext4_es_lookup_extent s i lblk = Inr (found, e, s') \<and> es_inv s' \<and> (\<forall>j. es_abs s' j = es_abs s j) \<and>
    (found \<longleftrightarrow> es_abs s i lblk \<noteq> None) \<and>
    (found \<longrightarrow> unat (es_lblk e) \<le> unat lblk \<and> unat lblk < unat (es_lblk e) + unat (es_len e) \<and>
      es_abs s i lblk = Some (es_val e lblk))"
  using es_lookup_ok [OF assms, of i lblk] by (fastforce simp: covers_def ext_end_def split: if_splits)

theorem es_lookup_exact_witness:
  "\<exists>e s'. ext4_es_lookup_extent es_one 0 9 = Inr (True, e, s') \<and> es_inv s' \<and> unat (es_lblk e) \<le> 9"
  using es_lookup_exact [of es_one 0 9] by (auto simp: es_one_abs)

text \<open>What is inserted is found. After the insertion of a written extent, with memory for the
  nodes, a lookup of any of its blocks finds an extent that maps the block to the physical block at
  the same offset.\<close>

theorem es_insert_lookup:
  assumes "rb_ok E" and "es_inv s" and "unat lblk + unat len < 2 ^ 32" and "\<forall>s. es_alloc E s"
    and b: "unat lblk \<le> unat b" "unat b < unat lblk + unat len"
  shows "\<exists>s1 e s2. ext4_es_insert_extent E s i lblk len pblk EXTENT_STATUS_WRITTEN = Some (Inr (0, s1)) \<and>
    ext4_es_lookup_extent s1 i b = Inr (True, e, s2) \<and> es_inv s2 \<and> ext4_es_is_written e \<and>
    take_bit 59 (ext4_es_pblock e + ucast (b - es_lblk e)) = take_bit 59 (pblk + ucast (b - lblk))"
proof -
  have len: "len \<noteq> 0" using b by auto
  have st: "status_ok EXTENT_STATUS_WRITTEN" by (simp add: status_ok_def)
  let ?e = "new_extent lblk len pblk EXTENT_STATUS_WRITTEN"
  note n = new_extent_ok [OF len assms(3) st]
  have f: "es_lblk ?e = lblk" "ext4_es_pblock ?e = take_bit 59 pblk" "ext4_es_type ?e = EXTENT_STATUS_WRITTEN"
    by (simp_all add: new_extent_def es_type_stored)
  have off: "of_nat (unat b - unat l) = (ucast (b - l) :: u64)" if "unat l \<le> unat b" for l :: ext4_lblk_t
    using unat_sub [of l b] that by (simp add: word_le_nat_alt flip: unat_sub)
  have c: "covers ?e b" using b by (simp add: covers_def n(2) f(1))
  have w: "ext4_es_is_written ?e" by (simp add: ext4_es_is_written_def f)
  obtain s1 where s1: "ext4_es_insert_extent E s i lblk len pblk EXTENT_STATUS_WRITTEN = Some (Inr (0, s1))" "es_inv s1"
    "es_abs s1 i = ext_put (es_abs s i) ?e"
    using es_insert_memory [OF assms(1,2) len assms(3) st assms(4), of i pblk] by (elim exE conjE) (rule that)
  have v: "es_abs s1 i b = Some (es_val ?e b)" using c by (simp add: s1(3) ext_put_def)
  obtain e s2 where r: "ext4_es_lookup_extent s1 i b = Inr (True, e, s2)" "es_inv s2" "covers e b" "es_val e b = es_val ?e b"
    using es_lookup_ok [OF s1(2), of i b] v by (auto split: if_splits)
  have t: "ext4_es_type e = ext4_es_type ?e" using r(4) by (simp add: es_val_def)
  then have "ext4_es_is_written e" using es_flags_type(1) [OF t] w by simp
  moreover then have "take_bit 59 (ext4_es_pblock e + of_nat (unat b - unat (es_lblk e))) =
      take_bit 59 (pblk + of_nat (unat b - unat lblk))"
    using r(4) w by (simp add: es_val_def f take_bit_add_left)
  moreover have "unat (es_lblk e) \<le> unat b" using r(3) by (simp add: covers_def)
  ultimately show ?thesis using s1(1) r(1,2) unfolding off [OF b(1)] by (auto simp only: off)
qed

theorem es_insert_lookup_witness:
  "\<exists>s1 e s2. ext4_es_insert_extent (es_lib True) es_one 0 8 3 100 EXTENT_STATUS_WRITTEN = Some (Inr (0, s1)) \<and>
    ext4_es_lookup_extent s1 0 10 = Inr (True, e, s2) \<and> es_inv s2 \<and> ext4_es_is_written e \<and>
    take_bit 59 (ext4_es_pblock e + ucast (10 - es_lblk e)) = 102"
  using es_insert_lookup [of "es_lib True" es_one 8 3 10 0 100] by (simp add: es_lib_alloc take_bit_u64)

text \<open>C19: memory pressure costs no delayed extent. \<open>__es_shrink\<close> returns, keeps the invariant and
  forgets only blocks that are not delayed; what it returns is the number of nodes that it has freed.\<close>

theorem es_shrink_safe:
  assumes "rb_ok E" and "es_inv s"
  shows "\<exists>nr s'. es_shrink E s nr_to_scan locked = Inr (nr, s') \<and> es_inv s' \<and>
    card (dom (es_heap s)) = card (dom (es_heap s')) + nr \<and>
    (\<forall>i b. es_abs s' i b = es_abs s i b \<or>
       es_abs s' i b = None \<and> (\<forall>v. es_abs s i b = Some v \<longrightarrow> fst v AND EXTENT_STATUS_DELAYED = 0))"
  using es_shrink_ok [OF assms] unfolding es_shrunk_def forgets_def by blast

theorem es_shrink_safe_witness:
  "\<exists>nr s'. es_shrink (es_lib False) es_one 128 None = Inr (nr, s') \<and> es_inv s' \<and>
    es_abs s' 0 7 = Some (EXTENT_STATUS_DELAYED, None)"
proof -
  obtain nr s' where s': "es_shrink (es_lib False) es_one 128 None = Inr (nr, s')" "es_inv s'"
    and "\<forall>i b. es_abs s' i b = es_abs es_one i b \<or>
      es_abs s' i b = None \<and> (\<forall>v. es_abs es_one i b = Some v \<longrightarrow> fst v AND EXTENT_STATUS_DELAYED = 0)"
    using es_shrink_safe [of "es_lib False" es_one 128 None] by auto
  from this(3) [rule_format, of 0 7] have "es_abs s' 0 7 = Some (EXTENT_STATUS_DELAYED, None)" by (simp add: es_one_abs)
  then show ?thesis using s' by blast
qed

end
