(* ===== verification/Ext4_Journal.thy ===== *)
theory Ext4_Journal
  imports Jbd2_Journal Jbd2_Super
begin

text \<open>
  The interface of ext4 to the journal: \<open>src/kernel/fs/ext4/ext4_jbd2.c\<close> and \<open>ext4_jbd2.h\<close>, \<open>fsync.c\<close>, the
  inodes of virtual machines (\<open>sysfs.c\<close>), and from \<open>super.c\<close> the handling of errors, syncing and freezing
  of a file system. The handle of an operation is the handle of the current task, \<open>journal_info\<close> of
  the state, as all callers pass it.
\<close>

section \<open>The state\<close>

text \<open>
  \<open>Nojournal n\<close> is the number that stands for a handle when there is no journal; a null pointer is
  \<open>Nojournal 0\<close>. \<open>Handle h err\<close> is a handle of the journal with the field \<open>h_err\<close>, which only ext4 uses.
\<close>

datatype ext4_handle = Nojournal ulong | Handle handle_t int

datatype data_flags = Data_unset | JOURNAL_DATA | ORDERED_DATA | WRITEBACK_DATA

record ext4_inode_info =
  i_ino :: ulong
  i_regular :: bool
  i_journal_data :: bool
  i_encrypted :: bool
  i_newentry :: bool
  i_extents :: bool
  i_needs_sync :: bool
  i_sync_tid :: tid_t
  i_datasync_tid :: tid_t
  jinode :: inop

text \<open>
  \<open>jst\<close> is the journal with the buffers of the file system, which are there without a journal too.
  \<open>s_rdonly\<close> is the flag \<open>MS_RDONLY\<close>, \<open>s_aborted\<close> the flag \<open>EXT4_MF_FS_ABORTED\<close>, \<open>s_error_fs\<close> the
  flag \<open>EXT4_ERROR_FS\<close> of the mounted file system, and \<open>s_state_error\<close> and \<open>s_error_count\<close> are in the superblock;
  \<open>super_written\<close> has these two as they were written. \<open>VM_inodes\<close> is an array of \<open>N_MAX_VM_INODES\<close> numbers.
\<close>

record ext4_state =
  jst :: jstate
  s_journal :: bool
  journal_info :: ext4_handle
  s_rdonly :: bool
  s_shutdown :: bool
  s_aborted :: bool
  s_error_fs :: bool
  s_state_error :: bool
  s_error_count :: u32
  super_written :: "(bool \<times> u32) list"
  has_feature_journal :: bool
  needs_recovery :: bool
  s_data_flags :: data_flags
  opt_barrier :: bool
  opt_delalloc :: bool
  opt_dioread_nolock :: bool
  opt_errors_cont :: bool
  opt_errors_ro :: bool
  opt_errors_panic :: bool
  VM_inodes :: "ulong list"
  n_VM_inodes :: nat
  s_sbh :: bhp
  s_inodes :: "inop \<Rightarrow> ext4_inode_info"

text \<open>
  What is called outside of ext4 and the journal: whether the device is read-only or has been ejected,
  whether a buffer is up to date after \<open>sync_dirty_buffer\<close>, the results of
  \<open>__generic_file_fsync\<close> and \<open>file_write_and_wait_range\<close> for a file and of \<open>sync_mapping_buffers\<close> and
  \<open>sync_inode_metadata\<close> for an inode, and the inode of the parent of an alias of an inode.
\<close>

record ext4_env =
  jenv :: env
  bdev_read_only :: bool
  block_device_ejected :: bool
  sync_uptodate :: "bhp \<Rightarrow> bool"
  generic_file_fsync :: "inop \<Rightarrow> int"
  write_and_wait_range :: "inop \<Rightarrow> int"
  sync_mapping_buffers :: "inop \<Rightarrow> int"
  sync_inode_metadata :: "inop \<Rightarrow> int"
  alias_parent :: "inop \<Rightarrow> inop option"

definition N_MAX_VM_INODES :: nat where
  "N_MAX_VM_INODES = 10"

definition EXT4_NOJOURNAL_MAX_REF_COUNT :: ulong where
  "EXT4_NOJOURNAL_MAX_REF_COUNT = 4096"

text \<open>Operations of the journal on the state of the file system.\<close>

definition on_jst :: "ext4_state \<Rightarrow> (jstate \<Rightarrow> ('a \<times> jstate) res option) \<Rightarrow> ('a \<times> ext4_state) res option" where
  "on_jst s f = bind_ro (f (jst s)) (\<lambda>(x, j). Some (Inr (x, s\<lparr>jst := j\<rparr>)))"

definition ext4_handle_valid :: "ext4_handle \<Rightarrow> bool" where
  "ext4_handle_valid h = (case h of Nojournal n \<Rightarrow> \<not> n < EXT4_NOJOURNAL_MAX_REF_COUNT | Handle _ _ \<Rightarrow> True)"

text \<open>
  \<open>on_handle\<close> and \<open>on_handle_ro\<close> tell by \<open>ext4_handle_valid\<close> whether there is a handle of the journal; the
  access to one that is none is an access through an invalid pointer.
\<close>

definition on_handle :: "ext4_handle \<Rightarrow> 'a res \<Rightarrow> (handle_t \<Rightarrow> int \<Rightarrow> 'a res) \<Rightarrow> 'a res" where
  "on_handle handle none f =
     (if \<not> ext4_handle_valid handle then none
      else case handle of Handle h err \<Rightarrow> f h err | Nojournal _ \<Rightarrow> Inl OOPS)"

definition on_handle_ro :: "ext4_handle \<Rightarrow> 'a res option \<Rightarrow> (handle_t \<Rightarrow> int \<Rightarrow> 'a res option) \<Rightarrow> 'a res option" where
  "on_handle_ro handle none f =
     (if \<not> ext4_handle_valid handle then none
      else case handle of Handle h err \<Rightarrow> f h err | Nojournal _ \<Rightarrow> Some (Inl OOPS))"

definition set_handle :: "handle_t \<Rightarrow> int \<Rightarrow> ext4_state \<Rightarrow> ext4_state" where
  "set_handle h err s = s\<lparr>journal_info := Handle h err\<rparr>"

section \<open>Errors of the file system\<close>

definition ext4_commit_super :: "ext4_env \<Rightarrow> ext4_state \<Rightarrow> ext4_state" where
  "ext4_commit_super X s =
     (if block_device_ejected X then s
      else s\<lparr>super_written := (s_state_error s, s_error_count s) # super_written s\<rparr>)"

definition save_error_info_raw :: "ext4_env \<Rightarrow> ext4_state \<Rightarrow> ext4_state" where
  "save_error_info_raw X s =
     (let s = s\<lparr>s_error_fs := True\<rparr>
      in if bdev_read_only X then s else s\<lparr>s_state_error := True, s_error_count := s_error_count s + 1\<rparr>)"

definition save_error_info :: "ext4_env \<Rightarrow> ext4_state \<Rightarrow> ext4_state" where
  "save_error_info X s = ext4_commit_super X (save_error_info_raw X s)"

text \<open>\<open>abort_journal\<close> aborts the journal if there is one.\<close>

definition abort_journal :: "ext4_env \<Rightarrow> ext4_state \<Rightarrow> ext4_state res" where
  "abort_journal X s =
     (if s_journal s
      then bind_res (jbd2_vmsep_journal_abort (sb_csum (jenv X)) (jst s) (- EIO)) (\<lambda>j. Inr (s\<lparr>jst := j\<rparr>))
      else Inr s)"

definition errors_panic :: "ext4_state \<Rightarrow> ext4_state res" where
  "errors_panic s =
     (if \<not> opt_errors_panic s then Inr s
      else if s_journal s \<and> JBD2_REC_ERR \<notin> j_flags (jst s) then Inr s
      else Inl PANIC)"

definition ext4_handle_error :: "ext4_env \<Rightarrow> ext4_state \<Rightarrow> ext4_state res" where
  "ext4_handle_error X s =
     (if s_rdonly s then Inr s
      else bind_res (if \<not> opt_errors_cont s then abort_journal X (s\<lparr>s_aborted := True\<rparr>) else Inr s) (\<lambda>s.
        errors_panic (if opt_errors_ro s then s\<lparr>s_rdonly := True\<rparr> else s)))"

definition ext4_error :: "ext4_env \<Rightarrow> ext4_state \<Rightarrow> ext4_state res" where
  "ext4_error X s = (if s_shutdown s then Inr s else ext4_handle_error X (save_error_info X s))"

definition ext4_error_inode :: "ext4_env \<Rightarrow> ext4_state \<Rightarrow> ext4_state res" where
  "ext4_error_inode X s = (if s_shutdown s then Inr s else ext4_handle_error X (save_error_info X s))"

definition ext4_std_error :: "ext4_env \<Rightarrow> ext4_state \<Rightarrow> int \<Rightarrow> ext4_state res" where
  "ext4_std_error X s errno =
     (if s_shutdown s then Inr s
      else if errno = - EROFS \<and> journal_info s = Nojournal 0 \<and> s_rdonly s then Inr s
      else ext4_handle_error X (save_error_info X s))"

definition ext4_abort :: "ext4_env \<Rightarrow> ext4_state \<Rightarrow> ext4_state res" where
  "ext4_abort X s =
     (if s_shutdown s then Inr s
      else let s = save_error_info X s in
        bind_res
          (if \<not> s_rdonly s
           then bind_res (abort_journal X (s\<lparr>s_aborted := True, s_rdonly := True\<rparr>)) (\<lambda>s. Inr (save_error_info X s))
           else Inr s) errors_panic)"

section \<open>Handles\<close>

definition ext4_get_nojournal :: "ext4_state \<Rightarrow> ext4_state res" where
  "ext4_get_nojournal s =
     (case journal_info s of
        Nojournal n \<Rightarrow> J_ASSERT (\<not> n \<ge> EXT4_NOJOURNAL_MAX_REF_COUNT) (Inr (s\<lparr>journal_info := Nojournal (n + 1)\<rparr>))
      | Handle _ _ \<Rightarrow> Inl BUG)"

definition ext4_put_nojournal :: "ext4_state \<Rightarrow> ext4_state res" where
  "ext4_put_nojournal s =
     (case journal_info s of
        Nojournal n \<Rightarrow> J_ASSERT (n \<noteq> 0) (Inr (s\<lparr>journal_info := Nojournal (n - 1)\<rparr>))
      | Handle _ _ \<Rightarrow> Inl OOPS)"

definition ext4_journal_check_start :: "ext4_env \<Rightarrow> ext4_state \<Rightarrow> (int \<times> ext4_state) res" where
  "ext4_journal_check_start X s =
     (if s_shutdown s then Inr (- EIO, s)
      else if s_rdonly s then Inr (- EROFS, s)
      else if s_journal s \<and> is_journal_aborted (jst s) then bind_res (ext4_abort X s) (\<lambda>s. Inr (- EROFS, s))
      else Inr (0, s))"

text \<open>
  The result of starting a handle is an error number or 0, with the handle in \<open>journal_info\<close>. A handle
  started inside of another one is the same handle.
\<close>

definition ext4_journal_start_sb ::
    "ext4_env \<Rightarrow> (jstate \<Rightarrow> jstate res) \<Rightarrow> ext4_state \<Rightarrow> int \<Rightarrow> int \<Rightarrow> (int \<times> ext4_state) res option" where
  "ext4_journal_start_sb X K s blocks rsv_blocks =
     bind_ro (Some (ext4_journal_check_start X s)) (\<lambda>(err, s).
       if err < 0 then Some (Inr (err, s))
       else if \<not> s_journal s then bind_ro (Some (ext4_get_nojournal s)) (\<lambda>s. Some (Inr (0, s)))
       else let cur = (case journal_info s of Handle h _ \<Rightarrow> Some h | Nojournal _ \<Rightarrow> None);
                h_err = (case journal_info s of Handle _ e \<Rightarrow> e | Nojournal _ \<Rightarrow> 0)
            in bind_ro (on_jst s (\<lambda>j. journal_start (jenv X) K j cur blocks rsv_blocks)) (\<lambda>(r, s).
                 case r of
                   Inl err \<Rightarrow> Some (Inr (err, s))
                 | Inr h \<Rightarrow> Some (Inr (0, set_handle h h_err s))))"

definition ext4_journal_stop ::
    "ext4_env \<Rightarrow> (jstate \<Rightarrow> jstate res) \<Rightarrow> ext4_state \<Rightarrow> (int \<times> ext4_state) res option" where
  "ext4_journal_stop X K s =
     on_handle_ro (journal_info s)
       (bind_ro (Some (ext4_put_nojournal s)) (\<lambda>s. Some (Inr (0, s))))
       (\<lambda>h err.
          bind_ro (on_jst s (\<lambda>j. bind_ro (jbd2_vmsep_journal_stop (jenv X) K j h) (\<lambda>(rc, h, j). Some (Inr ((rc, h), j)))))
            (\<lambda>((rc, h'), s).
              let s = s\<lparr>journal_info := (case h' of None \<Rightarrow> Nojournal 0 | Some h' \<Rightarrow> Handle h' err)\<rparr>;
                  err = (if err \<noteq> 0 then err else rc)
              in if h_transaction h = None \<or> err = 0 then Some (Inr (err, s))
                 else bind_ro (Some (ext4_std_error X s err)) (\<lambda>s. Some (Inr (err, s)))))"

text \<open>
  A reserved handle \<open>h\<close> is not the handle of the task yet. The result is an error number or 0, with
  the handle in \<open>journal_info\<close>.
\<close>

definition ext4_journal_start_reserved ::
    "ext4_env \<Rightarrow> (jstate \<Rightarrow> jstate res) \<Rightarrow> ext4_state \<Rightarrow> ext4_handle \<Rightarrow> (int \<times> ext4_state) res option" where
  "ext4_journal_start_reserved X K s handle =
     on_handle_ro handle
       (bind_ro (Some (ext4_get_nojournal s)) (\<lambda>s. Some (Inr (0, s))))
       (\<lambda>h h_err.
          bind_ro (Some (ext4_journal_check_start X s)) (\<lambda>(err, s).
            if err < 0 then Some (Inr (err, s\<lparr>jst := jbd2_vmsep_journal_free_reserved (jst s) h\<rparr>))
            else let cur = (case journal_info s of Handle h _ \<Rightarrow> Some h | Nojournal _ \<Rightarrow> None)
                 in bind_ro (on_jst s (\<lambda>j. bind_ro (jbd2_vmsep_journal_start_reserved (jenv X) K j cur h)
                      (\<lambda>(err, h, j). Some (Inr ((err, h), j))))) (\<lambda>((err, h'), s).
                      case h' of
                        Some h' \<Rightarrow> Some (Inr (if err < 0 then err else 0, if err < 0 then s else set_handle h' h_err s))
                      | None \<Rightarrow> Some (Inr (err, s)))))"

definition ext4_journal_free_reserved :: "ext4_state \<Rightarrow> ext4_handle \<Rightarrow> ext4_state res" where
  "ext4_journal_free_reserved s handle =
     on_handle handle (Inr s) (\<lambda>h _. Inr (s\<lparr>jst := jbd2_vmsep_journal_free_reserved (jst s) h\<rparr>))"

definition jbd2_journal_abort_handle :: "handle_t \<Rightarrow> handle_t" where
  "jbd2_journal_abort_handle h = h\<lparr>h_aborted := True\<rparr>"

definition ext4_journal_abort_handle :: "ext4_state \<Rightarrow> int \<Rightarrow> ext4_state res" where
  "ext4_journal_abort_handle s err =
     on_handle (journal_info s) (Inl BUG)
       (\<lambda>h h_err.
          let h_err = (if h_err = 0 then err else h_err)
          in Inr (set_handle (if is_handle_aborted (jst s) h then h else jbd2_journal_abort_handle h) h_err s))"

text \<open>\<open>abort_on\<close> aborts the handle when an operation has failed.\<close>

definition abort_on :: "int \<Rightarrow> ext4_state \<Rightarrow> (int \<times> ext4_state) res" where
  "abort_on err s = (if err \<noteq> 0 then bind_res (ext4_journal_abort_handle s err) (\<lambda>s. Inr (err, s)) else Inr (0, s))"

definition ext4_handle_sync :: "ext4_state \<Rightarrow> ext4_state res" where
  "ext4_handle_sync s =
     on_handle (journal_info s) (Inr s) (\<lambda>h err. Inr (set_handle (h\<lparr>h_sync := True\<rparr>) err s))"

definition ext4_handle_is_aborted :: "ext4_state \<Rightarrow> bool res" where
  "ext4_handle_is_aborted s = on_handle (journal_info s) (Inr False) (\<lambda>h _. Inr (is_handle_aborted (jst s) h))"

definition ext4_handle_has_enough_credits :: "ext4_state \<Rightarrow> int \<Rightarrow> bool res" where
  "ext4_handle_has_enough_credits s needed =
     on_handle (journal_info s) (Inr True) (\<lambda>h _. Inr (\<not> h_buffer_credits h < needed))"

definition ext4_journal_extend :: "ext4_state \<Rightarrow> int \<Rightarrow> (int \<times> ext4_state) res" where
  "ext4_journal_extend s nblocks =
     on_handle (journal_info s) (Inr (0, s))
       (\<lambda>h err. bind_res (jbd2_vmsep_journal_extend (jst s) h nblocks) (\<lambda>(ret, h, j).
          Inr (ret, set_handle h err (s\<lparr>jst := j\<rparr>))))"

definition ext4_journal_restart ::
    "ext4_env \<Rightarrow> (jstate \<Rightarrow> jstate res) \<Rightarrow> ext4_state \<Rightarrow> int \<Rightarrow> (int \<times> ext4_state) res option" where
  "ext4_journal_restart X K s nblocks =
     on_handle_ro (journal_info s) (Some (Inr (0, s)))
       (\<lambda>h err.
          bind_ro (jbd2_vmsep_journal_restart (jenv X) K (jst s) h nblocks) (\<lambda>(ret, h, j).
          Some (Inr (ret, set_handle h err (s\<lparr>jst := j\<rparr>)))))"

definition ext4_jbd2_inode_add_write :: "ext4_state \<Rightarrow> inop \<Rightarrow> (int \<times> ext4_state) res" where
  "ext4_jbd2_inode_add_write s i =
     on_handle (journal_info s) (Inr (0, s))
       (\<lambda>h _. bind_res (jbd2_vmsep_journal_inode_add_write (jst s) h (jinode (s_inodes s i))) (\<lambda>(ret, j).
          Inr (ret, s\<lparr>jst := j\<rparr>)))"

definition ext4_jbd2_inode_add_wait :: "ext4_state \<Rightarrow> inop \<Rightarrow> (int \<times> ext4_state) res" where
  "ext4_jbd2_inode_add_wait s i =
     on_handle (journal_info s) (Inr (0, s))
       (\<lambda>h _. bind_res (jbd2_vmsep_journal_inode_add_wait (jst s) h (jinode (s_inodes s i))) (\<lambda>(ret, j).
          Inr (ret, s\<lparr>jst := j\<rparr>)))"

definition upd_ext4_inode :: "inop \<Rightarrow> (ext4_inode_info \<Rightarrow> ext4_inode_info) \<Rightarrow> ext4_state \<Rightarrow> ext4_state" where
  "upd_ext4_inode i f s = s\<lparr>s_inodes := (s_inodes s)(i := f (s_inodes s i))\<rparr>"

definition ext4_update_inode_fsync_trans :: "ext4_state \<Rightarrow> inop \<Rightarrow> bool \<Rightarrow> ext4_state res" where
  "ext4_update_inode_fsync_trans s i datasync =
     on_handle (journal_info s) (Inr s)
       (\<lambda>h _. deref (h_transaction h) OOPS (\<lambda>t. with_tr (jst s) t (\<lambda>tr.
          Inr (upd_ext4_inode i (\<lambda>ei. ei\<lparr>i_sync_tid := t_tid tr,
            i_datasync_tid := (if datasync then t_tid tr else i_datasync_tid ei)\<rparr>) s))))"

section \<open>The data modes\<close>

datatype journal_mode = JOURNAL_DATA_MODE | ORDERED_DATA_MODE | WRITEBACK_DATA_MODE

definition ext4_inode_journal_mode :: "ext4_state \<Rightarrow> ext4_inode_info \<Rightarrow> journal_mode res" where
  "ext4_inode_journal_mode s inode =
     (if \<not> s_journal s then Inr WRITEBACK_DATA_MODE
      else if \<not> i_regular inode \<or> s_data_flags s = JOURNAL_DATA \<or> i_journal_data inode \<and> \<not> opt_delalloc s
      then Inr (if i_regular inode \<and> i_encrypted inode then ORDERED_DATA_MODE else JOURNAL_DATA_MODE)
      else if s_data_flags s = ORDERED_DATA then Inr ORDERED_DATA_MODE
      else if s_data_flags s = WRITEBACK_DATA then Inr WRITEBACK_DATA_MODE
      else Inl BUG)"

definition ext4_should_journal_data :: "ext4_state \<Rightarrow> ext4_inode_info \<Rightarrow> bool res" where
  "ext4_should_journal_data s inode = bind_res (ext4_inode_journal_mode s inode) (\<lambda>m. Inr (m = JOURNAL_DATA_MODE))"

definition ext4_should_order_data :: "ext4_state \<Rightarrow> ext4_inode_info \<Rightarrow> bool res" where
  "ext4_should_order_data s inode = bind_res (ext4_inode_journal_mode s inode) (\<lambda>m. Inr (m = ORDERED_DATA_MODE))"

definition ext4_should_writeback_data :: "ext4_state \<Rightarrow> ext4_inode_info \<Rightarrow> bool res" where
  "ext4_should_writeback_data s inode = bind_res (ext4_inode_journal_mode s inode) (\<lambda>m. Inr (m = WRITEBACK_DATA_MODE))"

definition ext4_should_dioread_nolock :: "ext4_state \<Rightarrow> ext4_inode_info \<Rightarrow> bool res" where
  "ext4_should_dioread_nolock s inode =
     (if \<not> opt_dioread_nolock s \<or> \<not> i_regular inode \<or> \<not> i_extents inode then Inr False
      else bind_res (ext4_should_journal_data s inode) (\<lambda>j. Inr (\<not> j)))"

section \<open>Access to buffers\<close>

definition ext4_journal_get_write_access ::
    "ext4_env \<Rightarrow> (jstate \<Rightarrow> jstate res) \<Rightarrow> ext4_state \<Rightarrow> bhp \<Rightarrow> (int \<times> ext4_state) res option" where
  "ext4_journal_get_write_access X K s b =
     on_handle_ro (journal_info s) (Some (Inr (0, s)))
       (\<lambda>h err.
          bind_ro (Some (deref (h_transaction h) OOPS (\<lambda>t. with_tr (jst s) t Inr))) (\<lambda>_.
            if s_shutdown s then Some (Inr (- EIO, set_handle (jbd2_journal_abort_handle h) err s))
            else bind_ro (on_jst s (\<lambda>j. jbd2_vmsep_journal_get_write_access (jenv X) K j h b)) (\<lambda>(err, s).
              Some (abort_on err s))))"

definition ext4_journal_get_create_access :: "ext4_env \<Rightarrow> ext4_state \<Rightarrow> bhp \<Rightarrow> (int \<times> ext4_state) res" where
  "ext4_journal_get_create_access X s b =
     on_handle (journal_info s) (Inr (0, s))
       (\<lambda>h _. bind_res (jbd2_vmsep_journal_get_create_access (jenv X) (jst s) h b) (\<lambda>(err, j).
          abort_on err (s\<lparr>jst := j\<rparr>)))"

text \<open>
  \<open>with_handle\<close> is an operation of the journal that changes the handle. Forgetting a block revokes
  it when it is metadata or journalled data and the mode is not full data journalling.
\<close>

definition with_handle :: "ext4_state \<Rightarrow> handle_t \<Rightarrow> int \<Rightarrow> (int \<times> handle_t \<times> jstate) res \<Rightarrow> (int \<times> ext4_state) res" where
  "with_handle s h h_err r =
     bind_res r (\<lambda>(err, h, j). abort_on err (set_handle h h_err (s\<lparr>jst := j\<rparr>)))"

definition ext4_forget ::
    "ext4_env \<Rightarrow> ext4_state \<Rightarrow> bool \<Rightarrow> inop \<Rightarrow> bhp option \<Rightarrow> u64 \<Rightarrow> (int \<times> ext4_state) res" where
  "ext4_forget X s is_metadata i bh blocknr =
     on_handle (journal_info s)
       (Inr (0, case bh of None \<Rightarrow> s | Some b \<Rightarrow> s\<lparr>jst := bforget b (jst s)\<rparr>))
       (\<lambda>h err.
          bind_res (if s_data_flags s = JOURNAL_DATA then Inr True
                    else if is_metadata then Inr False
                    else bind_res (ext4_should_journal_data s (s_inodes s i)) (\<lambda>d. Inr (\<not> d))) (\<lambda>no_revoke.
            if no_revoke
            then (case bh of
                    None \<Rightarrow> Inr (0, s)
                  | Some b \<Rightarrow> with_handle s h err (jbd2_vmsep_journal_forget (jst s) h b))
            else bind_res (with_handle s h err (jbd2_vmsep_journal_revoke (jenv X) (jst s) h blocknr bh)) (\<lambda>(err, s).
              if err \<noteq> 0 then bind_res (ext4_abort X s) (\<lambda>s. Inr (err, s)) else Inr (0, s))))"

text \<open>
  Marking metadata dirty for the inode \<open>inode\<close>, which may be a null pointer. Its number is read before
  the test for the null pointer.
\<close>

definition ext4_handle_dirty_metadata ::
    "ext4_env \<Rightarrow> ext4_state \<Rightarrow> inop option \<Rightarrow> bhp \<Rightarrow> (int \<times> ext4_state) res" where
  "ext4_handle_dirty_metadata X s inode b =
     on_handle (journal_info s)
       (let s = s\<lparr>jst := upd_bh b (\<lambda>bh. bh\<lparr>bh_dirty := True\<rparr>) (jst s)\<rparr>
        in case inode of
             None \<Rightarrow> Inr (0, s)
           | Some i \<Rightarrow>
               if \<not> i_needs_sync (s_inodes s i) then Inr (0, s)
               else let s = s\<lparr>jst := upd_bh b (\<lambda>bh. bh\<lparr>bh_dirty := False\<rparr>) (jst s)\<rparr>
                    in if sync_uptodate X b then Inr (0, s)
                       else bind_res (ext4_error_inode X s) (\<lambda>s. Inr (- EIO, s)))
       (\<lambda>h h_err. deref inode OOPS (\<lambda>i.
          bind_res (jbd2_vmsep_journal_dirty_metadata (jst s) h b (i_ino (s_inodes s i))) (\<lambda>(err, h, j).
            let s = set_handle h h_err (s\<lparr>jst := j\<rparr>)
            in if \<not> is_handle_aborted j h \<and> err \<noteq> 0
               then bind_res (abort_on err s) (\<lambda>(err, s). bind_res (ext4_error_inode X s) (\<lambda>s. Inr (err, s)))
               else Inr (err, s))))"

definition ext4_handle_dirty_super :: "ext4_state \<Rightarrow> (int \<times> ext4_state) res" where
  "ext4_handle_dirty_super s =
     on_handle (journal_info s)
       (Inr (0, s\<lparr>jst := upd_bh (s_sbh s) (\<lambda>bh. bh\<lparr>bh_dirty := True\<rparr>) (jst s)\<rparr>))
       (\<lambda>h h_err. with_handle s h h_err (jbd2_vmsep_journal_dirty_metadata (jst s) h (s_sbh s) 0))"

end
