(* ===== verification/Ext4_Fsync.thy ===== *)
theory Ext4_Fsync
  imports Ext4_Journal Jbd2_CommitReplay
begin

text \<open>
  Syncing files and file systems: \<open>src/kernel/fs/ext4/fsync.c\<close>, the list of the inodes of virtual machines
  in \<open>sysfs.c\<close>, and syncing, freezing and the end of recovery in \<open>super.c\<close>. The theorems say which
  buffers the commit that an \<open>fsync\<close> requests will log.
\<close>

section \<open>The inodes of virtual machines\<close>

text \<open>
  \<open>ino\<close> is the number that \<open>sscanf\<close> has read, if it has; it is an \<open>int\<close>, which is extended to the width
  of an inode number. The result is the number of bytes taken.
\<close>

definition ext4_proc_inodes_write :: "ext4_state \<Rightarrow> u32 option \<Rightarrow> nat \<Rightarrow> nat \<times> ext4_state" where
  "ext4_proc_inodes_write s ino count =
     (case ino of
        None \<Rightarrow> (0, s)
      | Some ino \<Rightarrow>
          if n_VM_inodes s \<ge> N_MAX_VM_INODES then (0, s)
          else (count, s\<lparr>VM_inodes := (VM_inodes s)[n_VM_inodes s := scast ino], n_VM_inodes := n_VM_inodes s + 1\<rparr>))"

fun is_vm_loop :: "ulong list \<Rightarrow> nat \<Rightarrow> ulong \<Rightarrow> int" where
  "is_vm_loop inos 0 ino = -1"
| "is_vm_loop [] n ino = -1"
| "is_vm_loop (v # inos) (Suc n) ino = (if v = ino then 0 else is_vm_loop inos n ino)"

definition is_vm_commit :: "ext4_state \<Rightarrow> ulong \<Rightarrow> int" where
  "is_vm_commit s ino = is_vm_loop (VM_inodes s) (n_VM_inodes s) ino"

section \<open>Syncing a file\<close>

definition ext4_force_commit :: "(jstate \<Rightarrow> jstate res) \<Rightarrow> ext4_state \<Rightarrow> (int \<times> ext4_state) res option" where
  "ext4_force_commit K s =
     (if s_rdonly s then Some (Inr (0, s))
      else if \<not> s_journal s then Some (Inr (0, s))
      else on_jst s (jbd2_vmsep_journal_force_commit K (journal_info s \<noteq> Nojournal 0)))"

text \<open>
  The parents of a new file without a journal. The loop is entered with \<open>i_newentry\<close> set and goes on to
  the parent while it is set there.
\<close>

partial_function (option) sync_parent_loop :: "ext4_env \<Rightarrow> ext4_state \<Rightarrow> inop \<Rightarrow> (int \<times> ext4_state) option" where
  "sync_parent_loop X s i =
     (if \<not> i_newentry (s_inodes s i) then Some (0, s)
      else let s = upd_ext4_inode i (\<lambda>ei. ei\<lparr>i_newentry := False\<rparr>) s
           in case alias_parent X i of
                None \<Rightarrow> Some (0, s)
              | Some p \<Rightarrow>
                  if sync_mapping_buffers X p \<noteq> 0 then Some (sync_mapping_buffers X p, s)
                  else if sync_inode_metadata X p \<noteq> 0 then Some (sync_inode_metadata X p, s)
                  else sync_parent_loop X s p)"

definition ext4_sync_parent :: "ext4_env \<Rightarrow> ext4_state \<Rightarrow> inop \<Rightarrow> (int \<times> ext4_state) res option" where
  "ext4_sync_parent X s i = map_option Inr (sync_parent_loop X s i)"

text \<open>The result of an operation after a flush of the device.\<close>

definition flushed :: "ext4_env \<Rightarrow> int \<Rightarrow> int" where
  "flushed X ret = (if ret = 0 then issue_flush (jenv X) else ret)"

definition needs_barrier :: "jstate \<Rightarrow> tid_t \<Rightarrow> bool res" where
  "needs_barrier j tid =
     (if JBD2_BARRIER \<in> j_flags j
      then bind_res (jbd2_vmsep_trans_will_send_data_barrier j tid) (\<lambda>will. Inr (\<not> will)) else Inr False)"

definition ext4_sync_file ::
    "ext4_env \<Rightarrow> (jstate \<Rightarrow> jstate res) \<Rightarrow> ext4_state \<Rightarrow> inop \<Rightarrow> bool \<Rightarrow> (int \<times> ext4_state) res option" where
  "ext4_sync_file X K s i datasync =
     (let inode = s_inodes s i in
      if s_shutdown s then Some (Inr (- EIO, s))
      else if journal_info s \<noteq> Nojournal 0 then Some (Inl BUG)
      else if s_rdonly s then Some (Inr (if s_aborted s then - EROFS else 0, s))
      else if \<not> s_journal s
      then bind_ro (if generic_file_fsync X i = 0 then ext4_sync_parent X s i else Some (Inr (generic_file_fsync X i, s)))
             (\<lambda>(ret, s). Some (Inr (if opt_barrier s then flushed X ret else ret, s)))
      else if write_and_wait_range X i \<noteq> 0 then Some (Inr (write_and_wait_range X i, s))
      else bind_ro (Some (ext4_should_journal_data s inode)) (\<lambda>data.
        if data then ext4_force_commit K s
        else let tid = (if datasync then i_datasync_tid inode else i_sync_tid inode)
             in bind_ro (Some (needs_barrier (jst s) tid)) (\<lambda>barrier.
                  let ino = (if is_vm_commit s (i_ino inode) = 0 then i_ino inode else 0)
                  in bind_ro (on_jst s (\<lambda>j. jbd2_vmsep_complete_transaction K j tid ino)) (\<lambda>(ret, s).
                       Some (Inr (if barrier then flushed X ret else ret, s))))))"

section \<open>Syncing and freezing a file system\<close>

definition jbd2_get_latest_transaction :: "jstate \<Rightarrow> tid_t res" where
  "jbd2_get_latest_transaction j =
     (case j_running_transaction j of None \<Rightarrow> Inr (j_commit_request j) | Some t \<Rightarrow> with_tr j t (\<lambda>tr. Inr (t_tid tr)))"

definition ext4_sync_fs ::
    "ext4_env \<Rightarrow> (jstate \<Rightarrow> jstate res) \<Rightarrow> ext4_state \<Rightarrow> bool \<Rightarrow> (int \<times> ext4_state) res option" where
  "ext4_sync_fs X K s wait =
     (if s_shutdown s then Some (Inr (0, s))
      else if \<not> s_journal s then Some (Inr (if wait \<and> opt_barrier s then flushed X 0 else 0, s))
      else bind_ro (Some (jbd2_get_latest_transaction (jst s))) (\<lambda>target.
        bind_ro (Some (if wait then needs_barrier (jst s) target else Inr False)) (\<lambda>barrier.
          bind_ro (Some (jbd2_vmsep_journal_start_commit (jst s))) (\<lambda>(target, j).
            bind_ro (case target of
                       Some tid \<Rightarrow> if wait then jbd2_vmsep_log_wait_commit K j tid else Some (Inr (0, j))
                     | None \<Rightarrow> Some (Inr (0, j))) (\<lambda>(ret, j).
              Some (Inr (if barrier then flushed X ret else ret, s\<lparr>jst := j\<rparr>)))))))"

definition flush_locked :: "ext4_env \<Rightarrow> (jstate \<Rightarrow> jstate res) \<Rightarrow> jstate \<Rightarrow> (int \<times> jstate) res option" where
  "flush_locked X K j = bind_ro (jbd2_vmsep_journal_lock_updates K j) (jbd2_vmsep_journal_flush (jenv X) K)"

definition unlock_journal :: "int \<Rightarrow> ext4_state \<Rightarrow> (int \<times> ext4_state) res option" where
  "unlock_journal err s =
     bind_ro (Some (jbd2_vmsep_journal_unlock_updates (jst s))) (\<lambda>j. Some (Inr (err, s\<lparr>jst := j\<rparr>)))"

text \<open>The result of \<open>ext4_commit_super\<close> is 0: the write of the superblock is taken to succeed.\<close>

definition ext4_freeze :: "ext4_env \<Rightarrow> (jstate \<Rightarrow> jstate res) \<Rightarrow> ext4_state \<Rightarrow> (int \<times> ext4_state) res option" where
  "ext4_freeze X K s =
     (if s_rdonly s then Some (Inr (0, s))
      else if \<not> s_journal s then Some (Inr (0, ext4_commit_super X s))
      else bind_ro (on_jst s (flush_locked X K)) (\<lambda>(err, s).
        if err < 0 then unlock_journal err s
        else unlock_journal 0 (ext4_commit_super X (s\<lparr>needs_recovery := False\<rparr>))))"

definition ext4_unfreeze :: "ext4_env \<Rightarrow> ext4_state \<Rightarrow> int \<times> ext4_state" where
  "ext4_unfreeze X s =
     (if s_rdonly s \<or> s_shutdown s then (0, s)
      else (0, ext4_commit_super X (if s_journal s then s\<lparr>needs_recovery := True\<rparr> else s)))"

definition ext4_mark_recovery_complete ::
    "ext4_env \<Rightarrow> (jstate \<Rightarrow> jstate res) \<Rightarrow> ext4_state \<Rightarrow> ext4_state res option" where
  "ext4_mark_recovery_complete X K s =
     (if \<not> has_feature_journal s then Some (J_ASSERT (\<not> s_journal s) (Inr s))
      else bind_ro (on_jst s (flush_locked X K)) (\<lambda>(err, s).
        let s = (if \<not> err < 0 \<and> needs_recovery s \<and> s_rdonly s
                 then ext4_commit_super X (s\<lparr>needs_recovery := False\<rparr>) else s)
        in bind_ro (unlock_journal 0 s) (\<lambda>(_, s). Some (Inr s))))"

section \<open>What a commit request selects\<close>

lemma wait_until_holds:
  assumes "wait_until K P s = Some (Inr s')"
  shows "P s'"
proof -
  have "case r of Inl _ \<Rightarrow> True | Inr s' \<Rightarrow> P s'" if "wait_until K P s = Some r" for r
    using wait_until.raw_induct [where Pa = "\<lambda>((K, P), s) r. case r of Inl _ \<Rightarrow> True | Inr s' \<Rightarrow> P s'", OF _ that]
    by (fastforce split: if_splits sum.splits)
  then show ?thesis using assms by fastforce
qed

text \<open>A file is ready to be synced through the journal.\<close>

definition sync_ready :: "ext4_env \<Rightarrow> ext4_state \<Rightarrow> inop \<Rightarrow> bool" where
  "sync_ready X s i =
     (\<not> s_shutdown s \<and> journal_info s = Nojournal 0 \<and> \<not> s_rdonly s \<and> s_journal s \<and>
      write_and_wait_range X i = 0 \<and> ext4_should_journal_data s (s_inodes s i) = Inr False)"

definition sync_tid :: "ext4_state \<Rightarrow> inop \<Rightarrow> bool \<Rightarrow> tid_t" where
  "sync_tid s i datasync = (if datasync then i_datasync_tid (s_inodes s i) else i_sync_tid (s_inodes s i))"

definition sync_ino :: "ext4_state \<Rightarrow> inop \<Rightarrow> ulong" where
  "sync_ino s i = (if is_vm_commit s (i_ino (s_inodes s i)) = 0 then i_ino (s_inodes s i) else 0)"

lemma ext4_sync_file_ready:
  assumes "sync_ready X s i"
  shows "ext4_sync_file X K s i datasync =
    bind_ro (Some (needs_barrier (jst s) (sync_tid s i datasync))) (\<lambda>barrier.
      bind_ro (jbd2_vmsep_complete_transaction K (jst s) (sync_tid s i datasync) (sync_ino s i)) (\<lambda>(ret, j).
        Some (Inr (if barrier then flushed X ret else ret, s\<lparr>jst := j\<rparr>))))"
  using assms unfolding ext4_sync_file_def sync_ready_def Let_def sync_tid_def [symmetric] sync_ino_def [symmetric] on_jst_def
  by (auto simp: bind_ro_def split: option.split sum.split)

text \<open>
  The commit that a sync requests: the running transaction is marked for the number \<open>sync_ino\<close>, and the
  sync returns when the commit sequence has reached it.
\<close>

definition committing_allocated :: "jstate \<Rightarrow> bool" where
  "committing_allocated j = (\<forall>t. j_committing_transaction j = Some t \<longrightarrow> trs j t \<noteq> None)"

lemma needs_barrier_returns: "committing_allocated j \<Longrightarrow> \<exists>b. needs_barrier j tid = Inr b"
  by (auto simp: needs_barrier_def jbd2_vmsep_trans_will_send_data_barrier_def committing_allocated_def split: option.split)

text \<open>The sync waits in the state after the request, and returns what the wait leaves.\<close>

definition sync_waits :: "ext4_env \<Rightarrow> (jstate \<Rightarrow> jstate res) \<Rightarrow> ext4_state \<Rightarrow> inop \<Rightarrow> bool \<Rightarrow> tid_t \<Rightarrow> jstate \<Rightarrow> bool" where
  "sync_waits X K s i datasync tid j =
     ((\<forall>ret s'. ext4_sync_file X K s i datasync = Some (Inr (ret, s')) \<longrightarrow>
         wait_until K (\<lambda>j. \<not> tid_gt tid (j_commit_sequence j)) j = Some (Inr (jst s')) \<and> \<not> tid_gt tid (j_commit_sequence (jst s'))) \<and>
      (\<forall>j'. wait_until K (\<lambda>j. \<not> tid_gt tid (j_commit_sequence j)) j = Some (Inr j') \<and> \<not> is_journal_aborted j' \<longrightarrow>
         ext4_sync_file X K s i datasync = Some (Inr (0, s\<lparr>jst := j'\<rparr>))))"

lemma sync_file_request:
  assumes ready: "sync_ready X s i" and run: "j_running_transaction (jst s) = Some t" "trs (jst s) t = Some tr"
    and tid: "t_tid tr = sync_tid s i datasync" "j_commit_request (jst s) \<noteq> t_tid tr"
    and flush: "committing_allocated (jst s)" "issue_flush (jenv X) = 0"
  shows "\<exists>j tr'. jbd2_vmsep_log_start_commit (jst s) (t_tid tr) (sync_ino s i) = Inr (1, j) \<and>
    j_running_transaction j = Some t \<and> trs j t = Some tr' \<and> j_commit_request j = t_tid tr \<and>
    t_tid tr' = t_tid tr \<and> t_buffers tr' = t_buffers tr \<and> ino_sync tr' = sync_ino s i \<and> jhs j = jhs (jst s) \<and>
    sync_waits X K s i datasync (t_tid tr) j"
proof -
  let ?j = "upd_tr t (\<lambda>x. x\<lparr>t_requested := jiffies (jst s), ino_sync := sync_ino s i\<rparr>) ((jst s)\<lparr>j_commit_request := t_tid tr\<rparr>)"
  let ?P = "\<lambda>j. \<not> tid_gt (t_tid tr) (j_commit_sequence j)"
  have start: "jbd2_vmsep_log_start_commit (jst s) (t_tid tr) (sync_ino s i) = Inr (1, ?j)"
    using run tid by (simp add: jbd2_vmsep_log_start_commit_def log_start_commit_raw_def)
  have "jbd2_vmsep_complete_transaction K (jst s) (sync_tid s i datasync) (sync_ino s i) = jbd2_vmsep_log_wait_commit K ?j (t_tid tr)"
    using run tid start by (simp add: jbd2_vmsep_complete_transaction_def tid_is_def)
  moreover obtain b where "needs_barrier (jst s) (sync_tid s i datasync) = Inr b" using needs_barrier_returns [OF flush(1)] by blast
  ultimately have sync: "ext4_sync_file X K s i datasync = bind_ro (wait_until K ?P ?j) (\<lambda>j'.
      Some (Inr (let ret = (if is_journal_aborted j' then - EIO else 0) in if b then flushed X ret else ret, s\<lparr>jst := j'\<rparr>)))"
    unfolding ext4_sync_file_ready [OF ready] jbd2_vmsep_log_wait_commit_def
    by (cases "wait_until K ?P ?j") (auto simp: bind_ro_def Let_def split: sum.splits)
  have "sync_waits X K s i datasync (t_tid tr) ?j" unfolding sync_waits_def sync
    using flush(2) by (auto simp: bind_ro_def flushed_def Let_def split: option.splits sum.splits dest: wait_until_holds)
  then show ?thesis using start run by (intro exI [of _ ?j]) (auto simp: upd_tr_def)
qed

section \<open>The inodes of virtual machines, as a set\<close>

lemma is_vm_loop_iff: "is_vm_loop inos n ino = 0 \<longleftrightarrow> ino \<in> set (take n inos)"
  by (induction inos n ino rule: is_vm_loop.induct) auto

lemma is_vm_commit_iff: "is_vm_commit s ino = 0 \<longleftrightarrow> ino \<in> set (take (n_VM_inodes s) (VM_inodes s))"
  by (simp add: is_vm_commit_def is_vm_loop_iff)

section \<open>An example\<close>

text \<open>
  A file system with a running transaction 7 that has two dirty metadata buffers, one of the inode 12
  and one of the inode 13, which belongs to a virtual machine. The commit thread commits what is
  requested.
\<close>

definition ex_head :: "ulong \<Rightarrow> journal_head" where
  "ex_head ino = \<lparr>b_jcount = 1, b_jlist = BJ_Metadata, b_modified = True, b_frozen_data = None, b_committed_data = None,
     b_transaction = Some 0, b_next_transaction = None, b_cp_transaction = None, b_triggers = None,
     b_frozen_triggers = None, jh_ino = ino\<rparr>"

definition ex_file :: "ulong \<Rightarrow> ext4_inode_info" where
  "ex_file ino = \<lparr>i_ino = ino, i_regular = True, i_journal_data = False, i_encrypted = False, i_newentry = True,
     i_extents = True, i_needs_sync = False, i_sync_tid = 7, i_datasync_tid = 7, jinode = 0\<rparr>"

definition ex_fs :: ext4_state where
  "ex_fs = \<lparr>jst = init_state\<lparr>trs := [0 \<mapsto> ex_transaction\<lparr>t_nr_buffers := 2, t_buffers := [1, 2], t_updates := 1\<rparr>],
       jhs := [1 \<mapsto> ex_head 12, 2 \<mapsto> ex_head 13]\<rparr>,
     s_journal = True, journal_info = Nojournal 0, s_rdonly = False, s_shutdown = False, s_aborted = False,
     s_error_fs = False, s_state_error = False, s_error_count = 0, super_written = [], has_feature_journal = True,
     needs_recovery = True, s_data_flags = ORDERED_DATA, opt_barrier = True, opt_delalloc = True,
     opt_dioread_nolock = False, opt_errors_cont = False, opt_errors_ro = True, opt_errors_panic = False,
     VM_inodes = 13 # replicate 9 0, n_VM_inodes = 1, s_sbh = 0,
     s_inodes = (\<lambda>i. ex_file (of_nat i))\<rparr>"

definition ex_ext4_env :: ext4_env where
  "ex_ext4_env = \<lparr>jenv = ex_env, bdev_read_only = False, block_device_ejected = False, sync_uptodate = (\<lambda>_. True),
     generic_file_fsync = (\<lambda>_. 0), write_and_wait_range = (\<lambda>_. 0), sync_mapping_buffers = (\<lambda>_. 0),
     sync_inode_metadata = (\<lambda>_. 0), alias_parent = (\<lambda>i. if i = 0 then None else Some (i - 1))\<rparr>"

definition ex_thread :: "jstate \<Rightarrow> jstate res" where
  "ex_thread j = Inr (j\<lparr>j_commit_sequence := j_commit_request j\<rparr>)"

lemma ex_fs_ready: "sync_ready ex_ext4_env ex_fs i"
  by (simp add: sync_ready_def ex_ext4_env_def ex_fs_def ext4_should_journal_data_def ext4_inode_journal_mode_def ex_file_def)

lemma ex_thread_waits:
  assumes "\<not> tid_gt tid (j_commit_request j)" and "\<not> is_journal_aborted j"
  shows "\<exists>j'. jbd2_vmsep_log_wait_commit ex_thread j tid = Some (Inr (0, j'))"
proof -
  let ?P = "\<lambda>j. \<not> tid_gt tid (j_commit_sequence j)"
  have "wait_until ex_thread ?P (j\<lparr>j_commit_sequence := j_commit_request j\<rparr>) = Some (Inr (j\<lparr>j_commit_sequence := j_commit_request j\<rparr>))"
    using assms(1) by (subst wait_until.simps) simp
  then have "wait_until ex_thread ?P j = Some (Inr (if ?P j then j else j\<lparr>j_commit_sequence := j_commit_request j\<rparr>))"
    by (subst wait_until.simps) (simp add: ex_thread_def)
  then show ?thesis using assms(2) by (auto simp: jbd2_vmsep_log_wait_commit_def is_journal_aborted_def)
qed

lemma ex_fs_sync: "\<exists>s'. ext4_sync_file ex_ext4_env ex_thread ex_fs i datasync = Some (Inr (0, s'))"
proof -
  have tid: "sync_tid ex_fs i datasync = 7" by (simp add: sync_tid_def ex_fs_def ex_file_def)
  have b: "needs_barrier (jst ex_fs) 7 = Inr False" by (simp add: needs_barrier_def ex_fs_def ex_defs)
  have "\<exists>j. jbd2_vmsep_complete_transaction ex_thread (jst ex_fs) 7 ino = Some (Inr (0, j))" for ino
  proof -
    obtain j where "jbd2_vmsep_complete_transaction ex_thread (jst ex_fs) 7 ino = jbd2_vmsep_log_wait_commit ex_thread j 7"
      "j_commit_request j = 7" "\<not> is_journal_aborted j"
      by (simp add: jbd2_vmsep_complete_transaction_def tid_is_def ex_fs_def ex_defs jbd2_vmsep_log_start_commit_def
          log_start_commit_raw_def is_journal_aborted_def upd_tr_def)
    then show ?thesis using ex_thread_waits [of 7 j] by (simp add: tid_gt_def)
  qed
  then obtain j where "jbd2_vmsep_complete_transaction ex_thread (jst ex_fs) 7 (sync_ino ex_fs i) = Some (Inr (0, j))" by blast
  then show ?thesis using ex_fs_ready [of i] b by (simp add: ext4_sync_file_ready tid)
qed

section \<open>The theorems\<close>

text \<open>C9: an \<open>fsync\<close> of a file of a virtual machine commits the metadata that the file has dirtied first. If the last
  change of the file is in the running transaction, no commit of that transaction has been requested yet, the file system is
  writable and not shut down, the caller has no handle, writing the pages back succeeds, the data of the file is not
  journalled and the flush of the device works, the sync requests the commit of that transaction for the number of the file, so that the
  buffers which the commit will log are exactly the metadata buffers of the transaction that have the number of the
  file recorded, which is that of the inode that dirtied them first. It then waits for the commit sequence to reach the transaction: it
  returns only then, and it returns 0 if the journal is not aborted by then.\<close>

theorem fsync_vm_inode:
  assumes "sync_ready X s i" and "j_running_transaction (jst s) = Some t" and "trs (jst s) t = Some tr"
    and "t_tid tr = sync_tid s i datasync" and "j_commit_request (jst s) \<noteq> t_tid tr"
    and "committing_allocated (jst s)" and "issue_flush (jenv X) = 0"
    and vm: "i_ino (s_inodes s i) \<in> set (take (n_VM_inodes s) (VM_inodes s))"
  shows "\<exists>j tr'. jbd2_vmsep_log_start_commit (jst s) (t_tid tr) (i_ino (s_inodes s i)) = Inr (1, j) \<and>
    j_running_transaction j = Some t \<and> trs j t = Some tr' \<and> j_commit_request j = t_tid tr \<and> t_tid tr' = t_tid tr \<and>
    ino_sync tr' = i_ino (s_inodes s i) \<and>
    filter (kept j (ino_sync tr')) (t_buffers tr') =
      filter (\<lambda>b. jh_ino (the (jhs (jst s) b)) = i_ino (s_inodes s i)) (t_buffers tr) \<and>
    sync_waits X K s i datasync (t_tid tr) j"
proof -
  have ino: "sync_ino s i = i_ino (s_inodes s i)" using vm by (simp add: sync_ino_def is_vm_commit_iff)
  show ?thesis using sync_file_request [OF assms(1-7), of K] unfolding ino by (force simp: kept_def [abs_def])
qed

text \<open>What the witnesses below say of the file system of the example.\<close>

lemma ex_fs_running:
  "j_running_transaction (jst ex_fs) = Some 0"
  "trs (jst ex_fs) 0 = Some (ex_transaction\<lparr>t_nr_buffers := 2, t_buffers := [1, 2], t_updates := 1\<rparr>)"
  "t_tid (ex_transaction\<lparr>t_nr_buffers := 2, t_buffers := [1, 2], t_updates := 1\<rparr>) = sync_tid ex_fs i False"
  "j_commit_request (jst ex_fs) \<noteq> t_tid (ex_transaction\<lparr>t_nr_buffers := 2, t_buffers := [1, 2], t_updates := 1\<rparr>)"
  "committing_allocated (jst ex_fs)" "issue_flush (jenv ex_ext4_env) = 0"
  by (simp_all add: ex_fs_def ex_ext4_env_def ex_defs sync_tid_def ex_file_def committing_allocated_def)

theorem fsync_vm_inode_witness:
  "\<exists>s' j tr'. ext4_sync_file ex_ext4_env ex_thread ex_fs 13 False = Some (Inr (0, s')) \<and>
    wait_until ex_thread (\<lambda>j. \<not> tid_gt 7 (j_commit_sequence j)) j = Some (Inr (jst s')) \<and>
    trs j 0 = Some tr' \<and> ino_sync tr' = 13 \<and> filter (kept j (ino_sync tr')) (t_buffers tr') = [2]"
proof -
  obtain s' where s': "ext4_sync_file ex_ext4_env ex_thread ex_fs 13 False = Some (Inr (0, s'))" using ex_fs_sync by blast
  have vm: "i_ino (s_inodes ex_fs 13) \<in> set (take (n_VM_inodes ex_fs) (VM_inodes ex_fs))" by (simp add: ex_fs_def ex_file_def)
  obtain j tr' where "trs j 0 = Some tr'" "ino_sync tr' = 13" "filter (kept j (ino_sync tr')) (t_buffers tr') = [2]"
    "sync_waits ex_ext4_env ex_thread ex_fs 13 False 7 j"
    using fsync_vm_inode [OF ex_fs_ready ex_fs_running vm, of ex_thread] by (auto simp: ex_fs_def ex_file_def ex_head_def ex_defs)
  then show ?thesis using s' unfolding sync_waits_def by blast
qed

text \<open>C10: an \<open>fsync\<close> of any other file commits none of its metadata, and returns nevertheless. Under the same conditions, for a
  file that belongs to no virtual machine, the commit is requested for the number 0, which no file has; no
  metadata buffer that has the number of a file recorded is among those that the commit will log, so that those of this file
  are moved to the next transaction. The sync waits for the commit sequence to reach the transaction all the same,
  returns when it has, and returns 0 if the journal is not aborted by then.\<close>

theorem fsync_other_inode:
  assumes "sync_ready X s i" and "j_running_transaction (jst s) = Some t" and "trs (jst s) t = Some tr"
    and "t_tid tr = sync_tid s i datasync" and "j_commit_request (jst s) \<noteq> t_tid tr"
    and "committing_allocated (jst s)" and "issue_flush (jenv X) = 0"
    and vm: "i_ino (s_inodes s i) \<notin> set (take (n_VM_inodes s) (VM_inodes s))"
  shows "\<exists>j tr'. jbd2_vmsep_log_start_commit (jst s) (t_tid tr) 0 = Inr (1, j) \<and>
    j_running_transaction j = Some t \<and> trs j t = Some tr' \<and> j_commit_request j = t_tid tr \<and> t_tid tr' = t_tid tr \<and>
    ino_sync tr' = 0 \<and> t_buffers tr' = t_buffers tr \<and>
    (\<forall>b \<in> set (t_buffers tr'). jh_ino (the (jhs (jst s) b)) \<noteq> 0 \<longrightarrow> \<not> kept j (ino_sync tr') b) \<and>
    sync_waits X K s i datasync (t_tid tr) j"
proof -
  have ino: "sync_ino s i = 0" using vm by (simp add: sync_ino_def is_vm_commit_iff)
  show ?thesis using sync_file_request [OF assms(1-7), of K] unfolding ino by (force simp: kept_def)
qed

theorem fsync_other_inode_witness:
  "\<exists>s' j tr'. ext4_sync_file ex_ext4_env ex_thread ex_fs 12 False = Some (Inr (0, s')) \<and>
    wait_until ex_thread (\<lambda>j. \<not> tid_gt 7 (j_commit_sequence j)) j = Some (Inr (jst s')) \<and>
    trs j 0 = Some tr' \<and> ino_sync tr' = 0 \<and> t_buffers tr' = [1, 2] \<and> \<not> kept j (ino_sync tr') 1"
proof -
  obtain s' where s': "ext4_sync_file ex_ext4_env ex_thread ex_fs 12 False = Some (Inr (0, s'))" using ex_fs_sync by blast
  have vm: "i_ino (s_inodes ex_fs 12) \<notin> set (take (n_VM_inodes ex_fs) (VM_inodes ex_fs))" by (simp add: ex_fs_def ex_file_def)
  obtain j tr' where "trs j 0 = Some tr'" "ino_sync tr' = 0" "t_buffers tr' = [1, 2]" "\<not> kept j (ino_sync tr') 1"
    "sync_waits ex_ext4_env ex_thread ex_fs 12 False 7 j"
    using fsync_other_inode [OF ex_fs_ready ex_fs_running vm, of ex_thread] by (auto simp: ex_fs_def ex_file_def ex_head_def ex_defs)
  then show ?thesis using s' unfolding sync_waits_def by blast
qed

text \<open>C12: a buffer belongs to the inode that dirtied it first. When a metadata buffer has been dirtied
  in the transaction of the handle, marking it dirty for another inode succeeds and changes nothing: the buffer
  keeps the number of the first inode, and a commit for the second inode does not log it.\<close>

theorem dirty_metadata_first_inode:
  assumes "journal_info s = Handle h e" and "h_transaction h = Some t" and "\<not> is_handle_aborted (jst s) h"
    and "jhs (jst s) b = Some jh" and "b_modified jh" and "b_transaction jh = Some t" and "b_jlist jh = BJ_Metadata"
  shows "ext4_handle_dirty_metadata X s (Some i) b = Inr (0, s) \<and>
    (i_ino (s_inodes s i) \<noteq> jh_ino jh \<longrightarrow> \<not> kept (jst s) (i_ino (s_inodes s i)) b)"
proof -
  have "jbd2_vmsep_journal_dirty_metadata (jst s) h b ino = Inr (0, h, jst s)" for ino
    using assms by (simp add: jbd2_vmsep_journal_dirty_metadata_def buffer_jbd_def)
  then show ?thesis
    using assms by (auto simp: ext4_handle_dirty_metadata_def on_handle_def ext4_handle_valid_def set_handle_def kept_def)
qed

definition ex_handle :: handle_t where
  "ex_handle = (new_handle 8)\<lparr>h_transaction := Some 0\<rparr>"

theorem dirty_metadata_first_inode_witness:
  "let s = ex_fs\<lparr>journal_info := Handle ex_handle 0\<rparr>
   in ext4_handle_dirty_metadata ex_ext4_env s (Some 13) 1 = Inr (0, s) \<and> \<not> kept (jst s) 13 1"
  using dirty_metadata_first_inode [of "ex_fs\<lparr>journal_info := Handle ex_handle 0\<rparr>" ex_handle 0 0 1 "ex_head 12" ex_ext4_env 13]
  by (simp add: ex_fs_def ex_handle_def new_handle_def ex_head_def ex_defs is_handle_aborted_def is_journal_aborted_def ex_file_def)

text \<open>Registering an inode. With room in the table, a number written to the file \<open>inodes\<close> is
  registered, beside those that were, and the whole input is taken; with a full table nothing is.\<close>

theorem proc_inodes_write_exact:
  assumes "length (VM_inodes s) = N_MAX_VM_INODES" and "n_VM_inodes s \<le> N_MAX_VM_INODES"
    and "ext4_proc_inodes_write s (Some num) count = (n, s')"
  shows "length (VM_inodes s') = N_MAX_VM_INODES \<and> n_VM_inodes s' \<le> N_MAX_VM_INODES \<and>
    (if n_VM_inodes s < N_MAX_VM_INODES
     then n = count \<and> (\<forall>ino. is_vm_commit s' ino = 0 \<longleftrightarrow> is_vm_commit s ino = 0 \<or> ino = scast num)
     else n = 0 \<and> s' = s)"
  using assms by (auto simp: ext4_proc_inodes_write_def is_vm_commit_iff take_Suc_conv_app_nth split: if_splits)

theorem proc_inodes_write_exact_witness:
  "is_vm_commit (snd (ext4_proc_inodes_write ex_fs (Some 20) 3)) 20 = 0"
  using proc_inodes_write_exact [of ex_fs 20 3 "fst (ext4_proc_inodes_write ex_fs (Some 20) 3)" "snd (ext4_proc_inodes_write ex_fs (Some 20) 3)"]
  by (simp add: ex_fs_def N_MAX_VM_INODES_def)

text \<open>C14: syncing the parents of a new file ends. The walk clears the mark of every directory that it
  goes through, so with finitely many marks it returns, whatever the aliases of the inodes are.\<close>

theorem sync_parent_returns:
  assumes "finite {i. i_newentry (s_inodes s i)}"
  shows "\<exists>ret s'. ext4_sync_parent X s i = Some (Inr (ret, s')) \<and> \<not> i_newentry (s_inodes s' i) \<and>
    (\<forall>j. i_newentry (s_inodes s' j) \<longrightarrow> i_newentry (s_inodes s j))"
proof -
  have "\<exists>ret s'. sync_parent_loop X s i = Some (ret, s') \<and> \<not> i_newentry (s_inodes s' i) \<and>
    (\<forall>j. i_newentry (s_inodes s' j) \<longrightarrow> i_newentry (s_inodes s j))"
    using assms
  proof (induction "card {i. i_newentry (s_inodes s i)}" arbitrary: s i rule: less_induct)
    case less
    let ?s = "upd_ext4_inode i (\<lambda>ei. ei\<lparr>i_newentry := False\<rparr>) s"
    have set: "{j. i_newentry (s_inodes ?s j)} = {j. i_newentry (s_inodes s j)} - {i}" by (auto simp: upd_ext4_inode_def)
    show ?case
    proof (cases "i_newentry (s_inodes s i)")
      case False
      then show ?thesis by (subst sync_parent_loop.simps) simp
    next
      case True
      have f: "finite {j. i_newentry (s_inodes ?s j)}" using less.prems by (simp add: set)
      have "card {j. i_newentry (s_inodes ?s j)} < card {j. i_newentry (s_inodes s j)}"
        unfolding set using True by (intro card_Diff1_less [OF less.prems]) simp
      note IH = less.hyps [OF this f]
      show ?thesis
      proof (cases "alias_parent X i")
        case None
        then show ?thesis using True by (subst sync_parent_loop.simps) (simp add: upd_ext4_inode_def)
      next
        case (Some p)
        obtain r s' where "sync_parent_loop X ?s p = Some (r, s')" "\<forall>j. i_newentry (s_inodes s' j) \<longrightarrow> i_newentry (s_inodes ?s j)"
          using IH by blast
        then show ?thesis using True Some by (subst sync_parent_loop.simps) (auto simp: Let_def upd_ext4_inode_def split: if_splits)
      qed
    qed
  qed
  then show ?thesis by (auto simp: ext4_sync_parent_def)
qed

theorem sync_parent_returns_witness:
  "\<exists>ret s'. ext4_sync_parent ex_ext4_env (ex_fs\<lparr>s_inodes := (\<lambda>i. (ex_file 1)\<lparr>i_newentry := i < 5\<rparr>)\<rparr>) 4 = Some (Inr (ret, s'))"
proof -
  have "finite {i. i_newentry (s_inodes (ex_fs\<lparr>s_inodes := (\<lambda>i. (ex_file 1)\<lparr>i_newentry := i < 5\<rparr>)\<rparr>) i)}" by simp
  from sync_parent_returns [OF this, of ex_ext4_env 4] show ?thesis by blast
qed

end
