(* ===== verification/Ext4_Handles.thy ===== *)
theory Ext4_Handles
  imports Ext4_Fsync
begin

text \<open>
  Handles and errors: forgetting a block revokes it, an aborted file system starts no handle, and
  handles without a journal nest. Blocks that are forgotten through \<open>ext4_forget\<close> end up in the revoke table of
  the transaction, which keeps recovery from replaying older copies of them.
\<close>

section \<open>The revoke tables stay as they are\<close>

definition revokes :: "jstate \<Rightarrow> bool option \<times> revoke_table option \<times> revoke_table option" where
  "revokes s = (j_revoke s, j_revoke_table0 s, j_revoke_table1 s)"

abbreviation revokes_as :: "jstate \<Rightarrow> jstate \<Rightarrow> bool" where
  "revokes_as s s' \<equiv> revokes s' = revokes s"

lemma revokes_upd [simp]:
  "revokes (upd_jh b f s) = revokes s" "revokes (upd_bh b g s) = revokes s" "revokes (upd_tr t h s) = revokes s"
  "revokes (s\<lparr>jhs := J\<rparr>) = revokes s" "revokes (s\<lparr>j_superblock := sb\<rparr>) = revokes s"
  "revokes (s\<lparr>j_chksum_driver := c, j_csum_seed := x\<rparr>) = revokes s"
  by (simp_all add: revokes_def upd_jh_def upd_bh_def upd_tr_def)

lemma revokes_small [simp]:
  "revokes (unlink_dirty b s) = revokes s" "revokes (snd (take_dirty b s)) = revokes s" "revokes (brelse b s) = revokes s"
  "revokes (bforget b s) = revokes s" "revokes (get_bh b s) = revokes s"
  "revokes (snd (jbd2_vmsep_journal_grab_journal_head s b)) = revokes s"
  by (simp_all add: unlink_dirty_def take_dirty_def brelse_def bforget_def get_bh_def mark_buffer_dirty_def
      jbd2_vmsep_journal_grab_journal_head_def)

lemma temp_unlink_revokes: "wp (temp_unlink_buffer s b) any_err (revokes_as s)"
  by (simp add: temp_unlink_buffer_def wp_simps Let_def split: option.split)

lemma put_head_revokes: "wp (jbd2_vmsep_journal_put_journal_head s b) any_err (revokes_as s)"
  by (simp add: jbd2_vmsep_journal_put_journal_head_def journal_remove_journal_head_def wp_simps Let_def split: option.split)

lemma unfile_revokes: "wp (unfile_buffer s b) any_err (revokes_as s)"
  unfolding unfile_buffer_def wp_bind
  by (rule wp_mono [OF temp_unlink_revokes], rule wp_mono [OF put_head_revokes]) simp

lemma file_buffer_revokes: "wp (file_buffer s b t l) any_err (revokes_as s)"
proof -
  obtain w s1 where w: "(if l \<noteq> BJ_None then take_dirty b s else (False, s)) = (w, s1)" by fastforce
  then have "s1 = snd (if l \<noteq> BJ_None then take_dirty b s else (False, s))" by simp
  then have s1: "revokes s1 = revokes s" by (cases "l = BJ_None") simp_all
  have un: "wp (temp_unlink_buffer s1 b) any_err P" if "\<And>s2. revokes s2 = revokes s \<Longrightarrow> P s2" for P
    using wp_mono [OF temp_unlink_revokes [of s1 b]] that s1 by simp
  show ?thesis unfolding file_buffer_def w
    by (auto simp: wp_simps Let_def s1 split: option.split intro!: un)
qed

lemma forget_current_revokes: "wp (forget_current s t b jh) any_err (\<lambda>(_, s'). revokes s' = revokes s)"
proof -
  let ?s = "upd_bh b (\<lambda>bh. bh\<lparr>bh_dirty := False, bh_jbddirty := False\<rparr>) s"
  have "wp (temp_unlink_buffer ?s b) any_err (\<lambda>s1. wp (file_buffer s1 b t BJ_Forget) any_err (\<lambda>s2. revokes s2 = revokes s))"
    by (rule wp_mono [OF temp_unlink_revokes], rule wp_mono [OF file_buffer_revokes]) simp
  moreover have "wp (unfile_buffer ?s b) any_err (\<lambda>s1. revokes s1 = revokes s)"
    by (rule wp_mono [OF unfile_revokes]) simp
  ultimately show ?thesis
    by (auto simp: forget_current_def wp_simps Let_def elim!: wp_mono)
qed

lemma forget_revokes_as: "wp (jbd2_vmsep_journal_forget s h b) any_err (\<lambda>(_, _, s'). revokes s' = revokes s)"
proof -
  have fc: "wp (forget_current (upd_jh b f s) t b jh) any_err P" if "\<And>r s2. revokes s2 = revokes s \<Longrightarrow> P (r, s2)" for f t jh P
    by (rule wp_mono [OF forget_current_revokes]) (use that in auto)
  show ?thesis
    by (auto simp: jbd2_vmsep_journal_forget_def wp_simps Let_def split: option.split intro!: fc)
qed

lemma mark_revoked_revokes: "wp (mark_revoked E s h b given) any_err (\<lambda>(_, _, s'). revokes s' = revokes s)"
proof -
  let ?s = "upd_bh b (\<lambda>bh. bh\<lparr>bh_revoked := True, bh_revokevalid := True\<rparr>) s"
  have "wp (jbd2_vmsep_journal_forget ?s h b) any_err (\<lambda>(_, _, s'). revokes s' = revokes s)"
    by (rule wp_mono [OF forget_revokes_as]) auto
  then show ?thesis by (auto simp: mark_revoked_def wp_simps Let_def elim!: wp_mono)
qed

lemma get_superblock_revokes: "wp (journal_get_superblock E s) any_err (\<lambda>(_, s'). revokes s' = revokes s)"
proof -
  have check: "revokes (snd (check_superblock E s2)) = revokes s2" for s2
    by (simp add: check_superblock_def Let_def revokes_def split: option.split)
  have fail: "revokes (journal_fail_superblock s2) = revokes s2" "revokes (s2\<lparr>j_sb_uptodate := u\<rparr>) = revokes s2" for s2 u
    by (simp_all add: journal_fail_superblock_def revokes_def)
  show ?thesis
    using check [of s] check [of "s\<lparr>j_sb_uptodate := sb_read E\<rparr>"]
    by (auto simp: journal_get_superblock_def wp_simps Let_def fail split: prod.split)
qed

lemma check_used_revokes:
  "wp (jbd2_vmsep_journal_check_used_features E s cpt ro icpt) any_err (\<lambda>(_, s'). revokes s' = revokes s)"
proof -
  have "wp (journal_get_superblock E s) any_err P" if "\<And>r s2. revokes s2 = revokes s \<Longrightarrow> P (r, s2)" for P
    by (rule wp_mono [OF get_superblock_revokes]) (use that in auto)
  then show ?thesis by (simp add: jbd2_vmsep_journal_check_used_features_def wp_simps Let_def)
qed

lemma turn_on_revokes [simp]:
  "revokes (turn_on c r i s) = revokes s" "revokes (snd (enable_csum_v3 E s)) = revokes s"
  by (simp_all add: turn_on_def enable_csum_v3_def Let_def)

lemma set_features_revokes: "wp (jbd2_vmsep_journal_set_features E s cpt ro icpt) any_err (\<lambda>(_, s'). revokes s' = revokes s)"
proof -
  have csum: "wp (let (ok, s3) = (if c then enable_csum_v3 E s2 else (True, s2))
      in if \<not> ok then Inr (False, s3) else Inr (True, turn_on x y z s3)) any_err (\<lambda>(_, s'). revokes s' = revokes s)"
    if "revokes s2 = revokes s" for c s2 x y z
    using turn_on_revokes(2) [of E s2] that by (cases "enable_csum_v3 E s2") (simp add: wp_simps)
  show ?thesis unfolding jbd2_vmsep_journal_set_features_def wp_bind
  proof (rule wp_mono [OF check_used_revokes], clarify)
    fix used s2 assume s2: "revokes s2 = revokes s"
    show "wp (if used then Inr (True, s2)
        else if \<not> jbd2_vmsep_journal_check_available_features s2 cpt ro icpt then Inr (False, s2)
        else let icpt = wanted_incompat icpt; cpt = wanted_compat cpt icpt;
                 (ok, s2) = (if icpt AND JBD2_FEATURE_INCOMPAT_CSUM_V3 \<noteq> 0 \<and>
                               s_feature_incompat (j_superblock s2) AND JBD2_FEATURE_INCOMPAT_CSUM_V3 = 0
                            then enable_csum_v3 E s2 else (True, s2))
             in if \<not> ok then Inr (False, s2) else Inr (True, turn_on cpt ro icpt s2)) any_err
        (\<lambda>(_, s'). revokes s' = revokes s)"
      unfolding Let_def [of "wanted_incompat icpt"] Let_def [of "wanted_compat cpt _"] wp_if
      using s2 csum [OF s2] by simp
  qed
qed

section \<open>Forgotten metadata is revoked\<close>

text \<open>The table of pending revokes, and that the block has been entered into it for the transaction.\<close>

definition pending_revoke :: "jstate \<Rightarrow> u64 \<Rightarrow> tid_t \<Rightarrow> bool" where
  "pending_revoke s blocknr tid =
     (\<exists>i tbl. j_revoke s = Some i \<and> revoke_table_of s i = Some tbl \<and> revoke_wf tbl \<and> revoke_map tbl blocknr = Some tid)"

definition revoke_ready :: "jstate \<Rightarrow> bool" where
  "revoke_ready s = (\<exists>i tbl. j_revoke s = Some i \<and> revoke_table_of s i = Some tbl \<and> revoke_wf tbl)"

lemma revoke_ready_as:
  assumes "revokes s' = revokes s" and "revoke_ready s"
  shows "revoke_ready s'"
proof -
  have "j_revoke s' = j_revoke s" "j_revoke_table0 s' = j_revoke_table0 s" "j_revoke_table1 s' = j_revoke_table1 s"
    using assms(1) by (simp_all add: revokes_def)
  then have "j_revoke s' = j_revoke s" "revoke_table_of s' i = revoke_table_of s i" for i by (simp_all add: revoke_table_of_def)
  then show ?thesis using assms(2) by (simp add: revoke_ready_def)
qed

lemma insert_pending:
  assumes "revoke_ready s"
  shows "wp (with_revoke s (\<lambda>tbl. insert_revoke_hash mem tbl blocknr tid)) no_err (\<lambda>(err, s').
    (err = 0 \<longleftrightarrow> mem) \<and> (mem \<longrightarrow> pending_revoke s' blocknr tid))"
proof -
  obtain i tbl where i: "j_revoke s = Some i" "revoke_table_of s i = Some tbl" and wf: "revoke_wf tbl"
    using assms by (auto simp: revoke_ready_def)
  obtain err t' where t': "insert_revoke_hash mem tbl blocknr tid = (err, t')" by fastforce
  have err: "err = 0 \<longleftrightarrow> mem" using t' by (auto simp: insert_revoke_hash_def Let_def split: if_splits)
  have "revoke_wf t' \<and> revoke_map t' blocknr = Some tid" if mem
    using insert_revoke_hash_wf [OF wf, of blocknr tid] insert_revoke_hash_map [OF wf, of blocknr tid] t' that by simp
  moreover have "with_revoke s (\<lambda>tbl. insert_revoke_hash mem tbl blocknr tid) = Inr (err, set_revoke_table_of s i (Some t'))"
    using i t' by (simp add: with_revoke_def)
  moreover have "j_revoke (set_revoke_table_of s i (Some t')) = Some i" "revoke_table_of (set_revoke_table_of s i (Some t')) i = Some t'"
    using i(1) by (simp_all add: set_revoke_table_of_def revoke_table_of_def)
  ultimately show ?thesis using err by (auto simp: pending_revoke_def)
qed

lemma journal_revoke_pending:
  assumes "revoke_ready s" and "h_transaction h = Some t" and "trs s t = Some tr"
  shows "wp (jbd2_vmsep_journal_revoke E s h blocknr bh) any_err (\<lambda>(err, _, s').
    err = 0 \<longrightarrow> pending_revoke s' blocknr (t_tid tr))"
proof -
  have mark: "wp (mark_revoked E s2 h b given) any_err P"
    if "revoke_ready s2" "\<And>err h s3. revoke_ready s3 \<Longrightarrow> P (err, h, s3)" for s2 b given P
    by (rule wp_mono [OF mark_revoked_revokes]) (use that revoke_ready_as in auto)
  have ins: "wp (with_revoke s2 (\<lambda>tbl. insert_revoke_hash mem tbl blocknr (t_tid tr))) any_err P"
    if "revoke_ready s2" "\<And>err s3. (err = 0 \<longrightarrow> pending_revoke s3 blocknr (t_tid tr)) \<Longrightarrow> P (err, s3)" for s2 mem P
    by (rule wp_weaken [OF insert_pending [OF that(1)]]) (use that(2) in auto)
  have get: "revoke_ready (get_bh b s2)" if "revoke_ready s2" for b s2 using revoke_ready_as [of "get_bh b s2" s2] that by simp
  show ?thesis unfolding jbd2_vmsep_journal_revoke_def using assms
    apply (simp add: wp_simps)
    apply (rule wp_mono [OF set_features_revokes])
    apply (auto simp: wp_simps dest: revoke_ready_as split: option.split intro!: mark ins get)
    done
qed

text \<open>C11: metadata that is freed is revoked. When \<open>ext4_forget\<close> returns 0 for a metadata block, or
  for a data block that is journalled, and the mode is not full data journalling, the block is in the table of
  pending revokes for the transaction of the handle, whether or not its buffer was in memory.\<close>

theorem forget_revokes:
  assumes h: "journal_info s = Handle h e" "h_transaction h = Some t" and tr: "trs (jst s) t = Some tr"
    and rdy: "revoke_ready (jst s)" and mode: "s_data_flags s \<noteq> JOURNAL_DATA"
    and meta: "is_metadata \<or> ext4_should_journal_data s (s_inodes s i) = Inr True"
    and ret: "ext4_forget X s is_metadata i bh blocknr = Inr (0, s')"
  shows "pending_revoke (jst s') blocknr (t_tid tr)"
proof -
  let ?r = "jbd2_vmsep_journal_revoke (jenv X) (jst s) h blocknr bh"
  have "ext4_forget X s is_metadata i bh blocknr =
    bind_res (with_handle s h e ?r) (\<lambda>(err, s). if err \<noteq> 0 then bind_res (ext4_abort X s) (\<lambda>s. Inr (err, s)) else Inr (0, s))"
    using h mode meta by (auto simp: ext4_forget_def on_handle_def ext4_handle_valid_def)
  from trans [OF this [symmetric] ret] have "with_handle s h e ?r = Inr (0, s')" by (auto simp: res_simps split: if_splits)
  then obtain err' h' j where r: "?r = Inr (err', h', j)" "abort_on err' (set_handle h' e (s\<lparr>jst := j\<rparr>)) = Inr (0, s')"
    by (cases ?r) (auto simp: with_handle_def)
  then have "err' = 0" "jst s' = j" by (auto simp: abort_on_def set_handle_def res_simps split: if_splits)
  then show ?thesis using journal_revoke_pending [OF rdy h(2) tr, of "jenv X" blocknr bh] r(1) by simp
qed

definition ex_revoke_fs :: ext4_state where
  "ex_revoke_fs = ex_fs\<lparr>journal_info := Handle ex_handle 0,
     jst := (jst ex_fs)\<lparr>j_revoke_table0 := Some ex_revoke_table, j_revoke_table1 := Some ex_revoke_table, j_revoke := Some True\<rparr>\<rparr>"

theorem forget_revokes_witness:
  "\<exists>s'. ext4_forget ex_ext4_env ex_revoke_fs True 13 None 5 = Inr (0, s') \<and> pending_revoke (jst s') 5 7"
proof -
  have h: "journal_info ex_revoke_fs = Handle ex_handle 0" "h_transaction ex_handle = Some 0"
    "trs (jst ex_revoke_fs) 0 = Some (ex_transaction\<lparr>t_nr_buffers := 2, t_buffers := [1, 2], t_updates := 1\<rparr>)"
    "s_data_flags ex_revoke_fs \<noteq> JOURNAL_DATA"
    by (simp_all add: ex_revoke_fs_def ex_handle_def ex_fs_def)
  have rdy: "revoke_ready (jst ex_revoke_fs)"
    using ex_revoke_table_wf by (auto simp: revoke_ready_def ex_revoke_fs_def revoke_table_of_def)
  have "\<exists>s'. ext4_forget ex_ext4_env ex_revoke_fs True 13 None 5 = Inr (0, s')"
    using h by (simp add: ext4_forget_def on_handle_def ext4_handle_valid_def jbd2_vmsep_journal_revoke_def with_handle_def
      abort_on_def jbd2_vmsep_journal_set_features_def jbd2_vmsep_journal_check_used_features_def ex_revoke_fs_def ex_fs_def ex_defs
      ex_ext4_env_def with_revoke_def revoke_table_of_def insert_revoke_hash_def Let_def)
  then obtain s' where s': "ext4_forget ex_ext4_env ex_revoke_fs True 13 None 5 = Inr (0, s')" by blast
  show ?thesis using forget_revokes [OF h(1-3) rdy h(4) disjI1 s'] s' by (simp add: ex_transaction_def)
qed

section \<open>An aborted file system\<close>

lemma abort_journal_flags:
  "wp (abort_journal X s) any_err (\<lambda>s'. s_rdonly s' = s_rdonly s \<and> s_aborted s' = s_aborted s \<and> s_error_fs s' = s_error_fs s \<and>
     s_shutdown s' = s_shutdown s \<and> (s_journal s \<longrightarrow> is_journal_aborted (jst s')))"
proof -
  have "wp (jbd2_vmsep_journal_abort csum j n) any_err P" if "\<And>j'. is_journal_aborted j' \<Longrightarrow> P j'" for csum j n P
    unfolding jbd2_vmsep_journal_abort_def
    by (rule wp_mono [OF journal_abort_soft_same_log]) (use that in \<open>auto simp: is_journal_aborted_def\<close>)
  then show ?thesis by (simp add: abort_journal_def wp_simps)
qed

lemma save_error_info_simps [simp]:
  "s_rdonly (save_error_info X s) = s_rdonly s" "s_aborted (save_error_info X s) = s_aborted s" "s_error_fs (save_error_info X s)"
  "s_shutdown (save_error_info X s) = s_shutdown s" "jst (save_error_info X s) = jst s" "s_journal (save_error_info X s) = s_journal s"
  by (simp_all add: save_error_info_def save_error_info_raw_def ext4_commit_super_def Let_def)

text \<open>C13: an aborted file system stays as it is on the disk. On a file system that is not shut down, unless \<open>ext4_abort\<close> panics, it
  leaves the file system read-only and marked as having errors, with its journal aborted if it was writable, and
  from then on no handle can be started: every attempt returns \<open>-EROFS\<close> and changes nothing.\<close>

theorem abort_blocks_start:
  assumes "ext4_abort X s = Inr s'" and "\<not> s_shutdown s"
  shows "s_rdonly s' \<and> s_error_fs s' \<and>
    (\<not> s_rdonly s \<longrightarrow> s_aborted s' \<and> (s_journal s \<longrightarrow> is_journal_aborted (jst s'))) \<and>
    (\<forall>K blocks rsv. ext4_journal_start_sb X K s' blocks rsv = Some (Inr (- EROFS, s')))"
proof -
  let ?s = "save_error_info X s"
  let ?Q = "\<lambda>s'. s_rdonly s' \<and> s_error_fs s' \<and> \<not> s_shutdown s' \<and>
    (\<not> s_rdonly s \<longrightarrow> s_aborted s' \<and> (s_journal s \<longrightarrow> is_journal_aborted (jst s')))"
  have panic: "wp (errors_panic s1) any_err ?Q" if "?Q s1" for s1 using that by (simp add: errors_panic_def)
  have "wp (abort_journal X (?s\<lparr>s_aborted := True, s_rdonly := True\<rparr>)) any_err (\<lambda>s1. wp (errors_panic (save_error_info X s1)) any_err ?Q)"
    by (rule wp_mono [OF abort_journal_flags], rule panic) (use assms(2) in simp)
  then have "wp (ext4_abort X s) any_err ?Q"
    using assms(2) panic [of ?s] by (cases "s_rdonly s") (simp_all add: ext4_abort_def Let_def wp_simps)
  then have q: "?Q s'" using assms(1) by simp
  then have "ext4_journal_start_sb X K s' blocks rsv = Some (Inr (- EROFS, s'))" for K blocks rsv
    by (simp add: ext4_journal_start_sb_def ext4_journal_check_start_def)
  then show ?thesis using q by blast
qed

theorem abort_blocks_start_witness:
  "\<exists>s'. ext4_abort ex_ext4_env ex_fs = Inr s' \<and> is_journal_aborted (jst s') \<and>
    ext4_journal_start_sb ex_ext4_env ex_thread s' 8 0 = Some (Inr (- EROFS, s'))"
proof -
  have "\<exists>s'. ext4_abort ex_ext4_env ex_fs = Inr s'"
    by (simp add: ext4_abort_def save_error_info_def save_error_info_raw_def ext4_commit_super_def abort_journal_def errors_panic_def
      jbd2_vmsep_journal_abort_def journal_abort_soft_def journal_abort_hard_def log_start_commit_raw_def ex_fs_def ex_ext4_env_def
      ex_defs Let_def update_sb_errno_io_def write_superblock_io_def)
  then obtain s' where s': "ext4_abort ex_ext4_env ex_fs = Inr s'" by blast
  have "\<not> s_shutdown ex_fs" "\<not> s_rdonly ex_fs" "s_journal ex_fs" by (simp_all add: ex_fs_def)
  then show ?thesis using abort_blocks_start [OF s'] s' by simp
qed

section \<open>Handles without a journal\<close>

text \<open>Handles without a journal nest. Below the bound of 4096 nested handles a start and the
  matching stop give the state back; a start at the bound fails its \<open>BUG_ON\<close>; and the stop of the last handle that
  can be started takes its number for a pointer.\<close>

theorem nojournal_nesting:
  assumes "\<not> s_journal s" and "\<not> s_shutdown s" and "\<not> s_rdonly s" and "journal_info s = Nojournal n"
  shows "(n < 4095 \<longrightarrow> (\<exists>s1. ext4_journal_start_sb X K s blocks rsv = Some (Inr (0, s1)) \<and>
      journal_info s1 = Nojournal (n + 1) \<and> ext4_journal_stop X K s1 = Some (Inr (0, s)))) \<and>
    (n \<ge> 4096 \<longrightarrow> ext4_journal_start_sb X K s blocks rsv = Some (Inl BUG)) \<and>
    (n = 4095 \<longrightarrow> (\<exists>s1. ext4_journal_start_sb X K s blocks rsv = Some (Inr (0, s1)) \<and>
      ext4_journal_stop X K s1 = Some (Inl OOPS)))"
proof -
  have start: "ext4_journal_start_sb X K s blocks rsv =
    (if n \<ge> 4096 then Some (Inl BUG) else Some (Inr (0, s\<lparr>journal_info := Nojournal (n + 1)\<rparr>)))"
    using assms by (simp add: ext4_journal_start_sb_def ext4_journal_check_start_def ext4_get_nojournal_def EXT4_NOJOURNAL_MAX_REF_COUNT_def)
  have "n + 1 < 4096 \<and> n + 1 \<noteq> 0 \<and> \<not> 4096 \<le> n" if "n < 4095"
  proof -
    have "unat n < 4095" using that by (simp add: word_less_nat_alt)
    then have "unat (n + 1) = unat n + 1" by (subst unat_add_small) simp_all
    then show ?thesis using \<open>unat n < 4095\<close> by (auto simp: word_less_nat_alt word_le_nat_alt simp flip: unat_eq_0)
  qed
  then show ?thesis
    using assms(4) by (auto simp: start ext4_journal_stop_def on_handle_ro_def ext4_handle_valid_def ext4_put_nojournal_def
        EXT4_NOJOURNAL_MAX_REF_COUNT_def)
qed

theorem nojournal_nesting_witness:
  "\<exists>s1. ext4_journal_start_sb ex_ext4_env ex_thread (ex_fs\<lparr>s_journal := False\<rparr>) 8 0 = Some (Inr (0, s1)) \<and>
    ext4_journal_stop ex_ext4_env ex_thread s1 = Some (Inr (0, ex_fs\<lparr>s_journal := False\<rparr>))"
proof -
  have h: "\<not> s_journal (ex_fs\<lparr>s_journal := False\<rparr>)" "\<not> s_shutdown (ex_fs\<lparr>s_journal := False\<rparr>)"
    "\<not> s_rdonly (ex_fs\<lparr>s_journal := False\<rparr>)" "journal_info (ex_fs\<lparr>s_journal := False\<rparr>) = Nojournal 0"
    by (simp_all add: ex_fs_def)
  show ?thesis using nojournal_nesting [OF h, of ex_ext4_env ex_thread 8 0] by auto
qed

end
