(* ===== verification/Ext4_Hash.thy ===== *)
theory Ext4_Hash
  imports Jbd2_Prelude
begin

unbundle bit_operations_syntax

text \<open>
  The hash of file names, \<open>src/kernel/fs/ext4/hash.c\<close>: the legacy hash, half MD4 and TEA, each for signed and for
  unsigned characters, and \<open>ext4fs_dirhash\<close>, which selects one of them. A name is the list of its \<open>len\<close>
  bytes. The words of the arrays \<open>buf\<close> and \<open>in\<close> are lists. The hash of a name is what the index of a directory
  is ordered by: its lowest bit marks collisions and its greatest value marks the end of the directory, and
  no name may have either.
\<close>

section \<open>The transformations\<close>

definition rol32 :: "u32 \<Rightarrow> nat \<Rightarrow> u32" where
  "rol32 w shift = (push_bit shift w OR drop_bit (nat (- int shift mod 32)) w)"

definition DELTA :: u32 where "DELTA = 0x9E3779B9"

fun TEA_rounds :: "nat \<Rightarrow> u32 list \<Rightarrow> u32 \<Rightarrow> u32 \<Rightarrow> u32 \<Rightarrow> u32 \<times> u32" where
  "TEA_rounds 0 in_w sm b0 b1 = (b0, b1)"
| "TEA_rounds (Suc n) in_w sm b0 b1 =
     (let a = in_w ! 0; b = in_w ! 1; c = in_w ! 2; d = in_w ! 3;
          sm = sm + DELTA;
          b0 = b0 + ((push_bit 4 b1 + a) XOR (b1 + sm) XOR (drop_bit 5 b1 + b));
          b1 = b1 + ((push_bit 4 b0 + c) XOR (b0 + sm) XOR (drop_bit 5 b0 + d))
      in TEA_rounds n in_w sm b0 b1)"

definition TEA_transform :: "u32 list \<Rightarrow> u32 list \<Rightarrow> u32 list" where
  "TEA_transform buf in_w =
     (let (b0, b1) = TEA_rounds 16 in_w 0 (buf ! 0) (buf ! 1)
      in buf[0 := buf ! 0 + b0, 1 := buf ! 1 + b1])"

definition MD4_F :: "u32 \<Rightarrow> u32 \<Rightarrow> u32 \<Rightarrow> u32" where "MD4_F x y z = (z XOR (x AND (y XOR z)))"
definition MD4_G :: "u32 \<Rightarrow> u32 \<Rightarrow> u32 \<Rightarrow> u32" where "MD4_G x y z = ((x AND y) + ((x XOR y) AND z))"
definition MD4_H :: "u32 \<Rightarrow> u32 \<Rightarrow> u32 \<Rightarrow> u32" where "MD4_H x y z = (x XOR y XOR z)"

definition MD4_ROUND :: "(u32 \<Rightarrow> u32 \<Rightarrow> u32 \<Rightarrow> u32) \<Rightarrow> u32 \<Rightarrow> u32 \<Rightarrow> u32 \<Rightarrow> u32 \<Rightarrow> u32 \<Rightarrow> nat \<Rightarrow> u32" where
  "MD4_ROUND f a b c d x s = rol32 (a + (f b c d + x)) s"

text \<open>The constants, in octal in the code: \<open>013240474631\<close> and \<open>015666365641\<close>.\<close>

definition MD4_K1 :: u32 where "MD4_K1 = 0"
definition MD4_K2 :: u32 where "MD4_K2 = 0x5A827999"
definition MD4_K3 :: u32 where "MD4_K3 = 0x6ED9EBA1"

definition half_md4_transform :: "u32 list \<Rightarrow> u32 list \<Rightarrow> u32 list" where
  "half_md4_transform buf in_w =
     (let a = buf ! 0; b = buf ! 1; c = buf ! 2; d = buf ! 3;
          a = MD4_ROUND MD4_F a b c d (in_w ! 0 + MD4_K1) 3;
          d = MD4_ROUND MD4_F d a b c (in_w ! 1 + MD4_K1) 7;
          c = MD4_ROUND MD4_F c d a b (in_w ! 2 + MD4_K1) 11;
          b = MD4_ROUND MD4_F b c d a (in_w ! 3 + MD4_K1) 19;
          a = MD4_ROUND MD4_F a b c d (in_w ! 4 + MD4_K1) 3;
          d = MD4_ROUND MD4_F d a b c (in_w ! 5 + MD4_K1) 7;
          c = MD4_ROUND MD4_F c d a b (in_w ! 6 + MD4_K1) 11;
          b = MD4_ROUND MD4_F b c d a (in_w ! 7 + MD4_K1) 19;
          a = MD4_ROUND MD4_G a b c d (in_w ! 1 + MD4_K2) 3;
          d = MD4_ROUND MD4_G d a b c (in_w ! 3 + MD4_K2) 5;
          c = MD4_ROUND MD4_G c d a b (in_w ! 5 + MD4_K2) 9;
          b = MD4_ROUND MD4_G b c d a (in_w ! 7 + MD4_K2) 13;
          a = MD4_ROUND MD4_G a b c d (in_w ! 0 + MD4_K2) 3;
          d = MD4_ROUND MD4_G d a b c (in_w ! 2 + MD4_K2) 5;
          c = MD4_ROUND MD4_G c d a b (in_w ! 4 + MD4_K2) 9;
          b = MD4_ROUND MD4_G b c d a (in_w ! 6 + MD4_K2) 13;
          a = MD4_ROUND MD4_H a b c d (in_w ! 3 + MD4_K3) 3;
          d = MD4_ROUND MD4_H d a b c (in_w ! 7 + MD4_K3) 9;
          c = MD4_ROUND MD4_H c d a b (in_w ! 2 + MD4_K3) 11;
          b = MD4_ROUND MD4_H b c d a (in_w ! 6 + MD4_K3) 15;
          a = MD4_ROUND MD4_H a b c d (in_w ! 1 + MD4_K3) 3;
          d = MD4_ROUND MD4_H d a b c (in_w ! 5 + MD4_K3) 9;
          c = MD4_ROUND MD4_H c d a b (in_w ! 0 + MD4_K3) 11;
          b = MD4_ROUND MD4_H b c d a (in_w ! 4 + MD4_K3) 15
      in [buf ! 0 + a, buf ! 1 + b, buf ! 2 + c, buf ! 3 + d])"

section \<open>Names as words\<close>

text \<open>
  The functions for signed and for unsigned characters differ in the conversion of a character to an
  \<open>int\<close>; it is the argument \<open>ext\<close> of what they share.
\<close>

definition signed_char :: "byte \<Rightarrow> u32" where "signed_char c = scast c"
definition unsigned_char :: "byte \<Rightarrow> u32" where "unsigned_char c = ucast c"

fun dx_hack_loop :: "(byte \<Rightarrow> u32) \<Rightarrow> byte list \<Rightarrow> u32 \<Rightarrow> u32 \<Rightarrow> u32" where
  "dx_hack_loop ext [] hash0 hash1 = push_bit 1 hash0"
| "dx_hack_loop ext (c # cs) hash0 hash1 =
     (let hash = hash1 + (hash0 XOR (ext c * 7152373));
          hash = (if hash AND 0x80000000 \<noteq> 0 then hash - 0x7fffffff else hash)
      in dx_hack_loop ext cs hash hash0)"

definition dx_hack_hash_unsigned :: "byte list \<Rightarrow> u32" where
  "dx_hack_hash_unsigned name = dx_hack_loop unsigned_char name 0x12a3fe2d 0x37abe8f9"

definition dx_hack_hash_signed :: "byte list \<Rightarrow> u32" where
  "dx_hack_hash_signed name = dx_hack_loop signed_char name 0x12a3fe2d 0x37abe8f9"

fun str2hashbuf_loop :: "(byte \<Rightarrow> u32) \<Rightarrow> u32 \<Rightarrow> byte list \<Rightarrow> nat \<Rightarrow> u32 \<Rightarrow> u32 list \<Rightarrow> int \<Rightarrow> u32 \<times> u32 list \<times> int" where
  "str2hashbuf_loop ext pad [] i val buf num = (val, buf, num)"
| "str2hashbuf_loop ext pad (c # cs) i val buf num =
     (let val = (if i mod 4 = 0 then pad else val);
          val = ext c + push_bit 8 val
      in if i mod 4 = 3 then str2hashbuf_loop ext pad cs (i + 1) pad (buf @ [val]) (num - 1)
         else str2hashbuf_loop ext pad cs (i + 1) val buf num)"

definition str2hashbuf :: "(byte \<Rightarrow> u32) \<Rightarrow> byte list \<Rightarrow> nat \<Rightarrow> u32 list" where
  "str2hashbuf ext msg num =
     (let pad = word_of_nat (length msg) OR push_bit 8 (word_of_nat (length msg));
          pad = pad OR push_bit 16 pad;
          (val, buf, n) = str2hashbuf_loop ext pad (take (num * 4) msg) 0 pad [] (int num);
          n = n - 1
      in buf @ (if n \<ge> 0 then [val] else []) @ replicate (nat n) pad)"

definition str2hashbuf_signed :: "byte list \<Rightarrow> nat \<Rightarrow> u32 list" where
  "str2hashbuf_signed = str2hashbuf signed_char"

definition str2hashbuf_unsigned :: "byte list \<Rightarrow> nat \<Rightarrow> u32 list" where
  "str2hashbuf_unsigned = str2hashbuf unsigned_char"

section \<open>The hash of a name\<close>

function half_md4_loop :: "(byte list \<Rightarrow> nat \<Rightarrow> u32 list) \<Rightarrow> byte list \<Rightarrow> u32 list \<Rightarrow> u32 list" where
  "half_md4_loop to_words p buf =
     (if length p > 0 then half_md4_loop to_words (drop 32 p) (half_md4_transform buf (to_words p 8)) else buf)"
  by auto
termination by (relation "measure (\<lambda>(f, p, buf). length p)") auto

function TEA_loop :: "(byte list \<Rightarrow> nat \<Rightarrow> u32 list) \<Rightarrow> byte list \<Rightarrow> u32 list \<Rightarrow> u32 list" where
  "TEA_loop to_words p buf =
     (if length p > 0 then TEA_loop to_words (drop 16 p) (TEA_transform buf (to_words p 4)) else buf)"
  by auto
termination by (relation "measure (\<lambda>(f, p, buf). length p)") auto

declare half_md4_loop.simps [simp del] TEA_loop.simps [simp del]

abbreviation "DX_HASH_LEGACY \<equiv> 0 :: int"
abbreviation "DX_HASH_HALF_MD4 \<equiv> 1 :: int"
abbreviation "DX_HASH_TEA \<equiv> 2 :: int"
abbreviation "DX_HASH_LEGACY_UNSIGNED \<equiv> 3 :: int"
abbreviation "DX_HASH_HALF_MD4_UNSIGNED \<equiv> 4 :: int"
abbreviation "DX_HASH_TEA_UNSIGNED \<equiv> 5 :: int"

definition EXT4_HTREE_EOF_32BIT :: u64 where "EXT4_HTREE_EOF_32BIT = push_bit 31 1 - 1"

record dx_hash_info =
  hi_hash :: u32
  hi_minor_hash :: u32
  hash_version :: int
  hi_seed :: "u32 list option"

definition hash_seed :: "u32 list option \<Rightarrow> u32 list" where
  "hash_seed seed =
     (case seed of
        Some sd \<Rightarrow> if \<exists>i\<in>set [0..<4]. sd ! i \<noteq> 0 then take 4 sd else [0x67452301, 0xefcdab89, 0x98badcfe, 0x10325476]
      | None \<Rightarrow> [0x67452301, 0xefcdab89, 0x98badcfe, 0x10325476])"

text \<open>The hash and the minor hash that the switch selects, \<open>None\<close> for an unknown version.\<close>

definition raw_hash :: "byte list \<Rightarrow> int \<Rightarrow> u32 list \<Rightarrow> (u32 \<times> u32) option" where
  "raw_hash name version buf =
     (if version = DX_HASH_LEGACY_UNSIGNED then Some (dx_hack_hash_unsigned name, 0)
      else if version = DX_HASH_LEGACY then Some (dx_hack_hash_signed name, 0)
      else if version = DX_HASH_HALF_MD4_UNSIGNED then
        (let buf = half_md4_loop str2hashbuf_unsigned name buf in Some (buf ! 1, buf ! 2))
      else if version = DX_HASH_HALF_MD4 then
        (let buf = half_md4_loop str2hashbuf_signed name buf in Some (buf ! 1, buf ! 2))
      else if version = DX_HASH_TEA_UNSIGNED then
        (let buf = TEA_loop str2hashbuf_unsigned name buf in Some (buf ! 0, buf ! 1))
      else if version = DX_HASH_TEA then
        (let buf = TEA_loop str2hashbuf_signed name buf in Some (buf ! 0, buf ! 1))
      else None)"

definition ext4fs_dirhash :: "byte list \<Rightarrow> dx_hash_info \<Rightarrow> int \<times> dx_hash_info" where
  "ext4fs_dirhash name hinfo =
     (case raw_hash name (hash_version hinfo) (hash_seed (hi_seed hinfo)) of
        None \<Rightarrow> (- 1, hinfo\<lparr>hi_hash := 0\<rparr>)
      | Some (hash, minor_hash) \<Rightarrow>
          let hash = hash AND NOT 1;
              hash = (if ucast hash = push_bit 1 EXT4_HTREE_EOF_32BIT then ucast (push_bit 1 (EXT4_HTREE_EOF_32BIT - 1)) else hash)
          in (0, hinfo\<lparr>hi_hash := hash, hi_minor_hash := minor_hash\<rparr>))"

section \<open>The words that are hashed\<close>

lemma str2hashbuf_loop_length:
  assumes "str2hashbuf_loop ext pad cs i val buf num = (v, b, n)"
  shows "int (length b) = int (length buf) + int ((i + length cs) div 4) - int (i div 4) \<and>
    n = num - (int ((i + length cs) div 4) - int (i div 4))"
  using assms
proof (induction cs arbitrary: i val buf num)
  case (Cons c cs)
  have "i + length (c # cs) = i + 1 + length cs" by simp
  note l = this
  show ?case
  proof (cases "i mod 4 = 3")
    case True
    then have "(i + 1) div 4 = i div 4 + 1" by (simp add: div_Suc mod_Suc)
    moreover have "str2hashbuf_loop ext pad cs (i + 1) pad (buf @ [ext c + push_bit 8 val]) (num - 1) = (v, b, n)"
      using Cons.prems True by (simp add: Let_def)
    note Cons.IH [OF this]
    ultimately show ?thesis unfolding l by simp
  next
    case False
    then have "(i + 1) div 4 = i div 4" by (simp add: div_Suc mod_Suc)
    moreover have "str2hashbuf_loop ext pad cs (i + 1) (ext c + push_bit 8 (if i mod 4 = 0 then pad else val)) buf num = (v, b, n)"
      using Cons.prems False by (simp add: Let_def)
    note Cons.IH [OF this]
    ultimately show ?thesis unfolding l by simp
  qed
qed simp

lemma str2hashbuf_length: "length (str2hashbuf ext msg num) = num"
proof -
  define pad :: u32 where "pad = (let pad = word_of_nat (length msg) OR push_bit 8 (word_of_nat (length msg)) in pad OR push_bit 16 pad)"
  obtain v b n where l: "str2hashbuf_loop ext pad (take (num * 4) msg) 0 pad [] (int num) = (v, b, n)" by (metis prod_cases3)
  have "int (length b) = int (min (length msg) (num * 4) div 4)" "n = int num - int (min (length msg) (num * 4) div 4)"
    using str2hashbuf_loop_length [OF l] by (simp_all add: min.commute)
  moreover have "min (length msg) (num * 4) div 4 \<le> num" by linarith
  ultimately show ?thesis using l by (auto simp: str2hashbuf_def pad_def Let_def)
qed

lemma str2hashbuf_loop_cong:
  "(\<And>c. c \<in> set cs \<Longrightarrow> ext c = ext' c) \<Longrightarrow>
   str2hashbuf_loop ext pad cs i val buf num = str2hashbuf_loop ext' pad cs i val buf num"
  by (induction cs arbitrary: i val buf num) (simp_all add: Let_def)

lemma str2hashbuf_cong:
  "(\<And>c. c \<in> set msg \<Longrightarrow> ext c = ext' c) \<Longrightarrow> str2hashbuf ext msg num = str2hashbuf ext' msg num"
  unfolding str2hashbuf_def Let_def
  by (subst str2hashbuf_loop_cong [of "take (num * 4) msg" ext ext']) (auto dest: in_set_takeD)

lemma dx_hack_loop_cong:
  "(\<And>c. c \<in> set cs \<Longrightarrow> ext c = ext' c) \<Longrightarrow> dx_hack_loop ext cs h0 h1 = dx_hack_loop ext' cs h0 h1"
  by (induction cs arbitrary: h0 h1) (simp_all add: Let_def)

text \<open>Hashing in blocks does not depend on words of a block that the name does not have.\<close>

lemma half_md4_loop_cong:
  "(\<And>k. f (drop k p) 8 = g (drop k p) 8) \<Longrightarrow> half_md4_loop f p buf = half_md4_loop g p buf"
proof (induction f p buf rule: half_md4_loop.induct)
  case (1 f p buf)
  have "f (drop k (drop 32 p)) 8 = g (drop k (drop 32 p)) 8" for k using "1.prems" [of "k + 32"] by simp
  then show ?case using "1.IH" "1.prems" [of 0]
    by (subst half_md4_loop.simps, subst half_md4_loop.simps) simp
qed

lemma TEA_loop_cong:
  "(\<And>k. f (drop k p) 4 = g (drop k p) 4) \<Longrightarrow> TEA_loop f p buf = TEA_loop g p buf"
proof (induction f p buf rule: TEA_loop.induct)
  case (1 f p buf)
  have "f (drop k (drop 16 p)) 4 = g (drop k (drop 16 p)) 4" for k using "1.prems" [of "k + 16"] by simp
  then show ?case using "1.IH" "1.prems" [of 0]
    by (subst TEA_loop.simps, subst TEA_loop.simps) simp
qed

text \<open>A character of ASCII is the same number with and without a sign.\<close>

lemma ascii_char:
  assumes "c < 128"
  shows "signed_char c = unsigned_char c"
proof -
  have "uint c < 2 ^ 7" using assms by (simp add: word_less_def)
  then have "sint c = uint c" using signed_take_bit_int_eq_self [of 7 "uint c"] uint_ge_0 [of c] by (simp add: sint_uint)
  then show ?thesis by (simp only: signed_char_def unsigned_char_def scast_eq ucast_eq)
qed

definition ascii :: "byte list \<Rightarrow> bool" where
  "ascii name = list_all (\<lambda>c. c < 128) name"

lemma ascii_str2hashbuf:
  assumes "ascii name"
  shows "str2hashbuf_signed (drop k name) num = str2hashbuf_unsigned (drop k name) num"
  unfolding str2hashbuf_signed_def str2hashbuf_unsigned_def
proof (rule str2hashbuf_cong)
  fix c assume "c \<in> set (drop k name)"
  then have "c < 128" using assms in_set_dropD [of c k name] by (simp add: ascii_def list_all_iff)
  then show "signed_char c = unsigned_char c" by (rule ascii_char)
qed

lemma raw_hash_ascii:
  assumes "ascii name" and "v \<in> {DX_HASH_LEGACY, DX_HASH_HALF_MD4, DX_HASH_TEA}"
  shows "raw_hash name v buf = raw_hash name (v + 3) buf"
  using assms(2) half_md4_loop_cong [of str2hashbuf_signed name str2hashbuf_unsigned, OF ascii_str2hashbuf [OF assms(1)]]
    TEA_loop_cong [of str2hashbuf_signed name str2hashbuf_unsigned, OF ascii_str2hashbuf [OF assms(1)]]
    dx_hack_loop_cong [of name signed_char unsigned_char] assms(1)
  by (auto simp: raw_hash_def dx_hack_hash_signed_def dx_hack_hash_unsigned_def ascii_def list_all_iff ascii_char)

section \<open>Properties of the hash\<close>

lemma raw_hash_None: "raw_hash name v buf = None \<longleftrightarrow> v < 0 \<or> v > 5"
  by (auto simp: raw_hash_def Let_def)

lemma EOF_value: "EXT4_HTREE_EOF_32BIT = 0x7fffffff"
  by (simp add: EXT4_HTREE_EOF_32BIT_def)

lemma even_hash:
  fixes h :: u32
  assumes "h AND 1 = 0" and "ucast h \<noteq> (0xfffffffe :: u64)"
  shows "ucast h < (0xfffffffe :: u64)"
proof -
  have "unat (h mod 2) = 0" using assms(1) by (simp add: and_one_eq)
  then have e: "unat h mod 2 = 0" by (simp add: unat_mod)
  have l: "unat h < 2 ^ 32" using unsigned_less [of h] by simp
  then have u: "unat (ucast h :: u64) = unat h" by (simp add: unsigned_ucast_eq take_bit_nat_eq_self)
  have "unat h \<noteq> 0xfffffffe" using assms(2) u by (auto simp: word_unat_eq_iff)
  moreover note l
  moreover have "unat h \<noteq> 0xffffffff" using e by auto
  ultimately have "unat h < 0xfffffffe" by simp
  then show ?thesis by (simp add: word_less_nat_alt u)
qed

text \<open>C32: the range of \<open>ext4fs_dirhash\<close>. It succeeds exactly for the six versions; for another one it returns -1 with
  hash 0. The hash of a name is even and less than the mark of the end of a directory. The buffers it hashes
  have all their words, for names of every length.\<close>

theorem dirhash_type:
  "case ext4fs_dirhash name hinfo of (ret, hinfo') \<Rightarrow>
     (ret = 0 \<or> ret = - 1 \<and> hi_hash hinfo' = 0) \<and> (ret = 0 \<longleftrightarrow> hash_version hinfo \<in> {0..5}) \<and>
     hi_hash hinfo' AND 1 = 0 \<and> ucast (hi_hash hinfo') < push_bit 1 EXT4_HTREE_EOF_32BIT \<and>
     length (str2hashbuf_signed name num) = num \<and> length (str2hashbuf_unsigned name num) = num"
proof (cases "raw_hash name (hash_version hinfo) (hash_seed (hi_seed hinfo))")
  case None
  then show ?thesis using raw_hash_None [of name "hash_version hinfo" "hash_seed (hi_seed hinfo)"]
    by (auto simp: ext4fs_dirhash_def EOF_value str2hashbuf_signed_def str2hashbuf_unsigned_def str2hashbuf_length)
next
  case (Some hm)
  then have v: "hash_version hinfo \<in> {0..5}" using raw_hash_None [of name "hash_version hinfo" "hash_seed (hi_seed hinfo)"] by auto
  have "(fst hm AND NOT 1) AND 1 = 0" by (simp add: and.assoc)
  from even_hash [OF this] show ?thesis using v Some
    by (auto simp: ext4fs_dirhash_def Let_def split_beta EOF_value and.assoc str2hashbuf_signed_def str2hashbuf_unsigned_def
        str2hashbuf_length)
qed

text \<open>C31: for a name in ASCII the three versions for unsigned characters are equivalent to those for signed
  ones: \<open>ext4fs_dirhash\<close> returns the same and stores the same hash and minor hash.\<close>

theorem dirhash_ascii:
  assumes "ascii name" and "v \<in> {DX_HASH_LEGACY, DX_HASH_HALF_MD4, DX_HASH_TEA}"
  shows "fst (ext4fs_dirhash name (hinfo\<lparr>hash_version := v\<rparr>)) = fst (ext4fs_dirhash name (hinfo\<lparr>hash_version := v + 3\<rparr>)) \<and>
    snd (ext4fs_dirhash name (hinfo\<lparr>hash_version := v\<rparr>)) =
      (snd (ext4fs_dirhash name (hinfo\<lparr>hash_version := v + 3\<rparr>)))\<lparr>hash_version := v\<rparr>"
  using raw_hash_ascii [OF assms] by (simp add: ext4fs_dirhash_def Let_def split_beta split: option.split)

theorem dirhash_ascii_witness:
  "let hinfo = \<lparr>hi_hash = 0, hi_minor_hash = 0, hash_version = 1, hi_seed = None\<rparr>
   in ascii [0x61, 0x62, 0x63] \<and>
      fst (ext4fs_dirhash [0x61, 0x62, 0x63] hinfo) = fst (ext4fs_dirhash [0x61, 0x62, 0x63] (hinfo\<lparr>hash_version := 4\<rparr>))"
  using dirhash_ascii [of "[0x61, 0x62, 0x63]" 1 "\<lparr>hi_hash = 0, hi_minor_hash = 0, hash_version = 1, hi_seed = None\<rparr>"]
  by (simp add: ascii_def)

end
