(* ===== verification/Ext4_Groups.thy ===== *)
theory Ext4_Groups
  imports Jbd2_Prelude
begin

unbundle bit_operations_syntax

text \<open>
  The layout of a file system in block groups, \<open>src/kernel/fs/ext4/balloc.c\<close> and \<open>ext4.h\<close>: the group and the offset of a
  block, which groups have a copy of the superblock and of the group descriptors, and how many clusters
  of a group hold metadata. The record \<open>ext4_sb\<close> has the fields of \<open>ext4_sb_info\<close> and of the superblock on disk that
  this code reads.
\<close>

type_synonym ext4_group_t = u32

record ext4_sb =
  s_first_data_block :: u32
  s_blocks_count :: u64
  s_blocksize_bits :: nat
  s_cluster_bits :: nat
  s_cluster_ratio :: u32
  s_blocks_per_group :: ulong
  s_groups_count :: ext4_group_t
  s_desc_per_block :: ulong
  s_gdb_count :: ulong
  s_itb_per_group :: ulong
  s_log_groups_per_flex :: nat
  s_first_meta_bg :: u32
  s_backup_bgs :: "u32 \<times> u32"
  s_reserved_gdt_blocks :: u16
  has_sparse_super :: bool
  has_sparse_super2 :: bool
  has_meta_bg :: bool
  opt_std_group_size :: bool
  opt_block_validity :: bool

text \<open>The blocks that a group descriptor names: \<open>ext4_block_bitmap\<close>, \<open>ext4_inode_bitmap\<close>, \<open>ext4_inode_table\<close>.\<close>

record ext4_group_desc =
  bg_block_bitmap :: u64
  bg_inode_bitmap :: u64
  bg_inode_table :: u64

section \<open>The group of a block\<close>

definition ext4_group_first_block_no :: "ext4_sb \<Rightarrow> ext4_group_t \<Rightarrow> u64" where
  "ext4_group_first_block_no sb group_no = ucast group_no * s_blocks_per_group sb + ucast (s_first_data_block sb)"

definition EXT4_B2C :: "ext4_sb \<Rightarrow> u64 \<Rightarrow> u64" where
  "EXT4_B2C sb blk = drop_bit (s_cluster_bits sb) blk"

definition EXT4_C2B :: "ext4_sb \<Rightarrow> u64 \<Rightarrow> u64" where
  "EXT4_C2B sb cluster = push_bit (s_cluster_bits sb) cluster"

definition EXT4_NUM_B2C :: "ext4_sb \<Rightarrow> u32 \<Rightarrow> u32" where
  "EXT4_NUM_B2C sb blks = drop_bit (s_cluster_bits sb) (blks + s_cluster_ratio sb - 1)"

text \<open>\<open>do_div\<close> divides by the lower 32 bits of the number of blocks in a group; a division by zero traps.\<close>

definition ext4_get_group_no_and_offset :: "ext4_sb \<Rightarrow> u64 \<Rightarrow> (ext4_group_t \<times> u32) res" where
  "ext4_get_group_no_and_offset sb blocknr =
     (let blocknr = blocknr - ucast (s_first_data_block sb);
          base = (ucast (s_blocks_per_group sb) :: u32)
      in if base = 0 then Inl OOPS
         else Inr (ucast (blocknr div ucast base), ucast (drop_bit (s_cluster_bits sb) (blocknr mod ucast base))))"

definition ext4_get_group_number :: "ext4_sb \<Rightarrow> u64 \<Rightarrow> ext4_group_t res" where
  "ext4_get_group_number sb block =
     (if opt_std_group_size sb
      then Inr (ucast (drop_bit (s_blocksize_bits sb + s_cluster_bits sb + 3) (block - ucast (s_first_data_block sb))))
      else bind_res (ext4_get_group_no_and_offset sb block) (\<lambda>(group, _). Inr group))"

definition ext4_block_in_group :: "ext4_sb \<Rightarrow> u64 \<Rightarrow> ext4_group_t \<Rightarrow> bool res" where
  "ext4_block_in_group sb block block_group = bind_res (ext4_get_group_number sb block) (\<lambda>g. Inr (g = block_group))"

definition num_clusters_in_group :: "ext4_sb \<Rightarrow> ext4_group_t \<Rightarrow> u32" where
  "num_clusters_in_group sb block_group =
     (let blocks = (if block_group = s_groups_count sb - 1
                    then ucast (s_blocks_count sb - ext4_group_first_block_no sb block_group)
                    else ucast (s_blocks_per_group sb))
      in EXT4_NUM_B2C sb blocks)"

section \<open>Copies of the superblock\<close>

text \<open>The loop does not return when \<open>b\<close> is 1; it is called with 3, 5 and 7.\<close>

partial_function (option) test_root :: "u32 \<Rightarrow> u32 \<Rightarrow> bool option" where
  "test_root a b =
     (if a < b then Some False
      else if a = b then Some True
      else if a mod b \<noteq> 0 then Some False
      else test_root (a div b) b)"

definition ext4_bg_has_super :: "ext4_sb \<Rightarrow> ext4_group_t \<Rightarrow> bool option" where
  "ext4_bg_has_super sb grp =
     (if grp = 0 then Some True
      else if has_sparse_super2 sb then Some (grp = fst (s_backup_bgs sb) \<or> grp = snd (s_backup_bgs sb))
      else if grp \<le> 1 \<or> \<not> has_sparse_super sb then Some True
      else if grp AND 1 = 0 then Some False
      else Option.bind (test_root grp 3) (\<lambda>r3. if r3 then Some True
        else Option.bind (test_root grp 5) (\<lambda>r5. if r5 then Some True else test_root grp 7)))"

definition ext4_bg_num_gdb_meta :: "ext4_sb \<Rightarrow> ext4_group_t \<Rightarrow> ulong" where
  "ext4_bg_num_gdb_meta sb grp =
     (let metagroup = ucast grp div s_desc_per_block sb;
          first = (ucast (metagroup * s_desc_per_block sb) :: ext4_group_t);
          last = ucast (ucast first + s_desc_per_block sb - 1)
      in if grp = first \<or> grp = first + 1 \<or> grp = last then 1 else 0)"

definition ext4_bg_num_gdb_nometa :: "ext4_sb \<Rightarrow> ext4_group_t \<Rightarrow> ulong option" where
  "ext4_bg_num_gdb_nometa sb grp =
     Option.bind (ext4_bg_has_super sb grp) (\<lambda>h.
       if \<not> h then Some 0
       else if has_meta_bg sb then Some (ucast (s_first_meta_bg sb))
       else Some (s_gdb_count sb))"

definition ext4_bg_num_gdb :: "ext4_sb \<Rightarrow> ext4_group_t \<Rightarrow> ulong option" where
  "ext4_bg_num_gdb sb grp =
     (let metagroup = ucast grp div s_desc_per_block sb
      in if \<not> has_meta_bg sb \<or> metagroup < ucast (s_first_meta_bg sb) then ext4_bg_num_gdb_nometa sb grp
         else Some (ext4_bg_num_gdb_meta sb grp))"

definition ext4_num_base_meta_clusters :: "ext4_sb \<Rightarrow> ext4_group_t \<Rightarrow> u32 option" where
  "ext4_num_base_meta_clusters sb block_group =
     Option.bind (ext4_bg_has_super sb block_group) (\<lambda>h. Option.bind (ext4_bg_num_gdb sb block_group) (\<lambda>gdb.
       let num = (if h then 1 else 0 :: u32);
           num = (if \<not> has_meta_bg sb \<or> ucast block_group < ucast (s_first_meta_bg sb) * s_desc_per_block sb
                  then (if num \<noteq> 0 then num + ucast gdb + ucast (s_reserved_gdt_blocks sb) else num)
                  else num + ucast gdb)
       in Some (EXT4_NUM_B2C sb num)))"

section \<open>The groups with a copy of the superblock\<close>

lemma test_root_power:
  assumes "unat b > 1"
  shows "test_root a b = Some (\<exists>k\<ge>1. unat a = unat b ^ k)"
proof (induction "unat a" arbitrary: a rule: less_induct)
  case less
  consider (lt) "a < b" | (eq) "a = b" | (rem) "a > b" "a mod b \<noteq> 0" | (dvd) "a > b" "a mod b = 0" by fastforce
  then show ?case
  proof cases
    case lt
    then have "unat a < unat b ^ k" if "k \<ge> 1" for k
      using that assms power_increasing [of 1 k "unat b"] by (simp add: word_less_nat_alt)
    then show ?thesis using lt by (subst test_root.simps) (auto simp: nat_neq_iff)
  next
    case eq
    then show ?thesis by (subst test_root.simps) (auto intro: exI [of _ 1])
  next
    case rem
    have "unat a mod unat b \<noteq> 0" using rem(2) by (simp add: word_unat_eq_iff unat_mod)
    then have "unat a \<noteq> unat b ^ k" if "k \<ge> 1" for k using that by (cases k) auto
    then show ?thesis using rem by (subst test_root.simps) auto
  next
    case dvd
    have u: "unat a mod unat b = 0" using dvd(2) by (simp add: word_unat_eq_iff unat_mod)
    then have a: "unat a = unat b * unat (a div b)" using mult_div_mod_eq [of "unat b" "unat a"] by (simp add: unat_div)
    have gt: "unat a > unat b" using dvd(1) by (simp add: word_less_nat_alt)
    then have "unat (a div b) < unat a" using assms by (simp add: unat_div)
    from less [OF this] have t: "test_root a b = Some (\<exists>k\<ge>1. unat (a div b) = unat b ^ k)"
      using dvd by (subst test_root.simps) auto
    have "(\<exists>k\<ge>1. unat (a div b) = unat b ^ k) \<longleftrightarrow> (\<exists>k\<ge>1. unat a = unat b ^ k)"
    proof
      assume "\<exists>k\<ge>1. unat (a div b) = unat b ^ k"
      then obtain k where "unat (a div b) = unat b ^ k" by blast
      then have "unat a = unat b ^ Suc k" using a by simp
      then show "\<exists>k\<ge>1. unat a = unat b ^ k" by (intro exI [of _ "Suc k"]) simp
    next
      assume "\<exists>k\<ge>1. unat a = unat b ^ k"
      then obtain k where k: "k \<ge> 1" "unat a = unat b ^ k" by blast
      then obtain m where m: "k = Suc m" by (cases k) auto
      have "unat (a div b) = unat b ^ m" using a k m assms by simp
      moreover have "m \<ge> 1" using gt k m by (cases m) auto
      ultimately show "\<exists>k\<ge>1. unat (a div b) = unat b ^ k" by blast
    qed
    then show ?thesis using t by simp
  qed
qed

lemma bg_has_super_returns: "\<exists>h. ext4_bg_has_super sb grp = Some h"
  using test_root_power [of 3 grp] test_root_power [of 5 grp] test_root_power [of 7 grp] by (auto simp: ext4_bg_has_super_def)

lemma bg_num_gdb_returns: "\<exists>n. ext4_bg_num_gdb sb grp = Some n"
  using bg_has_super_returns [of sb grp] by (auto simp: ext4_bg_num_gdb_def ext4_bg_num_gdb_nometa_def Let_def)

text \<open>C30: \<open>ext4_bg_has_super\<close> returns for every group, and is equivalent to the layout that the features define:
  group 0 always has a superblock; with \<open>sparse_super2\<close> so have the two groups of \<open>s_backup_bgs\<close>, with \<open>sparse_super\<close> group 1
  and the groups whose number is a power of 3, 5 or 7, and without either every group.\<close>

theorem bg_has_super_exact:
  "ext4_bg_has_super sb grp = Some (grp = 0 \<or>
     (if has_sparse_super2 sb then grp = fst (s_backup_bgs sb) \<or> grp = snd (s_backup_bgs sb)
      else grp = 1 \<or> \<not> has_sparse_super sb \<or> (\<exists>k. unat grp = 3 ^ k \<or> unat grp = 5 ^ k \<or> unat grp = 7 ^ k)))"
proof -
  have e: "Option.bind (test_root grp 3) (\<lambda>r3. if r3 then Some True
        else Option.bind (test_root grp 5) (\<lambda>r5. if r5 then Some True else test_root grp 7)) =
      Some (\<exists>k\<ge>1. unat grp = 3 ^ k \<or> unat grp = 5 ^ k \<or> unat grp = 7 ^ k)"
    using test_root_power [of 3 grp] test_root_power [of 5 grp] test_root_power [of 7 grp] by auto
  have "odd (unat grp)" if "unat grp = 3 ^ k \<or> unat grp = 5 ^ k \<or> unat grp = 7 ^ k" for k using that by auto
  moreover have "grp AND 1 = 0 \<longleftrightarrow> even (unat grp)"
    by (simp add: and_one_eq word_unat_eq_iff unat_mod even_iff_mod_2_eq_zero)
  ultimately have o: "grp AND 1 \<noteq> 0" if "\<exists>k. unat grp = 3 ^ k \<or> unat grp = 5 ^ k \<or> unat grp = 7 ^ k" using that by blast
  have p: "(\<exists>k\<ge>1. unat grp = 3 ^ k \<or> unat grp = 5 ^ k \<or> unat grp = 7 ^ k) \<longleftrightarrow>
      (\<exists>k. unat grp = 3 ^ k \<or> unat grp = 5 ^ k \<or> unat grp = 7 ^ k)" if "\<not> grp \<le> 1"
  proof
    assume "\<exists>k. unat grp = 3 ^ k \<or> unat grp = 5 ^ k \<or> unat grp = 7 ^ k"
    then obtain k where k: "unat grp = 3 ^ k \<or> unat grp = 5 ^ k \<or> unat grp = 7 ^ k" by blast
    have "k \<noteq> 0" using k that by (cases k) (auto simp: word_le_nat_alt)
    then show "\<exists>k\<ge>1. unat grp = 3 ^ k \<or> unat grp = 5 ^ k \<or> unat grp = 7 ^ k" using k by (intro exI [of _ k]) simp
  qed blast
  have "grp \<le> 1 \<longleftrightarrow> grp = 0 \<or> grp = 1" by (auto simp: word_le_nat_alt word_unat_eq_iff)
  then show ?thesis unfolding ext4_bg_has_super_def e using o p by auto
qed

section \<open>The group of a block\<close>

lemma div_group:
  fixes q r m :: u64
  assumes "r < m" and "unat q * unat m + unat r < 2 ^ 64"
  shows "(q * m + r) div m = q" "(q * m + r) mod m = r"
proof -
  have "unat (q * m) = unat q * unat m" using assms(2) by (subst unat_mult_lem [THEN iffD1]) auto
  then have u: "unat (q * m + r) = unat q * unat m + unat r" using assms(2) by (subst unat_add_lem [THEN iffD1]) auto
  have r: "unat r < unat m" using assms(1) by (simp add: word_less_nat_alt)
  show "(q * m + r) div m = q" using r by (simp add: word_unat_eq_iff unat_div u)
  show "(q * m + r) mod m = r" using r by (simp add: word_unat_eq_iff unat_mod u)
qed

lemma unat_ucast_fits:
  fixes w :: "'a::len word"
  assumes "unat w < 2 ^ LENGTH('b::len)"
  shows "unat (ucast w :: 'b word) = unat w"
  using assms by (simp only: unsigned_ucast_eq take_bit_nat_eq_self)

lemma ucast_32_64: "ucast (ucast (w :: u32) :: u64) = w"
proof -
  have "unat w < 2 ^ 32" using unsigned_less [of w] by simp
  then show ?thesis by (simp add: word_unat_eq_iff unat_ucast_fits unat_ucast64)
qed

text \<open>Blocks and groups are inverse to each other. The block at offset \<open>r\<close> of group \<open>g\<close> is in group \<open>g\<close>, at the
  cluster of \<open>r\<close>, and both ways to compute its group, by division and, for groups of the standard size, by
  a shift, find \<open>g\<close>.\<close>

theorem group_of_block:
  assumes "s_blocks_per_group sb < 2 ^ 32" and "r < s_blocks_per_group sb"
  shows "ext4_get_group_no_and_offset sb (ext4_group_first_block_no sb g + r) = Inr (g, ucast (EXT4_B2C sb r)) \<and>
    ((opt_std_group_size sb \<longrightarrow> s_blocks_per_group sb = push_bit (s_blocksize_bits sb + s_cluster_bits sb + 3) 1) \<longrightarrow>
       ext4_get_group_number sb (ext4_group_first_block_no sb g + r) = Inr g \<and>
       ext4_block_in_group sb (ext4_group_first_block_no sb g + r) h = Inr (g = h))"
proof -
  let ?b = "s_blocks_per_group sb"
  have m: "unat ?b < 2 ^ 32" "unat r < unat ?b" using assms by (simp_all add: word_less_nat_alt)
  have g: "unat g < 2 ^ 32" using unsigned_less [of g] by simp
  have "unat g * unat ?b + unat r < unat g * unat ?b + unat ?b" using m by simp
  also have "\<dots> = Suc (unat g) * unat ?b" by simp
  also have "\<dots> \<le> 2 ^ 32 * 2 ^ 32" by (rule mult_le_mono) (use g m(1) in simp_all)
  finally have l: "unat (ucast g :: u64) * unat ?b + unat r < 2 ^ 64" by (simp add: unat_ucast64)
  note d = div_group [OF assms(2) l]
  have "unat (ucast (ucast ?b :: u32) :: u64) = unat ?b" using m(1) by (simp add: unat_ucast64 unat_ucast_fits)
  then have u: "ucast (ucast ?b :: u32) = ?b" by (simp add: word_unat_eq_iff)
  have nz: "(ucast ?b :: u32) \<noteq> 0" using u m(2) by auto
  have f: "ext4_group_first_block_no sb g + r - ucast (s_first_data_block sb) = ucast g * ?b + r"
    by (simp add: ext4_group_first_block_no_def)
  have go: "ext4_get_group_no_and_offset sb (ext4_group_first_block_no sb g + r) = Inr (g, ucast (EXT4_B2C sb r))"
    using nz by (simp add: ext4_get_group_no_and_offset_def Let_def f u d EXT4_B2C_def ucast_32_64)
  moreover have "ext4_get_group_number sb (ext4_group_first_block_no sb g + r) = Inr g"
    if "opt_std_group_size sb \<longrightarrow> ?b = push_bit (s_blocksize_bits sb + s_cluster_bits sb + 3) 1"
  proof (cases "opt_std_group_size sb")
    case True
    then have "?b = 2 ^ (s_blocksize_bits sb + s_cluster_bits sb + 3)" using that by (simp add: push_bit_eq_mult)
    then have "drop_bit (s_blocksize_bits sb + s_cluster_bits sb + 3) (ucast g * ?b + r) = ucast g"
      using d(1) by (simp only: drop_bit_eq_div)
    then show ?thesis using True by (simp only: ext4_get_group_number_def f) (simp add: ucast_32_64)
  qed (simp add: ext4_get_group_number_def go bind_res_def)
  ultimately show ?thesis by (simp add: ext4_block_in_group_def bind_res_def)
qed

definition ex_sb :: ext4_sb where
  "ex_sb = \<lparr>s_first_data_block = 0, s_blocks_count = 262144, s_blocksize_bits = 12, s_cluster_bits = 0, s_cluster_ratio = 1,
     s_blocks_per_group = 32768, s_groups_count = 8, s_desc_per_block = 64, s_gdb_count = 1, s_itb_per_group = 512,
     s_log_groups_per_flex = 4, s_first_meta_bg = 0, s_backup_bgs = (0, 0), s_reserved_gdt_blocks = 127,
     has_sparse_super = True, has_sparse_super2 = False, has_meta_bg = False, opt_std_group_size = True,
     opt_block_validity = True\<rparr>"

theorem group_of_block_witness:
  "ext4_get_group_no_and_offset ex_sb 98309 = Inr (3, 5) \<and> ext4_get_group_number ex_sb 98309 = Inr 3"
  using group_of_block [of ex_sb 5 3 3]
  by (simp add: ex_sb_def ext4_group_first_block_no_def EXT4_B2C_def)

theorem bg_has_super_exact_witness:
  "ext4_bg_has_super ex_sb 49 = Some True \<and> ext4_bg_has_super ex_sb 6 = Some False"
proof -
  have "\<exists>k. (49 :: nat) = 3 ^ k \<or> (49 :: nat) = 5 ^ k \<or> (49 :: nat) = 7 ^ k" by (intro exI [of _ 2]) simp
  moreover have "(6 :: nat) \<noteq> 3 ^ k \<and> (6 :: nat) \<noteq> 5 ^ k \<and> (6 :: nat) \<noteq> 7 ^ k" for k
  proof -
    have "even (6 :: nat)" "odd ((3 :: nat) ^ k)" "odd ((5 :: nat) ^ k)" "odd ((7 :: nat) ^ k)" by simp_all
    then show ?thesis by metis
  qed
  ultimately show ?thesis using bg_has_super_exact [of ex_sb 49] bg_has_super_exact [of ex_sb 6] by (simp add: ex_sb_def)
qed

end
