(* ===== verification/Ext4_Validity.thy ===== *)
theory Ext4_Validity
  imports Ext4_EsTree Ext4_Groups
begin

unbundle bit_operations_syntax

text \<open>
  The system zones of \<open>src/kernel/fs/ext4/block_validity.c\<close>: a red-black tree of the ranges of blocks that hold the metadata
  of the file system, against which the block numbers in inodes and indirect blocks are checked. The
  entries are objects in \<open>zone_heap\<close> that the tree points to. The red-black tree library is the parameter \<open>E\<close>, as
  for the extent status tree, and \<open>alloc\<close> tells whether the allocation of an entry succeeds.
\<close>

section \<open>The operations\<close>

record ext4_system_zone =
  start_blk :: u64
  zone_count :: u32

record zone_state =
  system_blks :: "esp tree"
  zone_heap :: "esp \<Rightarrow> ext4_system_zone option"
  zone_new :: esp
  s_last_error_block :: u64

definition zone_after :: "ext4_system_zone \<Rightarrow> u64" where
  "zone_after z = start_blk z + ucast (zone_count z)"

definition can_merge :: "ext4_system_zone \<Rightarrow> ext4_system_zone \<Rightarrow> bool" where
  "can_merge entry1 entry2 = (zone_after entry1 = start_blk entry2)"

definition upd_zone :: "esp \<Rightarrow> (ext4_system_zone \<Rightarrow> ext4_system_zone) \<Rightarrow> zone_state \<Rightarrow> zone_state" where
  "upd_zone p f s = s\<lparr>zone_heap := (zone_heap s)(p := map_option f (zone_heap s p))\<rparr>"

text \<open>The walk ends at an entry that has the first block, or at the place where a new entry goes.\<close>

datatype zone_place = Zone_in esp | Zone_at "rb_dir list"

fun zone_walk :: "zone_state \<Rightarrow> u64 \<Rightarrow> esp tree \<Rightarrow> rb_dir list \<Rightarrow> zone_place res" where
  "zone_walk s start \<langle>\<rangle> dirs = Inr (Zone_at dirs)"
| "zone_walk s start \<langle>l, p, r\<rangle> dirs =
     deref (zone_heap s p) UAF (\<lambda>entry.
       if start < start_blk entry then zone_walk s start l (dirs @ [Rb_left])
       else if start \<ge> zone_after entry then zone_walk s start r (dirs @ [Rb_right])
       else Inr (Zone_in p))"

definition zone_erase :: "es_env \<Rightarrow> esp \<Rightarrow> zone_state \<Rightarrow> zone_state" where
  "zone_erase E p s = s\<lparr>system_blks := rb_erase E p (system_blks s), zone_heap := (zone_heap s)(p := None)\<rparr>"

definition zone_merge_left :: "es_env \<Rightarrow> zone_state \<Rightarrow> esp \<Rightarrow> zone_state res" where
  "zone_merge_left E s p =
     (case rb_prev E (system_blks s) p of
        None \<Rightarrow> Inr s
      | Some q \<Rightarrow> deref (zone_heap s q) UAF (\<lambda>entry. deref (zone_heap s p) UAF (\<lambda>new_entry.
          if can_merge entry new_entry
          then Inr (zone_erase E q (upd_zone p (\<lambda>z. z\<lparr>start_blk := start_blk entry, zone_count := zone_count z + zone_count entry\<rparr>) s))
          else Inr s)))"

definition zone_merge_right :: "es_env \<Rightarrow> zone_state \<Rightarrow> esp \<Rightarrow> zone_state res" where
  "zone_merge_right E s p =
     (case rb_next E (system_blks s) p of
        None \<Rightarrow> Inr s
      | Some q \<Rightarrow> deref (zone_heap s q) UAF (\<lambda>entry. deref (zone_heap s p) UAF (\<lambda>new_entry.
          if can_merge new_entry entry
          then Inr (zone_erase E q (upd_zone p (\<lambda>z. z\<lparr>zone_count := zone_count z + zone_count entry\<rparr>) s))
          else Inr s)))"

definition zone_merge :: "es_env \<Rightarrow> zone_state \<Rightarrow> esp \<Rightarrow> (int \<times> zone_state) res" where
  "zone_merge E s p = bind_res (zone_merge_left E s p) (\<lambda>s. bind_res (zone_merge_right E s p) (\<lambda>s. Inr (0, s)))"

definition zone_extend :: "u64 \<Rightarrow> u32 \<Rightarrow> ext4_system_zone \<Rightarrow> ext4_system_zone" where
  "zone_extend start count entry =
     (if start + ucast count > zone_after entry
      then entry\<lparr>zone_count := ucast (start + ucast count - start_blk entry)\<rparr> else entry)"

definition zone_link :: "es_env \<Rightarrow> u64 \<Rightarrow> u32 \<Rightarrow> rb_dir list \<Rightarrow> zone_state \<Rightarrow> zone_state" where
  "zone_link E start count dirs s =
     (let p = zone_new s
      in s\<lparr>zone_heap := (zone_heap s)(p \<mapsto> \<lparr>start_blk = start, zone_count = count\<rparr>), zone_new := p + 1,
           system_blks := rb_insert_color E p (rb_link_node p dirs (system_blks s))\<rparr>)"

definition add_system_zone :: "es_env \<Rightarrow> bool \<Rightarrow> zone_state \<Rightarrow> u64 \<Rightarrow> u32 \<Rightarrow> (int \<times> zone_state) res" where
  "add_system_zone E alloc s start count =
     bind_res (zone_walk s start (system_blks s) []) (\<lambda>place.
       case place of
         Zone_in p \<Rightarrow> zone_merge E (upd_zone p (zone_extend start count) s) p
       | Zone_at dirs \<Rightarrow>
           if \<not> alloc then Inr (- ENOMEM, s)
           else zone_merge E (zone_link E start count dirs s) (zone_new s))"

text \<open>\<open>rbtree_postorder_for_each_entry_safe\<close> visits every entry.\<close>

definition ext4_release_system_zone :: "zone_state \<Rightarrow> zone_state" where
  "ext4_release_system_zone s =
     s\<lparr>zone_heap := (\<lambda>p. if p \<in> set (inorder (system_blks s)) then None else zone_heap s p), system_blks := \<langle>\<rangle>\<rparr>"

fun zone_search :: "zone_state \<Rightarrow> u64 \<Rightarrow> u32 \<Rightarrow> esp tree \<Rightarrow> bool res" where
  "zone_search s start count \<langle>\<rangle> = Inr True"
| "zone_search s start count \<langle>l, p, r\<rangle> =
     deref (zone_heap s p) UAF (\<lambda>entry.
       if start + ucast count - 1 < start_blk entry then zone_search s start count l
       else if start \<ge> zone_after entry then zone_search s start count r
       else Inr False)"

definition ext4_data_block_valid :: "ext4_sb \<Rightarrow> zone_state \<Rightarrow> u64 \<Rightarrow> u32 \<Rightarrow> (bool \<times> zone_state) res" where
  "ext4_data_block_valid sb s start count =
     (if start \<le> ucast (s_first_data_block sb) \<or> start + ucast count < start \<or> start + ucast count > s_blocks_count sb
      then Inr (False, s\<lparr>s_last_error_block := start\<rparr>)
      else bind_res (zone_search s start count (system_blks s)) (\<lambda>ok.
        if ok then Inr (True, s) else Inr (False, s\<lparr>s_last_error_block := start\<rparr>)))"

text \<open>\<open>ext4_error_inode\<close> is left out: its message, and what it does to the file system, which is \<open>ext4_handle_error\<close> of \<open>Ext4_Journal\<close>. \<open>EFSCORRUPTED\<close> is \<open>EUCLEAN\<close>.\<close>

fun ext4_check_blockref :: "ext4_sb \<Rightarrow> zone_state \<Rightarrow> u32 list \<Rightarrow> (int \<times> zone_state) res" where
  "ext4_check_blockref sb s [] = Inr (0, s)"
| "ext4_check_blockref sb s (blk # bref) =
     (if blk = 0 then ext4_check_blockref sb s bref
      else bind_res (ext4_data_block_valid sb s (ucast blk) 1) (\<lambda>(ok, s).
        if ok then ext4_check_blockref sb s bref
        else Inr (- EUCLEAN, s\<lparr>s_last_error_block := ucast blk\<rparr>)))"

text \<open>
  The set-up adds the zones of the groups in order. \<open>alloc\<close> has the outcome of the allocations, one for each
  call of \<open>add_system_zone\<close>; \<open>gd\<close> is \<open>ext4_get_group_desc\<close>.
\<close>

definition ext4_flex_bg_size :: "ext4_sb \<Rightarrow> u32" where
  "ext4_flex_bg_size sb = push_bit (s_log_groups_per_flex sb) 1"

definition setup_group ::
    "es_env \<Rightarrow> (zone_state \<Rightarrow> bool) \<Rightarrow> ext4_sb \<Rightarrow> (ext4_group_t \<Rightarrow> ext4_group_desc option) \<Rightarrow> zone_state \<Rightarrow> ext4_group_t \<Rightarrow>
     (int \<times> zone_state) res option" where
  "setup_group E alloc sb gd s i =
     Option.bind (ext4_bg_has_super sb i) (\<lambda>h.
     let super = (h \<and> (i < 5 \<or> i mod ext4_flex_bg_size sb = 0))
     in Option.bind (if super then ext4_bg_num_gdb sb i else Some 0) (\<lambda>gdb.
       Some (bind_res
         (if super
          then bind_res (add_system_zone E (alloc s) s (ext4_group_first_block_no sb i) (ucast (gdb + 1))) (\<lambda>(_, s). Inr s)
          else Inr s) (\<lambda>s.
         deref (gd i) OOPS (\<lambda>gdp.
         bind_res (add_system_zone E (alloc s) s (bg_block_bitmap gdp) 1) (\<lambda>(ret, s). if ret \<noteq> 0 then Inr (ret, s) else
         bind_res (add_system_zone E (alloc s) s (bg_inode_bitmap gdp) 1) (\<lambda>(ret, s). if ret \<noteq> 0 then Inr (ret, s) else
         add_system_zone E (alloc s) s (bg_inode_table gdp) (ucast (s_itb_per_group sb)))))))))"

fun setup_groups ::
    "es_env \<Rightarrow> (zone_state \<Rightarrow> bool) \<Rightarrow> ext4_sb \<Rightarrow> (ext4_group_t \<Rightarrow> ext4_group_desc option) \<Rightarrow> ext4_group_t list \<Rightarrow> zone_state \<Rightarrow>
     (int \<times> zone_state) res option" where
  "setup_groups E alloc sb gd [] s = Some (Inr (0, s))"
| "setup_groups E alloc sb gd (i # is) s =
     bind_ro (setup_group E alloc sb gd s i) (\<lambda>(ret, s).
       if ret \<noteq> 0 then Some (Inr (ret, s)) else setup_groups E alloc sb gd is s)"

definition ext4_setup_system_zone ::
    "es_env \<Rightarrow> (zone_state \<Rightarrow> bool) \<Rightarrow> ext4_sb \<Rightarrow> (ext4_group_t \<Rightarrow> ext4_group_desc option) \<Rightarrow> zone_state \<Rightarrow>
     (int \<times> zone_state) res option" where
  "ext4_setup_system_zone E alloc sb gd s =
     (if \<not> opt_block_validity sb then Some (Inr (0, if system_blks s \<noteq> \<langle>\<rangle> then ext4_release_system_zone s else s))
      else if system_blks s \<noteq> \<langle>\<rangle> then Some (Inr (0, s))
      else setup_groups E alloc sb gd (map word_of_nat [0..<unat (s_groups_count sb)]) s)"

section \<open>The blocks of the zones\<close>

definition zone_end :: "ext4_system_zone \<Rightarrow> nat" where
  "zone_end z = unat (start_blk z) + unat (zone_count z)"

definition zone_ok :: "ext4_system_zone \<Rightarrow> bool" where
  "zone_ok z = (unat (zone_count z) > 0 \<and> zone_end z < 2 ^ 64)"

definition zone_before :: "ext4_system_zone \<Rightarrow> ext4_system_zone \<Rightarrow> bool" where
  "zone_before z z' = (zone_end z \<le> unat (start_blk z'))"

definition zones_ok :: "ext4_system_zone list \<Rightarrow> bool" where
  "zones_ok zs = ((\<forall>z \<in> set zs. zone_ok z) \<and> sorted_wrt zone_before zs)"

definition zone_blocks :: "ext4_system_zone list \<Rightarrow> nat set" where
  "zone_blocks zs = (\<Union>z \<in> set zs. {unat (start_blk z)..<zone_end z})"

definition zone_of :: "zone_state \<Rightarrow> esp \<Rightarrow> ext4_system_zone" where
  "zone_of s p = the (zone_heap s p)"

definition zone_list :: "zone_state \<Rightarrow> ext4_system_zone list" where
  "zone_list s = map (zone_of s) (inorder (system_blks s))"

text \<open>
  The invariant: the entries are allocated, in order and disjoint, and small enough together for a
  count of 32 bits.
\<close>

definition zones_total :: "ext4_system_zone list \<Rightarrow> nat" where
  "zones_total zs = sum_list (map (\<lambda>z. unat (zone_count z)) zs)"

definition zone_inv :: "zone_state \<Rightarrow> bool" where
  "zone_inv s = (distinct (inorder (system_blks s)) \<and> (\<forall>p \<in> set (inorder (system_blks s)). zone_heap s p \<noteq> None \<and> p < zone_new s) \<and>
     zones_ok (zone_list s) \<and> zones_total (zone_list s) < 2 ^ 32)"

lemma zone_after_ok: "zone_ok z \<Longrightarrow> unat (zone_after z) = zone_end z"
  by (simp add: zone_ok_def zone_end_def zone_after_def unat_add_small unat_ucast64)

lemma zone_pos: "zone_ok z \<Longrightarrow> unat (start_blk z) < zone_end z"
  by (simp add: zone_ok_def zone_end_def)

lemma zones_ok_append [simp]:
  "zones_ok (xs @ z # ys) \<longleftrightarrow> zones_ok xs \<and> zones_ok ys \<and> zone_ok z \<and> (\<forall>x \<in> set xs. zone_before x z) \<and>
     (\<forall>y \<in> set ys. zone_before z y) \<and> (\<forall>x \<in> set xs. \<forall>y \<in> set ys. zone_before x y)"
  by (auto simp: zones_ok_def sorted_wrt_append)

lemma zone_blocks_simps [simp]:
  "zone_blocks [] = {}" "zone_blocks (z # zs) = {unat (start_blk z)..<zone_end z} \<union> zone_blocks zs"
  "zone_blocks (xs @ ys) = zone_blocks xs \<union> zone_blocks ys"
  by (auto simp: zone_blocks_def)

lemma zone_search_ok:
  assumes "\<forall>p \<in> set (inorder t). zone_heap s p \<noteq> None" and "zones_ok (map (zone_of s) (inorder t))"
    and "count \<noteq> 0" and "unat start + unat count < 2 ^ 64"
  shows "zone_search s start count t =
    Inr ({unat start..<unat start + unat count} \<inter> zone_blocks (map (zone_of s) (inorder t)) = {})"
  using assms(1,2)
proof (induction t)
  case (Node l p r)
  let ?z = "zone_of s p" and ?R = "{unat start..<unat start + unat count}"
  have p: "zone_heap s p = Some ?z" using Node.prems(1) by (auto simp: zone_of_def)
  have z: "zone_ok ?z" and lr: "zones_ok (map (zone_of s) (inorder l))" "zones_ok (map (zone_of s) (inorder r))"
    and b: "\<And>q. q \<in> set (inorder l) \<Longrightarrow> zone_end (zone_of s q) \<le> unat (start_blk ?z)"
      "\<And>q. q \<in> set (inorder r) \<Longrightarrow> zone_end ?z \<le> unat (start_blk (zone_of s q))"
    using Node.prems(2) by (auto simp: zone_before_def)
  have cnt: "unat count > 0" using assms(3) by (simp add: unat_gt_0)
  have e: "unat (start + ucast count - 1) = unat start + unat count - 1"
  proof -
    have "unat (start + ucast count) = unat start + unat count" using assms(4) by (simp add: unat_add_small unat_ucast64)
    then show ?thesis using cnt by (metis unat_minus_one unat_0 add_is_0 less_numeral_extra(3))
  qed
  have left: "start + ucast count - 1 < start_blk ?z \<longleftrightarrow> unat start + unat count \<le> unat (start_blk ?z)"
    using cnt by (auto simp: word_less_nat_alt e)
  have right: "zone_after ?z \<le> start \<longleftrightarrow> zone_end ?z \<le> unat start"
    by (simp add: word_le_nat_alt zone_after_ok z)
  have L: "zone_blocks (map (zone_of s) (inorder l)) \<subseteq> {..<unat (start_blk ?z)}"
    using b(1) by (fastforce simp: zone_blocks_def)
  have R: "zone_blocks (map (zone_of s) (inorder r)) \<subseteq> {zone_end ?z..}"
    using b(2) by (fastforce simp: zone_blocks_def)
  note pos = zone_pos [OF z]
  consider (l) "unat start + unat count \<le> unat (start_blk ?z)" | (r) "unat start + unat count > unat (start_blk ?z)" "zone_end ?z \<le> unat start"
    | (mid) "unat start + unat count > unat (start_blk ?z)" "zone_end ?z > unat start" by linarith
  then show ?case
  proof cases
    case l
    then have "?R \<inter> ({unat (start_blk ?z)..<zone_end ?z} \<union> zone_blocks (map (zone_of s) (inorder r))) = {}" using R pos by fastforce
    then show ?thesis using l left p Node.IH(1) Node.prems(1) lr(1) by (simp add: Int_Un_distrib)
  next
    case r
    then have "?R \<inter> ({unat (start_blk ?z)..<zone_end ?z} \<union> zone_blocks (map (zone_of s) (inorder l))) = {}" using L pos by fastforce
    then show ?thesis using r left right p Node.IH(2) Node.prems(1) lr(2) by (simp add: Int_Un_distrib)
  next
    case mid
    then have "max (unat start) (unat (start_blk ?z)) \<in> ?R \<inter> {unat (start_blk ?z)..<zone_end ?z}" using pos cnt by auto
    then have "?R \<inter> zone_blocks (map (zone_of s) (inorder \<langle>l, p, r\<rangle>)) \<noteq> {}"
      unfolding inorder.simps map_append list.map zone_blocks_simps by blast
    then show ?thesis using mid left right p by simp
  qed
qed simp

section \<open>Adding a zone\<close>

lemma zone_walk_ok:
  assumes "\<forall>p \<in> set (inorder t). zone_heap s p \<noteq> None" and "zones_ok (map (zone_of s) (inorder t))"
  shows "(\<exists>p \<in> set (inorder t). zone_walk s start t dirs = Inr (Zone_in p) \<and> unat (start_blk (zone_of s p)) \<le> unat start \<and>
        unat start < zone_end (zone_of s p)) \<or>
    (\<exists>ds xs ys. zone_walk s start t dirs = Inr (Zone_at (dirs @ ds)) \<and> inorder t = xs @ ys \<and>
        (\<forall>q. inorder (rb_link_node q ds t) = xs @ q # ys) \<and>
        (\<forall>x \<in> set xs. zone_end (zone_of s x) \<le> unat start) \<and> (\<forall>y \<in> set ys. unat start < unat (start_blk (zone_of s y))))"
  using assms
proof (induction t arbitrary: dirs)
  case (Node l p r)
  let ?z = "zone_of s p"
  have p: "zone_heap s p = Some ?z" using Node.prems(1) by (auto simp: zone_of_def)
  have z: "zone_ok ?z" and lr: "zones_ok (map (zone_of s) (inorder l))" "zones_ok (map (zone_of s) (inorder r))"
    and b: "\<And>q. q \<in> set (inorder l) \<Longrightarrow> zone_end (zone_of s q) \<le> unat (start_blk ?z)"
      "\<And>q. q \<in> set (inorder r) \<Longrightarrow> zone_end ?z \<le> unat (start_blk (zone_of s q))"
    using Node.prems(2) by (auto simp: zone_before_def)
  have h: "\<forall>p \<in> set (inorder l). zone_heap s p \<noteq> None" "\<forall>p \<in> set (inorder r). zone_heap s p \<noteq> None" using Node.prems(1) by auto
  note pos = zone_pos [OF z]
  have right: "zone_after ?z \<le> start \<longleftrightarrow> zone_end ?z \<le> unat start" by (simp add: word_le_nat_alt zone_after_ok z)
  consider (l) "start < start_blk ?z" | (r) "\<not> start < start_blk ?z" "zone_after ?z \<le> start"
    | (mid) "\<not> start < start_blk ?z" "\<not> zone_after ?z \<le> start" by blast
  then show ?case
  proof cases
    case l
    then have step: "zone_walk s start \<langle>l, p, r\<rangle> dirs = zone_walk s start l (dirs @ [Rb_left])" using p by simp
    from Node.IH(1) [OF h(1) lr(1), of "dirs @ [Rb_left]", folded step] show ?thesis
    proof (elim disjE exE conjE)
      fix ds xs ys
      assume w: "zone_walk s start \<langle>l, p, r\<rangle> dirs = Inr (Zone_at ((dirs @ [Rb_left]) @ ds))" "inorder l = xs @ ys"
        "\<forall>q. inorder (rb_link_node q ds l) = xs @ q # ys" "\<forall>x \<in> set xs. zone_end (zone_of s x) \<le> unat start"
        "\<forall>y \<in> set ys. unat start < unat (start_blk (zone_of s y))"
      have "unat start < unat (start_blk (zone_of s y))" if "y \<in> set (ys @ p # inorder r)" for y
        using that w(5) l b(2) [of y] pos by (auto simp: word_less_nat_alt)
      with w have "zone_walk s start \<langle>l, p, r\<rangle> dirs = Inr (Zone_at (dirs @ (Rb_left # ds))) \<and> inorder \<langle>l, p, r\<rangle> = (xs) @ (ys @ p # inorder r) \<and>
          (\<forall>q. inorder (rb_link_node q (Rb_left # ds) \<langle>l, p, r\<rangle>) = (xs) @ q # (ys @ p # inorder r)) \<and>
          (\<forall>x \<in> set (xs). zone_end (zone_of s x) \<le> unat start) \<and> (\<forall>y \<in> set (ys @ p # inorder r). unat start < unat (start_blk (zone_of s y)))"
        by (simp del: zone_walk.simps)
      then show ?thesis by (intro disjI2 exI)
    qed (auto simp del: zone_walk.simps)
  next
    case r
    then have step: "zone_walk s start \<langle>l, p, r\<rangle> dirs = zone_walk s start r (dirs @ [Rb_right])" using p by simp
    from Node.IH(2) [OF h(2) lr(2), of "dirs @ [Rb_right]", folded step] show ?thesis
    proof (elim disjE exE conjE)
      fix ds xs ys
      assume w: "zone_walk s start \<langle>l, p, r\<rangle> dirs = Inr (Zone_at ((dirs @ [Rb_right]) @ ds))" "inorder r = xs @ ys"
        "\<forall>q. inorder (rb_link_node q ds r) = xs @ q # ys" "\<forall>x \<in> set xs. zone_end (zone_of s x) \<le> unat start"
        "\<forall>y \<in> set ys. unat start < unat (start_blk (zone_of s y))"
      have "zone_end (zone_of s x) \<le> unat start" if "x \<in> set (inorder l @ p # xs)" for x
        using that w(4) r right b(1) [of x] pos by auto
      with w have "zone_walk s start \<langle>l, p, r\<rangle> dirs = Inr (Zone_at (dirs @ (Rb_right # ds))) \<and> inorder \<langle>l, p, r\<rangle> = (inorder l @ p # xs) @ (ys) \<and>
          (\<forall>q. inorder (rb_link_node q (Rb_right # ds) \<langle>l, p, r\<rangle>) = (inorder l @ p # xs) @ q # (ys)) \<and>
          (\<forall>x \<in> set (inorder l @ p # xs). zone_end (zone_of s x) \<le> unat start) \<and> (\<forall>y \<in> set (ys). unat start < unat (start_blk (zone_of s y)))"
        by (simp del: zone_walk.simps)
      then show ?thesis by (intro disjI2 exI)
    qed (auto simp del: zone_walk.simps)
  next
    case mid
    then show ?thesis using p right by (intro disjI1 bexI [of _ p]) (simp_all add: word_less_nat_alt)
  qed
qed simp

text \<open>A state in which one entry is singled out.\<close>

lemma zone_inv_at:
  assumes "zone_inv s" and "inorder (system_blks s) = xs @ p # ys"
  shows "zone_heap s p = Some (zone_of s p)" "zone_ok (zone_of s p)" "p \<notin> set xs" "p \<notin> set ys" "set xs \<inter> set ys = {}"
    "zone_list s = map (zone_of s) xs @ zone_of s p # map (zone_of s) ys"
  using assms by (auto simp: zone_inv_def zone_list_def zone_of_def)

lemma zones_total_simps [simp]:
  "zones_total [] = 0" "zones_total (z # zs) = unat (zone_count z) + zones_total zs" "zones_total (xs @ ys) = zones_total xs + zones_total ys"
  by (simp_all add: zones_total_def)

lemma zone_invI:
  assumes "distinct (inorder (system_blks s'))" and "\<And>p. p \<in> set (inorder (system_blks s')) \<Longrightarrow> zone_heap s' p \<noteq> None \<and> p < zone_new s'"
    and "zone_list s' = zs" and "zones_ok zs" and "zones_total zs < 2 ^ 32"
  shows "zone_inv s'"
  using assms by (simp add: zone_inv_def)

text \<open>Two neighbours that touch become one zone.\<close>

lemma zone_join:
  assumes "zones_ok (xs @ a # b # ys)" and "zones_total (xs @ a # b # ys) < 2 ^ 32" and "can_merge a b"
  shows "zones_ok (xs @ \<lparr>start_blk = start_blk a, zone_count = zone_count a + zone_count b\<rparr> # ys)"
    "zone_blocks (xs @ \<lparr>start_blk = start_blk a, zone_count = zone_count a + zone_count b\<rparr> # ys) = zone_blocks (xs @ a # b # ys)"
    "zones_total (xs @ \<lparr>start_blk = start_blk a, zone_count = zone_count a + zone_count b\<rparr> # ys) = zones_total (xs @ a # b # ys)"
proof -
  let ?z = "\<lparr>start_blk = start_blk a, zone_count = zone_count a + zone_count b\<rparr>"
  have ok: "zone_ok a" "zone_ok b" using assms(1) zones_ok_append [of xs a "b # ys"] by (auto simp: zones_ok_def)
  have c: "unat (zone_count a + zone_count b) = unat (zone_count a) + unat (zone_count b)"
    using assms(2) by (intro unat_add_small) simp
  have t: "zone_end a = unat (start_blk b)" using assms(3) zone_after_ok [OF ok(1)] by (simp add: can_merge_def)
  have e: "zone_end ?z = zone_end b" using t by (simp add: zone_end_def c)
  have "zone_ok ?z" using ok e by (auto simp: zone_ok_def c)
  then show "zones_ok (xs @ ?z # ys)" using assms(1) zones_ok_append [of xs a "b # ys"] e
    by (auto simp: zones_ok_def zone_before_def sorted_wrt_append)
  show "zone_blocks (xs @ ?z # ys) = zone_blocks (xs @ a # b # ys)"
    using t e zone_pos [OF ok(1)] zone_pos [OF ok(2)] by auto
  show "zones_total (xs @ ?z # ys) = zones_total (xs @ a # b # ys)" by (simp add: c)
qed

lemma rb_zone:
  assumes "rb_ok E" and "distinct (xs @ p # ys)" and "inorder t = xs @ p # ys"
  shows "rb_next E t p = (case ys of [] \<Rightarrow> None | q # _ \<Rightarrow> Some q)" "rb_prev E t p = (if xs = [] then None else Some (last xs))"
    "inorder (rb_erase E p t) = xs @ ys" "inorder (rb_insert_color E p t) = xs @ p # ys"
proof -
  have "rb_next E t p = next_in (xs @ p # ys) p \<and> rb_prev E t p = prev_in (xs @ p # ys) p \<and>
      inorder (rb_erase E p t) = remove1 p (xs @ p # ys) \<and> inorder (rb_insert_color E p t) = xs @ p # ys"
    using assms unfolding rb_ok_def by (metis in_set_conv_decomp)
  then show "rb_next E t p = (case ys of [] \<Rightarrow> None | q # _ \<Rightarrow> Some q)" "rb_prev E t p = (if xs = [] then None else Some (last xs))"
    "inorder (rb_erase E p t) = xs @ ys" "inorder (rb_insert_color E p t) = xs @ p # ys"
    using assms(2) next_in_split [of p xs ys] prev_in_split [of p ys xs] by (simp_all add: remove1_append)
qed

text \<open>\<open>zone_same E s s' p\<close>: a step that keeps the invariant, the blocks and the entry \<open>p\<close> in the tree.\<close>

definition zone_same :: "zone_state \<Rightarrow> zone_state \<Rightarrow> esp \<Rightarrow> bool" where
  "zone_same s s' p = (zone_inv s' \<and> p \<in> set (inorder (system_blks s')) \<and> zone_blocks (zone_list s') = zone_blocks (zone_list s) \<and>
     zones_total (zone_list s') = zones_total (zone_list s))"

lemma zone_absorb:
  assumes inv: "zone_inv s" and s': "inorder (system_blks s') = xs @ p # ys" "zone_new s' = zone_new s"
      "zone_heap s' = (zone_heap s)(p \<mapsto> \<lparr>start_blk = start_blk (zone_of s a), zone_count = zone_count (zone_of s a) + zone_count (zone_of s b)\<rparr>, q := None)"
    and ab: "inorder (system_blks s) = xs @ a # b # ys" "can_merge (zone_of s a) (zone_of s b)" "(a = p \<and> b = q) \<or> (a = q \<and> b = p)"
  shows "zone_same s s' p"
proof -
  let ?z = "\<lparr>start_blk = start_blk (zone_of s a), zone_count = zone_count (zone_of s a) + zone_count (zone_of s b)\<rparr>"
  have d: "distinct (xs @ a # b # ys)" and h: "\<And>r. r \<in> set (xs @ a # b # ys) \<Longrightarrow> zone_heap s r \<noteq> None \<and> r < zone_new s"
    using inv ab(1) unfolding zone_inv_def by (simp, metis)
  have l: "zone_list s = map (zone_of s) xs @ zone_of s a # zone_of s b # map (zone_of s) ys" by (simp add: zone_list_def ab(1))
  have "zone_of s' r = zone_of s r" if "r \<in> set xs \<union> set ys" for r using that d ab(3) by (auto simp: zone_of_def s')
  moreover have "zone_of s' p = ?z" using d ab(3) by (auto simp: zone_of_def s')
  ultimately have l': "zone_list s' = map (zone_of s) xs @ ?z # map (zone_of s) ys" by (simp add: zone_list_def s'(1))
  have "zones_ok (zone_list s)" "zones_total (zone_list s) < 2 ^ 32" using inv by (simp_all add: zone_inv_def)
  note j = zone_join [OF this [unfolded l] ab(2)]
  have "zone_inv s'"
  proof (rule zone_invI [OF _ _ l' j(1)])
    show "distinct (inorder (system_blks s'))" using d ab(3) by (auto simp: s')
    show "zone_heap s' r \<noteq> None \<and> r < zone_new s'" if "r \<in> set (inorder (system_blks s'))" for r
      using that h [of r] d ab(3) by (auto simp: s')
    show "zones_total (map (zone_of s) xs @ ?z # map (zone_of s) ys) < 2 ^ 32" using inv l j(3) by (simp add: zone_inv_def)
  qed
  then show ?thesis using j l l' s'(1) by (simp add: zone_same_def)
qed

lemma zone_inv_distinct: "zone_inv s \<Longrightarrow> distinct (inorder (system_blks s))"
  by (simp add: zone_inv_def)

lemma zone_inv_heap: "zone_inv s \<Longrightarrow> p \<in> set (inorder (system_blks s)) \<Longrightarrow> zone_heap s p = Some (zone_of s p)"
  by (auto simp: zone_inv_def zone_of_def)

lemma zone_same_refl: "zone_inv s \<Longrightarrow> p \<in> set (inorder (system_blks s)) \<Longrightarrow> zone_same s s p"
  by (simp add: zone_same_def)

lemma zone_merge_left_ok:
  assumes rb: "rb_ok E" and inv: "zone_inv s" and p: "p \<in> set (inorder (system_blks s))"
  shows "\<exists>s'. zone_merge_left E s p = Inr s' \<and> zone_same s s' p"
proof -
  obtain xs ys where xy: "inorder (system_blks s) = xs @ p # ys" using p by (meson split_list)
  have d: "distinct (xs @ p # ys)" using zone_inv_distinct [OF inv] xy by simp
  show ?thesis
  proof (cases "xs = []")
    case True
    then have "zone_merge_left E s p = Inr s" using rb_zone(2) [OF rb d xy] by (simp add: zone_merge_left_def)
    then show ?thesis using zone_same_refl [OF inv p] by blast
  next
    case False
    then obtain ws q where ws: "xs = ws @ [q]" by (metis rev_exhaust)
    let ?f = "\<lambda>z. z\<lparr>start_blk := start_blk (zone_of s q), zone_count := zone_count z + zone_count (zone_of s q)\<rparr>"
    let ?s = "zone_erase E q (upd_zone p ?f s)"
    have h: "zone_heap s q = Some (zone_of s q)" "zone_heap s p = Some (zone_of s p)"
      using zone_inv_heap [OF inv] xy ws by auto
    have eq: "zone_merge_left E s p = Inr (if can_merge (zone_of s q) (zone_of s p) then ?s else s)"
      using rb_zone(2) [OF rb d xy] ws h by (simp add: zone_merge_left_def)
    have "zone_same s ?s p" if c: "can_merge (zone_of s q) (zone_of s p)"
    proof (rule zone_absorb [OF inv _ _ _ _ c])
      have d': "distinct (ws @ q # p # ys)" and i: "inorder (system_blks s) = ws @ q # p # ys" using d xy ws by simp_all
      show "inorder (system_blks ?s) = ws @ p # ys" using rb_zone(3) [OF rb d' i] by (simp add: zone_erase_def upd_zone_def)
      show "zone_heap ?s = (zone_heap s)(p \<mapsto> \<lparr>start_blk = start_blk (zone_of s q),
          zone_count = zone_count (zone_of s q) + zone_count (zone_of s p)\<rparr>, q := None)"
        using h by (cases "zone_of s p") (simp add: zone_erase_def upd_zone_def add.commute)
      show "inorder (system_blks s) = ws @ q # p # ys" by (rule i)
    qed (simp_all add: zone_erase_def upd_zone_def)
    then show ?thesis using eq zone_same_refl [OF inv p] by auto
  qed
qed

lemma zone_merge_right_ok:
  assumes rb: "rb_ok E" and inv: "zone_inv s" and p: "p \<in> set (inorder (system_blks s))"
  shows "\<exists>s'. zone_merge_right E s p = Inr s' \<and> zone_same s s' p"
proof -
  obtain xs ys where xy: "inorder (system_blks s) = xs @ p # ys" using p by (meson split_list)
  have d: "distinct (xs @ p # ys)" using zone_inv_distinct [OF inv] xy by simp
  show ?thesis
  proof (cases ys)
    case Nil
    then have "zone_merge_right E s p = Inr s" using rb_zone(1) [OF rb d xy] by (simp add: zone_merge_right_def)
    then show ?thesis using zone_same_refl [OF inv p] by blast
  next
    case (Cons q ws)
    let ?f = "\<lambda>z. z\<lparr>zone_count := zone_count z + zone_count (zone_of s q)\<rparr>"
    let ?s = "zone_erase E q (upd_zone p ?f s)"
    have h: "zone_heap s q = Some (zone_of s q)" "zone_heap s p = Some (zone_of s p)"
      using zone_inv_heap [OF inv] xy Cons by auto
    have eq: "zone_merge_right E s p = Inr (if can_merge (zone_of s p) (zone_of s q) then ?s else s)"
      using rb_zone(1) [OF rb d xy] Cons h by (simp add: zone_merge_right_def)
    have "zone_same s ?s p" if c: "can_merge (zone_of s p) (zone_of s q)"
    proof (rule zone_absorb [OF inv _ _ _ _ c])
      have d': "distinct ((xs @ [p]) @ q # ws)" and i: "inorder (system_blks s) = (xs @ [p]) @ q # ws" using d xy Cons by simp_all
      show "inorder (system_blks ?s) = xs @ p # ws" using rb_zone(3) [OF rb d' i] by (simp add: zone_erase_def upd_zone_def)
      show "zone_heap ?s = (zone_heap s)(p \<mapsto> \<lparr>start_blk = start_blk (zone_of s p),
          zone_count = zone_count (zone_of s p) + zone_count (zone_of s q)\<rparr>, q := None)"
        using h by (cases "zone_of s p") (simp add: zone_erase_def upd_zone_def)
      show "inorder (system_blks s) = xs @ p # q # ws" using i by simp
    qed (simp_all add: zone_erase_def upd_zone_def)
    then show ?thesis using eq zone_same_refl [OF inv p] by auto
  qed
qed

lemma zone_merge_ok:
  assumes "rb_ok E" and "zone_inv s" and "p \<in> set (inorder (system_blks s))"
  shows "\<exists>s'. zone_merge E s p = Inr (0, s') \<and> zone_same s s' p"
proof -
  obtain s1 where 1: "zone_merge_left E s p = Inr s1" "zone_same s s1 p" using zone_merge_left_ok [OF assms] by blast
  moreover obtain s2 where "zone_merge_right E s1 p = Inr s2" "zone_same s1 s2 p"
    using zone_merge_right_ok [OF assms(1), of s1 p] 1(2) by (auto simp: zone_same_def)
  ultimately show ?thesis by (simp add: zone_merge_def zone_same_def)
qed

text \<open>What a step that adds the range of \<open>start\<close> and \<open>count\<close> does before the neighbours are merged.\<close>

definition zone_added :: "zone_state \<Rightarrow> u64 \<Rightarrow> u32 \<Rightarrow> zone_state \<Rightarrow> bool" where
  "zone_added s start count s' = (zone_inv s' \<and>
     zone_blocks (zone_list s') = zone_blocks (zone_list s) \<union> {unat start..<unat start + unat count} \<and>
     zones_total (zone_list s') \<le> zones_total (zone_list s) + unat count)"

text \<open>No zone begins inside of the range, except at its first block.\<close>

definition zone_fits :: "zone_state \<Rightarrow> u64 \<Rightarrow> u32 \<Rightarrow> bool" where
  "zone_fits s start count = (count \<noteq> 0 \<and> unat start + unat count < 2 ^ 64 \<and> zones_total (zone_list s) + unat count < 2 ^ 32 \<and>
     (\<forall>z \<in> set (zone_list s). unat (start_blk z) \<le> unat start \<or> unat start + unat count \<le> unat (start_blk z)))"

lemma zone_extend_ok:
  assumes "zone_ok z" and "unat (start_blk z) \<le> unat start" and "unat start < zone_end z" and "unat start + unat count < 2 ^ 64"
    and "unat (zone_count z) + unat count < 2 ^ 32"
  shows "start_blk (zone_extend start count z) = start_blk z" "zone_end (zone_extend start count z) = max (zone_end z) (unat start + unat count)"
    "unat (zone_count (zone_extend start count z)) \<le> unat (zone_count z) + unat count" "zone_ok (zone_extend start count z)"
proof -
  have a: "unat (start + ucast count) = unat start + unat count" using assms(4) by (simp add: unat_add_small unat_ucast64)
  have sub: "unat (start + ucast count - start_blk z) = unat start + unat count - unat (start_blk z)"
    using assms(2) a by (subst unat_sub) (simp_all add: word_le_nat_alt)
  have le: "unat start + unat count - unat (start_blk z) \<le> unat (zone_count z) + unat count" using assms(3) by (simp add: zone_end_def)
  have "unat (ucast (start + ucast count - start_blk z) :: u32) = unat start + unat count - unat (start_blk z)"
    using le assms(5) by (subst unat_ucast_fits) (simp_all add: sub)
  note c = this
  have cmp: "start + ucast count > zone_after z \<longleftrightarrow> zone_end z < unat start + unat count"
    by (simp add: word_less_nat_alt a zone_after_ok assms(1))
  show "start_blk (zone_extend start count z) = start_blk z" by (simp add: zone_extend_def)
  show e: "zone_end (zone_extend start count z) = max (zone_end z) (unat start + unat count)"
    using assms(2) c by (simp add: zone_extend_def cmp zone_end_def)
  show "unat (zone_count (zone_extend start count z)) \<le> unat (zone_count z) + unat count"
    using c le by (simp add: zone_extend_def)
  show "zone_ok (zone_extend start count z)"
    using e assms(1,4) c cmp assms(3) zone_pos [OF assms(1)] by (auto simp: zone_ok_def zone_extend_def)
qed

lemma zone_in_ok:
  assumes inv: "zone_inv s" and fits: "zone_fits s start count" and p: "p \<in> set (inorder (system_blks s))"
    and at: "unat (start_blk (zone_of s p)) \<le> unat start" "unat start < zone_end (zone_of s p)"
  shows "zone_added s start count (upd_zone p (zone_extend start count) s)"
    "p \<in> set (inorder (system_blks (upd_zone p (zone_extend start count) s)))"
proof -
  let ?s = "upd_zone p (zone_extend start count) s" and ?z = "zone_of s p"
  obtain xs ys where xy: "inorder (system_blks s) = xs @ p # ys" using p by (meson split_list)
  note at' = zone_inv_at [OF inv xy]
  have tot: "zones_total (zone_list s) + unat count < 2 ^ 32" "unat start + unat count < 2 ^ 64" using fits by (simp_all add: zone_fits_def)
  have "unat (zone_count ?z) + unat count < 2 ^ 32" using tot(1) at'(6) by simp
  note e = zone_extend_ok [OF at'(2) at tot(2) this]
  have "zone_of ?s r = zone_of s r" if "r \<in> set xs \<union> set ys" for r using that at'(3,4) by (auto simp: zone_of_def upd_zone_def)
  moreover have "zone_of ?s p = zone_extend start count ?z" using at'(1) by (cases "zone_heap s p") (simp_all add: zone_of_def upd_zone_def)
  ultimately have l: "zone_list ?s = map (zone_of s) xs @ zone_extend start count ?z # map (zone_of s) ys"
    using xy by (simp add: zone_list_def upd_zone_def)
  have ok: "zones_ok (zone_list s)" "zones_total (zone_list s) < 2 ^ 32" using inv by (simp_all add: zone_inv_def)
  have "unat start + unat count \<le> unat (start_blk y)" if y: "y \<in> set (map (zone_of s) ys)" for y
  proof -
    have "zone_end ?z \<le> unat (start_blk y)" using y ok(1) unfolding at'(6) by (auto simp: zone_before_def)
    moreover have "unat (start_blk y) \<le> unat start \<or> unat start + unat count \<le> unat (start_blk y)"
      using y fits at'(6) by (simp add: zone_fits_def)
    ultimately show ?thesis using at(2) by linarith
  qed
  then have zok: "zones_ok (zone_list ?s)" using ok(1) e(1,2,4) unfolding l at'(6) by (auto simp: zone_before_def)
  have "zone_inv ?s"
  proof (rule zone_invI [OF _ _ refl zok])
    show "distinct (inorder (system_blks ?s))" using zone_inv_distinct [OF inv] by (simp add: upd_zone_def)
    show "zone_heap ?s r \<noteq> None \<and> r < zone_new ?s" if "r \<in> set (inorder (system_blks ?s))" for r
      using that inv by (auto simp: upd_zone_def zone_inv_def)
    show "zones_total (zone_list ?s) < 2 ^ 32" using e(3) tot(1) unfolding l at'(6) by simp
  qed
  moreover have "{unat (start_blk ?z)..<max (zone_end ?z) (unat start + unat count)} =
      {unat (start_blk ?z)..<zone_end ?z} \<union> {unat start..<unat start + unat count}" using at by auto
  ultimately show "zone_added s start count ?s" using e unfolding zone_added_def l at'(6) by auto
  show "p \<in> set (inorder (system_blks ?s))" using p by (simp add: upd_zone_def)
qed

lemma zone_link_ok:
  assumes rb: "rb_ok E" and inv: "zone_inv s" and fits: "zone_fits s start count"
    and xy: "inorder (system_blks s) = xs @ ys" "\<forall>q. inorder (rb_link_node q dirs (system_blks s)) = xs @ q # ys"
    and at: "\<forall>x \<in> set xs. zone_end (zone_of s x) \<le> unat start" "\<forall>y \<in> set ys. unat start < unat (start_blk (zone_of s y))"
  shows "zone_added s start count (zone_link E start count dirs s)"
    "zone_new s \<in> set (inorder (system_blks (zone_link E start count dirs s)))"
proof -
  let ?s = "zone_link E start count dirs s" and ?p = "zone_new s" and ?z = "\<lparr>start_blk = start, zone_count = count\<rparr>"
  have new: "?p \<notin> set xs \<union> set ys" using inv xy(1) by (auto simp: zone_inv_def)
  have d: "distinct (xs @ ?p # ys)" using zone_inv_distinct [OF inv] xy(1) new by auto
  have i: "inorder (system_blks ?s) = xs @ ?p # ys"
    using rb_zone(4) [OF rb d] xy(2) by (simp add: zone_link_def Let_def)
  have heap: "zone_heap ?s = (zone_heap s)(?p \<mapsto> ?z)" "zone_new ?s = ?p + 1" by (simp_all add: zone_link_def Let_def)
  have "zone_of ?s r = zone_of s r" if "r \<in> set xs \<union> set ys" for r using that new by (auto simp: zone_of_def heap)
  moreover have "zone_of ?s ?p = ?z" by (simp add: zone_of_def heap)
  ultimately have l: "zone_list ?s = map (zone_of s) xs @ ?z # map (zone_of s) ys" using i by (simp add: zone_list_def)
  have l0: "zone_list s = map (zone_of s) xs @ map (zone_of s) ys" by (simp add: zone_list_def xy(1))
  have ok: "zones_ok (zone_list s)" "zones_total (zone_list s) < 2 ^ 32" using inv by (simp_all add: zone_inv_def)
  have f: "unat count > 0" "unat start + unat count < 2 ^ 64" "zones_total (zone_list s) + unat count < 2 ^ 32"
    using fits by (simp_all add: zone_fits_def unat_gt_0)
  have "unat start + unat count \<le> unat (start_blk (zone_of s y))" if "y \<in> set ys" for y
  proof -
    have "unat (start_blk (zone_of s y)) \<le> unat start \<or> unat start + unat count \<le> unat (start_blk (zone_of s y))"
      using that fits l0 by (simp add: zone_fits_def)
    moreover have "unat start < unat (start_blk (zone_of s y))" using that at(2) by simp
    ultimately show ?thesis by linarith
  qed
  then have zok: "zones_ok (zone_list ?s)" using ok(1) f at(1) unfolding l l0
    by (auto simp: zones_ok_def sorted_wrt_append zone_before_def zone_ok_def zone_end_def)
  have "zone_inv ?s"
  proof (rule zone_invI [OF _ _ refl zok])
    show "distinct (inorder (system_blks ?s))" using d i by simp
    show "zone_heap ?s r \<noteq> None \<and> r < zone_new ?s" if "r \<in> set (inorder (system_blks ?s))" for r
      using that inv i xy(1) by (auto simp: heap zone_inv_def less_Suc_eq)
    show "zones_total (zone_list ?s) < 2 ^ 32" using f(3) unfolding l l0 by simp
  qed
  then show "zone_added s start count ?s" unfolding zone_added_def l l0 by (auto simp: zone_end_def)
  show "?p \<in> set (inorder (system_blks ?s))" by (simp add: i)
qed

lemma add_system_zone_ok:
  assumes rb: "rb_ok E" and inv: "zone_inv s" and fits: "zone_fits s start count"
  shows "(\<exists>s'. add_system_zone E alloc s start count = Inr (0, s') \<and> zone_added s start count s') \<or>
    \<not> alloc \<and> add_system_zone E alloc s start count = Inr (- ENOMEM, s)"
proof -
  have h: "\<forall>p \<in> set (inorder (system_blks s)). zone_heap s p \<noteq> None" "zones_ok (map (zone_of s) (inorder (system_blks s)))"
    using inv by (auto simp: zone_inv_def zone_list_def)
  have merge: "\<exists>s''. zone_merge E s' p = Inr (0, s'') \<and> zone_added s start count s''"
    if "zone_added s start count s'" "p \<in> set (inorder (system_blks s'))" for s' p
    using zone_merge_ok [OF rb, of s' p] that by (auto simp: zone_added_def zone_same_def)
  from zone_walk_ok [OF h, of start "[]"] show ?thesis
  proof (elim disjE bexE exE conjE)
    fix p assume p: "p \<in> set (inorder (system_blks s))" "zone_walk s start (system_blks s) [] = Inr (Zone_in p)"
      "unat (start_blk (zone_of s p)) \<le> unat start" "unat start < zone_end (zone_of s p)"
    then show ?thesis using merge [OF zone_in_ok [OF inv fits p(1,3,4)]] by (simp add: add_system_zone_def)
  next
    fix ds xs ys
    assume w: "zone_walk s start (system_blks s) [] = Inr (Zone_at ([] @ ds))" "inorder (system_blks s) = xs @ ys"
      "\<forall>q. inorder (rb_link_node q ds (system_blks s)) = xs @ q # ys" "\<forall>x \<in> set xs. zone_end (zone_of s x) \<le> unat start"
      "\<forall>y \<in> set ys. unat start < unat (start_blk (zone_of s y))"
    then show ?thesis using merge [OF zone_link_ok [OF rb inv fits w(2-5)]] by (cases alloc) (simp_all add: add_system_zone_def)
  qed
qed

text \<open>\<open>add_system_zone\<close> refines the union of sets of blocks. If no zone begins inside of the new range, it adds the blocks of the
  range to those of the zones, extending and merging entries, and keeps the entries ordered and disjoint;
  if it needs an entry and has no memory, it fails and changes nothing.\<close>

theorem add_system_zone_refines:
  assumes "rb_ok E" and "zone_inv s" and "zone_fits s start count"
  shows "\<exists>ret s'. add_system_zone E alloc s start count = Inr (ret, s') \<and> zone_inv s' \<and>
    (if ret = 0 then zone_blocks (zone_list s') = zone_blocks (zone_list s) \<union> {unat start..<unat start + unat count}
     else ret = - ENOMEM \<and> \<not> alloc \<and> s' = s)"
  using add_system_zone_ok [OF assms, of alloc]
proof (elim disjE exE conjE)
  assume "\<not> alloc" "add_system_zone E alloc s start count = Inr (- ENOMEM, s)"
  then show ?thesis using assms(2) by (intro exI [of _ "- ENOMEM"] exI [of _ s]) simp
qed (auto simp: zone_added_def)

definition one_zone :: zone_state where
  "one_zone = \<lparr>system_blks = \<langle>\<langle>\<rangle>, 0, \<langle>\<rangle>\<rangle>, zone_heap = [0 \<mapsto> \<lparr>start_blk = 10, zone_count = 2\<rparr>], zone_new = 1, s_last_error_block = 0\<rparr>"

theorem add_system_zone_refines_witness:
  "\<exists>s'. add_system_zone (es_lib True) True one_zone 11 5 = Inr (0, s') \<and> zone_blocks (zone_list s') = {10..<16}"
proof -
  have i: "zone_inv one_zone" "zone_fits one_zone 11 5" "zone_blocks (zone_list one_zone) = {10..<12}"
    by (simp_all add: one_zone_def zone_inv_def zone_list_def zone_of_def zones_ok_def zone_ok_def zone_end_def zone_fits_def)
  from add_system_zone_refines [of "es_lib True", OF _ i(1,2), of True] i(3)
  obtain s' where "add_system_zone (es_lib True) True one_zone 11 5 = Inr (0, s')" "zone_blocks (zone_list s') = {10..<12} \<union> {11..<16}"
    by (auto split: if_splits)
  moreover have "{10..<12} \<union> {11..<16} = {10..<16 :: nat}" by auto
  ultimately show ?thesis by simp
qed

section \<open>The zones of a file system\<close>

text \<open>The ranges that the set-up adds for a group.\<close>

definition group_ranges :: "ext4_sb \<Rightarrow> (ext4_group_t \<Rightarrow> ext4_group_desc option) \<Rightarrow> ext4_group_t \<Rightarrow> (u64 \<times> u32) list" where
  "group_ranges sb gd i =
     (if the (ext4_bg_has_super sb i) \<and> (i < 5 \<or> i mod ext4_flex_bg_size sb = 0)
      then [(ext4_group_first_block_no sb i, ucast (the (ext4_bg_num_gdb sb i) + 1))] else []) @
     [(bg_block_bitmap (the (gd i)), 1), (bg_inode_bitmap (the (gd i)), 1), (bg_inode_table (the (gd i)), ucast (s_itb_per_group sb))]"

definition range_blocks :: "u64 \<times> u32 \<Rightarrow> nat set" where
  "range_blocks r = {unat (fst r)..<unat (fst r) + unat (snd r)}"

text \<open>The layout of a file system: the ranges are not empty, do not overlap, and are small enough together.\<close>

definition ranges_ok :: "(u64 \<times> u32) list \<Rightarrow> bool" where
  "ranges_ok rs = ((\<forall>r \<in> set rs. snd r \<noteq> 0 \<and> unat (fst r) + unat (snd r) < 2 ^ 64) \<and>
     sorted_wrt (\<lambda>r r'. range_blocks r \<inter> range_blocks r' = {}) rs \<and> sum_list (map (\<lambda>r. unat (snd r)) rs) < 2 ^ 32)"

lemma zone_fits_disjoint:
  assumes "zone_inv s" and "count \<noteq> 0" and "unat start + unat count < 2 ^ 64" and "zones_total (zone_list s) + unat count < 2 ^ 32"
    and "range_blocks (start, count) \<inter> zone_blocks (zone_list s) = {}"
  shows "zone_fits s start count"
proof -
  have "unat (start_blk z) \<le> unat start \<or> unat start + unat count \<le> unat (start_blk z)" if "z \<in> set (zone_list s)" for z
  proof -
    have "zone_ok z" using assms(1) that by (simp add: zone_inv_def zones_ok_def)
    then have "unat (start_blk z) \<in> zone_blocks (zone_list s)" using that zone_pos by (force simp: zone_blocks_def)
    then have "unat (start_blk z) \<notin> range_blocks (start, count)" using assms(5) by blast
    then show ?thesis by (auto simp: range_blocks_def)
  qed
  then show ?thesis using assms(2-4) by (simp add: zone_fits_def)
qed

text \<open>\<open>zone_has s B n\<close>: the zones have the blocks \<open>B\<close> and need at most \<open>n\<close> blocks of counts.\<close>

definition zone_has :: "zone_state \<Rightarrow> nat set \<Rightarrow> nat \<Rightarrow> bool" where
  "zone_has s B n = (zone_inv s \<and> zone_blocks (zone_list s) = B \<and> zones_total (zone_list s) \<le> n)"

lemma add_range:
  assumes rb: "rb_ok E" and s: "zone_has s B n" and r: "snd r \<noteq> 0" "unat (fst r) + unat (snd r) < 2 ^ 64" "n + unat (snd r) < 2 ^ 32"
    "range_blocks r \<inter> B = {}"
  shows "\<exists>s'. add_system_zone E True s (fst r) (snd r) = Inr (0, s') \<and> zone_has s' (B \<union> range_blocks r) (n + unat (snd r))"
proof -
  have "zone_fits s (fst r) (snd r)"
    by (rule zone_fits_disjoint) (use s r in \<open>auto simp: zone_has_def\<close>)
  then show ?thesis using add_system_zone_ok [OF rb, of s "fst r" "snd r" True] s
    by (fastforce simp: zone_has_def zone_added_def range_blocks_def)
qed

fun fits_all :: "nat set \<Rightarrow> nat \<Rightarrow> (u64 \<times> u32) list \<Rightarrow> bool" where
  "fits_all B n [] = True"
| "fits_all B n (r # rs) = (snd r \<noteq> 0 \<and> unat (fst r) + unat (snd r) < 2 ^ 64 \<and> n + unat (snd r) < 2 ^ 32 \<and> range_blocks r \<inter> B = {} \<and>
     fits_all (B \<union> range_blocks r) (n + unat (snd r)) rs)"

definition ranges_blocks :: "(u64 \<times> u32) list \<Rightarrow> nat set" where
  "ranges_blocks rs = (\<Union>r \<in> set rs. range_blocks r)"

definition ranges_total :: "(u64 \<times> u32) list \<Rightarrow> nat" where
  "ranges_total rs = sum_list (map (\<lambda>r. unat (snd r)) rs)"

lemma ranges_simps [simp]:
  "ranges_blocks [] = {}" "ranges_blocks (r # rs) = range_blocks r \<union> ranges_blocks rs" "ranges_blocks (xs @ ys) = ranges_blocks xs \<union> ranges_blocks ys"
  "ranges_total [] = 0" "ranges_total (r # rs) = unat (snd r) + ranges_total rs" "ranges_total (xs @ ys) = ranges_total xs + ranges_total ys"
  by (auto simp: ranges_blocks_def ranges_total_def)

lemma fits_all_append:
  "fits_all B n (xs @ ys) \<longleftrightarrow> fits_all B n xs \<and> fits_all (B \<union> ranges_blocks xs) (n + ranges_total xs) ys"
  by (induction xs arbitrary: B n) (auto simp: Un_assoc add.assoc)

lemma ranges_ok_fits:
  "(\<forall>r \<in> set rs. snd r \<noteq> 0 \<and> unat (fst r) + unat (snd r) < 2 ^ 64 \<and> range_blocks r \<inter> B = {}) \<Longrightarrow>
   sorted_wrt (\<lambda>r r'. range_blocks r \<inter> range_blocks r' = {}) rs \<Longrightarrow> n + ranges_total rs < 2 ^ 32 \<Longrightarrow> fits_all B n rs"
proof (induction rs arbitrary: B n)
  case (Cons r rs)
  have "fits_all (B \<union> range_blocks r) (n + unat (snd r)) rs"
    by (rule Cons.IH) (use Cons.prems in \<open>auto simp: Int_Un_distrib Int_commute\<close>)
  then show ?case using Cons.prems by simp
qed simp

lemma setup_group_ok:
  assumes rb: "rb_ok E" and gd: "gd i \<noteq> None" and s: "zone_has s B n" and fits: "fits_all B n (group_ranges sb gd i)"
  shows "\<exists>s'. setup_group E (\<lambda>_. True) sb gd s i = Some (Inr (0, s')) \<and>
    zone_has s' (B \<union> ranges_blocks (group_ranges sb gd i)) (n + ranges_total (group_ranges sb gd i))"
proof -
  obtain h where h: "ext4_bg_has_super sb i = Some h" using bg_has_super_returns by blast
  obtain gdb where gdb: "ext4_bg_num_gdb sb i = Some gdb" using bg_num_gdb_returns by blast
  obtain gdp where gdp: "gd i = Some gdp" using gd by blast
  let ?super = "h \<and> (i < 5 \<or> i mod ext4_flex_bg_size sb = 0)"
  let ?rs = "if ?super then [(ext4_group_first_block_no sb i, ucast (gdb + 1) :: u32)] else []"
  let ?bb = "(bg_block_bitmap gdp, 1 :: u32)" and ?ib = "(bg_inode_bitmap gdp, 1 :: u32)" and ?it = "(bg_inode_table gdp, ucast (s_itb_per_group sb) :: u32)"
  have gr: "group_ranges sb gd i = ?rs @ [?bb, ?ib, ?it]" by (simp add: group_ranges_def h gdb gdp)
  have f: "fits_all B n ?rs" "fits_all (B \<union> ranges_blocks ?rs) (n + ranges_total ?rs) [?bb, ?ib, ?it]"
    using fits unfolding gr fits_all_append by simp_all
  obtain s1 where s1: "(if ?super then bind_res (add_system_zone E True s (ext4_group_first_block_no sb i) (ucast (gdb + 1))) (\<lambda>(_, s). Inr s)
      else Inr s) = Inr s1" "zone_has s1 (B \<union> ranges_blocks ?rs) (n + ranges_total ?rs)"
    using f(1) add_range [OF rb s, of "(ext4_group_first_block_no sb i, ucast (gdb + 1))"] s by (cases ?super) auto
  obtain s2 where s2: "add_system_zone E True s1 (fst ?bb) (snd ?bb) = Inr (0, s2)"
      "zone_has s2 (B \<union> ranges_blocks ?rs \<union> range_blocks ?bb) (n + ranges_total ?rs + unat (snd ?bb))"
    using add_range [OF rb s1(2), of ?bb] f(2) by fastforce
  obtain s3 where s3: "add_system_zone E True s2 (fst ?ib) (snd ?ib) = Inr (0, s3)"
      "zone_has s3 (B \<union> ranges_blocks ?rs \<union> range_blocks ?bb \<union> range_blocks ?ib) (n + ranges_total ?rs + unat (snd ?bb) + unat (snd ?ib))"
    using add_range [OF rb s2(2), of ?ib] f(2) by fastforce
  obtain s4 where s4: "add_system_zone E True s3 (fst ?it) (snd ?it) = Inr (0, s4)"
      "zone_has s4 (B \<union> ranges_blocks ?rs \<union> range_blocks ?bb \<union> range_blocks ?ib \<union> range_blocks ?it)
        (n + ranges_total ?rs + unat (snd ?bb) + unat (snd ?ib) + unat (snd ?it))"
    using add_range [OF rb s3(2), of ?it] f(2) by fastforce
  have "setup_group E (\<lambda>_. True) sb gd s i = Some (Inr (0, s4))"
    using s1(1) s2(1) s3(1) s4(1) gdp h gdb by (cases ?super) (auto simp: setup_group_def Let_def)
  moreover have "zone_has s4 (B \<union> ranges_blocks (group_ranges sb gd i)) (n + ranges_total (group_ranges sb gd i))"
    using s4(2) unfolding gr by (simp add: Un_assoc add.assoc)
  ultimately show ?thesis by blast
qed

lemma setup_groups_ok:
  assumes "rb_ok E" and "\<forall>i \<in> set gs. gd i \<noteq> None" and "zone_has s B n" and "fits_all B n (concat (map (group_ranges sb gd) gs))"
  shows "\<exists>s'. setup_groups E (\<lambda>_. True) sb gd gs s = Some (Inr (0, s')) \<and>
    zone_has s' (B \<union> ranges_blocks (concat (map (group_ranges sb gd) gs))) (n + ranges_total (concat (map (group_ranges sb gd) gs)))"
  using assms
proof (induction gs arbitrary: s B n)
  case (Cons i gs)
  obtain s1 where s1: "setup_group E (\<lambda>_. True) sb gd s i = Some (Inr (0, s1))"
      "zone_has s1 (B \<union> ranges_blocks (group_ranges sb gd i)) (n + ranges_total (group_ranges sb gd i))"
    using setup_group_ok [OF assms(1), of gd i s B n sb] Cons.prems by (auto simp: fits_all_append)
  from Cons.IH [OF assms(1) _ s1(2)] Cons.prems s1(1) show ?case by (auto simp: fits_all_append Un_assoc add.assoc)
qed simp

lemma data_block_valid_ok:
  assumes inv: "zone_inv s" and count: "count \<noteq> 0"
  shows "\<exists>s'. ext4_data_block_valid sb s start count = Inr (start > ucast (s_first_data_block sb) \<and>
    unat start + unat count \<le> unat (s_blocks_count sb) \<and> range_blocks (start, count) \<inter> zone_blocks (zone_list s) = {}, s')"
proof -
  have u: "unat (ucast count :: u64) = unat count" by (rule unat_ucast64)
  have ovf: "start + ucast count < start \<longleftrightarrow> unat start + unat count \<ge> 2 ^ 64"
    using no_olen_add_nat [of start "ucast count"] u by (auto simp: not_le [symmetric] word_le_nat_alt)
  have bound: "unat (s_blocks_count sb) < 2 ^ 64" using unsigned_less [of "s_blocks_count sb"] by simp
  show ?thesis
  proof (cases "unat start + unat count < 2 ^ 64")
    case True
    have a: "unat (start + ucast count) = unat start + unat count" using True u by (simp add: unat_add_small)
    have "zone_search s start count (system_blks s) = Inr (range_blocks (start, count) \<inter> zone_blocks (zone_list s) = {})"
      using zone_search_ok [OF _ _ count True, of "system_blks s" s] inv by (simp add: zone_inv_def zone_list_def range_blocks_def)
    then show ?thesis using ovf True a by (simp add: ext4_data_block_valid_def word_less_nat_alt not_less not_le word_le_nat_alt)
  next
    case False
    then show ?thesis using ovf bound by (simp add: ext4_data_block_valid_def)
  qed
qed

text \<open>C20: mounted with block validity checks, and if no allocation fails, a file system whose metadata
  does not overlap gets a tree of system zones with which \<open>ext4_data_block_valid\<close> accepts exactly the ranges behind the first data block
  and inside of the file system that have no block of a bitmap, an inode table or, in the first five
  groups and the first group of each flexible group, a superblock with its group descriptors.\<close>

theorem system_zone_exact:
  assumes "rb_ok E" and "opt_block_validity sb" and "system_blks s = \<langle>\<rangle>"
    and "\<forall>i \<in> set (map word_of_nat [0..<unat (s_groups_count sb)]). gd i \<noteq> None"
    and "ranges_ok (concat (map (group_ranges sb gd) (map word_of_nat [0..<unat (s_groups_count sb)])))"
  shows "\<exists>s'. ext4_setup_system_zone E (\<lambda>_. True) sb gd s = Some (Inr (0, s')) \<and>
    (\<forall>start count. count \<noteq> 0 \<longrightarrow> (\<exists>s''. ext4_data_block_valid sb s' start count =
       Inr (start > ucast (s_first_data_block sb) \<and> unat start + unat count \<le> unat (s_blocks_count sb) \<and>
         range_blocks (start, count) \<inter> ranges_blocks (concat (map (group_ranges sb gd) (map word_of_nat [0..<unat (s_groups_count sb)]))) = {}, s'')))"
proof -
  let ?gs = "map word_of_nat [0..<unat (s_groups_count sb)]"
  let ?rs = "concat (map (group_ranges sb gd) ?gs)"
  have s: "zone_has s {} 0" using assms(3) by (simp add: zone_has_def zone_inv_def zone_list_def zones_ok_def)
  have "fits_all {} 0 ?rs" by (rule ranges_ok_fits) (use assms(5) in \<open>simp_all add: ranges_ok_def ranges_total_def\<close>)
  then obtain s' where s': "setup_groups E (\<lambda>_. True) sb gd ?gs s = Some (Inr (0, s'))" "zone_has s' (ranges_blocks ?rs) (ranges_total ?rs)"
    using setup_groups_ok [OF assms(1,4) s] by auto
  have "zone_inv s'" "zone_blocks (zone_list s') = ranges_blocks ?rs" using s'(2) by (simp_all add: zone_has_def)
  then show ?thesis using s'(1) data_block_valid_ok [of s'] assms(2,3) by (simp add: ext4_setup_system_zone_def)
qed

definition one_group :: "ext4_group_t \<Rightarrow> ext4_group_desc option" where
  "one_group i = Some \<lparr>bg_block_bitmap = 200, bg_inode_bitmap = 216, bg_inode_table = 232\<rparr>"

definition no_zones :: zone_state where
  "no_zones = \<lparr>system_blks = \<langle>\<rangle>, zone_heap = (\<lambda>_. None), zone_new = 0, s_last_error_block = 0\<rparr>"

theorem system_zone_exact_witness:
  "\<exists>s'. ext4_setup_system_zone (es_lib True) (\<lambda>_. True) (ex_sb\<lparr>s_groups_count := 1\<rparr>) one_group no_zones = Some (Inr (0, s')) \<and>
    (\<exists>s''. ext4_data_block_valid (ex_sb\<lparr>s_groups_count := 1\<rparr>) s' 1000 8 = Inr (True, s'')) \<and>
    (\<exists>s''. ext4_data_block_valid (ex_sb\<lparr>s_groups_count := 1\<rparr>) s' 225 8 = Inr (False, s''))"
proof -
  let ?sb = "ex_sb\<lparr>s_groups_count := 1\<rparr>"
  have r: "concat (map (group_ranges ?sb one_group) (map word_of_nat [0..<unat (s_groups_count ?sb)])) = [(0, 2), (200, 1), (216, 1), (232, 512)]"
    by (simp add: ex_sb_def group_ranges_def one_group_def ext4_bg_has_super_def ext4_bg_num_gdb_def ext4_bg_num_gdb_nometa_def
        ext4_group_first_block_no_def Let_def)
  have ok: "ranges_ok [(0, 2), (200, 1), (216, 1), (232, 512)]" by (simp add: ranges_ok_def range_blocks_def)
  from system_zone_exact [of "es_lib True" ?sb no_zones one_group, unfolded r, OF _ _ _ _ ok]
  obtain s' where s': "ext4_setup_system_zone (es_lib True) (\<lambda>_. True) ?sb one_group no_zones = Some (Inr (0, s'))"
    "\<forall>start count. count \<noteq> 0 \<longrightarrow> (\<exists>s''. ext4_data_block_valid ?sb s' start count =
       Inr (start > ucast (s_first_data_block ?sb) \<and> unat start + unat count \<le> unat (s_blocks_count ?sb) \<and>
         range_blocks (start, count) \<inter> ranges_blocks [(0, 2), (200, 1), (216, 1), (232, 512)] = {}, s''))"
    by (auto simp: ex_sb_def one_group_def no_zones_def)
  have "range_blocks (1000, 8) \<inter> ranges_blocks [(0, 2), (200, 1), (216, 1), (232, 512)] = {}" by (auto simp: range_blocks_def)
  moreover have "232 \<in> range_blocks (225, 8) \<inter> ranges_blocks [(0, 2), (200, 1), (216, 1), (232, 512)]" by (simp add: range_blocks_def)
  then have "range_blocks (225, 8) \<inter> ranges_blocks [(0, 2), (200, 1), (216, 1), (232, 512)] \<noteq> {}" by blast
  moreover have "s_first_data_block ?sb = 0" "s_blocks_count ?sb = 262144" by (simp_all add: ex_sb_def)
  ultimately show ?thesis using s'(2) [rule_format, of 8 1000] s'(2) [rule_format, of 8 225] s'(1)
    by (intro exI [of _ s']) (simp del: ranges_simps)
qed

end
