(* ===== verification/Ext4_Indirect.thy ===== *)
theory Ext4_Indirect
  imports Ext4_Validity
begin

unbundle bit_operations_syntax

text \<open>
  Files that are mapped by indirect blocks, \<open>src/kernel/fs/ext4/indirect.c\<close>: the path of a block through the tree of
  indirect blocks, reading the blocks of a path, and looking up a range of blocks. The 15 pointers
  of the inode and the pointers of an indirect block are lists of block numbers, as \<open>le32_to_cpu\<close> reads
  them. The buffer cache is the parameter \<open>ind_env\<close>. Allocating and freeing blocks are not modelled.
\<close>

section \<open>The path of a block\<close>

abbreviation "EXT4_NDIR_BLOCKS \<equiv> 12 :: nat"
abbreviation "EXT4_IND_BLOCK \<equiv> 12 :: u32"
abbreviation "EXT4_DIND_BLOCK \<equiv> 13 :: u32"
abbreviation "EXT4_TIND_BLOCK \<equiv> 14 :: u32"

definition EXT4_ADDR_PER_BLOCK :: "ext4_sb \<Rightarrow> u32" where
  "EXT4_ADDR_PER_BLOCK sb = push_bit (s_blocksize_bits sb) 1 div 4"

text \<open>\<open>ilog2\<close> of the number of pointers in a block.\<close>

definition EXT4_ADDR_PER_BLOCK_BITS :: "ext4_sb \<Rightarrow> nat" where
  "EXT4_ADDR_PER_BLOCK_BITS sb = s_blocksize_bits sb - 2"

definition ext4_block_to_path :: "ext4_sb \<Rightarrow> ext4_lblk_t \<Rightarrow> u32 list \<times> int" where
  "ext4_block_to_path sb i_block =
     (let ptrs = EXT4_ADDR_PER_BLOCK sb;
          ptrs_bits = EXT4_ADDR_PER_BLOCK_BITS sb;
          direct_blocks = 12;
          indirect_blocks = ptrs;
          double_blocks = push_bit (ptrs_bits * 2) 1;
          i_block1 = i_block - direct_blocks;
          i_block2 = i_block1 - indirect_blocks;
          i_block3 = i_block2 - double_blocks;
          (offsets, final, i_block) =
            (if i_block < direct_blocks then ([i_block], direct_blocks, i_block)
             else if i_block1 < indirect_blocks then ([EXT4_IND_BLOCK, i_block1], ptrs, i_block1)
             else if i_block2 < double_blocks
             then ([EXT4_DIND_BLOCK, drop_bit ptrs_bits i_block2, i_block2 AND (ptrs - 1)], ptrs, i_block2)
             else if drop_bit (ptrs_bits * 2) i_block3 < ptrs
             then ([EXT4_TIND_BLOCK, drop_bit (ptrs_bits * 2) i_block3, drop_bit ptrs_bits i_block3 AND (ptrs - 1),
                    i_block3 AND (ptrs - 1)], ptrs, i_block3)
             else ([], 0, i_block3))
      in (offsets, sint (final - 1 - (i_block AND (ptrs - 1)))))"

section \<open>Reading a path\<close>

record ind_env =
  ind_getblk :: "u32 \<Rightarrow> bool"
  ind_uptodate :: "u32 \<Rightarrow> bool"
  ind_submit_read :: "u32 \<Rightarrow> bool"
  ind_block :: "u32 \<Rightarrow> u32 list"

text \<open>A triple of the chain: the block that has the pointer, none for the inode, the index of the pointer, and its value.\<close>

record indirect =
  ind_bh :: "u32 option"
  ind_p :: nat
  ind_key :: u32

definition add_chain :: "u32 option \<Rightarrow> u32 list \<Rightarrow> u32 \<Rightarrow> indirect" where
  "add_chain bh blks off = \<lparr>ind_bh = bh, ind_p = unat off, ind_key = blks ! unat off\<rparr>"

text \<open>
  The loop of \<open>ext4_get_branch\<close>: the triples read so far, whether the chain is complete, the error and the state of
  the block validity check.
\<close>

fun get_branch_loop ::
    "ext4_sb \<Rightarrow> ind_env \<Rightarrow> zone_state \<Rightarrow> indirect list \<Rightarrow> u32 \<Rightarrow> u32 list \<Rightarrow> (indirect list \<times> bool \<times> int \<times> zone_state) res" where
  "get_branch_loop sb E z chain key [] = Inr (chain, True, 0, z)"
| "get_branch_loop sb E z chain key (off # offsets) =
     (if \<not> ind_getblk E key then Inr (chain, False, - ENOMEM, z)
      else bind_res
        (if ind_uptodate E key then Inr (True, z)
         else if \<not> ind_submit_read E key then Inr (False, z)
         else bind_res (ext4_check_blockref sb z (ind_block E key)) (\<lambda>(ret, z). Inr (ret = 0, z))) (\<lambda>(ok, z).
        if \<not> ok then Inr (chain, False, - EIO, z)
        else let p = add_chain (Some key) (ind_block E key) off
             in if ind_key p = 0 then Inr (chain @ [p], False, 0, z)
                else get_branch_loop sb E z (chain @ [p]) (ind_key p) offsets))"

definition ext4_get_branch ::
    "ext4_sb \<Rightarrow> ind_env \<Rightarrow> zone_state \<Rightarrow> u32 list \<Rightarrow> u32 list \<Rightarrow> (indirect list \<times> bool \<times> int \<times> zone_state) res" where
  "ext4_get_branch sb E z i_data offsets =
     (let p = add_chain None i_data (hd offsets)
      in if ind_key p = 0 then Inr ([p], False, 0, z)
         else get_branch_loop sb E z [p] (ind_key p) (tl offsets))"

section \<open>Looking up blocks\<close>

record ext4_map_blocks =
  m_pblk :: u64
  m_lblk :: ext4_lblk_t
  m_len :: u32
  m_flags :: u32

abbreviation "EXT4_MAP_MAPPED \<equiv> 0x20 :: u32"
abbreviation "EXT4_MAP_BOUNDARY \<equiv> 0x400 :: u32"

definition ind_pointers :: "ind_env \<Rightarrow> u32 list \<Rightarrow> u32 option \<Rightarrow> u32 list" where
  "ind_pointers E i_data bh = (case bh of None \<Rightarrow> i_data | Some b \<Rightarrow> ind_block E b)"

function map_more :: "u32 list \<Rightarrow> nat \<Rightarrow> u64 \<Rightarrow> nat \<Rightarrow> int \<Rightarrow> nat \<Rightarrow> nat" where
  "map_more blks p first_block len blocks_to_boundary count =
     (if count < len \<and> int count \<le> blocks_to_boundary \<and> ucast (blks ! (p + count)) = first_block + word_of_nat count
      then map_more blks p first_block len blocks_to_boundary (count + 1) else count)"
  by auto
termination by (relation "measure (\<lambda>(blks, p, first, len, b, count). len - count)") auto

declare map_more.simps [simp del]

text \<open>\<open>ext4_ind_map_blocks\<close> without \<open>EXT4_GET_BLOCKS_CREATE\<close>.\<close>

definition ext4_ind_map_blocks ::
    "ext4_sb \<Rightarrow> ind_env \<Rightarrow> zone_state \<Rightarrow> bool \<Rightarrow> u32 list \<Rightarrow> ext4_map_blocks \<Rightarrow> (int \<times> ext4_map_blocks \<times> zone_state) res" where
  "ext4_ind_map_blocks sb E z extents i_data mb =
     J_ASSERT (\<not> extents)
       (let (offsets, blocks_to_boundary) = ext4_block_to_path sb (m_lblk mb);
            depth = length offsets
        in if depth = 0 then Inr (- EIO, mb, z)
           else bind_res (ext4_get_branch sb E z i_data offsets) (\<lambda>(chain, whole, err, z).
             if whole then
               (let ind = last chain;
                    first_block = ucast (ind_key ind);
                    count = map_more (ind_pointers E i_data (ind_bh ind)) (ind_p ind) first_block (unat (m_len mb)) blocks_to_boundary 1;
                    flags = m_flags mb OR EXT4_MAP_MAPPED;
                    flags = (if int count > blocks_to_boundary then flags OR EXT4_MAP_BOUNDARY else flags)
                in Inr (int count, mb\<lparr>m_flags := flags, m_pblk := first_block, m_len := word_of_nat count\<rparr>, z))
             else
               (let epb = EXT4_ADDR_PER_BLOCK sb;
                    count = epb ^ (depth - length chain)
                in Inr (err, mb\<lparr>m_pblk := 0, m_len := min (m_len mb) count\<rparr>, z))))"

section \<open>The path as numbers\<close>

text \<open>Blocks from 1 KiB to 64 KiB.\<close>

definition sb_bits_ok :: "ext4_sb \<Rightarrow> bool" where
  "sb_bits_ok sb = (10 \<le> s_blocksize_bits sb \<and> s_blocksize_bits sb \<le> 16)"

definition ptrs_of :: "ext4_sb \<Rightarrow> nat" where
  "ptrs_of sb = 2 ^ EXT4_ADDR_PER_BLOCK_BITS sb"

lemma ptrs_bounds: "sb_bits_ok sb \<Longrightarrow> 256 \<le> ptrs_of sb \<and> ptrs_of sb \<le> 16384"
  using power_increasing [of 8 "s_blocksize_bits sb - 2" "2 :: nat"] power_increasing [of "s_blocksize_bits sb - 2" 14 "2 :: nat"]
  by (auto simp: sb_bits_ok_def ptrs_of_def EXT4_ADDR_PER_BLOCK_BITS_def)

lemma unat_ptrs:
  assumes "sb_bits_ok sb"
  shows "unat (EXT4_ADDR_PER_BLOCK sb) = ptrs_of sb" "EXT4_ADDR_PER_BLOCK sb - 1 = mask (EXT4_ADDR_PER_BLOCK_BITS sb)"
    "unat (push_bit (EXT4_ADDR_PER_BLOCK_BITS sb * 2) 1 :: u32) = ptrs_of sb * ptrs_of sb"
proof -
  let ?b = "EXT4_ADDR_PER_BLOCK_BITS sb"
  have b: "s_blocksize_bits sb = ?b + 2" "?b * 2 < 32" "?b < 32" "s_blocksize_bits sb < 32"
    using assms unfolding sb_bits_ok_def EXT4_ADDR_PER_BLOCK_BITS_def by linarith+
  have p: "unat (push_bit k 1 :: u32) = 2 ^ k" if "k < 32" for k using that power_strict_increasing [of k 32 "2 :: nat"]
    unfolding unsigned_push_bit_eq by (simp add: take_bit_eq_mod push_bit_eq_mult)
  show u: "unat (EXT4_ADDR_PER_BLOCK sb) = ptrs_of sb"
    unfolding EXT4_ADDR_PER_BLOCK_def unat_div p [OF b(4)] by (simp add: b(1) ptrs_of_def power_add)
  have "EXT4_ADDR_PER_BLOCK sb = push_bit ?b 1" using u p [OF b(3)] by (simp only: word_unat_eq_iff ptrs_of_def)
  then show "EXT4_ADDR_PER_BLOCK sb - 1 = mask ?b" by (simp add: mask_eq_exp_minus_1 push_bit_eq_mult)
  show "unat (push_bit (?b * 2) 1 :: u32) = ptrs_of sb * ptrs_of sb"
    unfolding p [OF b(2)] by (simp add: ptrs_of_def power_add mult_2_right)
qed

lemma unat_and_ptrs:
  assumes "sb_bits_ok sb"
  shows "unat (w AND (EXT4_ADDR_PER_BLOCK sb - 1)) = unat w mod ptrs_of sb"
  unfolding unat_ptrs(2) [OF assms] take_bit_eq_mask [symmetric] ptrs_of_def unsigned_take_bit_eq
  by (rule take_bit_eq_mod)

lemma unat_shift_ptrs:
  "unat (drop_bit (EXT4_ADDR_PER_BLOCK_BITS sb) (w :: u32)) = unat w div ptrs_of sb"
  "unat (drop_bit (EXT4_ADDR_PER_BLOCK_BITS sb * 2) (w :: u32)) = unat w div (ptrs_of sb * ptrs_of sb)"
  unfolding unat_drop_bit_eq by (simp_all add: drop_bit_eq_div ptrs_of_def power_add [symmetric] mult_2_right)

definition path_nat :: "nat \<Rightarrow> nat \<Rightarrow> nat list" where
  "path_nat P n =
     (if n < 12 then [n] else if n - 12 < P then [12, n - 12]
      else if n - 12 - P < P * P then [13, (n - 12 - P) div P, (n - 12 - P) mod P]
      else if (n - 12 - P - P * P) div (P * P) < P
      then [14, (n - 12 - P - P * P) div (P * P), (n - 12 - P - P * P) div P mod P, (n - 12 - P - P * P) mod P] else [])"

lemma sint_small:
  fixes w :: u32
  assumes "unat w < 2 ^ 31"
  shows "sint w = int (unat w)"
proof -
  have u: "uint w = int (unat w)" by (rule uint_nat)
  have "int (unat w) < 2 ^ 31" using assms by (metis of_nat_less_iff of_nat_numeral of_nat_power)
  then have "signed_take_bit 31 (uint w) = uint w" unfolding u [symmetric]
    using order_trans [OF _ uint_ge_0, of "- (2 ^ 31)" w] by (intro signed_take_bit_int_eq_self) simp_all
  then have "sint w = uint w" by (simp add: sint_uint)
  then show ?thesis unfolding u .
qed

lemma block_to_path_nat:
  assumes sb: "sb_bits_ok sb" and path: "ext4_block_to_path sb i_block = (offsets, boundary)"
  shows "map unat offsets = path_nat (ptrs_of sb) (unat i_block)"
    "offsets \<noteq> [] \<Longrightarrow> boundary = int ((if unat i_block < 12 then 11 else ptrs_of sb - 1) - unat (last offsets))"
proof -
  let ?P = "ptrs_of sb" and ?n = "unat i_block" and ?i1 = "i_block - 12"
  let ?i2 = "?i1 - EXT4_ADDR_PER_BLOCK sb" and ?d = "push_bit (EXT4_ADDR_PER_BLOCK_BITS sb * 2) 1 :: u32"
  let ?i3 = "?i2 - ?d"
  note P = unat_ptrs(1,3) [OF sb] ptrs_bounds [OF sb]
  have lt: "i_block < 12 \<longleftrightarrow> ?n < 12" by (simp add: word_less_nat_alt)
  have u1: "unat ?i1 = ?n - 12" if "\<not> ?n < 12"
    using that unat_sub [of 12 i_block] by (simp add: word_le_nat_alt)
  have u2: "unat ?i2 = ?n - 12 - ?P" if "\<not> ?n < 12" "\<not> ?n - 12 < ?P"
  proof -
    have "EXT4_ADDR_PER_BLOCK sb \<le> ?i1" unfolding word_le_nat_alt P(1) u1 [OF that(1)] using that(2) by linarith
    then show ?thesis by (simp only: unat_sub P(1) u1 [OF that(1)])
  qed
  have u3: "unat ?i3 = ?n - 12 - ?P - ?P * ?P" if "\<not> ?n < 12" "\<not> ?n - 12 < ?P" "\<not> ?n - 12 - ?P < ?P * ?P"
  proof -
    have "?d \<le> ?i2" unfolding word_le_nat_alt P(2) u2 [OF that(1,2)] using that(3) by linarith
    then show ?thesis by (simp only: unat_sub P(2) u2 [OF that(1,2)])
  qed
  note words = unat_and_ptrs [OF sb] unat_shift_ptrs
  have fin: "sint (f - 1 - (w AND (EXT4_ADDR_PER_BLOCK sb - 1))) = int (unat f - 1 - unat w mod ?P)"
    if "unat w mod ?P < unat f" "unat f \<le> 16384" for f w :: u32
  proof -
    have f: "unat (f - 1) = unat f - 1" using that(1) by (intro unat_minus_one) auto
    have "w AND (EXT4_ADDR_PER_BLOCK sb - 1) \<le> f - 1" unfolding word_le_nat_alt words f using that(1) by linarith
    then have "unat (f - 1 - (w AND (EXT4_ADDR_PER_BLOCK sb - 1))) = unat f - 1 - unat w mod ?P"
      by (simp only: unat_sub f words)
    note u = this
    have "unat (f - 1 - (w AND (EXT4_ADDR_PER_BLOCK sb - 1))) < 2 ^ 31" unfolding u using that(2) by simp
    then show ?thesis unfolding u [symmetric] by (rule sint_small)
  qed
  consider (dir) "?n < 12" | (ind) "\<not> ?n < 12" "?n - 12 < ?P" | (dind) "\<not> ?n < 12" "\<not> ?n - 12 < ?P" "?n - 12 - ?P < ?P * ?P"
    | (tind) "\<not> ?n < 12" "\<not> ?n - 12 < ?P" "\<not> ?n - 12 - ?P < ?P * ?P" by blast
  then have "map unat offsets = path_nat ?P ?n \<and>
      (offsets \<noteq> [] \<longrightarrow> boundary = int ((if ?n < 12 then 11 else ?P - 1) - unat (last offsets)))"
  proof cases
    case dir
    then show ?thesis using path lt fin [of i_block 12] P by (auto simp: ext4_block_to_path_def Let_def path_nat_def)
  next
    case ind
    have c: "?i1 < EXT4_ADDR_PER_BLOCK sb" using ind u1 P by (simp add: word_less_nat_alt)
    show ?thesis using path lt ind c u1 P fin [of ?i1 "EXT4_ADDR_PER_BLOCK sb"] by (auto simp: ext4_block_to_path_def Let_def path_nat_def)
  next
    case dind
    have c: "\<not> ?i1 < EXT4_ADDR_PER_BLOCK sb" "?i2 < ?d" using dind u1 u2 P by (simp_all add: word_less_nat_alt)
    show ?thesis using path lt dind c u2 P fin [of ?i2 "EXT4_ADDR_PER_BLOCK sb"]
      by (auto simp: ext4_block_to_path_def Let_def path_nat_def words)
  next
    case tind
    have c: "\<not> ?i1 < EXT4_ADDR_PER_BLOCK sb" "\<not> ?i2 < ?d"
      "drop_bit (EXT4_ADDR_PER_BLOCK_BITS sb * 2) ?i3 < EXT4_ADDR_PER_BLOCK sb \<longleftrightarrow> (?n - 12 - ?P - ?P * ?P) div (?P * ?P) < ?P"
      using tind u1 u2 u3 P by (simp_all add: word_less_nat_alt words)
    show ?thesis using path lt tind c u3 P fin [of ?i3 "EXT4_ADDR_PER_BLOCK sb"]
      by (auto simp: ext4_block_to_path_def Let_def path_nat_def words split: if_splits)
  qed
  then show "map unat offsets = path_nat ?P ?n"
    "offsets \<noteq> [] \<Longrightarrow> boundary = int ((if ?n < 12 then 11 else ?P - 1) - unat (last offsets))" by simp_all
qed

text \<open>The block that a path leads to.\<close>

fun path_block :: "nat \<Rightarrow> nat list \<Rightarrow> nat" where
  "path_block P [c] = c"
| "path_block P [_, c] = 12 + c"
| "path_block P [_, b, c] = 12 + P + b * P + c"
| "path_block P [_, a, b, c] = 12 + P + P * P + (a * P + b) * P + c"
| "path_block P _ = 0"

definition path_ok :: "nat \<Rightarrow> nat list \<Rightarrow> bool" where
  "path_ok P ns = (length ns \<in> {1..4} \<and> (if length ns = 1 then hd ns < 12 else hd ns = 10 + length ns) \<and> (\<forall>c \<in> set (tl ns). c < P))"

lemma path_nat_inverse:
  assumes "P > 0" and "path_nat P n \<noteq> []"
  shows "path_block P (path_nat P n) = n" "path_ok P (path_nat P n)"
proof -
  let ?m = "n - 12 - P - P * P"
  have sq: "x div P < P" if "x < P * P" for x :: nat using that by (simp add: less_mult_imp_div_less)
  have t: "(?m div (P * P) * P + ?m div P mod P) * P + ?m mod P = ?m"
    by (metis div_mult2_eq div_mult_mod_eq)
  show "path_block P (path_nat P n) = n"
  proof (cases "n < 12 + P + P * P")
    case True
    then show ?thesis using assms by (auto simp: path_nat_def)
  next
    case False
    then have "path_nat P n = [14, ?m div (P * P), ?m div P mod P, ?m mod P]" using assms(2) by (auto simp: path_nat_def split: if_splits)
    then show ?thesis using t False by (simp only: path_block.simps) linarith
  qed
  show "path_ok P (path_nat P n)" using assms sq by (auto simp: path_nat_def path_ok_def split: if_splits)
qed

lemma path_nat_Nil:
  assumes "P > 0"
  shows "path_nat P n = [] \<longleftrightarrow> n \<ge> 12 + P + P * P + P * P * P"
proof -
  have d: "(n - 12 - P - P * P) div (P * P) < P \<longleftrightarrow> n - 12 - P - P * P < P * P * P"
    using assms by (simp only: div_less_iff_less_mult mult.assoc mult_pos_pos)
  have e: "path_nat P n = [] \<longleftrightarrow> \<not> n < 12 \<and> \<not> n - 12 < P \<and> \<not> n - 12 - P < P * P \<and> \<not> n - 12 - P - P * P < P * P * P"
    unfolding path_nat_def d by (simp only: if_splits list.distinct split: if_splits) blast
  show ?thesis unfolding e by (rule iffI) linarith+
qed

lemma div_mod_add:
  assumes "m mod P + k < (P :: nat)"
  shows "(m + k) div P = m div P" "(m + k) mod P = m mod P + k"
proof -
  have m: "P * (m div P) + m mod P = m" by simp
  show d: "(m + k) div P = m div P"
  proof (rule div_nat_eqI)
    show "P * (m div P) \<le> m + k" using m by linarith
    show "m + k < P * Suc (m div P)" unfolding mult_Suc_right using assms m by linarith
  qed
  have "P * ((m + k) div P) + (m + k) mod P = m + k" by simp
  then show "(m + k) mod P = m mod P + k" unfolding d using m by linarith
qed

lemma path_nat_next:
  assumes P: "P > 0" and path: "path_nat P n = os @ [c]" and k: "k \<le> (if n < 12 then 11 else P - 1) - c"
  shows "path_nat P (n + k) = os @ [c + k]"
proof -
  consider (dir) "n < 12" | (ind) "\<not> n < 12" "n - 12 < P" | (dind) "\<not> n < 12" "\<not> n - 12 < P" "n - 12 - P < P * P"
    | (tind) "\<not> n < 12" "\<not> n - 12 < P" "\<not> n - 12 - P < P * P" by blast
  then show ?thesis
  proof cases
    case dir
    then show ?thesis using path k by (auto simp: path_nat_def)
  next
    case ind
    then have "os = [12]" "c = n - 12" using path by (auto simp: path_nat_def Cons_eq_append_conv)
    then show ?thesis using ind k by (auto simp: path_nat_def)
  next
    case dind
    let ?m = "n - 12 - P"
    have os: "os = [13, ?m div P]" "c = ?m mod P" using path dind by (auto simp: path_nat_def Cons_eq_append_conv)
    have mk: "n + k - 12 - P = ?m + k" using dind by simp
    have "?m mod P < P" using P by simp
    then have r: "?m mod P + k < P" using k dind(1) unfolding os(2) by (simp only: if_False)
    note d = div_mod_add [OF r]
    have "?m div P < P" using dind(3) by (simp add: less_mult_imp_div_less)
    then have "?m + k < P * P" using d(1) P by (metis div_less_iff_less_mult)
    then show ?thesis using dind d os by (simp add: path_nat_def mk)
  next
    case tind
    let ?m = "n - 12 - P - P * P"
    have os: "?m div (P * P) < P" "os = [14, ?m div (P * P), ?m div P mod P]" "c = ?m mod P"
      using path tind by (auto simp: path_nat_def Cons_eq_append_conv split: if_splits)
    have mk: "n + k - 12 - P - P * P = ?m + k" using tind by linarith
    have "?m mod P < P" using P by simp
    then have r: "?m mod P + k < P" using k tind(1) unfolding os(3) by (simp only: if_False) linarith
    note d = div_mod_add [OF r]
    have "(?m + k) div (P * P) = ?m div (P * P)" by (simp only: div_mult2_eq d(1))
    moreover have "\<not> n + k - 12 < P" "\<not> n + k - 12 - P < P * P" using tind by linarith+
    ultimately show ?thesis using tind(1) d os mk by (simp add: path_nat_def)
  qed
qed

lemma block_to_path_next:
  assumes sb: "sb_bits_ok sb" and path: "ext4_block_to_path sb i_block = (offsets, boundary)" and ne: "offsets \<noteq> []"
    and k: "int k \<le> boundary" "unat i_block + k < 2 ^ 32"
  shows "fst (ext4_block_to_path sb (i_block + word_of_nat k)) = butlast offsets @ [last offsets + word_of_nat k]"
    "unat (last offsets + word_of_nat k) = unat (last offsets) + k"
proof -
  let ?P = "ptrs_of sb" and ?c = "unat (last offsets)"
  obtain offsets' boundary' where path': "ext4_block_to_path sb (i_block + word_of_nat k) = (offsets', boundary')" by fastforce
  have P: "0 < ?P" "?P \<le> 16384" using ptrs_bounds [OF sb] by simp_all
  have o: "path_nat ?P (unat i_block) = map unat (butlast offsets) @ [?c]"
    using block_to_path_nat(1) [OF sb path] ne by (metis append_butlast_last_id list.simps(8,9) map_append)
  have kc: "k \<le> (if unat i_block < 12 then 11 else ?P - 1) - ?c" using block_to_path_nat(2) [OF sb path ne] k(1) by simp
  have "k \<le> 16384" using kc P(2) by (auto split: if_splits)
  then have "unat (word_of_nat k :: u32) = k" by (simp add: unat_of_nat)
  note uk = this
  have "unat (i_block + word_of_nat k) = unat i_block + k" using k(2) uk by (simp add: unat_add_small)
  then have o': "map unat offsets' = map unat (butlast offsets) @ [?c + k]"
    using block_to_path_nat(1) [OF sb path'] path_nat_next [OF P(1) o kc] by simp
  have "path_ok ?P (path_nat ?P (unat i_block))" using path_nat_inverse(2) [OF P(1), of "unat i_block"] o by (metis snoc_eq_iff_butlast)
  then have "?c < ?P \<or> ?c < 15" unfolding o by (cases "butlast offsets") (auto simp: path_ok_def)
  then show c: "unat (last offsets + word_of_nat k) = ?c + k" using P(2) \<open>k \<le> 16384\<close> uk by (intro unat_add_small [THEN trans]) auto
  have "map unat offsets' = map unat (butlast offsets @ [last offsets + word_of_nat k])" using o' c by simp
  moreover have "inj (unat :: u32 \<Rightarrow> nat)" by (simp add: inj_def word_unat_eq_iff)
  ultimately show "fst (ext4_block_to_path sb (i_block + word_of_nat k)) = butlast offsets @ [last offsets + word_of_nat k]"
    using path' by (simp only: inj_map_eq_map fst_conv)
qed

text \<open>C22: \<open>ext4_block_to_path\<close> and reading off a path are inverse to each other. A block has a path exactly if it is
  below the limit of the triple indirect tree; the path leads back to the block, its first offset is in
  the inode and the others are in an indirect block, and for as many blocks as \<open>boundary\<close> says the path is
  the same except for the last offset, which grows with the block.\<close>

theorem block_to_path_roundtrip:
  assumes "sb_bits_ok sb" and "ext4_block_to_path sb i_block = (offsets, boundary)"
  shows "let P = ptrs_of sb in
    (offsets = [] \<longleftrightarrow> unat i_block \<ge> 12 + P + P * P + P * P * P) \<and>
    (offsets \<noteq> [] \<longrightarrow> path_block P (map unat offsets) = unat i_block \<and> path_ok P (map unat offsets) \<and> 0 \<le> boundary \<and>
       (\<forall>k. int k \<le> boundary \<and> unat i_block + k < 2 ^ 32 \<longrightarrow>
          fst (ext4_block_to_path sb (i_block + word_of_nat k)) = butlast offsets @ [last offsets + word_of_nat k]))"
proof -
  let ?P = "ptrs_of sb"
  note n = block_to_path_nat [OF assms]
  have P: "0 < ?P" using ptrs_bounds [OF assms(1)] by simp
  have "offsets = [] \<longleftrightarrow> path_nat ?P (unat i_block) = []" using n(1) by (metis Nil_is_map_conv)
  then show ?thesis unfolding Let_def
    using path_nat_Nil [OF P, of "unat i_block"] path_nat_inverse [OF P, of "unat i_block"] n block_to_path_next(1) [OF assms] by simp
qed

section \<open>What a file maps\<close>

text \<open>The block that the pointers lead to along a path, 0 when a pointer on the way is missing.\<close>

fun ind_walk :: "ind_env \<Rightarrow> u32 list \<Rightarrow> u32 list \<Rightarrow> u32" where
  "ind_walk E blks [] = 0"
| "ind_walk E blks [off] = blks ! unat off"
| "ind_walk E blks (off # off' # offs) = (if blks ! unat off = 0 then 0 else ind_walk E (ind_block E (blks ! unat off)) (off' # offs))"

definition ind_mapped :: "ext4_sb \<Rightarrow> ind_env \<Rightarrow> u32 list \<Rightarrow> ext4_lblk_t \<Rightarrow> u32" where
  "ind_mapped sb E i_data lblk = ind_walk E i_data (fst (ext4_block_to_path sb lblk))"

text \<open>Every indirect block can be read and has valid pointers.\<close>

definition ind_ok :: "ext4_sb \<Rightarrow> ind_env \<Rightarrow> zone_state \<Rightarrow> bool" where
  "ind_ok sb E z = (\<forall>b. ind_getblk E b \<and>
     (ind_uptodate E b \<or> ind_submit_read E b \<and> ext4_check_blockref sb z (ind_block E b) = Inr (0, z)))"

lemma ind_walk_append:
  "ind_walk E blks (offs @ [off]) = (if offs = [] then blks ! unat off
     else let key = ind_walk E blks offs in if key = 0 then 0 else ind_block E key ! unat off)"
  by (induction E blks offs rule: ind_walk.induct) (auto simp: Let_def)

lemma get_branch_loop_ok:
  assumes ok: "ind_ok sb E z" and key: "key \<noteq> 0"
  shows "\<exists>chain' whole. get_branch_loop sb E z chain key offs = Inr (chain @ chain', whole, 0, z) \<and>
    (whole \<longleftrightarrow> offs = [] \<or> ind_walk E (ind_block E key) offs \<noteq> 0) \<and>
    (whole \<and> offs \<noteq> [] \<longrightarrow> chain' \<noteq> [] \<and> ind_key (last chain') = ind_walk E (ind_block E key) offs \<and> ind_p (last chain') = unat (last offs) \<and>
       (\<exists>b. ind_bh (last chain') = Some b \<and> (\<forall>off. ind_walk E (ind_block E key) (butlast offs @ [off]) = ind_block E b ! unat off)))"
  using key
proof (induction offs arbitrary: key chain)
  case (Cons off offs)
  let ?p = "add_chain (Some key) (ind_block E key) off"
  have step: "get_branch_loop sb E z chain key (off # offs) =
      (if ind_key ?p = 0 then Inr (chain @ [?p], False, 0, z) else get_branch_loop sb E z (chain @ [?p]) (ind_key ?p) offs)"
    using ok [unfolded ind_ok_def, rule_format, of key] by (auto simp: Let_def)
  show ?case
  proof (cases "ind_key ?p = 0")
    case True
    then have "ind_walk E (ind_block E key) (off # offs) = 0" by (cases offs) (auto simp: add_chain_def)
    then show ?thesis using True unfolding step by (auto simp: add_chain_def)
  next
    case False
    obtain chain' whole where ih: "get_branch_loop sb E z (chain @ [?p]) (ind_key ?p) offs = Inr ((chain @ [?p]) @ chain', whole, 0, z)"
      "whole \<longleftrightarrow> offs = [] \<or> ind_walk E (ind_block E (ind_key ?p)) offs \<noteq> 0"
      "whole \<and> offs \<noteq> [] \<longrightarrow> chain' \<noteq> [] \<and> ind_key (last chain') = ind_walk E (ind_block E (ind_key ?p)) offs \<and> ind_p (last chain') = unat (last offs) \<and>
       (\<exists>b. ind_bh (last chain') = Some b \<and> (\<forall>off. ind_walk E (ind_block E (ind_key ?p)) (butlast offs @ [off]) = ind_block E b ! unat off))"
      using Cons.IH [OF False, of "chain @ [?p]"] by blast
    show ?thesis
    proof (cases offs)
      case Nil
      then show ?thesis using ih False unfolding step by (auto simp: add_chain_def)
    next
      case (Cons off' offs')
      have w: "ind_walk E (ind_block E key) (off # xs) = ind_walk E (ind_block E (ind_key ?p)) xs" if "xs \<noteq> []" for xs
        using that False by (cases xs) (auto simp: add_chain_def)
      have "butlast (off # offs) @ [x] = off # (butlast offs @ [x])" for x using Cons by simp
      then have "ind_walk E (ind_block E key) (butlast (off # offs) @ [x]) = ind_walk E (ind_block E (ind_key ?p)) (butlast offs @ [x])" for x
        using w [of "butlast offs @ [x]"] by simp
      then show ?thesis using ih w [of offs] False Cons unfolding step by (intro exI [of _ "?p # chain'"] exI [of _ whole]) simp
    qed
  qed
qed (auto intro: exI [of _ True])

lemma get_branch_ok:
  assumes ok: "ind_ok sb E z" and ne: "offs \<noteq> []"
  shows "\<exists>chain whole. ext4_get_branch sb E z i_data offs = Inr (chain, whole, 0, z) \<and> chain \<noteq> [] \<and>
    (whole \<longleftrightarrow> ind_walk E i_data offs \<noteq> 0) \<and>
    (whole \<longrightarrow> ind_key (last chain) = ind_walk E i_data offs \<and> ind_p (last chain) = unat (last offs) \<and>
       (\<forall>off. ind_walk E i_data (butlast offs @ [off]) = ind_pointers E i_data (ind_bh (last chain)) ! unat off))"
proof -
  obtain off offs' where offs: "offs = off # offs'" using ne by (cases offs) auto
  let ?p = "add_chain None i_data off"
  show ?thesis
  proof (cases "ind_key ?p = 0")
    case True
    then have "ind_walk E i_data offs = 0" unfolding offs by (cases offs') (auto simp: add_chain_def)
    then show ?thesis using True by (intro exI [of _ "[?p]"] exI [of _ False]) (simp add: ext4_get_branch_def offs Let_def)
  next
    case False
    obtain chain' whole where l: "get_branch_loop sb E z [?p] (ind_key ?p) offs' = Inr ([?p] @ chain', whole, 0, z)"
      "whole \<longleftrightarrow> offs' = [] \<or> ind_walk E (ind_block E (ind_key ?p)) offs' \<noteq> 0"
      "whole \<and> offs' \<noteq> [] \<longrightarrow> chain' \<noteq> [] \<and> ind_key (last chain') = ind_walk E (ind_block E (ind_key ?p)) offs' \<and> ind_p (last chain') = unat (last offs') \<and>
       (\<exists>b. ind_bh (last chain') = Some b \<and> (\<forall>off. ind_walk E (ind_block E (ind_key ?p)) (butlast offs' @ [off]) = ind_block E b ! unat off))"
      using get_branch_loop_ok [OF ok False, of "[?p]" offs'] by blast
    have e: "ext4_get_branch sb E z i_data offs = Inr (?p # chain', whole, 0, z)"
      using l(1) False by (simp add: ext4_get_branch_def offs Let_def)
    show ?thesis
    proof (cases "offs' = []")
      case True
      have "chain' = []" using l(1) True by simp
      then show ?thesis using e l(2) True False
        by (intro exI [of _ "[?p]"] exI [of _ True]) (simp add: offs add_chain_def ind_pointers_def)
    next
      case ne': False
      have w: "ind_walk E i_data (off # xs) = ind_walk E (ind_block E (ind_key ?p)) xs" if "xs \<noteq> []" for xs
        using that False by (cases xs) (auto simp: add_chain_def)
      have "butlast offs @ [x] = off # (butlast offs' @ [x])" for x using ne' by (simp add: offs)
      then have "ind_walk E i_data (butlast offs @ [x]) = ind_walk E (ind_block E (ind_key ?p)) (butlast offs' @ [x])" for x
        using w [of "butlast offs' @ [x]"] by simp
      then show ?thesis using e l w [OF ne'] ne' by (auto simp: offs ind_pointers_def)
    qed
  qed
qed

lemma map_more_ok:
  "count \<le> map_more blks p f len b count \<and> map_more blks p f len b count \<le> max len count \<and>
   (\<forall>k. count \<le> k \<and> k < map_more blks p f len b count \<longrightarrow> int k \<le> b \<and> ucast (blks ! (p + k)) = f + word_of_nat k)"
proof (induction blks p f len b count rule: map_more.induct)
  case (1 blks p f len b count)
  let ?c = "count < len \<and> int count \<le> b \<and> ucast (blks ! (p + count)) = f + word_of_nat count"
  show ?case
  proof (cases ?c)
    case True
    then have e: "map_more blks p f len b count = map_more blks p f len b (count + 1)" by (subst map_more.simps) simp
    note ih = 1 [OF True]
    have "int k \<le> b \<and> ucast (blks ! (p + k)) = f + word_of_nat k" if "count \<le> k \<and> k < map_more blks p f len b (count + 1)" for k
      using that ih True by (cases "k = count") simp_all
    then show ?thesis using ih True unfolding e by simp
  next
    case False
    then have "map_more blks p f len b count = count" by (subst map_more.simps) (simp only: if_False)
    then show ?thesis by auto
  qed
qed

text \<open>C21: looking up blocks of a file with indirect blocks that can be read. When the first block of
  the request is mapped, \<open>ext4_ind_map_blocks\<close> returns a number of blocks, at least one and at most as many as requested,
  and the physical block from which on these blocks of the file are mapped one after the other; when
  it is not, the result is 0.\<close>

theorem ind_map_blocks_exact:
  assumes "sb_bits_ok sb" and "ind_ok sb E z" and "m_len mb \<noteq> 0" and "unat (m_lblk mb) + unat (m_len mb) \<le> 2 ^ 32"
    and "fst (ext4_block_to_path sb (m_lblk mb)) \<noteq> []"
  shows "\<exists>ret mb'. ext4_ind_map_blocks sb E z False i_data mb = Inr (ret, mb', z) \<and>
    (if ind_mapped sb E i_data (m_lblk mb) = 0 then ret = 0 \<and> m_flags mb' = m_flags mb
     else 0 < ret \<and> ret \<le> int (unat (m_len mb)) \<and> m_len mb' = word_of_int ret \<and>
       (\<forall>k < nat ret. ucast (ind_mapped sb E i_data (m_lblk mb + word_of_nat k)) = m_pblk mb' + word_of_nat k))"
proof -
  obtain offs b where path: "ext4_block_to_path sb (m_lblk mb) = (offs, b)" by fastforce
  have ne: "offs \<noteq> []" using assms(5) path by simp
  obtain chain whole where br: "ext4_get_branch sb E z i_data offs = Inr (chain, whole, 0, z)" "chain \<noteq> []"
    "whole \<longleftrightarrow> ind_walk E i_data offs \<noteq> 0"
    "whole \<longrightarrow> ind_key (last chain) = ind_walk E i_data offs \<and> ind_p (last chain) = unat (last offs) \<and>
       (\<forall>off. ind_walk E i_data (butlast offs @ [off]) = ind_pointers E i_data (ind_bh (last chain)) ! unat off)"
    using get_branch_ok [OF assms(2) ne, of i_data] by blast
  have m0: "ind_mapped sb E i_data (m_lblk mb) = ind_walk E i_data offs" by (simp add: ind_mapped_def path)
  show ?thesis
  proof (cases whole)
    case False
    then show ?thesis using br path ne by (simp add: ext4_ind_map_blocks_def J_ASSERT_def Let_def m0)
  next
    case True
    let ?blks = "ind_pointers E i_data (ind_bh (last chain))" and ?f = "ucast (ind_walk E i_data offs) :: u64"
    define c where "c = map_more ?blks (unat (last offs)) ?f (unat (m_len mb)) b (Suc 0)"
    have len: "1 \<le> unat (m_len mb)" using assms(3) by (simp add: Suc_le_eq unat_gt_0)
    have c: "1 \<le> c" "c \<le> unat (m_len mb)" "\<And>k. 1 \<le> k \<Longrightarrow> k < c \<Longrightarrow> int k \<le> b \<and> ucast (?blks ! (unat (last offs) + k)) = ?f + word_of_nat k"
      using map_more_ok [of 1 ?blks "unat (last offs)" ?f "unat (m_len mb)" b] len by (simp_all add: c_def)
    have "ucast (ind_mapped sb E i_data (m_lblk mb + word_of_nat k)) = ?f + word_of_nat k" if k: "k < c" for k
    proof (cases "k = 0")
      case False
      have kb: "int k \<le> b" "ucast (?blks ! (unat (last offs) + k)) = ?f + word_of_nat k" using c(3) k False by simp_all
      have "unat (m_lblk mb) + k < 2 ^ 32" using k c(2) assms(4) by linarith
      note nx = block_to_path_next [OF assms(1) path ne kb(1) this]
      show ?thesis using br(4) True nx kb(2) by (simp add: ind_mapped_def)
    qed (simp add: m0)
    moreover have "int c \<le> uint (m_len mb)" using c(2) by (simp only: uint_nat of_nat_le_iff)
    ultimately show ?thesis using br True path ne c(1)
      by (simp add: ext4_ind_map_blocks_def J_ASSERT_def Let_def m0 c_def [symmetric])
  qed
qed

section \<open>Holes\<close>

text \<open>The offsets below the first one are the digits of a number to the base of the pointers per block.\<close>

fun digits :: "nat \<Rightarrow> nat \<Rightarrow> nat \<Rightarrow> nat list" where
  "digits P 0 m = []"
| "digits P (Suc D) m = digits P D (m div P) @ [m mod P]"

definition path_value :: "nat \<Rightarrow> nat list \<Rightarrow> nat" where
  "path_value P ns = foldl (\<lambda>v c. v * P + c) 0 ns"

lemma length_digits [simp]: "length (digits P D m) = D"
  by (induction D arbitrary: m) auto

lemma take_digits: "k \<le> D \<Longrightarrow> take (D - k) (digits P D m) = digits P (D - k) (m div P ^ k)"
proof (induction D arbitrary: m k)
  case (Suc D)
  show ?case
  proof (cases k)
    case (Suc k')
    then show ?thesis using Suc.IH [of k' "m div P"] Suc.prems by (simp add: div_mult2_eq)
  qed simp
qed simp

lemma drop_digits: "k \<le> D \<Longrightarrow> path_value P (drop (D - k) (digits P D m)) = m mod P ^ k"
proof (induction D arbitrary: m k)
  case (Suc D)
  show ?case
  proof (cases k)
    case (Suc k')
    then have "path_value P (drop (D - k') (digits P D (m div P))) = m div P mod P ^ k'" using Suc.IH [of k' "m div P"] Suc.prems by simp
    then show ?thesis using Suc Suc.prems by (simp add: path_value_def mod_mult2_eq mult.commute add.commute)
  qed (simp add: path_value_def)
qed (simp add: path_value_def)

definition tree_start :: "nat \<Rightarrow> nat \<Rightarrow> nat" where
  "tree_start P D = (if D = 1 then 12 else if D = 2 then 12 + P else 12 + P + P * P)"

lemma path_nat_tree:
  assumes "P > 0" and "D \<in> {1, 2, 3}" and "m < P ^ D"
  shows "path_nat P (tree_start P D + m) = (11 + D) # digits P D m"
proof -
  have "m div P < P" if "m < P * P" using that by (simp add: less_mult_imp_div_less)
  moreover have "m div (P * P) < P" if "m < P * (P * P)" using that by (simp add: less_mult_imp_div_less)
  ultimately show ?thesis using assms
    by (auto simp: path_nat_def tree_start_def numeral_eq_Suc div_mult2_eq [symmetric])
qed

lemma path_nat_cases:
  assumes "P > 0" and "path_nat P n \<noteq> []" and "\<not> n < 12"
  obtains D m where "D \<in> {1, 2, 3}" "m < P ^ D" "n = tree_start P D + m"
proof -
  have lim: "n < 12 + P + P * P + P * P * P" using path_nat_Nil [OF assms(1), of n] assms(2) by simp
  show ?thesis
  proof (cases "n < 12 + P + P * P")
    case True
    then show ?thesis using that [of 1 "n - 12"] that [of 2 "n - 12 - P"] assms(3)
      by (cases "n - 12 < P") (simp_all add: tree_start_def power2_eq_square)
  next
    case False
    then show ?thesis using that [of 3 "n - 12 - P - P * P"] lim by (simp add: tree_start_def power3_eq_cube)
  qed
qed

text \<open>The blocks of a subtree have paths with the same beginning.\<close>

lemma path_nat_subtree:
  assumes P: "P > 0" and path: "path_nat P n = os @ off # rest" and j: "path_value P rest + j < P ^ length rest"
  shows "\<exists>rest'. path_nat P (n + j) = os @ off # rest'"
proof (cases "n < 12")
  case True
  then have "rest = []" using path by (auto simp: path_nat_def Cons_eq_append_conv)
  then show ?thesis using j path by (simp add: path_value_def)
next
  case False
  have "path_nat P n \<noteq> []" using path by simp
  then obtain D m where D: "D \<in> {1, 2, 3}" "m < P ^ D" "n = tree_start P D + m" by (rule path_nat_cases [OF P _ False])
  let ?k = "length rest"
  have eq: "(11 + D) # digits P D m = os @ off # rest" using path_nat_tree [OF P D(1,2)] path D(3) by simp
  have "Suc D = length os + Suc ?k" using arg_cong [OF eq, of length] by simp
  then have k: "?k \<le> D" "length os = D - ?k" by simp_all
  have "rest = drop (Suc (D - ?k)) ((11 + D) # digits P D m)" unfolding eq k(2) [symmetric] by simp
  then have "path_value P rest = m mod P ^ ?k" using drop_digits [OF k(1), of P m] by simp
  then have mod: "m mod P ^ ?k + j < P ^ ?k" using j by simp
  note d = div_mod_add(1) [OF mod]
  have pw: "P ^ D = P ^ (D - ?k) * P ^ ?k" using k(1) by (simp add: power_add [symmetric])
  have "m div P ^ ?k < P ^ (D - ?k)" using D(2) unfolding pw by (rule less_mult_imp_div_less)
  then have "(m + j) div P ^ ?k < P ^ (D - ?k)" unfolding d .
  moreover have "0 < P ^ ?k" using P by simp
  ultimately have "m + j < P ^ D" unfolding pw by (simp only: div_less_iff_less_mult)
  then have "path_nat P (n + j) = (11 + D) # digits P D (m + j)" using path_nat_tree [OF P D(1)] D(3) by (simp add: add.assoc)
  moreover have "take (D - ?k) (digits P D (m + j)) = take (D - ?k) (digits P D m)" using take_digits [OF k(1)] d by simp
  moreover have "take (Suc (D - ?k)) ((11 + D) # digits P D m) = os @ [off]" unfolding eq k(2) [symmetric] by simp
  ultimately have "take (Suc (D - ?k)) (path_nat P (n + j)) = os @ [off]" by simp
  then have "path_nat P (n + j) = (os @ [off]) @ drop (Suc (D - ?k)) (path_nat P (n + j))"
    using append_take_drop_id [of "Suc (D - ?k)" "path_nat P (n + j)"] by simp
  then show ?thesis by (intro exI) simp
qed

lemma path_value_bound:
  assumes "\<forall>c \<in> set ns. c < P"
  shows "path_value P ns < P ^ length ns"
  using assms
proof (induction ns rule: rev_induct)
  case (snoc c ns)
  have "path_value P ns * P + c < Suc (path_value P ns) * P" using snoc.prems by simp
  also have "\<dots> \<le> P ^ length ns * P" using snoc by (intro mult_le_mono1) (simp add: Suc_le_eq)
  finally show ?case by (simp add: path_value_def mult.commute)
qed (simp add: path_value_def)

lemma ind_walk_missing: "ind_walk E blks (os @ [off]) = 0 \<Longrightarrow> ind_walk E blks (os @ off # rest) = 0"
proof (induction os arbitrary: blks)
  case Nil
  then show ?case by (cases rest) simp_all
next
  case (Cons o1 os)
  then show ?case by (cases os) (auto split: if_splits)
qed

lemma get_branch_loop_stop:
  assumes ok: "ind_ok sb E z"
  shows "os = [] \<or> ind_walk E (ind_block E key) os \<noteq> 0 \<Longrightarrow> ind_walk E (ind_block E key) (os @ [off]) = 0 \<Longrightarrow>
    \<exists>chain'. get_branch_loop sb E z chain key (os @ off # rest) = Inr (chain @ chain', False, 0, z) \<and> length chain' = Suc (length os)"
proof (induction os arbitrary: key chain)
  case Nil
  then show ?case using ok [unfolded ind_ok_def, rule_format, of key] by (auto simp: Let_def add_chain_def)
next
  case (Cons o1 os)
  let ?p = "add_chain (Some key) (ind_block E key) o1"
  have nz: "ind_key ?p \<noteq> 0" using Cons.prems(1) by (cases os) (auto simp: add_chain_def)
  then have step: "get_branch_loop sb E z chain key ((o1 # os) @ off # rest) = get_branch_loop sb E z (chain @ [?p]) (ind_key ?p) (os @ off # rest)"
    using ok [unfolded ind_ok_def, rule_format, of key] by (auto simp: Let_def)
  have "os = [] \<or> ind_walk E (ind_block E (ind_key ?p)) os \<noteq> 0" using Cons.prems(1) nz by (cases os) (auto simp: add_chain_def split: if_splits)
  moreover have "ind_walk E (ind_block E (ind_key ?p)) (os @ [off]) = 0" using Cons.prems(2) nz by (cases os) (auto simp: add_chain_def)
  ultimately show ?case unfolding step using Cons.IH [of "ind_key ?p" "chain @ [?p]"] by auto
qed

lemma get_branch_stop:
  assumes ok: "ind_ok sb E z" and miss: "os = [] \<or> ind_walk E i_data os \<noteq> 0" "ind_walk E i_data (os @ [off]) = 0"
  shows "\<exists>chain. ext4_get_branch sb E z i_data (os @ off # rest) = Inr (chain, False, 0, z) \<and> length chain = Suc (length os)"
proof (cases os)
  case Nil
  then show ?thesis using miss by (simp add: ext4_get_branch_def add_chain_def Let_def)
next
  case (Cons o1 os')
  let ?p = "add_chain None i_data o1"
  have nz: "ind_key ?p \<noteq> 0" using miss(1) Cons by (cases os') (auto simp: add_chain_def)
  have "os' = [] \<or> ind_walk E (ind_block E (ind_key ?p)) os' \<noteq> 0" using miss(1) nz Cons by (cases os') (auto simp: add_chain_def split: if_splits)
  moreover have "ind_walk E (ind_block E (ind_key ?p)) (os' @ [off]) = 0" using miss(2) nz Cons by (cases os') (auto simp: add_chain_def)
  ultimately show ?thesis using get_branch_loop_stop [OF ok, of os' "ind_key ?p" off "[?p]" rest] nz Cons
    by (auto simp: ext4_get_branch_def Let_def)
qed

text \<open>C23: the length of a hole is the size of the whole missing subtree, whatever the position of the requested block in it. When
  the pointer at the start \<open>os @ [off]\<close> of the path of the block is the first one that is missing, the blocks from the requested one to the end of
  the subtree below it are not mapped, and \<open>ext4_ind_map_blocks\<close> returns 0 and a hole that is as long as requested, but
  at most as long as the subtree. So whenever the block is not the first one of the subtree, more blocks are requested than
  are left of it, and the block behind it is mapped, mapped blocks are reported as part of the hole. The sizes are those
  that fit into 32 bits.\<close>

theorem ind_hole_too_long:
  assumes "sb_bits_ok sb" and "ind_ok sb E z" and "fst (ext4_block_to_path sb (m_lblk mb)) = os @ off # rest"
    and "os = [] \<or> ind_walk E i_data os \<noteq> 0" and "ind_walk E i_data (os @ [off]) = 0"
    and "ptrs_of sb ^ length rest < 2 ^ 32"
  shows "let size = ptrs_of sb ^ length rest; pos = path_value (ptrs_of sb) (map unat rest) in
    pos < size \<and>
    (\<forall>j. pos + j < size \<and> unat (m_lblk mb) + j < 2 ^ 32 \<longrightarrow> ind_mapped sb E i_data (m_lblk mb + word_of_nat j) = 0) \<and>
    (\<exists>mb'. ext4_ind_map_blocks sb E z False i_data mb = Inr (0, mb', z) \<and> unat (m_len mb') = min (unat (m_len mb)) size \<and>
      (0 < pos \<and> size - pos < unat (m_len mb) \<and> ind_mapped sb E i_data (m_lblk mb + word_of_nat (size - pos)) \<noteq> 0 \<longrightarrow>
        (\<exists>j < unat (m_len mb'). ind_mapped sb E i_data (m_lblk mb + word_of_nat j) \<noteq> 0)))"
proof -
  let ?P = "ptrs_of sb" and ?k = "length rest" and ?n = "unat (m_lblk mb)"
  let ?pos = "path_value ?P (map unat rest)"
  have P: "0 < ?P" using ptrs_bounds [OF assms(1)] by simp
  obtain b where path: "ext4_block_to_path sb (m_lblk mb) = (os @ off # rest, b)" using assms(3) by (metis prod.collapse)
  have pn: "path_nat ?P ?n = map unat os @ unat off # map unat rest" using block_to_path_nat(1) [OF assms(1) path] by simp
  then have "path_ok ?P (map unat os @ unat off # map unat rest)" using path_nat_inverse(2) [OF P, of ?n] by simp
  then have "\<forall>c \<in> set (map unat rest). c < ?P" by (cases os) (auto simp: path_ok_def)
  then have pos: "?pos < ?P ^ ?k" using path_value_bound [of "map unat rest" ?P] by simp
  have un: "ind_mapped sb E i_data (m_lblk mb + word_of_nat j) = 0" if j: "?pos + j < ?P ^ ?k" "?n + j < 2 ^ 32" for j
  proof -
    obtain offs' b' where path': "ext4_block_to_path sb (m_lblk mb + word_of_nat j) = (offs', b')" by fastforce
    have "unat (m_lblk mb + word_of_nat j) = ?n + j" using j(2) by (simp add: unat_add_small unat_of_nat_small)
    then obtain rest' where "map unat offs' = map unat (os @ [off]) @ rest'"
      using block_to_path_nat(1) [OF assms(1) path'] path_nat_subtree [OF P pn] j(1) by auto
    then have "map unat (take (Suc (length os)) offs') = map unat (os @ [off])" unfolding take_map [symmetric] by simp
    moreover have "inj (unat :: u32 \<Rightarrow> nat)" by (simp add: inj_def word_unat_eq_iff)
    ultimately have "take (Suc (length os)) offs' = os @ [off]" by (simp only: inj_map_eq_map)
    then have "offs' = (os @ [off]) @ drop (Suc (length os)) offs'" using append_take_drop_id [of "Suc (length os)" offs'] by simp
    then have "ind_walk E i_data offs' = ind_walk E i_data (os @ off # drop (Suc (length os)) offs')" by simp
    then show ?thesis using ind_walk_missing [OF assms(5)] path' by (simp add: ind_mapped_def)
  qed
  obtain chain where br: "ext4_get_branch sb E z i_data (os @ off # rest) = Inr (chain, False, 0, z)" "length chain = Suc (length os)"
    using get_branch_stop [OF assms(2,4,5)] by blast
  have "EXT4_ADDR_PER_BLOCK sb = of_nat ?P" unfolding unat_ptrs(1) [OF assms(1), symmetric] by simp
  then have size: "unat (EXT4_ADDR_PER_BLOCK sb ^ ?k) = ?P ^ ?k" using assms(6) unat_of_nat_small [of "?P ^ ?k", where 'a = 32] by simp
  let ?mb = "mb\<lparr>m_pblk := 0, m_len := min (m_len mb) (EXT4_ADDR_PER_BLOCK sb ^ ?k)\<rparr>"
  have "ext4_ind_map_blocks sb E z False i_data mb = Inr (0, ?mb, z)"
    using br path by (simp add: ext4_ind_map_blocks_def J_ASSERT_def Let_def)
  moreover have "unat (m_len ?mb) = min (unat (m_len mb)) (?P ^ ?k)" using size by (simp add: min_def word_le_nat_alt)
  ultimately show ?thesis unfolding Let_def using pos un by (intro conjI exI [of _ ?mb]) auto
qed

text \<open>A file with 1 KiB blocks without a block under the indirect block, but with the first one
  under the double indirect block.\<close>

definition hole_sb :: ext4_sb where
  "hole_sb = ex_sb\<lparr>s_blocksize_bits := 10\<rparr>"

definition hole_env :: ind_env where
  "hole_env = \<lparr>ind_getblk = (\<lambda>_. True), ind_uptodate = (\<lambda>_. True), ind_submit_read = (\<lambda>_. True),
     ind_block = (\<lambda>b. if b = 500 then 501 # replicate 255 0 else if b = 501 then 777 # replicate 255 0 else replicate 256 0)\<rparr>"

definition hole_data :: "u32 list" where
  "hole_data = (replicate 15 0)[13 := 500]"

definition hole_request :: ext4_map_blocks where
  "hole_request = \<lparr>m_pblk = 0, m_lblk = 267, m_len = 100, m_flags = 0\<rparr>"

theorem ind_hole_too_long_witness:
  "\<exists>mb'. ext4_ind_map_blocks hole_sb hole_env no_zones False hole_data hole_request = Inr (0, mb', no_zones) \<and>
    (\<exists>j < unat (m_len mb'). ind_mapped hole_sb hole_env hole_data (267 + word_of_nat j) \<noteq> 0)"
proof -
  have p: "ext4_block_to_path hole_sb 267 = ([12, 255], 0)" "ext4_block_to_path hole_sb 268 = ([13, 0, 0], 255)" by code_simp+
  have P: "ptrs_of hole_sb = 256" by (simp add: ptrs_of_def EXT4_ADDR_PER_BLOCK_BITS_def hole_sb_def)
  have m: "ind_mapped hole_sb hole_env hole_data 268 = 777" by (simp add: ind_mapped_def p hole_data_def hole_env_def)
  have "sb_bits_ok hole_sb" "ind_ok hole_sb hole_env no_zones" by (simp_all add: sb_bits_ok_def hole_sb_def ind_ok_def hole_env_def)
  moreover have "fst (ext4_block_to_path hole_sb (m_lblk hole_request)) = [] @ 12 # [255]" by (simp add: hole_request_def p)
  moreover have "ind_walk hole_env hole_data ([] @ [12]) = 0" by (simp add: hole_data_def)
  ultimately show ?thesis using ind_hole_too_long [of hole_sb hole_env no_zones hole_request "[]" 12 "[255]" hole_data] m
    by (auto simp: P path_value_def hole_request_def)
qed

theorem ind_map_blocks_exact_witness:
  "\<exists>ret mb'. ext4_ind_map_blocks hole_sb hole_env no_zones False hole_data (hole_request\<lparr>m_lblk := 268\<rparr>) = Inr (ret, mb', no_zones) \<and>
     0 < ret \<and> ucast (ind_mapped hole_sb hole_env hole_data 268) = m_pblk mb'"
proof -
  have p: "ext4_block_to_path hole_sb 268 = ([13, 0, 0], 255)" by code_simp
  have "sb_bits_ok hole_sb" by (simp add: sb_bits_ok_def hole_sb_def)
  moreover have "ind_ok hole_sb hole_env no_zones" by (simp add: ind_ok_def hole_env_def)
  moreover have m: "ind_mapped hole_sb hole_env hole_data 268 = 777" by (simp add: ind_mapped_def p hole_data_def hole_env_def)
  ultimately obtain ret mb' where "ext4_ind_map_blocks hole_sb hole_env no_zones False hole_data (hole_request\<lparr>m_lblk := 268\<rparr>) = Inr (ret, mb', no_zones)"
      "0 < ret" "\<forall>k < nat ret. ucast (ind_mapped hole_sb hole_env hole_data (268 + word_of_nat k)) = m_pblk mb' + word_of_nat k"
    using ind_map_blocks_exact [of hole_sb hole_env no_zones "hole_request\<lparr>m_lblk := 268\<rparr>" hole_data] by (auto simp: hole_request_def p)
  then show ?thesis by (intro exI [of _ ret] exI [of _ mb']) (use m in force)
qed

theorem block_to_path_roundtrip_witness:
  "ext4_block_to_path hole_sb 268 = ([13, 0, 0], 255) \<and> path_block (ptrs_of hole_sb) [13, 0, 0] = 268"
proof -
  have p: "ext4_block_to_path hole_sb 268 = ([13, 0, 0], 255)" by code_simp
  have "sb_bits_ok hole_sb" by (simp add: sb_bits_ok_def hole_sb_def)
  from block_to_path_roundtrip [OF this p] p show ?thesis by (simp add: Let_def)
qed

end
