(* ===== verification/Ext4_Dir.thy ===== *)
theory Ext4_Dir
  imports Jbd2_Prelude
begin

text \<open>
  The blocks of a directory, \<open>src/kernel/fs/ext4/namei.c\<close>, \<open>dir.c\<close> and \<open>ext4.h\<close>: checking an entry, searching a block for a name,
  finding room for a new entry, inserting and deleting entries, and the first entries of a new
  directory. A block is a list of bytes, and an entry is given by its offset. A read or a write outside of the block
  is an \<open>OOPS\<close>. The model is the one for pages of less than 64 KiB and without encryption, where names are compared byte by
  byte. The link to the journal and the times and counters of the inode are left out.
\<close>

abbreviation "EEXIST \<equiv> 17 :: int"
abbreviation "ENOENT \<equiv> 2 :: int"

section \<open>Entries\<close>

definition le_enc :: "nat \<Rightarrow> nat \<Rightarrow> byte list" where
  "le_enc n v = rev (be_enc n v)"

definition le_dec :: "byte list \<Rightarrow> nat" where
  "le_dec bs = be_dec (rev bs)"

definition de_inode :: "block_data \<Rightarrow> nat \<Rightarrow> nat" where
  "de_inode d off = le_dec (load_bytes d off 4)"

definition ext4_rec_len_from_disk :: "block_data \<Rightarrow> nat \<Rightarrow> nat" where
  "ext4_rec_len_from_disk d off = le_dec (load_bytes d (off + 4) 2)"

definition de_name_len :: "block_data \<Rightarrow> nat \<Rightarrow> nat" where
  "de_name_len d off = unat (d ! (off + 6))"

text \<open>\<open>BUG\<close> for a length that is too large or no multiple of 4.\<close>

definition ext4_rec_len_to_disk :: "nat \<Rightarrow> nat \<Rightarrow> byte list res" where
  "ext4_rec_len_to_disk len blocksize = J_ASSERT (len \<le> blocksize \<and> blocksize \<le> 2 ^ 18 \<and> len mod 4 = 0) (Inr (le_enc 2 len))"

definition EXT4_DIR_REC_LEN :: "nat \<Rightarrow> nat" where
  "EXT4_DIR_REC_LEN name_len = (name_len + 11) div 4 * 4"

text \<open>The inode, the length and the length of the name of an entry are its first 7 bytes.\<close>

definition with_de :: "block_data \<Rightarrow> nat \<Rightarrow> 'a res \<Rightarrow> 'a res" where
  "with_de d off m = (if off + 7 \<le> length d then m else Inl OOPS)"

definition put_bytes :: "block_data \<Rightarrow> nat \<Rightarrow> byte list \<Rightarrow> block_data res" where
  "put_bytes d off bs = (if off + length bs \<le> length d then Inr (store_bytes d off bs) else Inl OOPS)"

text \<open>True for a bad entry. \<open>EFSCORRUPTED\<close> is \<open>EUCLEAN\<close>.\<close>

definition ext4_check_dir_entry :: "nat \<Rightarrow> block_data \<Rightarrow> nat \<Rightarrow> nat \<Rightarrow> bool" where
  "ext4_check_dir_entry inodes_count d buf_size off =
     (let rlen = ext4_rec_len_from_disk d off
      in rlen < EXT4_DIR_REC_LEN 1 \<or> rlen mod 4 \<noteq> 0 \<or> rlen < EXT4_DIR_REC_LEN (de_name_len d off) \<or> off + rlen > buf_size \<or>
         de_inode d off > inodes_count)"

section \<open>Searching\<close>

definition ext4_match :: "byte list \<Rightarrow> block_data \<Rightarrow> nat \<Rightarrow> bool res" where
  "ext4_match name d off =
     (if de_inode d off = 0 then Inr False
      else if de_name_len d off \<noteq> length name then Inr False
      else if off + 8 + length name \<le> length d then Inr (load_bytes d (off + 8) (length name) = name)
      else Inl OOPS)"

function ext4_search_dir :: "nat \<Rightarrow> block_data \<Rightarrow> nat \<Rightarrow> byte list \<Rightarrow> nat \<Rightarrow> (int \<times> nat option) res" where
  "ext4_search_dir inodes_count d buf_size name off =
     (if off < buf_size then
        with_de d off
          (bind_res (if off + de_name_len d off \<le> buf_size then ext4_match name d off else Inr False) (\<lambda>m.
             if m then (if ext4_check_dir_entry inodes_count d (length d) off then Inr (- 1, None) else Inr (1, Some off))
             else if ext4_rec_len_from_disk d off = 0 then Inr (- 1, None)
             else ext4_search_dir inodes_count d buf_size name (off + ext4_rec_len_from_disk d off)))
      else Inr (0, None))"
  by auto
termination by (relation "measure (\<lambda>(ic, d, n, name, off). n - off)") auto

section \<open>Inserting\<close>

function ext4_find_dest_de :: "nat \<Rightarrow> block_data \<Rightarrow> nat \<Rightarrow> byte list \<Rightarrow> nat \<Rightarrow> (int \<times> nat option) res" where
  "ext4_find_dest_de inodes_count d buf_size name off =
     (let reclen = EXT4_DIR_REC_LEN (length name)
      in if int off \<le> int buf_size - int reclen then
           with_de d off
             (if ext4_check_dir_entry inodes_count d buf_size off then Inr (- EUCLEAN, None)
              else bind_res (ext4_match name d off) (\<lambda>m.
                let nlen = EXT4_DIR_REC_LEN (de_name_len d off);
                    rlen = ext4_rec_len_from_disk d off
                in if m then Inr (- EEXIST, None)
                   else if (if de_inode d off \<noteq> 0 then rlen - nlen else rlen) \<ge> reclen then Inr (0, Some off)
                   else ext4_find_dest_de inodes_count d buf_size name (off + rlen)))
         else Inr (- ENOSPC, None))"
  by auto
termination
  by (relation "measure (\<lambda>(ic, d, n, name, off). n - off)")
    (auto simp: ext4_check_dir_entry_def Let_def EXT4_DIR_REC_LEN_def)

declare ext4_search_dir.simps [simp del] ext4_find_dest_de.simps [simp del]

text \<open>\<open>file_type\<close> is the type of the inode on a file system with file types, and unknown (0) on one without.\<close>

definition ext4_insert_dentry :: "nat \<Rightarrow> byte \<Rightarrow> block_data \<Rightarrow> nat \<Rightarrow> nat \<Rightarrow> byte list \<Rightarrow> block_data res" where
  "ext4_insert_dentry ino file_type d off buf_size name =
     (let nlen = EXT4_DIR_REC_LEN (de_name_len d off);
          rlen = ext4_rec_len_from_disk d off
      in bind_res
        (if de_inode d off \<noteq> 0 then
           bind_res (ext4_rec_len_to_disk (rlen - nlen) buf_size) (\<lambda>l1.
           bind_res (put_bytes d (off + nlen + 4) l1) (\<lambda>d.
           bind_res (ext4_rec_len_to_disk nlen buf_size) (\<lambda>l.
           bind_res (put_bytes d (off + 4) l) (\<lambda>d. Inr (off + nlen, d)))))
         else Inr (off, d)) (\<lambda>(off, d).
        bind_res (put_bytes d (off + 7) [0]) (\<lambda>d.
        bind_res (put_bytes d off (le_enc 4 ino)) (\<lambda>d.
        bind_res (put_bytes d (off + 7) [file_type]) (\<lambda>d.
        bind_res (put_bytes d (off + 6) [word_of_nat (length name)]) (\<lambda>d.
        put_bytes d (off + 8) name))))))"

text \<open>The entry is always searched for, as with a null \<open>de\<close>; the calls of the journal and of the inode times are left out, with
  the errors they return.\<close>

definition add_dirent_to_buf :: "nat \<Rightarrow> nat \<Rightarrow> byte \<Rightarrow> block_data \<Rightarrow> nat \<Rightarrow> byte list \<Rightarrow> (int \<times> block_data) res" where
  "add_dirent_to_buf inodes_count ino file_type d csum_size name =
     bind_res (ext4_find_dest_de inodes_count d (length d - csum_size) name 0) (\<lambda>(err, de).
       case de of
         None \<Rightarrow> Inr (err, d)
       | Some off \<Rightarrow> bind_res (ext4_insert_dentry ino file_type d off (length d) name) (\<lambda>d. Inr (0, d)))"

section \<open>Deleting\<close>

function delete_loop :: "nat \<Rightarrow> block_data \<Rightarrow> nat \<Rightarrow> nat \<Rightarrow> nat option \<Rightarrow> nat \<Rightarrow> (int \<times> block_data) res" where
  "delete_loop inodes_count d limit de_del pde i =
     (if i < limit then
        with_de d i
          (if ext4_check_dir_entry inodes_count d (length d) i then Inr (- EUCLEAN, d)
           else if i = de_del then
             (case pde of
                Some p \<Rightarrow>
                  bind_res (ext4_rec_len_to_disk (ext4_rec_len_from_disk d p + ext4_rec_len_from_disk d i) (length d)) (\<lambda>l.
                  bind_res (put_bytes d (p + 4) l) (\<lambda>d. Inr (0, d)))
              | None \<Rightarrow> bind_res (put_bytes d i (le_enc 4 0)) (\<lambda>d. Inr (0, d)))
           else delete_loop inodes_count d limit de_del (Some i) (i + ext4_rec_len_from_disk d i))
      else Inr (- ENOENT, d))"
  by auto
termination
  by (relation "measure (\<lambda>(ic, d, n, del, p, i). n - i)")
    (auto simp: ext4_check_dir_entry_def Let_def EXT4_DIR_REC_LEN_def)

declare delete_loop.simps [simp del]

definition ext4_generic_delete_entry :: "nat \<Rightarrow> block_data \<Rightarrow> nat \<Rightarrow> nat \<Rightarrow> (int \<times> block_data) res" where
  "ext4_generic_delete_entry inodes_count d de_del csum_size = delete_loop inodes_count d (length d - csum_size) de_del None 0"

section \<open>Blocks as lists of entries\<close>

record dirent =
  e_inode :: nat
  e_name_len :: nat
  e_type :: byte
  e_body :: "byte list"

definition e_rec_len :: "dirent \<Rightarrow> nat" where
  "e_rec_len e = 8 + length (e_body e)"

definition e_name :: "dirent \<Rightarrow> byte list" where
  "e_name e = take (e_name_len e) (e_body e)"

definition enc_de :: "dirent \<Rightarrow> byte list" where
  "enc_de e = le_enc 4 (e_inode e) @ le_enc 2 (e_rec_len e) @ [word_of_nat (e_name_len e), e_type e] @ e_body e"

definition dir_bytes :: "dirent list \<Rightarrow> block_data" where
  "dir_bytes es = concat (map enc_de es)"

definition de_ok :: "nat \<Rightarrow> dirent \<Rightarrow> bool" where
  "de_ok ic e = (e_rec_len e < 65536 \<and> e_rec_len e mod 4 = 0 \<and> 12 \<le> e_rec_len e \<and> e_name_len e < 256 \<and>
     EXT4_DIR_REC_LEN (e_name_len e) \<le> e_rec_len e \<and> e_inode e \<le> ic \<and> (e_inode e \<noteq> 0 \<longrightarrow> e_name_len e > 0))"

definition dir_ok :: "nat \<Rightarrow> dirent list \<Rightarrow> bool" where
  "dir_ok ic es = ((\<forall>e \<in> set es. de_ok ic e) \<and> ic < 2 ^ 32 \<and> length (dir_bytes es) < 65536)"

definition matches :: "byte list \<Rightarrow> dirent \<Rightarrow> bool" where
  "matches name e = (e_inode e \<noteq> 0 \<and> e_name e = name)"

text \<open>What a directory block stands for: a map from names to inodes.\<close>

definition dir_map :: "dirent list \<Rightarrow> byte list \<Rightarrow> nat option" where
  "dir_map es name = map_option e_inode (find (matches name) es)"

lemma length_le_enc [simp]: "length (le_enc n v) = n"
  by (simp add: le_enc_def)

lemma le_dec_enc: "v < 256 ^ n \<Longrightarrow> le_dec (le_enc n v) = v"
  by (simp add: le_dec_def le_enc_def be_dec_enc)

lemma length_enc_de [simp]: "length (enc_de e) = e_rec_len e"
  by (simp add: enc_de_def e_rec_len_def)

lemma dir_bytes_simps [simp]:
  "dir_bytes [] = []" "dir_bytes (e # es) = enc_de e @ dir_bytes es" "dir_bytes (xs @ ys) = dir_bytes xs @ dir_bytes ys"
  by (simp_all add: dir_bytes_def)

lemma rec_len_ge: "EXT4_DIR_REC_LEN n \<ge> n + 8" "EXT4_DIR_REC_LEN n mod 4 = 0" "EXT4_DIR_REC_LEN n \<le> n + 11"
  unfolding EXT4_DIR_REC_LEN_def by presburger+

lemma name_fits: "de_ok ic e \<Longrightarrow> length (e_name e) = e_name_len e"
  using rec_len_ge(1) [of "e_name_len e"] by (auto simp: de_ok_def e_name_def e_rec_len_def)

text \<open>The entry at an offset.\<close>

lemma load_enc:
  "load_bytes (A @ enc_de e @ B) (length A) 4 = le_enc 4 (e_inode e)"
  "load_bytes (A @ enc_de e @ B) (length A + 4) 2 = le_enc 2 (e_rec_len e)"
  "(A @ enc_de e @ B) ! (length A + 6) = word_of_nat (e_name_len e)"
  "n \<le> length (e_body e) \<Longrightarrow> load_bytes (A @ enc_de e @ B) (length A + 8) n = take n (e_body e)"
  by (simp_all add: load_bytes_def enc_de_def nth_append)

lemma entry_at:
  assumes "de_ok ic e" and "ic < 2 ^ 32"
  shows "de_inode (A @ enc_de e @ B) (length A) = e_inode e" "ext4_rec_len_from_disk (A @ enc_de e @ B) (length A) = e_rec_len e"
    "de_name_len (A @ enc_de e @ B) (length A) = e_name_len e"
    "ext4_check_dir_entry ic (A @ enc_de e @ B) n (length A) \<longleftrightarrow> length A + e_rec_len e > n"
    "ext4_match name (A @ enc_de e @ B) (length A) = Inr (matches name e)"
    "with_de (A @ enc_de e @ B) (length A) m = m"
proof -
  let ?d = "A @ enc_de e @ B" and ?o = "length A"
  show i: "de_inode ?d ?o = e_inode e" using assms by (simp add: de_inode_def load_enc le_dec_enc de_ok_def)
  show r: "ext4_rec_len_from_disk ?d ?o = e_rec_len e" using assms by (simp add: ext4_rec_len_from_disk_def load_enc le_dec_enc de_ok_def)
  show l: "de_name_len ?d ?o = e_name_len e"
    using assms(1) unfolding de_name_len_def load_enc(3) by (simp add: de_ok_def unat_of_nat)
  show "ext4_check_dir_entry ic ?d n ?o \<longleftrightarrow> ?o + e_rec_len e > n"
    using assms(1) by (auto simp: ext4_check_dir_entry_def i r l de_ok_def EXT4_DIR_REC_LEN_def Let_def)
  have b: "e_name_len e \<le> length (e_body e)"
    using assms(1) rec_len_ge(1) [of "e_name_len e"] by (auto simp: de_ok_def e_rec_len_def)
  then show "ext4_match name ?d ?o = Inr (matches name e)"
    using load_enc(4) [OF b, of A B] name_fits [OF assms(1)]
    by (auto simp: ext4_match_def i l matches_def e_name_def e_rec_len_def)
  show "with_de ?d ?o m = m" by (simp add: with_de_def e_rec_len_def)
qed

section \<open>Searching a block\<close>

definition match_pos :: "byte list \<Rightarrow> dirent list \<Rightarrow> nat" where
  "match_pos name es = length (dir_bytes (takeWhile (\<lambda>e. \<not> matches name e) es))"

lemma search_dir_ok:
  assumes "\<forall>e \<in> set es. de_ok ic e" and "ic < 2 ^ 32"
  shows "ext4_search_dir ic (A @ dir_bytes es) (length (A @ dir_bytes es)) name (length A) =
    Inr (if \<exists>e \<in> set es. matches name e then (1, Some (length A + match_pos name es)) else (0, None))"
  using assms(1)
proof (induction es arbitrary: A)
  case Nil
  then show ?case by (subst ext4_search_dir.simps) simp
next
  case (Cons e es)
  have e: "de_ok ic e" using Cons.prems by simp
  note at = entry_at [OF e assms(2), where A = A and B = "dir_bytes es"]
  have len: "12 \<le> e_rec_len e" "e_name_len e \<le> e_rec_len e" "e_rec_len e \<noteq> 0"
    using e rec_len_ge(1) [of "e_name_len e"] by (auto simp: de_ok_def)
  show ?case
  proof (cases "matches name e")
    case True
    then show ?thesis using len by (subst ext4_search_dir.simps) (simp add: at match_pos_def)
  next
    case False
    have "ext4_search_dir ic (A @ dir_bytes (e # es)) (length (A @ dir_bytes (e # es))) name (length A) =
        ext4_search_dir ic (A @ dir_bytes (e # es)) (length (A @ dir_bytes (e # es))) name (length (A @ enc_de e))"
      using False len by (subst ext4_search_dir.simps) (simp add: at)
    also have "\<dots> = Inr (if \<exists>x \<in> set es. matches name x then (1, Some (length (A @ enc_de e) + match_pos name es)) else (0, None))"
      using Cons.IH [of "A @ enc_de e"] Cons.prems by simp
    finally show ?thesis using False by (simp add: match_pos_def)
  qed
qed

lemma first_match:
  assumes "\<exists>e \<in> set es. matches name e"
  obtains xs e ys where "es = xs @ e # ys" "matches name e" "\<forall>x \<in> set xs. \<not> matches name x" "match_pos name es = length (dir_bytes xs)"
    "find (matches name) es = Some e"
proof -
  obtain xs e ys where es: "es = xs @ e # ys" "matches name e" "\<forall>x \<in> set xs. \<not> matches name x"
    using split_list_first_prop [OF assms] by blast
  have "match_pos name es = length (dir_bytes xs)" using es by (simp add: match_pos_def takeWhile_append2)
  moreover have "find (matches name) es = Some e" using es by (auto simp: find_Some_iff nth_append intro!: exI [of _ "length xs"])
  ultimately show ?thesis using that es by blast
qed

lemma search_dir_map:
  assumes "dir_ok ic es"
  shows "ext4_search_dir ic (dir_bytes es) (length (dir_bytes es)) name 0 = Inr (0, None) \<and> dir_map es name = None \<or>
    (\<exists>off. ext4_search_dir ic (dir_bytes es) (length (dir_bytes es)) name 0 = Inr (1, Some off) \<and>
       dir_map es name = Some (de_inode (dir_bytes es) off) \<and> load_bytes (dir_bytes es) (off + 8) (de_name_len (dir_bytes es) off) = name \<and>
       off + ext4_rec_len_from_disk (dir_bytes es) off \<le> length (dir_bytes es))"
proof -
  have ok: "\<forall>e \<in> set es. de_ok ic e" "ic < 2 ^ 32" using assms by (simp_all add: dir_ok_def)
  note s = search_dir_ok [OF ok, of "[]" name]
  show ?thesis
  proof (cases "\<exists>e \<in> set es. matches name e")
    case True
    then obtain xs e ys where es: "es = xs @ e # ys" "matches name e" "match_pos name es = length (dir_bytes xs)" "find (matches name) es = Some e"
      by (rule first_match) blast
    have e: "de_ok ic e" using ok es by simp
    note at = entry_at [OF e ok(2), where A = "dir_bytes xs" and B = "dir_bytes ys"]
    have "e_name_len e \<le> length (e_body e)" using name_fits [OF e] by (simp add: e_name_def)
    note n = load_enc(4) [OF this, of "dir_bytes xs" "dir_bytes ys"]
    show ?thesis using s True es at n by (simp add: dir_map_def matches_def e_name_def)
  next
    case False
    then show ?thesis using s by (simp add: dir_map_def find_None_iff)
  qed
qed

text \<open>C27: \<open>ext4_search_dir\<close> on a block of valid entries is the lookup of the name in the map that the block stands for:
  it finds an entry exactly if the map has the name, the entry is inside of the block and
  has that name and the inode of the map; it reads no byte outside of the block.\<close>

theorem search_dir_exact:
  assumes "dir_ok ic es"
  shows "case ext4_search_dir ic (dir_bytes es) (length (dir_bytes es)) name 0 of
      Inl _ \<Rightarrow> False
    | Inr (ret, None) \<Rightarrow> ret = 0 \<and> dir_map es name = None
    | Inr (ret, Some off) \<Rightarrow> ret = 1 \<and> dir_map es name = Some (de_inode (dir_bytes es) off) \<and>
        load_bytes (dir_bytes es) (off + 8) (de_name_len (dir_bytes es) off) = name \<and>
        off + ext4_rec_len_from_disk (dir_bytes es) off \<le> length (dir_bytes es)"
  using search_dir_map [OF assms, of name] by auto

section \<open>Adding an entry\<close>

definition has_room :: "nat \<Rightarrow> dirent \<Rightarrow> bool" where
  "has_room reclen e = (reclen \<le> (if e_inode e \<noteq> 0 then e_rec_len e - EXT4_DIR_REC_LEN (e_name_len e) else e_rec_len e))"

lemma has_room_fits:
  assumes "x \<in> set es" and "has_room reclen x"
  shows "reclen \<le> length (dir_bytes es)"
proof -
  have "e_rec_len x \<le> length (dir_bytes es)" using assms(1) by (induction es) auto
  moreover have "reclen \<le> e_rec_len x" using assms(2) by (auto simp: has_room_def split: if_splits)
  ultimately show ?thesis by linarith
qed

lemma find_dest_ok:
  assumes "\<forall>e \<in> set es. de_ok ic e \<and> \<not> matches name e" and "ic < 2 ^ 32"
  defines "room \<equiv> has_room (EXT4_DIR_REC_LEN (length name))"
  shows "ext4_find_dest_de ic (A @ dir_bytes es @ T) (length (A @ dir_bytes es)) name (length A) =
    Inr (if \<exists>e \<in> set es. room e then (0, Some (length A + length (dir_bytes (takeWhile (\<lambda>e. \<not> room e) es)))) else (- ENOSPC, None))"
  using assms(1)
proof (induction es arbitrary: A)
  case Nil
  have "EXT4_DIR_REC_LEN (length name) > 0" using rec_len_ge(1) [of "length name"] by simp
  then show ?case by (subst ext4_find_dest_de.simps) (simp add: Let_def)
next
  case (Cons e es)
  have e: "de_ok ic e" "\<not> matches name e" using Cons.prems by simp_all
  note at = entry_at [OF e(1) assms(2), where A = A and B = "dir_bytes es @ T"]
  let ?r = "EXT4_DIR_REC_LEN (length name)" and ?d = "A @ dir_bytes (e # es) @ T" and ?n = "length (A @ dir_bytes (e # es))"
  show ?case
  proof (cases "int (length A) \<le> int ?n - int ?r")
    case False
    then have no: "\<not> (\<exists>x \<in> set (e # es). room x)" using has_room_fits [of _ "e # es" ?r] by (auto simp: room_def)
    have "ext4_find_dest_de ic ?d ?n name (length A) = Inr (- ENOSPC, None)"
      by (subst ext4_find_dest_de.simps) (use False in \<open>simp only: Let_def if_False\<close>)
    then show ?thesis by (simp only: no if_False)
  next
    case top: True
    have step: "ext4_find_dest_de ic ?d ?n name (length A) =
        (if room e then Inr (0, Some (length A)) else ext4_find_dest_de ic ?d ?n name (length A + e_rec_len e))"
      using top e(2) by (subst ext4_find_dest_de.simps) (simp add: Let_def at has_room_def room_def)
    show ?thesis
    proof (cases "room e")
      case True
      then show ?thesis unfolding step by simp
    next
      case False
      have "ext4_find_dest_de ic ?d ?n name (length A + e_rec_len e) =
          Inr (if \<exists>x \<in> set es. room x then (0, Some (length (A @ enc_de e) + length (dir_bytes (takeWhile (\<lambda>x. \<not> room x) es)))) else (- ENOSPC, None))"
        using Cons.IH [of "A @ enc_de e"] Cons.prems by simp
      then show ?thesis using False unfolding step by simp
    qed
  qed
qed

text \<open>The entries that \<open>ext4_insert_dentry\<close> makes of the entry with room.\<close>

definition new_body :: "byte list \<Rightarrow> byte list \<Rightarrow> byte list" where
  "new_body name old = name @ drop (length name) old"

definition split_de :: "nat \<Rightarrow> byte \<Rightarrow> byte list \<Rightarrow> dirent \<Rightarrow> dirent list" where
  "split_de ino ft name e =
     (if e_inode e = 0 then [e\<lparr>e_inode := ino, e_name_len := length name, e_type := ft, e_body := new_body name (e_body e)\<rparr>]
      else let n = EXT4_DIR_REC_LEN (e_name_len e) - 8
           in [e\<lparr>e_body := take n (e_body e)\<rparr>,
               \<lparr>e_inode = ino, e_name_len = length name, e_type = ft, e_body = new_body name (drop (n + 8) (e_body e))\<rparr>])"

definition raw_de :: "byte list \<Rightarrow> byte list \<Rightarrow> byte \<Rightarrow> byte \<Rightarrow> byte list \<Rightarrow> byte list" where
  "raw_de i r n t b = i @ r @ [n, t] @ b"

lemma enc_raw: "enc_de e = raw_de (le_enc 4 (e_inode e)) (le_enc 2 (e_rec_len e)) (word_of_nat (e_name_len e)) (e_type e) (e_body e)"
  by (simp add: enc_de_def raw_de_def)

lemma put_mid:
  assumes "length bs = length M"
  shows "put_bytes (A @ M @ B) (length A) bs = Inr (A @ bs @ B)"
  using assms by (simp add: put_bytes_def store_bytes_def)

lemma put_raw:
  assumes "length i = 4" and "length r = 2"
  shows "length i' = 4 \<Longrightarrow> put_bytes (A @ raw_de i r n t b @ B) (length A) i' = Inr (A @ raw_de i' r n t b @ B)"
    "length r' = 2 \<Longrightarrow> put_bytes (A @ raw_de i r n t b @ B) (length A + 4) r' = Inr (A @ raw_de i r' n t b @ B)"
    "put_bytes (A @ raw_de i r n t b @ B) (length A + 6) [n'] = Inr (A @ raw_de i r n' t b @ B)"
    "put_bytes (A @ raw_de i r n t b @ B) (length A + 7) [t'] = Inr (A @ raw_de i r n t' b @ B)"
    "length bs \<le> length b \<Longrightarrow> put_bytes (A @ raw_de i r n t b @ B) (length A + 8) bs = Inr (A @ raw_de i r n t (new_body bs b) @ B)"
  using assms put_mid [of i' i A "r @ [n, t] @ b @ B"] put_mid [of r' r "A @ i" "[n, t] @ b @ B"]
    put_mid [of "[n']" "[n]" "A @ i @ r" "[t] @ b @ B"] put_mid [of "[t']" "[t]" "A @ i @ r @ [n]" "b @ B"]
    put_mid [of bs "take (length bs) b" "A @ i @ r @ [n, t]" "drop (length bs) b @ B"]
  by (simp_all add: raw_de_def new_body_def) (metis append_assoc append_take_drop_id)

text \<open>Filling in an entry.\<close>

lemma fill_entry:
  assumes "length i = 4" and "length r = 2" and "length name \<le> length b"
  shows "bind_res (put_bytes (A @ raw_de i r n t b @ B) (length A + 7) [0]) (\<lambda>d.
     bind_res (put_bytes d (length A) (le_enc 4 ino)) (\<lambda>d.
     bind_res (put_bytes d (length A + 7) [ft]) (\<lambda>d.
     bind_res (put_bytes d (length A + 6) [word_of_nat (length name)]) (\<lambda>d.
     put_bytes d (length A + 8) name)))) =
   Inr (A @ raw_de (le_enc 4 ino) r (word_of_nat (length name)) ft (new_body name b) @ B)"
  using assms by (simp add: put_raw)

lemma raw_split:
  assumes "8 \<le> length q"
  shows "\<exists>b4 r2 x6 x7. q = raw_de b4 r2 x6 x7 (drop 8 q) \<and> length b4 = 4 \<and> length r2 = 2"
proof -
  have "take 2 (drop 4 q) @ drop 6 q = drop 4 q" using append_take_drop_id [of 2 "drop 4 q"] by simp
  moreover have "[q ! 6, q ! 7] @ drop 8 q = drop 6 q" using assms Cons_nth_drop_Suc [of 6 q] Cons_nth_drop_Suc [of 7 q] by simp
  ultimately have "q = raw_de (take 4 q) (take 2 (drop 4 q)) (q ! 6) (q ! 7) (drop 8 q)"
    unfolding raw_de_def using append_take_drop_id [of 4 q] by metis
  moreover have "length (take 4 q) = 4" "length (take 2 (drop 4 q)) = 2" using assms by simp_all
  ultimately show ?thesis by blast
qed

lemma insert_dentry_ok:
  assumes e: "de_ok ic e" "ic < 2 ^ 32" "has_room (EXT4_DIR_REC_LEN (length name)) e" and bs: "e_rec_len e \<le> bs" "bs < 65536"
  shows "ext4_insert_dentry ino ft (A @ enc_de e @ B) (length A) bs name = Inr (A @ dir_bytes (split_de ino ft name e) @ B)"
proof (cases "e_inode e = 0")
  case True
  have l: "length name \<le> length (e_body e)" using e(3) True rec_len_ge(1) [of "length name"] by (simp add: has_room_def e_rec_len_def)
  then have "e_rec_len (e\<lparr>e_inode := ino, e_name_len := length name, e_type := ft, e_body := new_body name (e_body e)\<rparr>) = e_rec_len e"
    by (simp add: e_rec_len_def new_body_def)
  then show ?thesis using True l entry_at(1) [OF e(1,2), where A = A and B = B]
    by (simp add: ext4_insert_dentry_def Let_def enc_raw fill_entry split_de_def)
next
  case False
  let ?n = "EXT4_DIR_REC_LEN (e_name_len e)" and ?d = "A @ enc_de e @ B"
  let ?p = "take (?n - 8) (e_body e)" and ?q = "drop (?n - 8) (e_body e)" and ?rest = "drop ?n (e_body e)"
  let ?i = "le_enc 4 (e_inode e)" and ?nb = "word_of_nat (e_name_len e) :: byte"
  have n: "8 \<le> ?n" "?n \<le> e_rec_len e" "?n mod 4 = 0" using rec_len_ge(1,2) [of "e_name_len e"] e(1) by (simp_all add: de_ok_def)
  have room: "EXT4_DIR_REC_LEN (length name) \<le> e_rec_len e - ?n" using e(3) False by (simp add: has_room_def)
  have q: "length ?q = e_rec_len e - ?n" "8 + length name \<le> length ?q" "length ?p = ?n - 8"
    using n room rec_len_ge(1) [of "length name"] by (auto simp: e_rec_len_def)
  have rest: "?rest = drop 8 ?q" "length name \<le> length ?rest" "8 + length ?rest = e_rec_len e - ?n" using n q by simp_all
  obtain b4 r2 x6 x7 where raw: "?q = raw_de b4 r2 x6 x7 ?rest" "length b4 = 4" "length r2 = 2"
    using raw_split [of ?q] q(2) rest(1) by (metis add_leD1)
  let ?l1 = "le_enc 2 (e_rec_len e - ?n)" and ?l = "le_enc 2 ?n"
  define e1 where "e1 = e\<lparr>e_body := ?p\<rparr>"
  define P where "P = A @ ?i @ le_enc 2 (e_rec_len e) @ [?nb, e_type e] @ ?p"
  have e1: "enc_de e1 = ?i @ ?l @ [?nb, e_type e] @ ?p" "e_rec_len e1 = ?n"
    using n q(3) by (simp_all add: e1_def enc_de_def e_rec_len_def)
  have P: "length P = length A + ?n" using n q(3) by (simp add: P_def)
  have d: "?d = P @ raw_de b4 r2 x6 x7 ?rest @ B" unfolding raw(1) [symmetric] by (simp add: P_def enc_de_def)
  have put1: "put_bytes ?d (length A + ?n + 4) ?l1 = Inr (P @ raw_de b4 ?l1 x6 x7 ?rest @ B)"
    unfolding d P [symmetric] by (rule put_raw(2) [OF raw(2,3)]) simp
  have split: "P @ X = A @ raw_de ?i (le_enc 2 (e_rec_len e)) ?nb (e_type e) (?p @ X)" "(A @ enc_de e1) @ X = A @ raw_de ?i ?l ?nb (e_type e) (?p @ X)" for X
    by (simp_all add: P_def raw_de_def e1)
  have put2: "put_bytes (P @ raw_de b4 ?l1 x6 x7 ?rest @ B) (length A + 4) ?l = Inr ((A @ enc_de e1) @ raw_de b4 ?l1 x6 x7 ?rest @ B)"
    unfolding split using put_raw(2) [of ?i "le_enc 2 (e_rec_len e)" ?l A ?nb "e_type e" "?p @ raw_de b4 ?l1 x6 x7 ?rest @ B" "[]"] by simp
  have "(e_rec_len e - ?n) mod 4 = 0" using n(3) e(1) by (simp add: de_ok_def mod_eq_0_iff_dvd dvd_diff_nat)
  then have disk: "ext4_rec_len_to_disk (e_rec_len e - ?n) bs = Inr ?l1" "ext4_rec_len_to_disk ?n bs = Inr ?l"
    using bs n by (simp_all add: ext4_rec_len_to_disk_def J_ASSERT_def)
  note at = entry_at(1-3) [OF e(1,2), where A = A and B = B]
  have "ext4_insert_dentry ino ft ?d (length A) bs name =
      Inr ((A @ enc_de e1) @ raw_de (le_enc 4 ino) ?l1 (word_of_nat (length name)) ft (new_body name ?rest) @ B)"
    using False fill_entry [of b4 ?l1 name ?rest "A @ enc_de e1" x6 x7 B ino ft] raw(2) rest(2)
    by (simp add: ext4_insert_dentry_def Let_def at disk put1 put2 e1(2))
  moreover define e2 where "e2 = \<lparr>e_inode = ino, e_name_len = length name, e_type = ft, e_body = new_body name ?rest\<rparr>"
  have "e_rec_len e2 = e_rec_len e - ?n" using rest(2,3) by (simp add: e2_def e_rec_len_def new_body_def)
  then have "enc_de e2 = raw_de (le_enc 4 ino) ?l1 (word_of_nat (length name)) ft (new_body name ?rest)"
    unfolding enc_raw by (simp add: e2_def)
  moreover have "split_de ino ft name e = [e1, e2]" using False n(1) by (simp add: split_de_def Let_def e1_def e2_def)
  ultimately show ?thesis by simp
qed

lemma dir_map_append: "dir_map (xs @ ys) name = (case dir_map xs name of None \<Rightarrow> dir_map ys name | Some i \<Rightarrow> Some i)"
  by (induction xs) (auto simp: dir_map_def)

lemma dir_map_Cons: "dir_map (e # es) name = (if matches name e then Some (e_inode e) else dir_map es name)"
  by (simp add: dir_map_def)

lemma dir_map_None: "dir_map es name = None \<longleftrightarrow> (\<forall>e \<in> set es. \<not> matches name e)"
  by (auto simp: dir_map_def find_None_iff)

lemma dir_map_Nil [simp]: "dir_map [] name = None"
  by (simp add: dir_map_def)

lemma split_de_ok:
  assumes e: "de_ok ic e" "has_room (EXT4_DIR_REC_LEN (length name)) e" and name: "name \<noteq> []" "length name < 256" and ino: "0 < ino" "ino \<le> ic"
  shows "\<forall>x \<in> set (split_de ino ft name e). de_ok ic x" "length (dir_bytes (split_de ino ft name e)) = e_rec_len e"
    "\<not> matches name e \<Longrightarrow> dir_map (split_de ino ft name e) nm = (if nm = name then Some ino else dir_map [e] nm)"
proof -
  let ?n = "EXT4_DIR_REC_LEN (e_name_len e)"
  have n: "e_name_len e + 8 \<le> ?n" "?n \<le> e_rec_len e" "?n mod 4 = 0" "?n < 65536"
    using rec_len_ge [of "e_name_len e"] e(1) by (auto simp: de_ok_def)
  have r: "length name + 8 \<le> EXT4_DIR_REC_LEN (length name)" "12 \<le> EXT4_DIR_REC_LEN (length name)"
    using rec_len_ge(1) [of "length name"] name(1) by (cases name; simp add: EXT4_DIR_REC_LEN_def)+
  have m4: "e_rec_len e mod 4 = 0" "(e_rec_len e - ?n) mod 4 = 0"
    using n(3) e(1) by (simp_all add: de_ok_def mod_eq_0_iff_dvd dvd_diff_nat)
  have nb: "length (new_body name b) = length b" "take (length name) (new_body name b) = name" if "length name \<le> length b" for b
    using that by (simp_all add: new_body_def)
  have n12: "12 \<le> ?n" if "e_inode e \<noteq> 0" using that e(1) by (auto simp: de_ok_def EXT4_DIR_REC_LEN_def)
  have room: "EXT4_DIR_REC_LEN (length name) \<le> (if e_inode e \<noteq> 0 then e_rec_len e - ?n else e_rec_len e)"
    using e(2) by (simp add: has_room_def)
  have "(\<forall>x \<in> set (split_de ino ft name e). de_ok ic x) \<and> length (dir_bytes (split_de ino ft name e)) = e_rec_len e \<and>
      (\<not> matches name e \<longrightarrow> dir_map (split_de ino ft name e) nm = (if nm = name then Some ino else dir_map [e] nm))"
  proof (cases "e_inode e = 0")
    case True
    then have l: "length name \<le> length (e_body e)" using room r(1) by (simp add: e_rec_len_def)
    show ?thesis using True e(1) name ino room nb [OF l]
      by (auto simp: split_de_def de_ok_def e_rec_len_def matches_def e_name_def dir_map_Cons)
  next
    case False
    let ?rest = "drop ?n (e_body e)"
    have l: "length name \<le> length ?rest" "8 + length ?rest = e_rec_len e - ?n" using False room r(1) by (simp_all add: e_rec_len_def)
    let ?e1 = "e\<lparr>e_body := take (?n - 8) (e_body e)\<rparr>" and ?e2 = "\<lparr>e_inode = ino, e_name_len = length name, e_type = ft, e_body = new_body name ?rest\<rparr>"
    have sp: "split_de ino ft name e = [?e1, ?e2]" using False n(1) by (simp add: split_de_def Let_def)
    have r12: "e_rec_len ?e1 = ?n" "e_rec_len ?e2 = e_rec_len e - ?n" using n l nb(1) [OF l(1)] by (simp_all add: e_rec_len_def)
    have "de_ok ic ?e1" using e(1) n n12 [OF False] unfolding de_ok_def r12 by auto
    moreover have "de_ok ic ?e2" using e(1) ino name room r m4 False unfolding de_ok_def r12 by auto
    moreover have "e_name ?e1 = e_name e" "e_name ?e2 = name" using n(1) nb(2) [OF l(1)] by (simp_all add: e_name_def min_absorb1)
    ultimately show ?thesis unfolding sp using r12 n(2) ino(1) False by (auto simp: dir_map_Cons matches_def)
  qed
  then show "\<forall>x \<in> set (split_de ino ft name e). de_ok ic x" "length (dir_bytes (split_de ino ft name e)) = e_rec_len e"
    "\<not> matches name e \<Longrightarrow> dir_map (split_de ino ft name e) nm = (if nm = name then Some ino else dir_map [e] nm)" by blast+
qed

text \<open>C25: adding an entry to a block of valid entries updates the map that the block stands for. If an entry has
  room for the name, \<open>add_dirent_to_buf\<close> succeeds, the entries of the block are valid again, the new name is
  mapped to its inode and all other names to what they were; if none has, it returns \<open>ENOSPC\<close> and leaves the block as
  it is. The checksum at the end of the block is not touched.\<close>

theorem dir_add_exact:
  assumes "dir_ok ic (es @ ts)" and "\<forall>t \<in> set ts. e_inode t = 0" and "csum_size = length (dir_bytes ts)"
    and "name \<noteq> []" and "length name < 256" and "0 < ino" and "ino \<le> ic" and "dir_map es name = None"
  shows "\<exists>ret es'. add_dirent_to_buf ic ino ft (dir_bytes (es @ ts)) csum_size name = Inr (ret, dir_bytes (es' @ ts)) \<and> dir_ok ic (es' @ ts) \<and>
    (if \<exists>e \<in> set es. has_room (EXT4_DIR_REC_LEN (length name)) e
     then ret = 0 \<and> dir_map (es' @ ts) = (dir_map (es @ ts))(name \<mapsto> ino) else ret = - ENOSPC \<and> es' = es)"
proof -
  let ?room = "has_room (EXT4_DIR_REC_LEN (length name))" and ?d = "dir_bytes es @ dir_bytes ts"
  have ok: "\<forall>e \<in> set es. de_ok ic e \<and> \<not> matches name e" "ic < 2 ^ 32" "length ?d < 65536"
    using assms(1,8) by (auto simp: dir_ok_def dir_map_None)
  have find: "ext4_find_dest_de ic ?d (length (dir_bytes es)) name 0 =
      Inr (if \<exists>e \<in> set es. ?room e then (0, Some (length (dir_bytes (takeWhile (\<lambda>e. \<not> ?room e) es)))) else (- ENOSPC, None))"
    using find_dest_ok [OF ok(1,2), of "[]" "dir_bytes ts"] by simp
  show ?thesis
  proof (cases "\<exists>e \<in> set es. ?room e")
    case False
    then show ?thesis using find assms(1,3) by (intro exI [of _ "- ENOSPC"] exI [of _ es]) (simp add: add_dirent_to_buf_def)
  next
    case True
    obtain xs e ys where es: "es = xs @ e # ys" "?room e" "\<forall>x \<in> set xs. \<not> ?room x" using split_list_first_prop [OF True] by blast
    have e: "de_ok ic e" "\<not> matches name e" using ok(1) es(1) by simp_all
    have tw: "takeWhile (\<lambda>e. \<not> ?room e) es = xs" using es by (simp add: takeWhile_append2)
    let ?es = "xs @ split_de ino ft name e @ ys"
    note sp = split_de_ok(1,2) [OF e(1) es(2) assms(4-7)]
    have "ext4_insert_dentry ino ft (dir_bytes xs @ enc_de e @ dir_bytes (ys @ ts)) (length (dir_bytes xs)) (length ?d) name =
        Inr (dir_bytes xs @ dir_bytes (split_de ino ft name e) @ dir_bytes (ys @ ts))"
      by (rule insert_dentry_ok [OF e(1) ok(2) es(2)]) (use ok(3) es(1) in simp_all)
    then have "add_dirent_to_buf ic ino ft (dir_bytes (es @ ts)) csum_size name = Inr (0, dir_bytes (?es @ ts))"
      using find True assms(3) tw es(1) by (simp add: add_dirent_to_buf_def)
    moreover have "dir_ok ic (?es @ ts)" using assms(1) es(1) sp(1,2) by (auto simp: dir_ok_def)
    moreover have "dir_map (?es @ ts) nm = ((dir_map (es @ ts))(name \<mapsto> ino)) nm" for nm
    proof -
      have "dir_map xs name = None" using ok(1) es(1) by (simp add: dir_map_None)
      then show ?thesis using split_de_ok(3) [OF e(1) es(2) assms(4-7) e(2), where nm = nm] es(1) by (auto simp: dir_map_append dir_map_Cons split: option.splits)
    qed
    then have "dir_map (?es @ ts) = (dir_map (es @ ts))(name \<mapsto> ino)" by blast
    ultimately show ?thesis using True by (intro exI [of _ 0] exI [of _ ?es]) (simp only: if_True)
  qed
qed

section \<open>Deleting an entry\<close>

lemma delete_loop_skip:
  assumes "\<forall>x \<in> set xs. de_ok ic x" and "ic < 2 ^ 32" and "length (A @ dir_bytes xs) < lim"
  shows "delete_loop ic (A @ dir_bytes xs @ B) lim (length (A @ dir_bytes xs)) pde (length A) =
    delete_loop ic (A @ dir_bytes xs @ B) lim (length (A @ dir_bytes xs))
      (if xs = [] then pde else Some (length (A @ dir_bytes (butlast xs)))) (length (A @ dir_bytes xs))"
  using assms(1,3)
proof (induction xs arbitrary: A pde)
  case (Cons x xs)
  have x: "de_ok ic x" "e_rec_len x > 0" using Cons.prems by (auto simp: de_ok_def)
  note at = entry_at [OF x(1) assms(2), where A = A and B = "dir_bytes xs @ B"]
  let ?D = "A @ dir_bytes (x # xs) @ B" and ?t = "length (A @ dir_bytes (x # xs))"
  have "delete_loop ic ?D lim ?t pde (length A) = delete_loop ic ?D lim ?t (Some (length A)) (length (A @ enc_de x))"
    using Cons.prems x(2) by (subst delete_loop.simps) (simp add: at)
  then show ?case using Cons.IH [of "A @ enc_de x" "Some (length A)"] Cons.prems by auto
qed simp

text \<open>The entries after a deletion: the entry is merged into the one before it, or gets the inode 0 if there is none.\<close>

definition del_de :: "dirent list \<Rightarrow> dirent \<Rightarrow> dirent list" where
  "del_de xs e = (if xs = [] then [e\<lparr>e_inode := 0\<rparr>] else butlast xs @ [(last xs)\<lparr>e_body := e_body (last xs) @ enc_de e\<rparr>])"

lemma delete_entry_ok:
  assumes ok: "dir_ok ic (xs @ e # zs)" and lim: "csum_size < length (dir_bytes (e # zs))"
  shows "ext4_generic_delete_entry ic (dir_bytes (xs @ e # zs)) (length (dir_bytes xs)) csum_size = Inr (0, dir_bytes (del_de xs e @ zs))"
proof -
  let ?d = "dir_bytes (xs @ e # zs)" and ?o = "length (dir_bytes xs)"
  have oks: "\<forall>x \<in> set xs. de_ok ic x" "de_ok ic e" "ic < 2 ^ 32" "length ?d < 65536" using ok by (auto simp: dir_ok_def)
  have lt: "?o < length ?d - csum_size" using lim by simp
  note at = entry_at [OF oks(2,3), where A = "dir_bytes xs" and B = "dir_bytes zs"]
  have skip: "ext4_generic_delete_entry ic ?d ?o csum_size =
      delete_loop ic ?d (length ?d - csum_size) ?o (if xs = [] then None else Some (length (dir_bytes (butlast xs)))) ?o"
    using delete_loop_skip [OF oks(1,3), of "[]" "length ?d - csum_size" "dir_bytes (e # zs)" None] lt
    by (simp add: ext4_generic_delete_entry_def)
  show ?thesis
  proof (cases xs rule: rev_cases)
    case Nil
    have "put_bytes (enc_de e @ dir_bytes zs) 0 (le_enc 4 0) = Inr (enc_de (e\<lparr>e_inode := 0\<rparr>) @ dir_bytes zs)"
      using put_raw(1) [of "le_enc 4 (e_inode e)" "le_enc 2 (e_rec_len e)" "le_enc 4 0" "[]"] by (simp add: enc_raw e_rec_len_def)
    then show ?thesis unfolding skip using Nil lt at by (subst delete_loop.simps) (simp add: del_de_def)
  next
    case (snoc ps p)
    have p: "de_ok ic p" using oks(1) snoc by simp
    note atp = entry_at [OF p oks(3), where A = "dir_bytes ps" and B = "enc_de e @ dir_bytes zs"]
    let ?l = "le_enc 2 (e_rec_len p + e_rec_len e)"
    have "ext4_rec_len_to_disk (e_rec_len p + e_rec_len e) (length ?d) = Inr ?l"
      using p oks(2,4) snoc by (auto simp: ext4_rec_len_to_disk_def J_ASSERT_def de_ok_def mod_add_eq)
    moreover have "put_bytes (dir_bytes ps @ enc_de p @ enc_de e @ dir_bytes zs) (length (dir_bytes ps) + 4) ?l =
        Inr (dir_bytes ps @ enc_de (p\<lparr>e_body := e_body p @ enc_de e\<rparr>) @ dir_bytes zs)"
      using put_raw(2) [of "le_enc 4 (e_inode p)" "le_enc 2 (e_rec_len p)" ?l "dir_bytes ps" "word_of_nat (e_name_len p)" "e_type p" "e_body p" "enc_de e @ dir_bytes zs"]
      by (simp add: enc_de_def raw_de_def e_rec_len_def)
    ultimately show ?thesis unfolding skip using snoc lt at atp by (subst delete_loop.simps) (simp add: del_de_def)
  qed
qed

lemma del_de_ok:
  assumes ok: "dir_ok ic (xs @ e # zs)"
  shows "dir_ok ic (del_de xs e @ zs)" "\<forall>x \<in> set (xs @ zs). \<not> matches name x \<Longrightarrow> matches name e \<Longrightarrow>
    dir_map (del_de xs e @ zs) = (dir_map (xs @ e # zs))(name := None)"
proof -
  have oks: "\<forall>x \<in> set xs. de_ok ic x" "de_ok ic e" "ic < 2 ^ 32" using ok by (auto simp: dir_ok_def)
  show "dir_ok ic (del_de xs e @ zs)"
  proof (cases xs rule: rev_cases)
    case Nil
    then show ?thesis using ok by (simp add: dir_ok_def del_de_def de_ok_def e_rec_len_def)
  next
    case (snoc ps p)
    have "e_rec_len (p\<lparr>e_body := e_body p @ enc_de e\<rparr>) = e_rec_len p + e_rec_len e" by (simp add: e_rec_len_def)
    moreover have "(e_rec_len p + e_rec_len e) mod 4 = 0" using oks snoc by (auto simp: de_ok_def mod_add_eq)
    ultimately show ?thesis using ok snoc by (auto simp: dir_ok_def del_de_def de_ok_def)
  qed
  assume no: "\<forall>x \<in> set (xs @ zs). \<not> matches name x" and m: "matches name e"
  have z: "dir_map zs name = None" "dir_map xs name = None" using no by (auto simp: dir_map_None)
  have other: "\<not> matches nm e" if "nm \<noteq> name" for nm using m that by (simp add: matches_def)
  have "dir_map (del_de xs e @ zs) nm = ((dir_map (xs @ e # zs))(name := None)) nm" for nm
  proof (cases xs rule: rev_cases)
    case Nil
    then show ?thesis using z m by (auto simp: del_de_def dir_map_Cons matches_def)
  next
    case (snoc ps p)
    have "e_name (p\<lparr>e_body := e_body p @ enc_de e\<rparr>) = e_name p"
      using name_fits [of ic p] oks(1) snoc by (auto simp: e_name_def)
    then have "matches nm (p\<lparr>e_body := e_body p @ enc_de e\<rparr>) = matches nm p" by (simp add: matches_def)
    then have "dir_map (del_de xs e) nm = dir_map xs nm" using snoc by (simp add: del_de_def dir_map_append dir_map_Cons split: option.split)
    then show ?thesis using z other by (auto simp: dir_map_append dir_map_Cons split: option.splits)
  qed
  then show "dir_map (del_de xs e @ zs) = (dir_map (xs @ e # zs))(name := None)" by blast
qed

text \<open>C26: looking a name up and deleting the entry that was found removes the name from the map that the block stands for, and
  nothing else: if the block has valid entries and at most one of the name, the deletion at the offset that \<open>ext4_search_dir\<close> returns
  succeeds, the entries of the block are valid again, the name is not mapped any more and all other names are mapped to what they were.\<close>

theorem dir_delete_exact:
  assumes "dir_ok ic (es @ ts)" and "\<forall>t \<in> set ts. e_inode t = 0" and "csum_size = length (dir_bytes ts)"
    and "length (filter (matches name) es) \<le> 1"
    and "ext4_search_dir ic (dir_bytes (es @ ts)) (length (dir_bytes (es @ ts))) name 0 = Inr (ret, Some off)"
  shows "\<exists>es'. ext4_generic_delete_entry ic (dir_bytes (es @ ts)) off csum_size = Inr (0, dir_bytes (es' @ ts)) \<and> dir_ok ic (es' @ ts) \<and>
    dir_map (es' @ ts) = (dir_map (es @ ts))(name := None)"
proof -
  have t: "\<forall>t \<in> set ts. \<not> matches name t" using assms(2) by (simp add: matches_def)
  have ok: "\<forall>e \<in> set (es @ ts). de_ok ic e" "ic < 2 ^ 32" using assms(1) by (simp_all add: dir_ok_def)
  have ex: "\<exists>e \<in> set (es @ ts). matches name e" and off: "off = match_pos name (es @ ts)"
    using assms(5) search_dir_ok [OF ok, of "[]" name] by (auto split: if_splits)
  have "\<exists>e \<in> set es. matches name e" using ex t by auto
  then obtain xs e ys where es: "es = xs @ e # ys" "matches name e" "\<forall>x \<in> set xs. \<not> matches name x" "match_pos name es = length (dir_bytes xs)"
    by (rule first_match) blast
  have "off = length (dir_bytes xs)" using off es by (simp add: match_pos_def takeWhile_append2)
  moreover have "\<forall>x \<in> set (xs @ ys @ ts). \<not> matches name x" using assms(4) es(1-3) t by (auto simp: filter_empty_conv)
  moreover have "csum_size < length (dir_bytes (e # ys @ ts))" using assms(3) by (simp add: e_rec_len_def)
  moreover have "dir_ok ic (xs @ e # ys @ ts)" using assms(1) es(1) by simp
  ultimately show ?thesis using es(1,2) delete_entry_ok [of ic xs e "ys @ ts" csum_size] del_de_ok [of ic xs e "ys @ ts"]
    by (intro exI [of _ "del_de xs e @ ys"]) simp
qed

section \<open>A block in use\<close>

definition ex_dirent :: "nat \<Rightarrow> byte list \<Rightarrow> nat \<Rightarrow> dirent" where
  "ex_dirent ino name n = \<lparr>e_inode = ino, e_name_len = length name, e_type = 2, e_body = name @ replicate (n - 8 - length name) 0\<rparr>"

definition ex_dir :: "dirent list" where
  "ex_dir = [ex_dirent 2 [46] 12, ex_dirent 11 [97, 98] 12, ex_dirent 12 [99] 40]"

definition ex_tail :: "dirent list" where
  "ex_tail = [\<lparr>e_inode = 0, e_name_len = 0, e_type = 222, e_body = [1, 2, 3, 4]\<rparr>]"

lemma ex_dir_ok: "dir_ok 100 (ex_dir @ ex_tail)" "length (dir_bytes ex_tail) = 12" "\<forall>t \<in> set ex_tail. e_inode t = 0"
  by (simp_all add: dir_ok_def de_ok_def ex_dir_def ex_tail_def ex_dirent_def e_rec_len_def EXT4_DIR_REC_LEN_def)

lemma ex_dir_map: "dir_map (ex_dir @ ex_tail) nm = (if nm = [46] then Some 2 else if nm = [97, 98] then Some 11 else if nm = [99] then Some 12 else None)"
  by (simp add: dir_map_Cons ex_dir_def ex_tail_def ex_dirent_def matches_def e_name_def)

theorem search_dir_exact_witness:
  "case ext4_search_dir 100 (dir_bytes (ex_dir @ ex_tail)) (length (dir_bytes (ex_dir @ ex_tail))) [97, 98] 0 of
      Inl _ \<Rightarrow> False | Inr (ret, None) \<Rightarrow> False | Inr (ret, Some off) \<Rightarrow> ret = 1 \<and> de_inode (dir_bytes (ex_dir @ ex_tail)) off = 11"
  using search_dir_exact [OF ex_dir_ok(1), of "[97, 98]"] unfolding ex_dir_map
  by (auto split: sum.splits prod.splits option.splits)

theorem dir_add_exact_witness:
  "\<exists>es'. add_dirent_to_buf 100 13 1 (dir_bytes (ex_dir @ ex_tail)) 12 [100, 101] = Inr (0, dir_bytes (es' @ ex_tail)) \<and>
    dir_map (es' @ ex_tail) [100, 101] = Some 13 \<and> dir_map (es' @ ex_tail) [99] = Some 12"
proof -
  have "dir_map ex_dir [100, 101] = None" by (simp add: dir_map_Cons ex_dir_def ex_dirent_def matches_def e_name_def)
  moreover have "\<exists>e \<in> set ex_dir. has_room (EXT4_DIR_REC_LEN (length [100 :: byte, 101])) e"
    by (simp add: ex_dir_def ex_dirent_def has_room_def EXT4_DIR_REC_LEN_def e_rec_len_def)
  ultimately show ?thesis
    using dir_add_exact [OF ex_dir_ok(1,3) ex_dir_ok(2) [symmetric], of "[100, 101]" 13 1] ex_dir_map [of "[99]"] by auto
qed

theorem dir_delete_exact_witness:
  "\<exists>es' off. ext4_search_dir 100 (dir_bytes (ex_dir @ ex_tail)) (length (dir_bytes (ex_dir @ ex_tail))) [97, 98] 0 = Inr (1, Some off) \<and>
    ext4_generic_delete_entry 100 (dir_bytes (ex_dir @ ex_tail)) off 12 = Inr (0, dir_bytes (es' @ ex_tail)) \<and>
    dir_map (es' @ ex_tail) [97, 98] = None \<and> dir_map (es' @ ex_tail) [99] = Some 12"
proof -
  have ok: "\<forall>e \<in> set (ex_dir @ ex_tail). de_ok 100 e" "(100 :: nat) < 2 ^ 32" using ex_dir_ok(1) by (simp_all add: dir_ok_def)
  have "\<exists>e \<in> set (ex_dir @ ex_tail). matches [97, 98] e" using ex_dir_map [of "[97, 98]"] dir_map_None [of "ex_dir @ ex_tail" "[97, 98]"] by fastforce
  then have f: "ext4_search_dir 100 (dir_bytes (ex_dir @ ex_tail)) (length (dir_bytes (ex_dir @ ex_tail))) [97, 98] 0 =
      Inr (1, Some (match_pos [97, 98] (ex_dir @ ex_tail)))"
    using search_dir_ok [OF ok, of "[]" "[97, 98]"] by (simp only: append_Nil list.size(3) add_0 if_True)
  have "length (filter (matches [97, 98]) ex_dir) \<le> 1" by (simp add: ex_dir_def ex_dirent_def matches_def e_name_def)
  then obtain es' where "ext4_generic_delete_entry 100 (dir_bytes (ex_dir @ ex_tail)) (match_pos [97, 98] (ex_dir @ ex_tail)) 12 = Inr (0, dir_bytes (es' @ ex_tail))"
    "dir_map (es' @ ex_tail) = (dir_map (ex_dir @ ex_tail))([97, 98] := None)"
    using dir_delete_exact [OF ex_dir_ok(1,3) ex_dir_ok(2) [symmetric] _ f] by blast
  then show ?thesis using f ex_dir_map [of "[99]"] by auto
qed

section \<open>Damaged blocks\<close>




end
