(* ===== verification/Ext4_Htree.thy ===== *)
theory Ext4_Htree
  imports Ext4_Dir Ext4_Hash
begin

unbundle bit_operations_syntax

text \<open>
  The index of a directory, \<open>src/kernel/fs/ext4/namei.c\<close>. The blocks of the index hold arrays of hashes and block numbers,
  ordered by the hash; the blocks below them hold the entries. \<open>dx_probe\<close> finds the block for a hash,
  \<open>ext4_htree_next_block\<close> goes to the next one and \<open>ext4_dx_find_entry\<close> searches for a name. Reading a block from the disk, the
  checksums and the flag of verified buffers are the parameter \<open>dir_env\<close>. A pointer to an entry of an index block is the
  block, the offset of its array and the number of the entry. The blocks are of less than 64 KiB, and a block size is at least 1024, so that
  the limits do not wrap round. Reference counts of buffers are left out.
\<close>

section \<open>Blocks of a directory\<close>

abbreviation "EFSBADCRC \<equiv> 74 :: int"

definition ERR_BAD_DX_DIR :: int where "ERR_BAD_DX_DIR = - (4095 - 1)"

datatype dirblock_type_t = EITHER | INDEX | DIRENT

record dir_env =
  ext4_bread :: "u32 \<Rightarrow> int + block_data option"
  buffer_verified :: "u32 \<Rightarrow> bool"
  ext4_dx_csum_verify :: "block_data \<Rightarrow> bool"
  ext4_dirent_csum_verify :: "block_data \<Rightarrow> bool"

record dx_dir =
  s_blocksize :: nat
  has_metadata_csum :: bool
  has_largedir :: bool
  s_hash_unsigned :: int
  s_hash_seed :: "u32 list"
  s_inodes_count :: nat
  is_dx :: bool

definition ext4_read_dirblock :: "dir_env \<Rightarrow> dx_dir \<Rightarrow> u32 \<Rightarrow> dirblock_type_t \<Rightarrow> int + block_data" where
  "ext4_read_dirblock E dir block type =
     (case ext4_bread E block of
        Inl err \<Rightarrow> Inl err
      | Inr None \<Rightarrow> Inl (- EUCLEAN)
      | Inr (Some d) \<Rightarrow>
          let is_dx_block = (is_dx dir \<and> (block = 0 \<or> ext4_rec_len_from_disk d 0 = s_blocksize dir))
          in if \<not> is_dx_block \<and> type = INDEX then Inl (- EUCLEAN)
             else if \<not> has_metadata_csum dir \<or> buffer_verified E block then Inr d
             else if is_dx_block \<and> type = INDEX \<and> \<not> ext4_dx_csum_verify E d then Inl (- EFSBADCRC)
             else if \<not> is_dx_block \<and> \<not> ext4_dirent_csum_verify E d then Inl (- EFSBADCRC)
             else Inr d)"

section \<open>The arrays of an index block\<close>

definition dx_get_block :: "block_data \<Rightarrow> nat \<Rightarrow> nat \<Rightarrow> u32" where
  "dx_get_block d e i = word_of_nat (le_dec (load_bytes d (e + 8 * i + 4) 4)) AND 0x0fffffff"

definition dx_get_hash :: "block_data \<Rightarrow> nat \<Rightarrow> nat \<Rightarrow> u32" where
  "dx_get_hash d e i = word_of_nat (le_dec (load_bytes d (e + 8 * i) 4))"

definition dx_get_limit :: "block_data \<Rightarrow> nat \<Rightarrow> nat" where
  "dx_get_limit d e = le_dec (load_bytes d e 2)"

definition dx_get_count :: "block_data \<Rightarrow> nat \<Rightarrow> nat" where
  "dx_get_count d e = le_dec (load_bytes d (e + 2) 2)"

definition dx_root_limit :: "dx_dir \<Rightarrow> nat \<Rightarrow> nat" where
  "dx_root_limit dir infosize =
     (let entry_space = s_blocksize dir - EXT4_DIR_REC_LEN 1 - EXT4_DIR_REC_LEN 2 - infosize
      in (if has_metadata_csum dir then entry_space - 8 else entry_space) div 8)"

definition dx_node_limit :: "dx_dir \<Rightarrow> nat" where
  "dx_node_limit dir =
     (let entry_space = s_blocksize dir - EXT4_DIR_REC_LEN 0
      in (if has_metadata_csum dir then entry_space - 8 else entry_space) div 8)"

definition ext4_dir_htree_level :: "dx_dir \<Rightarrow> nat" where
  "ext4_dir_htree_level dir = (if has_largedir dir then 3 else 2)"

text \<open>An access to an entry outside of the block is an \<open>OOPS\<close>.\<close>

definition with_dx :: "block_data \<Rightarrow> nat \<Rightarrow> nat \<Rightarrow> 'a res \<Rightarrow> 'a res" where
  "with_dx d e i m = (if e + 8 * i + 8 \<le> length d then m else Inl OOPS)"

section \<open>Searching the index\<close>

function dx_search :: "block_data \<Rightarrow> nat \<Rightarrow> u32 \<Rightarrow> int \<Rightarrow> int \<Rightarrow> int res" where
  "dx_search d e hash p q =
     (if p \<le> q then
        let m = p + (q - p) div 2
        in with_dx d e (nat m) (if dx_get_hash d e (nat m) > hash then dx_search d e hash p (m - 1) else dx_search d e hash (m + 1) q)
      else Inr p)"
  by auto
termination by (relation "measure (\<lambda>(d, e, h, p, q). nat (q - p + 1))") auto

text \<open>The cross check: the linear search for the same entry.\<close>

fun dx_linear :: "block_data \<Rightarrow> nat \<Rightarrow> u32 \<Rightarrow> nat \<Rightarrow> nat \<Rightarrow> nat" where
  "dx_linear d e hash at 0 = at"
| "dx_linear d e hash at (Suc n) = (if dx_get_hash d e (at + 1) > hash then at else dx_linear d e hash (at + 1) n)"

record dx_frame =
  fr_bh :: block_data
  fr_entries :: nat
  fr_at :: nat

fun dx_probe_loop :: "dir_env \<Rightarrow> dx_dir \<Rightarrow> u32 \<Rightarrow> nat \<Rightarrow> block_data \<Rightarrow> nat \<Rightarrow> dx_frame list \<Rightarrow> (int + dx_frame list) res" where
  "dx_probe_loop E dir hash indirect d e frames =
     with_dx d e 0
       (let count = dx_get_count d e
        in if count = 0 \<or> count > dx_get_limit d e then Inr (Inl ERR_BAD_DX_DIR)
           else bind_res (dx_search d e hash 1 (int count - 1)) (\<lambda>p.
             let at = nat (p - 1);
                 frames = frames @ [\<lparr>fr_bh = d, fr_entries = e, fr_at = at\<rparr>]
             in case indirect of
                  0 \<Rightarrow> Inr (Inr frames)
                | Suc indirect \<Rightarrow>
                    (case ext4_read_dirblock E dir (dx_get_block d e at) INDEX of
                       Inl err \<Rightarrow> Inr (Inl err)
                     | Inr d' \<Rightarrow>
                         with_dx d' 8 0
                           (if dx_get_limit d' 8 \<noteq> dx_node_limit dir then Inr (Inl ERR_BAD_DX_DIR)
                            else dx_probe_loop E dir hash indirect d' 8 frames))))"

declare dx_search.simps [simp del] dx_probe_loop.simps [simp del]

text \<open>The information about the hash, of which the fields come after the entries for the directory itself and for its parent.\<close>

definition info_hash_version :: "block_data \<Rightarrow> int" where "info_hash_version d = uint (d ! 28)"
definition info_length :: "block_data \<Rightarrow> nat" where "info_length d = unat (d ! 29)"
definition indirect_levels :: "block_data \<Rightarrow> nat" where "indirect_levels d = unat (d ! 30)"
definition unused_flags :: "block_data \<Rightarrow> byte" where "unused_flags d = d ! 31"

text \<open>What \<open>dx_probe\<close> sets of \<open>hinfo\<close>: the version and the seed of the hash, and the hash of the name if there is one.\<close>

definition probe_hinfo :: "dx_dir \<Rightarrow> block_data \<Rightarrow> byte list option \<Rightarrow> dx_hash_info \<Rightarrow> dx_hash_info" where
  "probe_hinfo dir root fname hinfo =
     (let v = info_hash_version root;
          hinfo = hinfo\<lparr>hash_version := if v \<le> DX_HASH_TEA then v + s_hash_unsigned dir else v, hi_seed := Some (s_hash_seed dir)\<rparr>
      in case fname of Some name \<Rightarrow> snd (ext4fs_dirhash name hinfo) | None \<Rightarrow> hinfo)"

definition dx_probe :: "dir_env \<Rightarrow> dx_dir \<Rightarrow> byte list option \<Rightarrow> dx_hash_info \<Rightarrow> ((int + dx_frame list) \<times> dx_hash_info) res" where
  "dx_probe E dir fname hinfo =
     (case ext4_read_dirblock E dir 0 INDEX of
        Inl err \<Rightarrow> Inr (Inl err, hinfo)
      | Inr root \<Rightarrow>
          if length root < 32 then Inl OOPS
          else if info_hash_version root \<notin> {DX_HASH_TEA, DX_HASH_HALF_MD4, DX_HASH_LEGACY} then Inr (Inl ERR_BAD_DX_DIR, hinfo)
          else
            let hinfo = probe_hinfo dir root fname hinfo;
                hash = hi_hash hinfo;
                entries = 24 + info_length root
            in if unused_flags root AND 1 \<noteq> 0 then Inr (Inl ERR_BAD_DX_DIR, hinfo)
               else if indirect_levels root \<ge> ext4_dir_htree_level dir then Inr (Inl ERR_BAD_DX_DIR, hinfo)
               else with_dx root entries 0
                 (if dx_get_limit root entries \<noteq> dx_root_limit dir (info_length root) then Inr (Inl ERR_BAD_DX_DIR, hinfo)
                  else bind_res (dx_probe_loop E dir hash (indirect_levels root) root entries []) (\<lambda>r. Inr (r, hinfo))))"

section \<open>The next block\<close>

text \<open>The frames are given from the lowest level to the root. The result is the number of index blocks to read and the frames from the level
  that was advanced on; \<open>None\<close> if there is no next block.\<close>

fun next_frame :: "dx_frame list \<Rightarrow> nat \<Rightarrow> (nat \<times> dx_frame list) option" where
  "next_frame [] num = None"
| "next_frame (f # fs) num =
     (if fr_at f + 1 < dx_get_count (fr_bh f) (fr_entries f) then Some (num, f\<lparr>fr_at := fr_at f + 1\<rparr> # fs) else next_frame fs (num + 1))"

fun read_frames :: "dir_env \<Rightarrow> dx_dir \<Rightarrow> nat \<Rightarrow> dx_frame list \<Rightarrow> int + dx_frame list" where
  "read_frames E dir 0 fs = Inr fs"
| "read_frames E dir (Suc n) fs =
     (case ext4_read_dirblock E dir (dx_get_block (fr_bh (hd fs)) (fr_entries (hd fs)) (fr_at (hd fs))) INDEX of
        Inl err \<Rightarrow> Inl err
      | Inr d \<Rightarrow> read_frames E dir n (\<lparr>fr_bh = d, fr_entries = 8, fr_at = 0\<rparr> # fs))"

text \<open>\<open>ext4_htree_next_block\<close> returns 1, 0 or an error, the hash at which the next block starts and the frames, from the root on.
  The frames it changes are used only after a 1: with 0 or an error the model gives back those of the call, and the callers in the
  source release them.\<close>

definition ext4_htree_next_block :: "dir_env \<Rightarrow> dx_dir \<Rightarrow> u32 \<Rightarrow> dx_frame list \<Rightarrow> (int \<times> u32 option \<times> dx_frame list) res" where
  "ext4_htree_next_block E dir hash frames =
     (case next_frame (rev frames) 0 of
        None \<Rightarrow> Inr (0, None, frames)
      | Some (num, fs) \<Rightarrow>
          let p = hd fs
          in with_dx (fr_bh p) (fr_entries p) (fr_at p)
            (let bhash = dx_get_hash (fr_bh p) (fr_entries p) (fr_at p)
             in if hash AND 1 = 0 \<and> bhash AND NOT 1 \<noteq> hash then Inr (0, Some bhash, frames)
                else case read_frames E dir num fs of
                  Inl err \<Rightarrow> Inr (err, Some bhash, frames)
                | Inr fs \<Rightarrow> Inr (1, Some bhash, rev fs)))"

section \<open>Searching for a name\<close>

text \<open>The result is an error, nothing, or the block and the offset of the entry.\<close>

partial_function (option) dx_find_loop ::
  "dir_env \<Rightarrow> dx_dir \<Rightarrow> byte list \<Rightarrow> u32 \<Rightarrow> dx_frame list \<Rightarrow> (int + (u32 \<times> nat) option) res option" where
  "dx_find_loop E dir name hash frames =
     (let frame = last frames;
          block = dx_get_block (fr_bh frame) (fr_entries frame) (fr_at frame)
      in case ext4_read_dirblock E dir block DIRENT of
           Inl err \<Rightarrow> Some (Inr (Inl err))
         | Inr d \<Rightarrow>
             (case ext4_search_dir (s_inodes_count dir) d (s_blocksize dir) name 0 of
                Inl x \<Rightarrow> Some (Inl x)
              | Inr (retval, res_dir) \<Rightarrow>
                  if retval = 1 then Some (Inr (Inr (Some (block, the res_dir))))
                  else if retval = - 1 then Some (Inr (Inl ERR_BAD_DX_DIR))
                  else
                    (case ext4_htree_next_block E dir hash frames of
                       Inl x \<Rightarrow> Some (Inl x)
                     | Inr (retval, _, frames) \<Rightarrow>
                         if retval < 0 then Some (Inr (Inl retval))
                         else if retval = 1 then dx_find_loop E dir name hash frames
                         else Some (Inr (Inr None)))))"

definition ext4_dx_find_entry :: "dir_env \<Rightarrow> dx_dir \<Rightarrow> byte list \<Rightarrow> dx_hash_info \<Rightarrow> (int + (u32 \<times> nat) option) res option" where
  "ext4_dx_find_entry E dir name hinfo =
     (case dx_probe E dir (Some name) hinfo of
        Inl x \<Rightarrow> Some (Inl x)
      | Inr (Inl err, _) \<Rightarrow> Some (Inr (Inl err))
      | Inr (Inr frames, hinfo) \<Rightarrow> dx_find_loop E dir name (hi_hash hinfo) frames)"

section \<open>The binary search\<close>

definition dx_sorted :: "block_data \<Rightarrow> nat \<Rightarrow> bool" where
  "dx_sorted d e = sorted (map (dx_get_hash d e) [1..<dx_get_count d e])"

lemma dx_sortedD:
  assumes "dx_sorted d e" and "1 \<le> i" and "i \<le> j" and "j < dx_get_count d e"
  shows "dx_get_hash d e i \<le> dx_get_hash d e j"
  using sorted_nth_mono [OF assms(1) [unfolded dx_sorted_def], of "i - 1" "j - 1"] assms(2-) by simp

lemma dx_search_inv:
  assumes "dx_sorted d e" and "e + 8 * dx_get_count d e \<le> length d" and "1 \<le> p" and "q < int (dx_get_count d e)" and "p \<le> q + 1"
    and "\<forall>i. 1 \<le> i \<and> int i < p \<longrightarrow> dx_get_hash d e i \<le> hash"
    and "\<forall>i. q < int i \<and> i < dx_get_count d e \<longrightarrow> hash < dx_get_hash d e i"
  shows "\<exists>r. dx_search d e hash p q = Inr (int r + 1) \<and> int r \<le> int (dx_get_count d e) - 1 \<and>
    (\<forall>i. 1 \<le> i \<and> i \<le> r \<longrightarrow> dx_get_hash d e i \<le> hash) \<and> (\<forall>i. r < i \<and> i < dx_get_count d e \<longrightarrow> hash < dx_get_hash d e i)"
  using assms
proof (induction d e hash p q rule: dx_search.induct)
  case (1 d e hash p q)
  show ?case
  proof (cases "p \<le> q")
    case False
    then have "dx_search d e hash p q = Inr p" by (subst dx_search.simps) simp
    then show ?thesis using 1(3-) False by (intro exI [of _ "nat (p - 1)"]) auto
  next
    case True
    define m where "m = p + (q - p) div 2"
    have m: "p \<le> m" "m \<le> q" unfolding m_def using True by auto
    have in_d: "e + 8 * nat m + 8 \<le> length d" using m 1(5,6,4) by linarith
    have step: "dx_search d e hash p q =
        (if dx_get_hash d e (nat m) > hash then dx_search d e hash p (m - 1) else dx_search d e hash (m + 1) q)"
      using True in_d by (subst dx_search.simps) (simp add: m_def [symmetric] with_dx_def Let_def)
    show ?thesis
    proof (cases "dx_get_hash d e (nat m) > hash")
      case gt: True
      have "hash < dx_get_hash d e i" if "m - 1 < int i" "i < dx_get_count d e" for i
      proof -
        have "1 \<le> nat m" "nat m \<le> i" using that(1) m(1) 1(5) by linarith+
        then show ?thesis using gt dx_sortedD [OF 1(3), of "nat m" i] that(2) by (meson less_le_trans)
      qed
      then show ?thesis unfolding step using 1(1) [OF True m_def gt] 1(3-8) m gt by simp
    next
      case le: False
      have "dx_get_hash d e i \<le> hash" if "1 \<le> i" "int i < m + 1" for i
      proof -
        have "i \<le> nat m" "nat m < dx_get_count d e" using that(2) m 1(5,6) by linarith+
        then show ?thesis using le dx_sortedD [OF 1(3), of i "nat m"] that(1) by (meson le_less_trans not_le)
      qed
      then show ?thesis unfolding step using 1(2) [OF True m_def le] 1(3-) m le by simp
    qed
  qed
qed

lemma dx_search_ok:
  assumes "dx_sorted d e" and "e + 8 * dx_get_count d e \<le> length d" and "0 < dx_get_count d e"
  obtains r where "dx_search d e hash 1 (int (dx_get_count d e) - 1) = Inr (int r + 1)" "r < dx_get_count d e"
    "\<forall>i. 1 \<le> i \<and> i \<le> r \<longrightarrow> dx_get_hash d e i \<le> hash" "\<forall>i. r < i \<and> i < dx_get_count d e \<longrightarrow> hash < dx_get_hash d e i"
proof -
  obtain r where "dx_search d e hash 1 (int (dx_get_count d e) - 1) = Inr (int r + 1)" "int r \<le> int (dx_get_count d e) - 1"
    "\<forall>i. 1 \<le> i \<and> i \<le> r \<longrightarrow> dx_get_hash d e i \<le> hash" "\<forall>i. r < i \<and> i < dx_get_count d e \<longrightarrow> hash < dx_get_hash d e i"
    using dx_search_inv [OF assms(1,2), of 1 "int (dx_get_count d e) - 1" hash] assms(3) by fastforce
  then show ?thesis using that by fastforce
qed

lemma dx_linear_ok:
  "at \<le> dx_linear d e hash at n \<and> dx_linear d e hash at n \<le> at + n \<and> (\<forall>i. at < i \<and> i \<le> dx_linear d e hash at n \<longrightarrow> dx_get_hash d e i \<le> hash) \<and>
   (dx_linear d e hash at n < at + n \<longrightarrow> hash < dx_get_hash d e (dx_linear d e hash at n + 1))"
proof (induction n arbitrary: at)
  case (Suc n)
  show ?case
  proof (cases "dx_get_hash d e (at + 1) > hash")
    case False
    have "dx_get_hash d e i \<le> hash" if "at < i" "i \<le> dx_linear d e hash (at + 1) n" for i
      using that False Suc.IH [of "at + 1"] by (cases "i = at + 1") auto
    then show ?thesis using False Suc.IH [of "at + 1"] by simp
  qed auto
qed auto

text \<open>C29: the binary search of \<open>dx_probe\<close> passes its own cross check, which is disabled in the code: on an array of
  entries that are ordered by their hashes it stays inside of the block and finds the entry that the linear search finds.\<close>

theorem dx_search_cross_check:
  assumes "dx_sorted d e" and "e + 8 * dx_get_count d e \<le> length d" and "0 < dx_get_count d e"
  shows "dx_search d e hash 1 (int (dx_get_count d e) - 1) = Inr (int (dx_linear d e hash 0 (dx_get_count d e - 1)) + 1)"
proof -
  obtain r where r: "dx_search d e hash 1 (int (dx_get_count d e) - 1) = Inr (int r + 1)" "r < dx_get_count d e"
    "\<forall>i. 1 \<le> i \<and> i \<le> r \<longrightarrow> dx_get_hash d e i \<le> hash" "\<forall>i. r < i \<and> i < dx_get_count d e \<longrightarrow> hash < dx_get_hash d e i"
    using dx_search_ok [OF assms] by blast
  let ?l = "dx_linear d e hash 0 (dx_get_count d e - 1)"
  note l = dx_linear_ok [of 0 d e hash "dx_get_count d e - 1"]
  have "\<not> ?l < r"
  proof
    assume "?l < r"
    then have "hash < dx_get_hash d e (?l + 1)" using l r(2) by simp
    moreover have "dx_get_hash d e (?l + 1) \<le> hash" using r(3) \<open>?l < r\<close> by simp
    ultimately show False by simp
  qed
  moreover have "\<not> r < ?l"
  proof
    assume "r < ?l"
    moreover have "?l < dx_get_count d e" using l assms(3) by linarith
    ultimately have "hash < dx_get_hash d e ?l" using r(4) by blast
    moreover have "dx_get_hash d e ?l \<le> hash" using l \<open>r < ?l\<close> by simp
    ultimately show False by simp
  qed
  ultimately show ?thesis using r(1) by simp
qed

definition ex_index :: block_data where
  "ex_index = le_enc 2 5 @ le_enc 2 4 @ le_enc 4 1 @ le_enc 4 10 @ le_enc 4 2 @ le_enc 4 20 @ le_enc 4 3 @ le_enc 4 31 @ le_enc 4 4"

theorem dx_search_cross_check_witness:
  "dx_search ex_index 0 20 1 (int (dx_get_count ex_index 0) - 1) = Inr 3 \<and> dx_linear ex_index 0 20 0 3 = 2"
proof -
  have "dx_get_count ex_index 0 = 4" "dx_linear ex_index 0 20 0 3 = 2" "dx_sorted ex_index 0" "length ex_index = 32" by code_simp+
  then show ?thesis using dx_search_cross_check [of ex_index 0 20] by simp
qed

section \<open>The sequence of leaves\<close>

text \<open>
  What an index stands for: the sequence of the blocks below it, each with the hash from which on it holds names. \<open>dx_sub\<close> is the
  part of the sequence below one entry of an index block at the height \<open>n\<close>. The first entry of a block has no hash of its
  own and starts where the block starts.
\<close>

definition dx_low :: "block_data \<Rightarrow> nat \<Rightarrow> u32 \<Rightarrow> nat \<Rightarrow> u32" where
  "dx_low d e lo i = (if i = 0 then lo else dx_get_hash d e i)"

fun dx_sub :: "dir_env \<Rightarrow> dx_dir \<Rightarrow> nat \<Rightarrow> block_data \<Rightarrow> nat \<Rightarrow> u32 \<Rightarrow> nat \<Rightarrow> (u32 \<times> u32) list" where
  "dx_sub E dir 0 d e lo i = [(dx_low d e lo i, dx_get_block d e i)]"
| "dx_sub E dir (Suc n) d e lo i =
     (case ext4_read_dirblock E dir (dx_get_block d e i) INDEX of
        Inl _ \<Rightarrow> []
      | Inr d' \<Rightarrow> concat (map (dx_sub E dir n d' 8 (dx_low d e lo i)) [0..<dx_get_count d' 8]))"

definition dx_leaves :: "dir_env \<Rightarrow> dx_dir \<Rightarrow> nat \<Rightarrow> block_data \<Rightarrow> nat \<Rightarrow> u32 \<Rightarrow> (u32 \<times> u32) list" where
  "dx_leaves E dir n d e lo = concat (map (dx_sub E dir n d e lo) [0..<dx_get_count d e])"

text \<open>The structure of an index: arrays in bounds and children that can be read.\<close>

definition dx_array_ok :: "block_data \<Rightarrow> nat \<Rightarrow> bool" where
  "dx_array_ok d e = (0 < dx_get_count d e \<and> dx_get_count d e \<le> dx_get_limit d e \<and> e + 8 * dx_get_count d e \<le> length d)"

fun dx_valid :: "dir_env \<Rightarrow> dx_dir \<Rightarrow> nat \<Rightarrow> block_data \<Rightarrow> nat \<Rightarrow> bool" where
  "dx_valid E dir 0 d e = dx_array_ok d e"
| "dx_valid E dir (Suc n) d e =
     (dx_array_ok d e \<and> (\<forall>i < dx_get_count d e.
        case ext4_read_dirblock E dir (dx_get_block d e i) INDEX of
          Inl _ \<Rightarrow> False
        | Inr d' \<Rightarrow> dx_get_limit d' 8 = dx_node_limit dir \<and> dx_valid E dir n d' 8))"

lemma dx_valid_array: "dx_valid E dir n d e \<Longrightarrow> dx_array_ok d e"
  by (cases n) auto

lemma dx_valid_child:
  assumes "dx_valid E dir (Suc n) d e" and "i < dx_get_count d e"
  obtains d' where "ext4_read_dirblock E dir (dx_get_block d e i) INDEX = Inr d'" "dx_get_limit d' 8 = dx_node_limit dir" "dx_valid E dir n d' 8"
proof (cases "ext4_read_dirblock E dir (dx_get_block d e i) INDEX")
  case (Inr d')
  then have "dx_get_limit d' 8 = dx_node_limit dir \<and> dx_valid E dir n d' 8" using assms by fastforce
  then show ?thesis using Inr that by blast
qed (use assms in fastforce)

lemma dx_sub_Suc:
  "ext4_read_dirblock E dir (dx_get_block d e i) INDEX = Inr d' \<Longrightarrow> dx_sub E dir (Suc n) d e lo i = dx_leaves E dir n d' 8 (dx_low d e lo i)"
  by (simp add: dx_leaves_def)

lemma upt_split: "i < n \<Longrightarrow> [0..<n] = [0..<i] @ i # [Suc i..<n]"
  by (metis upt_add_eq_append upt_conv_Cons le_add_diff_inverse less_imp_le zero_le)

lemma dx_leaves_split:
  "i < dx_get_count d e \<Longrightarrow> dx_leaves E dir n d e lo = concat (map (dx_sub E dir n d e lo) [0..<i]) @ dx_sub E dir n d e lo i @
     concat (map (dx_sub E dir n d e lo) [Suc i..<dx_get_count d e])"
  by (simp add: dx_leaves_def upt_split)

text \<open>The part of the sequence below an entry starts with the hash of the entry.\<close>

lemma dx_sub_first:
  assumes "dx_valid E dir n d e" and "i < dx_get_count d e"
  shows "\<exists>b xs. dx_sub E dir n d e lo i = (dx_low d e lo i, b) # xs"
  using assms
proof (induction n arbitrary: d e lo i)
  case (Suc n)
  obtain d' where d': "ext4_read_dirblock E dir (dx_get_block d e i) INDEX = Inr d'" "dx_valid E dir n d' 8"
    using dx_valid_child [OF Suc.prems] by blast
  have c: "0 < dx_get_count d' 8" using dx_valid_array [OF d'(2)] by (simp add: dx_array_ok_def)
  obtain b xs where "dx_sub E dir n d' 8 (dx_low d e lo i) 0 = (dx_low d' 8 (dx_low d e lo i) 0, b) # xs" using Suc.IH [OF d'(2) c] by blast
  then show ?case unfolding dx_sub_Suc [OF d'(1)] dx_leaves_split [OF c] by (simp add: dx_low_def)
qed simp

lemma sorted_lows:
  assumes "dx_valid E dir n d e" and "sorted (map fst (dx_leaves E dir n d e lo))" and "i < j" and "j < dx_get_count d e"
  shows "dx_low d e lo i \<le> dx_get_hash d e j" "\<forall>x \<in> set (dx_sub E dir n d e lo j). dx_get_hash d e j \<le> fst x"
proof -
  obtain b xs where s: "dx_sub E dir n d e lo j = (dx_get_hash d e j, b) # xs"
    using dx_sub_first [OF assms(1,4), of lo] assms(3) by (auto simp: dx_low_def)
  have so: "sorted (map fst (concat (map (dx_sub E dir n d e lo) [0..<j]))) " "sorted (map fst (dx_sub E dir n d e lo j))"
    "\<forall>x \<in> set (concat (map (dx_sub E dir n d e lo) [0..<j])). \<forall>y \<in> set (dx_sub E dir n d e lo j). fst x \<le> fst y"
    using assms(2) unfolding dx_leaves_split [OF assms(4)] by (auto simp: sorted_append)
  show "\<forall>x \<in> set (dx_sub E dir n d e lo j). dx_get_hash d e j \<le> fst x" using so(2) s by auto
  obtain b' ys where i: "dx_sub E dir n d e lo i = (dx_low d e lo i, b') # ys" using dx_sub_first [OF assms(1), of i lo] assms(3,4) by auto
  have "(dx_low d e lo i, b') \<in> set (concat (map (dx_sub E dir n d e lo) [0..<j]))" using i assms(3) by force
  then show "dx_low d e lo i \<le> dx_get_hash d e j" using so(3) s by force
qed

lemma dx_leaves_sorted:
  assumes "dx_valid E dir n d e" and "sorted (map fst (dx_leaves E dir n d e lo))"
  shows "dx_sorted d e"
  unfolding dx_sorted_def sorted_iff_nth_mono_less
  using sorted_lows(1) [OF assms, of "Suc i" "Suc j" for i j] by (auto simp: dx_low_def)

section \<open>Frames as positions in the sequence\<close>

fun fr_rest :: "dir_env \<Rightarrow> dx_dir \<Rightarrow> nat \<Rightarrow> dx_frame list \<Rightarrow> (u32 \<times> u32) list" where
  "fr_rest E dir n [] = []"
| "fr_rest E dir n (f # fs) =
     concat (map (dx_sub E dir n (fr_bh f) (fr_entries f) 0) [Suc (fr_at f)..<dx_get_count (fr_bh f) (fr_entries f)]) @ fr_rest E dir (Suc n) fs"

fun fr_ok :: "dir_env \<Rightarrow> dx_dir \<Rightarrow> nat \<Rightarrow> dx_frame list \<Rightarrow> bool" where
  "fr_ok E dir n [] = True"
| "fr_ok E dir n (f # fs) = (dx_valid E dir n (fr_bh f) (fr_entries f) \<and> fr_at f < dx_get_count (fr_bh f) (fr_entries f) \<and> fr_ok E dir (Suc n) fs)"

definition fr_block :: "dx_frame \<Rightarrow> u32" where
  "fr_block f = dx_get_block (fr_bh f) (fr_entries f) (fr_at f)"

lemma fr_rest_append: "fr_rest E dir n (xs @ ys) = fr_rest E dir n xs @ fr_rest E dir (n + length xs) ys"
  by (induction xs arbitrary: n) auto

lemma fr_ok_append: "fr_ok E dir n (xs @ ys) \<longleftrightarrow> fr_ok E dir n xs \<and> fr_ok E dir (n + length xs) ys"
  by (induction xs arbitrary: n) auto

lemma dx_sub_low:
  assumes "0 < i"
  shows "dx_sub E dir n d e lo i = dx_sub E dir n d e 0 i"
proof -
  have "dx_low d e lo i = dx_low d e 0 i" using assms by (simp add: dx_low_def)
  then show ?thesis by (cases n) (simp_all split: sum.split)
qed

lemma map_dx_sub_low: "map (dx_sub E dir n d e lo) [Suc i..<k] = map (dx_sub E dir n d e 0) [Suc i..<k]"
  by (rule map_cong [OF refl]) (rule dx_sub_low, simp)

text \<open>\<open>dx_probe\<close> finds the last leaf that does not start behind the hash.\<close>

lemma probe_loop_ok:
  assumes "dx_valid E dir n d e" and "sorted (map fst (dx_leaves E dir n d e lo))" and "lo \<le> hash"
  shows "\<exists>fs before l. dx_probe_loop E dir hash n d e frames = Inr (Inr (frames @ fs)) \<and> fs \<noteq> [] \<and> length fs = Suc n \<and> fr_ok E dir 0 (rev fs) \<and>
    dx_leaves E dir n d e lo = before @ (l, fr_block (last fs)) # fr_rest E dir 0 (rev fs) \<and> l \<le> hash \<and>
    (\<forall>x \<in> set (fr_rest E dir 0 (rev fs)). hash < fst x)"
  using assms
proof (induction n arbitrary: d e lo frames)
  case 0
  have a: "0 < dx_get_count d e" "dx_get_count d e \<le> dx_get_limit d e" "e + 8 * dx_get_count d e \<le> length d" "e + 8 \<le> length d"
    using dx_valid_array [OF 0(1)] by (auto simp: dx_array_ok_def)
  obtain r where r: "dx_search d e hash 1 (int (dx_get_count d e) - 1) = Inr (int r + 1)" "r < dx_get_count d e"
    "\<forall>i. 1 \<le> i \<and> i \<le> r \<longrightarrow> dx_get_hash d e i \<le> hash" "\<forall>i. r < i \<and> i < dx_get_count d e \<longrightarrow> hash < dx_get_hash d e i"
    using dx_search_ok [OF dx_leaves_sorted [OF 0(1,2)] a(3,1), of hash] by blast
  let ?f = "\<lparr>fr_bh = d, fr_entries = e, fr_at = r\<rparr>"
  have "dx_probe_loop E dir hash 0 d e frames = Inr (Inr (frames @ [?f]))"
    using a r(1) by (subst dx_probe_loop.simps) (simp add: with_dx_def)
  moreover have "dx_low d e lo r \<le> hash" using r(3) 0(3) by (simp add: dx_low_def)
  moreover have "\<forall>x \<in> set (fr_rest E dir 0 [?f]). hash < fst x" using r(4) by (auto simp: dx_low_def)
  moreover have "dx_leaves E dir 0 d e lo = concat (map (dx_sub E dir 0 d e lo) [0..<r]) @ (dx_low d e lo r, fr_block (last [?f])) # fr_rest E dir 0 (rev [?f])"
    unfolding dx_leaves_split [OF r(2), of E dir 0 lo] map_dx_sub_low [where lo = lo] by (simp add: fr_block_def)
  moreover have "fr_ok E dir 0 (rev [?f])" using r(2) 0(1) by simp
  ultimately show ?case
    by (intro exI [of _ "[?f]"] exI [of _ "concat (map (dx_sub E dir 0 d e lo) [0..<r])"] exI [of _ "dx_low d e lo r"]) simp
next
  case (Suc n)
  have a: "0 < dx_get_count d e" "dx_get_count d e \<le> dx_get_limit d e" "e + 8 * dx_get_count d e \<le> length d" "e + 8 \<le> length d"
    using dx_valid_array [OF Suc(2)] by (auto simp: dx_array_ok_def)
  obtain r where r: "dx_search d e hash 1 (int (dx_get_count d e) - 1) = Inr (int r + 1)" "r < dx_get_count d e"
    "\<forall>i. 1 \<le> i \<and> i \<le> r \<longrightarrow> dx_get_hash d e i \<le> hash" "\<forall>i. r < i \<and> i < dx_get_count d e \<longrightarrow> hash < dx_get_hash d e i"
    using dx_search_ok [OF dx_leaves_sorted [OF Suc(2,3)] a(3,1), of hash] by blast
  obtain d' where d': "ext4_read_dirblock E dir (dx_get_block d e r) INDEX = Inr d'" "dx_get_limit d' 8 = dx_node_limit dir" "dx_valid E dir n d' 8"
    using dx_valid_child [OF Suc(2) r(2)] by blast
  let ?f = "\<lparr>fr_bh = d, fr_entries = e, fr_at = r\<rparr>" and ?L = "dx_leaves E dir n d' 8 (dx_low d e lo r)"
  let ?after = "concat (map (dx_sub E dir (Suc n) d e 0) [Suc r..<dx_get_count d e])"
  note split = dx_leaves_split [OF r(2), of E dir "Suc n" lo, unfolded dx_sub_Suc [OF d'(1)] map_dx_sub_low [where lo = lo]]
  have so: "sorted (map fst ?L)" using Suc(3) unfolding split by (simp add: sorted_append)
  have low: "dx_low d e lo r \<le> hash" using r(3) Suc(4) by (simp add: dx_low_def)
  obtain fs before l where fs: "dx_probe_loop E dir hash n d' 8 (frames @ [?f]) = Inr (Inr ((frames @ [?f]) @ fs))" "fs \<noteq> []" "length fs = Suc n"
    "fr_ok E dir 0 (rev fs)" "?L = before @ (l, fr_block (last fs)) # fr_rest E dir 0 (rev fs)" "l \<le> hash"
    "\<forall>x \<in> set (fr_rest E dir 0 (rev fs)). hash < fst x"
    using Suc.IH [OF d'(3) so low, of "frames @ [?f]"] by blast
  have in8: "8 + 8 \<le> length d'" using dx_valid_array [OF d'(3)] by (auto simp: dx_array_ok_def)
  have loop: "dx_probe_loop E dir hash (Suc n) d e frames = Inr (Inr (frames @ ?f # fs))"
    using a r(1) d' in8 fs(1) by (subst dx_probe_loop.simps) (simp add: with_dx_def)
  have "\<forall>x \<in> set ?after. hash < fst x"
  proof
    fix x assume "x \<in> set ?after"
    then obtain j where j: "r < j" "j < dx_get_count d e" "x \<in> set (dx_sub E dir (Suc n) d e 0 j)" by (auto simp del: dx_sub.simps simp: Suc_le_eq)
    moreover have "dx_sub E dir (Suc n) d e lo j = dx_sub E dir (Suc n) d e 0 j" using j(1) by (intro dx_sub_low) simp
    ultimately have "dx_get_hash d e j \<le> fst x" using sorted_lows(2) [OF Suc(2,3) j(1,2)] by (simp del: dx_sub.simps)
    moreover have "hash < dx_get_hash d e j" using r(4) j(1,2) by simp
    ultimately show "hash < fst x" by simp
  qed
  moreover have seq: "dx_leaves E dir (Suc n) d e lo = (concat (map (dx_sub E dir (Suc n) d e lo) [0..<r]) @ before) @ (l, fr_block (last (?f # fs))) # fr_rest E dir 0 (rev (?f # fs))"
    unfolding split fs(5) using fs(2,3) by (simp add: fr_rest_append del: dx_sub.simps)
  moreover have ok: "fr_ok E dir 0 (rev (?f # fs))" and "fr_rest E dir 0 (rev (?f # fs)) = fr_rest E dir 0 (rev fs) @ ?after"
    using fs(3,4) r(2) Suc(2) by (simp_all add: fr_ok_append fr_rest_append del: dx_sub.simps dx_valid.simps)
  ultimately have "\<forall>x \<in> set (fr_rest E dir 0 (rev (?f # fs))). hash < fst x" "length (?f # fs) = Suc (Suc n)" "?f # fs \<noteq> []"
    using fs(3,7) by (simp_all only: set_append ball_Un simp_thms list.size list.distinct add_Suc_right add_0_right not_False_eq_True)
  then show ?case using loop seq ok fs(6) by blast
qed

text \<open>\<open>ext4_htree_next_block\<close> goes to the next position.\<close>

lemma next_frame_ok:
  assumes "fr_ok E dir n fs"
  shows "case next_frame fs k of
      None \<Rightarrow> fr_rest E dir n fs = []
    | Some (num, fs') \<Rightarrow> \<exists>p fs'' j. fs' = p # fs'' \<and> num = k + j \<and> fr_ok E dir (n + j) (p # fs'') \<and> 0 < fr_at p \<and>
        fr_rest E dir n fs = dx_sub E dir (n + j) (fr_bh p) (fr_entries p) 0 (fr_at p) @ fr_rest E dir (n + j) (p # fs'')"
  using assms
proof (induction fs arbitrary: n k)
  case (Cons f fs)
  let ?c = "dx_get_count (fr_bh f) (fr_entries f)"
  show ?case
  proof (cases "fr_at f + 1 < ?c")
    case True
    then have "[Suc (fr_at f)..<?c] = Suc (fr_at f) # [Suc (Suc (fr_at f))..<?c]" by (simp add: upt_conv_Cons)
    then show ?thesis using True Cons.prems by (auto simp del: dx_sub.simps dx_valid.simps)
  next
    case False
    then have rest: "fr_rest E dir n (f # fs) = fr_rest E dir (Suc n) fs" by simp
    have nf: "next_frame (f # fs) k = next_frame fs (k + 1)" using False by simp
    have "fr_ok E dir (Suc n) fs" using Cons.prems by simp
    note IH = Cons.IH [OF this, of "k + 1"]
    show ?thesis
    proof (cases "next_frame fs (k + 1)")
      case None
      then show ?thesis using IH unfolding nf rest by simp
    next
      case (Some x)
      then obtain p fs'' j where "x = (k + 1 + j, p # fs'')" "fr_ok E dir (Suc n + j) (p # fs'')" "0 < fr_at p"
        "fr_rest E dir (Suc n) fs = dx_sub E dir (Suc n + j) (fr_bh p) (fr_entries p) 0 (fr_at p) @ fr_rest E dir (Suc n + j) (p # fs'')"
        using IH by (cases x) (auto simp del: dx_sub.simps fr_ok.simps fr_rest.simps)
      then show ?thesis using Some unfolding nf rest
        by (auto simp del: dx_sub.simps fr_ok.simps fr_rest.simps intro!: exI [of _ "Suc j"])
    qed
  qed
qed simp

lemma read_frames_ok:
  assumes "fr_ok E dir j (p # fs)"
  shows "\<exists>f' fs' xs. read_frames E dir j (p # fs) = Inr (f' # fs') \<and> fr_ok E dir 0 (f' # fs') \<and>
    dx_sub E dir j (fr_bh p) (fr_entries p) lo (fr_at p) = (dx_low (fr_bh p) (fr_entries p) lo (fr_at p), fr_block f') # xs \<and>
    fr_rest E dir 0 (f' # fs') = xs @ fr_rest E dir j (p # fs)"
  using assms
proof (induction j arbitrary: p fs lo)
  case 0
  then show ?case by (simp add: fr_block_def)
next
  case (Suc j)
  let ?c = "dx_get_count (fr_bh p) (fr_entries p)" and ?lo = "dx_low (fr_bh p) (fr_entries p) lo (fr_at p)"
  have v: "dx_valid E dir (Suc j) (fr_bh p) (fr_entries p)" "fr_at p < ?c" using Suc.prems by simp_all
  obtain d' where d': "ext4_read_dirblock E dir (dx_get_block (fr_bh p) (fr_entries p) (fr_at p)) INDEX = Inr d'" "dx_valid E dir j d' 8"
    using dx_valid_child [OF v] by blast
  have c: "0 < dx_get_count d' 8" using dx_valid_array [OF d'(2)] by (simp add: dx_array_ok_def)
  let ?p = "\<lparr>fr_bh = d', fr_entries = 8, fr_at = 0\<rparr>"
  have "fr_ok E dir j (?p # p # fs)" using d'(2) c Suc.prems by (simp del: dx_valid.simps)
  from Suc.IH [OF this, of ?lo] obtain f' fs' xs where IH: "read_frames E dir j (?p # p # fs) = Inr (f' # fs')" "fr_ok E dir 0 (f' # fs')"
    "dx_sub E dir j d' 8 ?lo 0 = (?lo, fr_block f') # xs" "fr_rest E dir 0 (f' # fs') = xs @ fr_rest E dir j (?p # p # fs)"
    by (auto simp: dx_low_def simp del: dx_sub.simps fr_ok.simps fr_rest.simps)
  have sub: "dx_sub E dir (Suc j) (fr_bh p) (fr_entries p) lo (fr_at p) =
      (?lo, fr_block f') # xs @ concat (map (dx_sub E dir j d' 8 0) [Suc 0..<dx_get_count d' 8])"
    unfolding dx_sub_Suc [OF d'(1)] dx_leaves_split [OF c] IH(3) map_dx_sub_low [where lo = ?lo] by simp
  show ?case unfolding sub using IH(1,2,4) d'(1)
    by (intro exI [of _ f'] exI [of _ fs'] exI [of _ "xs @ concat (map (dx_sub E dir j d' 8 0) [Suc 0..<dx_get_count d' 8])"])
      (simp del: dx_sub.simps fr_ok.simps)
qed

lemma next_block_ok:
  assumes ok: "fr_ok E dir 0 (rev frames)"
  shows "case fr_rest E dir 0 (rev frames) of
      [] \<Rightarrow> \<exists>h fs. ext4_htree_next_block E dir hash frames = Inr (0, h, fs)
    | (l, b) # rest \<Rightarrow>
        (if hash AND 1 = 0 \<and> l AND NOT 1 \<noteq> hash then \<exists>h fs. ext4_htree_next_block E dir hash frames = Inr (0, h, fs)
         else \<exists>fs. ext4_htree_next_block E dir hash frames = Inr (1, Some l, fs) \<and> fs \<noteq> [] \<and> fr_ok E dir 0 (rev fs) \<and>
           fr_block (last fs) = b \<and> fr_rest E dir 0 (rev fs) = rest)"
proof (cases "next_frame (rev frames) 0")
  case None
  then show ?thesis using next_frame_ok [OF ok, of 0] by (simp add: ext4_htree_next_block_def)
next
  case (Some x)
  then obtain p fs j where x: "x = (j, p # fs)" "fr_ok E dir j (p # fs)" "0 < fr_at p"
    and rest: "fr_rest E dir 0 (rev frames) = dx_sub E dir j (fr_bh p) (fr_entries p) 0 (fr_at p) @ fr_rest E dir j (p # fs)"
    using next_frame_ok [OF ok, of 0] by (cases x) (auto simp del: dx_sub.simps fr_ok.simps fr_rest.simps)
  let ?h = "dx_get_hash (fr_bh p) (fr_entries p) (fr_at p)"
  have low: "dx_low (fr_bh p) (fr_entries p) 0 (fr_at p) = ?h" using x(3) by (simp add: dx_low_def)
  obtain f' fs' xs where r: "read_frames E dir j (p # fs) = Inr (f' # fs')" "fr_ok E dir 0 (f' # fs')"
    "dx_sub E dir j (fr_bh p) (fr_entries p) 0 (fr_at p) = (?h, fr_block f') # xs" "fr_rest E dir 0 (f' # fs') = xs @ fr_rest E dir j (p # fs)"
    using read_frames_ok [OF x(2), of 0] unfolding low by blast
  have "dx_valid E dir j (fr_bh p) (fr_entries p)" "fr_at p < dx_get_count (fr_bh p) (fr_entries p)" using x(2) by simp_all
  then have "fr_entries p + 8 * fr_at p + 8 \<le> length (fr_bh p)" using dx_valid_array by (fastforce simp: dx_array_ok_def)
  then show ?thesis unfolding rest r(3) using Some x(1) r(1,2,4)
    by (simp add: ext4_htree_next_block_def with_dx_def Let_def del: fr_ok.simps fr_rest.simps)
qed

section \<open>Searching an indexed directory\<close>

lemma unat_and_not_1: "unat (w AND NOT 1 :: u32) = 2 * (unat w div 2)"
proof -
  have "w AND NOT 1 = push_bit 1 (drop_bit 1 w)"
  proof (rule bit_word_eqI)
    fix n assume "n < LENGTH(32)"
    then show "bit (w AND NOT 1) n = bit (push_bit 1 (drop_bit 1 w)) n"
      unfolding bit_and_iff bit_not_iff bit_1_iff bit_push_bit_iff bit_drop_bit_eq o_def by (cases n) auto
  qed
  then have "w AND NOT 1 = w - w mod 2" using bits_ident [of 1 w] by (simp add: take_bit_eq_mod eq_diff_eq)
  moreover have "w mod 2 \<le> w" by (simp add: word_le_nat_alt unat_mod)
  ultimately have "unat (w AND NOT 1) = unat w - unat w mod 2" by (simp add: unat_sub unat_mod)
  then show ?thesis by (simp add: minus_mod_eq_mult_div)
qed

text \<open>A leaf that starts behind an even hash, and not with its continuation, has no name of that hash.\<close>

lemma behind_hash:
  fixes hash :: u32
  assumes "hash AND 1 = 0" and "hash < l" and "l AND NOT 1 \<noteq> hash" and "l \<le> l'"
  shows "hash < l' AND NOT 1"
proof -
  have "even (unat hash)" using assms(1) by (simp add: and_one_eq word_unat_eq_iff unat_mod even_iff_mod_2_eq_zero)
  moreover have "unat hash < unat l" "unat l \<le> unat l'" using assms(2,4) by (simp_all add: word_less_nat_alt word_le_nat_alt)
  moreover have "2 * (unat l div 2) \<noteq> unat hash" using assms(3) unat_and_not_1 [of l] by (auto simp: word_unat_eq_iff)
  ultimately have "unat hash < 2 * (unat l' div 2)" by presburger
  then show ?thesis unfolding word_less_nat_alt unat_and_not_1 .
qed

text \<open>The names of a leaf have hashes from the one of the leaf, without its mark of a continuation, to below those of all later
  leaves; a name with the hash at which a continuation starts may be in the leaf before it.\<close>

fun in_order :: "(byte list \<Rightarrow> u32) \<Rightarrow> (u32 \<Rightarrow> dirent list) \<Rightarrow> (u32 \<times> u32) list \<Rightarrow> bool" where
  "in_order H es [] = True"
| "in_order H es ((l, b) # ls) =
     ((\<forall>e \<in> set (es b). e_inode e \<noteq> 0 \<longrightarrow> l AND NOT 1 \<le> H (e_name e) \<and> (\<forall>x \<in> set ls. H (e_name e) < fst x)) \<and> in_order H es ls)"

definition leaf_entries :: "(u32 \<Rightarrow> dirent list) \<Rightarrow> (u32 \<times> u32) list \<Rightarrow> dirent list" where
  "leaf_entries es ls = concat (map (\<lambda>x. es (snd x)) ls)"

lemma leaf_entries_simps [simp]:
  "leaf_entries es [] = []" "leaf_entries es (x # ls) = es (snd x) @ leaf_entries es ls"
  "leaf_entries es (ls @ ls') = leaf_entries es ls @ leaf_entries es ls'"
  by (simp_all add: leaf_entries_def)

definition leaf_ok :: "dir_env \<Rightarrow> dx_dir \<Rightarrow> (u32 \<Rightarrow> dirent list) \<Rightarrow> u32 \<Rightarrow> bool" where
  "leaf_ok E dir es b = (ext4_read_dirblock E dir b DIRENT = Inr (dir_bytes (es b)) \<and> dir_ok (s_inodes_count dir) (es b) \<and>
     length (dir_bytes (es b)) = s_blocksize dir)"

lemma in_order_append:
  "in_order H es (xs @ ys) \<Longrightarrow> in_order H es ys \<and> (\<forall>e \<in> set (leaf_entries es xs). e_inode e \<noteq> 0 \<longrightarrow> (\<forall>y \<in> set ys. H (e_name e) < fst y))"
proof (induction xs)
  case (Cons x xs)
  then show ?case by (cases x) (simp add: ball_Un)
qed simp

lemma in_order_low:
  "in_order H es ls \<Longrightarrow> e \<in> set (leaf_entries es ls) \<Longrightarrow> e_inode e \<noteq> 0 \<Longrightarrow> \<exists>x \<in> set ls. fst x AND NOT 1 \<le> H (e_name e)"
  by (induction ls) auto

definition find_spec :: "(u32 \<Rightarrow> dirent list) \<Rightarrow> (u32 \<times> u32) list \<Rightarrow> byte list \<Rightarrow> (int + (u32 \<times> nat) option) res option \<Rightarrow> bool" where
  "find_spec es ls name r =
     (r = Some (Inr (Inr None)) \<and> dir_map (leaf_entries es ls) name = None \<or>
      (\<exists>b off. r = Some (Inr (Inr (Some (b, off)))) \<and> b \<in> snd ` set ls \<and>
         dir_map (leaf_entries es ls) name = Some (de_inode (dir_bytes (es b)) off) \<and>
         load_bytes (dir_bytes (es b)) (off + 8) (de_name_len (dir_bytes (es b)) off) = name))"

lemma find_spec_skip:
  assumes "dir_map (es b) name = None"
  shows "find_spec es ((l, b) # ls) name r \<longleftrightarrow> find_spec es ls name r \<or> (\<exists>off. r = Some (Inr (Inr (Some (b, off)))) \<and>
    dir_map (leaf_entries es ls) name = Some (de_inode (dir_bytes (es b)) off) \<and>
    load_bytes (dir_bytes (es b)) (off + 8) (de_name_len (dir_bytes (es b)) off) = name)"
  using assms unfolding find_spec_def by (simp add: dir_map_append) blast

lemma leaf_search:
  assumes "leaf_ok E dir es b"
  obtains "ext4_search_dir (s_inodes_count dir) (dir_bytes (es b)) (s_blocksize dir) name 0 = Inr (0, None)" "dir_map (es b) name = None" |
    off where "ext4_search_dir (s_inodes_count dir) (dir_bytes (es b)) (s_blocksize dir) name 0 = Inr (1, Some off)"
      "dir_map (es b) name = Some (de_inode (dir_bytes (es b)) off)" "load_bytes (dir_bytes (es b)) (off + 8) (de_name_len (dir_bytes (es b)) off) = name"
  using assms search_dir_map [of "s_inodes_count dir" "es b" name] unfolding leaf_ok_def by metis

text \<open>One round of the search: the entry is in the leaf, or the search goes on with the next one.\<close>

lemma find_leaf:
  assumes "leaf_ok E dir es (fr_block (last frames))"
  shows "dir_map (es (fr_block (last frames))) name = None \<and> dx_find_loop E dir name hash frames =
      (case ext4_htree_next_block E dir hash frames of
         Inl x \<Rightarrow> Some (Inl x)
       | Inr (retval, _, frames) \<Rightarrow>
           if retval < 0 then Some (Inr (Inl retval)) else if retval = 1 then dx_find_loop E dir name hash frames else Some (Inr (Inr None))) \<or>
    find_spec es ((l, fr_block (last frames)) # rest) name (dx_find_loop E dir name hash frames)"
  using assms
proof (cases rule: leaf_search [of _ _ _ _ name])
  case 1
  then show ?thesis using assms by (subst (1 3) dx_find_loop.simps) (simp add: leaf_ok_def fr_block_def Let_def)
next
  case (2 off)
  then have "dx_find_loop E dir name hash frames = Some (Inr (Inr (Some (fr_block (last frames), off))))"
    using assms by (subst dx_find_loop.simps) (simp add: leaf_ok_def fr_block_def Let_def)
  then show ?thesis using 2 by (simp add: find_spec_def dir_map_append)
qed

lemma find_loop_ok:
  assumes "fr_ok E dir 0 (rev frames)" and "frames \<noteq> []" and "fr_rest E dir 0 (rev frames) = rest"
    and "\<forall>x \<in> set ((l, fr_block (last frames)) # rest). leaf_ok E dir es (snd x)" and "in_order H es rest" and "sorted (map fst rest)"
    and "\<forall>x \<in> set rest. H name < fst x" and "H name AND 1 = 0"
  shows "find_spec es ((l, fr_block (last frames)) # rest) name (dx_find_loop E dir name (H name) frames)"
  using assms(1-7)
proof (induction rest arbitrary: frames l)
  case Nil
  let ?b = "fr_block (last frames)"
  have b: "leaf_ok E dir es ?b" using Nil.prems(4) by simp
  obtain h fs where "ext4_htree_next_block E dir (H name) frames = Inr (0, h, fs)"
    using next_block_ok [OF Nil.prems(1), of "H name"] Nil.prems(3) by auto
  then show ?case using find_leaf [OF b, of name "H name" l "[]"] unfolding Nil.prems(3) by (auto simp: find_spec_def)
next
  case (Cons x rest)
  let ?b = "fr_block (last frames)"
  have b: "leaf_ok E dir es ?b" using Cons.prems(4) by simp
  obtain l' b' where x: "x = (l', b')" by (cases x)
  show ?case
  proof (cases "find_spec es ((l, ?b) # x # rest) name (dx_find_loop E dir name (H name) frames)")
    case False
    note none = find_leaf [OF b, of name "H name" l "x # rest"]
    show ?thesis
    proof (cases "l' AND NOT 1 = H name")
      case eq: True
      obtain fs where fs: "ext4_htree_next_block E dir (H name) frames = Inr (1, Some l', fs)" "fs \<noteq> []" "fr_ok E dir 0 (rev fs)"
        "fr_block (last fs) = b'" "fr_rest E dir 0 (rev fs) = rest"
        using next_block_ok [OF Cons.prems(1), of "H name"] Cons.prems(3) x eq by auto
      have "find_spec es ((l', fr_block (last fs)) # rest) name (dx_find_loop E dir name (H name) fs)"
        using Cons.prems fs x by (intro Cons.IH) auto
      then show ?thesis using none False fs(1,4) x by (auto simp: find_spec_skip)
    next
      case ne: False
      obtain h fs where n: "ext4_htree_next_block E dir (H name) frames = Inr (0, h, fs)"
        using next_block_ok [OF Cons.prems(1), of "H name"] Cons.prems(3) x ne assms(8) by auto
      have "\<not> matches name e" if e: "e \<in> set (leaf_entries es (x # rest))" for e
      proof
        assume m: "matches name e"
        then have "e_inode e \<noteq> 0" "e_name e = name" by (simp_all add: matches_def)
        then obtain y where y: "y \<in> set (x # rest)" "fst y AND NOT 1 \<le> H name" using in_order_low [OF Cons.prems(5) e] by blast
        have "l' \<le> fst y" using y(1) Cons.prems(6) x by auto
        moreover have "H name < l'" using Cons.prems(7) x by simp
        ultimately show False using behind_hash [OF assms(8) _ ne] y(2) by (meson not_le)
      qed
      then have "dir_map (leaf_entries es (x # rest)) name = None" by (simp add: dir_map_None)
      then show ?thesis using none False n by (auto simp: find_spec_def dir_map_append)
    qed
  qed simp
qed

text \<open>The hash of a name in a directory, and the directories that are indexed correctly: the header of the first block is as \<open>dx_probe\<close>
  expects it, the index has the structure of a tree, its leaves are ordered and hold the names of their hashes.\<close>

definition dx_name_hash :: "dx_dir \<Rightarrow> block_data \<Rightarrow> byte list \<Rightarrow> u32" where
  "dx_name_hash dir root name =
     hi_hash (probe_hinfo dir root (Some name) \<lparr>hi_hash = 0, hi_minor_hash = 0, hash_version = 0, hi_seed = None\<rparr>)"

definition htree_leaves :: "dir_env \<Rightarrow> dx_dir \<Rightarrow> block_data \<Rightarrow> (u32 \<times> u32) list" where
  "htree_leaves E dir root = dx_leaves E dir (indirect_levels root) root (24 + info_length root) 0"

definition dx_header_ok :: "dx_dir \<Rightarrow> block_data \<Rightarrow> bool" where
  "dx_header_ok dir root =
     (32 \<le> length root \<and> info_hash_version root \<in> {DX_HASH_TEA, DX_HASH_HALF_MD4, DX_HASH_LEGACY} \<and> unused_flags root AND 1 = 0 \<and>
      indirect_levels root < ext4_dir_htree_level dir \<and> dx_get_limit root (24 + info_length root) = dx_root_limit dir (info_length root))"

definition htree_ok :: "dir_env \<Rightarrow> dx_dir \<Rightarrow> block_data \<Rightarrow> (u32 \<Rightarrow> dirent list) \<Rightarrow> bool" where
  "htree_ok E dir root es =
     (ext4_read_dirblock E dir 0 INDEX = Inr root \<and> dx_header_ok dir root \<and>
      dx_valid E dir (indirect_levels root) root (24 + info_length root) \<and> sorted (map fst (htree_leaves E dir root)) \<and>
      (\<forall>x \<in> set (htree_leaves E dir root). leaf_ok E dir es (snd x)) \<and> in_order (dx_name_hash dir root) es (htree_leaves E dir root))"

lemma probe_hinfo_hash: "hi_hash (probe_hinfo dir root (Some name) hinfo) = dx_name_hash dir root name"
  by (simp add: dx_name_hash_def probe_hinfo_def ext4fs_dirhash_def Let_def split_beta split: option.split)

lemma name_hash_even: "dx_name_hash dir root name AND 1 = 0"
  by (simp add: dx_name_hash_def probe_hinfo_def ext4fs_dirhash_def Let_def split_beta and.assoc EOF_value split: option.split)

lemma probe_ok:
  assumes "htree_ok E dir root es"
  obtains fs before l hinfo' where "dx_probe E dir (Some name) hinfo = Inr (Inr fs, hinfo')" "hi_hash hinfo' = dx_name_hash dir root name"
    "fs \<noteq> []" "fr_ok E dir 0 (rev fs)" "htree_leaves E dir root = before @ (l, fr_block (last fs)) # fr_rest E dir 0 (rev fs)"
    "l \<le> dx_name_hash dir root name" "\<forall>x \<in> set (fr_rest E dir 0 (rev fs)). dx_name_hash dir root name < fst x"
proof -
  let ?n = "indirect_levels root" and ?e = "24 + info_length root" and ?h = "dx_name_hash dir root name"
  have ok: "ext4_read_dirblock E dir 0 INDEX = Inr root" "dx_header_ok dir root" "dx_valid E dir ?n root ?e"
    "sorted (map fst (dx_leaves E dir ?n root ?e 0))" using assms by (simp_all add: htree_ok_def htree_leaves_def)
  obtain fs before l where fs: "dx_probe_loop E dir ?h ?n root ?e [] = Inr (Inr ([] @ fs))" "fs \<noteq> []" "fr_ok E dir 0 (rev fs)"
    "dx_leaves E dir ?n root ?e 0 = before @ (l, fr_block (last fs)) # fr_rest E dir 0 (rev fs)" "l \<le> ?h"
    "\<forall>x \<in> set (fr_rest E dir 0 (rev fs)). ?h < fst x"
    using probe_loop_ok [OF ok(3,4), of ?h "[]"] by auto
  have in_root: "?e + 8 \<le> length root" using dx_valid_array [OF ok(3)] by (auto simp: dx_array_ok_def)
  have "dx_probe E dir (Some name) hinfo = Inr (Inr fs, probe_hinfo dir root (Some name) hinfo)"
    using ok(1,2) fs(1) in_root by (simp add: dx_probe_def dx_header_ok_def Let_def with_dx_def probe_hinfo_hash not_le)
  then show ?thesis using that fs(2-) probe_hinfo_hash by (simp add: htree_leaves_def)
qed

text \<open>C24: searching an indexed directory is the lookup in the map from names to inodes that all of its leaves together stand for. On a
  directory that is indexed correctly, with up to three levels of index blocks and with names of equal hashes in any number of
  leaves, \<open>ext4_dx_find_entry\<close> returns; it finds a name exactly if some leaf has it, in a leaf of the directory, and
  the entry at the offset it returns has that name and the inode of the map.\<close>

theorem dx_find_entry_exact:
  assumes "htree_ok E dir root es"
  shows "case ext4_dx_find_entry E dir name hinfo of
      Some (Inr (Inr None)) \<Rightarrow> dir_map (leaf_entries es (htree_leaves E dir root)) name = None
    | Some (Inr (Inr (Some (b, off)))) \<Rightarrow>
        b \<in> snd ` set (htree_leaves E dir root) \<and>
        dir_map (leaf_entries es (htree_leaves E dir root)) name = Some (de_inode (dir_bytes (es b)) off) \<and>
        load_bytes (dir_bytes (es b)) (off + 8) (de_name_len (dir_bytes (es b)) off) = name
    | _ \<Rightarrow> False"
proof -
  let ?h = "dx_name_hash dir root name" and ?H = "dx_name_hash dir root"
  obtain fs before l hinfo' where fs: "dx_probe E dir (Some name) hinfo = Inr (Inr fs, hinfo')" "hi_hash hinfo' = ?h" "fs \<noteq> []" "fr_ok E dir 0 (rev fs)"
    "htree_leaves E dir root = before @ (l, fr_block (last fs)) # fr_rest E dir 0 (rev fs)" "l \<le> ?h"
    "\<forall>x \<in> set (fr_rest E dir 0 (rev fs)). ?h < fst x"
    by (rule probe_ok [OF assms, of name hinfo])
  let ?rest = "fr_rest E dir 0 (rev fs)" and ?cur = "(l, fr_block (last fs))"
  have leaves: "\<forall>x \<in> set (?cur # ?rest). leaf_ok E dir es (snd x)" "sorted (map fst ?rest)" "in_order ?H es (before @ ?cur # ?rest)"
    using assms unfolding htree_ok_def fs(5) by (simp_all add: sorted_append)
  note ord = in_order_append [OF leaves(3)]
  have "in_order ?H es ?rest" using ord by simp
  then have find: "find_spec es (?cur # ?rest) name (dx_find_loop E dir name ?h fs)"
    using find_loop_ok [OF fs(4,3) refl leaves(1), of ?H name] leaves(2) fs(7) name_hash_even by simp
  have "\<not> matches name e" if "e \<in> set (leaf_entries es before)" for e
  proof
    assume "matches name e"
    then have "?h < l" using ord that by (auto simp: matches_def)
    then show False using fs(6) by simp
  qed
  then have "dir_map (leaf_entries es before) name = None" by (simp add: dir_map_None)
  then have "dir_map (leaf_entries es (htree_leaves E dir root)) name = dir_map (leaf_entries es (?cur # ?rest)) name"
    unfolding fs(5) by (simp add: dir_map_append)
  moreover have "ext4_dx_find_entry E dir name hinfo = dx_find_loop E dir name ?h fs" using fs(1,2) by (simp add: ext4_dx_find_entry_def)
  ultimately have "find_spec es (htree_leaves E dir root) name (ext4_dx_find_entry E dir name hinfo)"
    using find unfolding find_spec_def fs(5) by (metis UnCI image_Un set_append)
  then show ?thesis unfolding find_spec_def by (elim disjE exE conjE) simp_all
qed

section \<open>An indexed directory\<close>

definition ex_dx_dir :: dx_dir where
  "ex_dx_dir = \<lparr>s_blocksize = 1024, has_metadata_csum = False, has_largedir = False, s_hash_unsigned = 0, s_hash_seed = [0, 0, 0, 0],
     s_inodes_count = 100, is_dx = True\<rparr>"

definition ex_root :: block_data where
  "ex_root = replicate 28 0 @ [0, 8, 0, 0] @ le_enc 2 124 @ le_enc 2 2 @ le_enc 4 1 @ le_enc 4 3800000000 @ le_enc 4 2 @ replicate 976 0"

definition ex_leaf :: "u32 \<Rightarrow> dirent list" where
  "ex_leaf b = (if b = 1 then [ex_dirent 11 [99] 12, ex_dirent 12 [97, 98] 1012] else [ex_dirent 13 [97] 12, ex_dirent 14 [98] 1012])"

definition ex_dir_env :: dir_env where
  "ex_dir_env = \<lparr>ext4_bread = (\<lambda>b. if b = 0 then Inr (Some ex_root) else if b \<le> 2 then Inr (Some (dir_bytes (ex_leaf b))) else Inr None),
     buffer_verified = (\<lambda>_. False), ext4_dx_csum_verify = (\<lambda>_. True), ext4_dirent_csum_verify = (\<lambda>_. True)\<rparr>"

lemma ex_root_fields:
  "length ex_root = 1024" "info_hash_version ex_root = 0" "info_length ex_root = 8" "indirect_levels ex_root = 0" "unused_flags ex_root = 0"
  "dx_get_limit ex_root 32 = 124" "dx_get_count ex_root 32 = 2" "dx_get_block ex_root 32 0 = 1" "dx_get_block ex_root 32 1 = 2"
  "dx_get_hash ex_root 32 1 = 3800000000"
  by (simp_all add: ex_root_def info_hash_version_def info_length_def indirect_levels_def unused_flags_def dx_get_limit_def dx_get_count_def
      dx_get_block_def dx_get_hash_def load_bytes_def le_dec_enc nth_append)

lemma ex_leaves: "htree_leaves ex_dir_env ex_dx_dir ex_root = [(0, 1), (3800000000, 2)]"
  by (simp add: htree_leaves_def dx_leaves_def ex_root_fields ex_root_fields(9,10) [unfolded One_nat_def] dx_low_def upt_rec)

lemma ex_hashes:
  "dx_name_hash ex_dx_dir ex_root [97] = 3880473570" "dx_name_hash ex_dx_dir ex_root [98] = 3860926912"
  "dx_name_hash ex_dx_dir ex_root [99] = 3766929174" "dx_name_hash ex_dx_dir ex_root [97, 98] = 3658321104"
  unfolding dx_name_hash_def probe_hinfo_def ex_root_fields by code_simp+

lemma ex_leaf_ok:
  assumes "b = 1 \<or> b = 2"
  shows "leaf_ok ex_dir_env ex_dx_dir ex_leaf b"
proof -
  have "dir_ok 100 (ex_leaf b)" "length (dir_bytes (ex_leaf b)) = 1024"
    by (simp_all add: ex_leaf_def ex_dirent_def dir_ok_def de_ok_def e_rec_len_def EXT4_DIR_REC_LEN_def)
  then show ?thesis using assms by (auto simp: leaf_ok_def ext4_read_dirblock_def ex_dir_env_def ex_dx_dir_def Let_def)
qed

lemma ex_htree_ok: "htree_ok ex_dir_env ex_dx_dir ex_root ex_leaf"
proof -
  have "ext4_read_dirblock ex_dir_env ex_dx_dir 0 INDEX = Inr ex_root" by (simp add: ext4_read_dirblock_def ex_dir_env_def ex_dx_dir_def Let_def)
  moreover have "dx_header_ok ex_dx_dir ex_root"
    by (simp add: dx_header_ok_def ex_root_fields ext4_dir_htree_level_def dx_root_limit_def ex_dx_dir_def EXT4_DIR_REC_LEN_def)
  moreover have "in_order (dx_name_hash ex_dx_dir ex_root) ex_leaf [(0, 1), (3800000000, 2)]"
    by (simp add: ex_leaf_def ex_dirent_def e_name_def ex_hashes)
  ultimately show ?thesis by (simp add: htree_ok_def ex_leaves ex_root_fields dx_array_ok_def ex_leaf_ok)
qed

theorem dx_find_entry_exact_witness:
  "\<exists>b off. ext4_dx_find_entry ex_dir_env ex_dx_dir [98] \<lparr>hi_hash = 0, hi_minor_hash = 0, hash_version = 0, hi_seed = None\<rparr> =
     Some (Inr (Inr (Some (b, off)))) \<and> b \<in> {1, 2} \<and> de_inode (dir_bytes (ex_leaf b)) off = 14"
proof -
  have "dir_map (leaf_entries ex_leaf (htree_leaves ex_dir_env ex_dx_dir ex_root)) [98] = Some 14"
    by (simp add: ex_leaves ex_leaf_def ex_dirent_def dir_map_Cons matches_def e_name_def)
  then show ?thesis using dx_find_entry_exact [OF ex_htree_ok, of "[98]" "\<lparr>hi_hash = 0, hi_minor_hash = 0, hash_version = 0, hi_seed = None\<rparr>"]
    by (auto simp: ex_leaves split: option.splits sum.splits)
qed

end
