(* ===== verification/Spec2Isabelle.thy ===== *)
theory Spec2Isabelle
  imports Jbd2_Durable Jbd2_Blist Ext4_EsMap Ext4_Handles Ext4_Hash Ext4_Indirect Ext4_Htree
begin

text \<open>
  A verification development for VMsep, a variant of the journalling layer jbd2 of linux 4.13
  (\<open>src/kernel/fs/jbd2\<close>) in which the commit for one inode leaves the metadata of other inodes to
  the next transaction.

  \<^bold>\<open>The program.\<close> A journal is a circular log of blocks with a superblock. Handles join the running
  transaction (\<open>transaction.c\<close>), get access to buffers, modify them and mark them dirty on behalf of
  an inode. The commit thread (\<open>commit.c\<close>, \<open>journal.c\<close>) locks the running transaction, writes its
  revoke records and metadata buffers to the log and ends with a commit record; buffers whose
  inode is not the one the commit was requested for move to a new transaction. Committed buffers
  stay on checkpoint lists until they are written to their place in the file system
  (\<open>checkpoint.c\<close>), which moves the tail of the log. After a crash the log is scanned and replayed
  (\<open>recovery.c\<close>), skipping the blocks that a later transaction revoked (\<open>revoke.c\<close>).

  \<^bold>\<open>The model.\<close> \<open>Jbd2_Types\<close> has the structures of \<open>include/linux/jbd2.h\<close>: \<open>journal_t\<close>,
  \<open>transaction_t\<close>, \<open>journal_head\<close>, \<open>handle_t\<close> are records of the same names; the record \<open>jstate\<close> extends
  the journal with stores for transactions, journal heads, buffer heads and inodes, the superblocks
  written so far and the blocks written to the log. Pointers are keys of those stores. An operation
  is a function from states to \<open>'a res\<close>: \<open>Inl BUG\<close> is a failed \<open>J_ASSERT\<close>, \<open>Inl UAF\<close> an access to an
  object that is not allocated, \<open>Inl OOPS\<close> a null dereference, and \<open>Inr\<close> the result with the new state.
  Error numbers are results. Operations that may not return have type \<open>'a res option\<close>, where \<open>None\<close>
  is not returning. Code outside \<open>src/\<close> is the parameter \<open>env\<close> (checksums, buffer cache, devices,
  memory allocation), and what other threads do while an operation sleeps is the parameter \<open>K\<close>.
  Locks are left out: an operation runs alone between two points where it sleeps.

  \<^item> \<open>Jbd2_Prelude\<close>: results, the weakest-precondition rules \<open>wp\<close>, bytes and their encoding.
  \<^item> \<open>Jbd2_Tid\<close>: the wrapping order \<open>tid_gt\<close>, \<open>tid_geq\<close> of transaction identifiers.
  \<^item> \<open>Jbd2_Log\<close>: commit requests, aborts, superblock writes, log blocks, the log tail, reset.
  \<^item> \<open>Jbd2_Revoke\<close>: the revoke tables and writing revoke records.
  \<^item> \<open>Jbd2_Recovery\<close>: block formats, the passes of recovery.
  \<^item> \<open>Jbd2_Buffers\<close>: journal heads and the buffer lists of transactions.
  \<^item> \<open>Jbd2_Checkpoint\<close>: checkpoint lists, log space, waiting for commits.
  \<^item> \<open>Jbd2_Super\<close>: the superblock, features, loading and wiping.
  \<^item> \<open>Jbd2_Transaction\<close>: handles, credits, buffer access, dirtying metadata, revoking, truncation.
  \<^item> \<open>Jbd2_Commit\<close>: the commit, phase by phase, and the commit thread.
  \<^item> \<open>Jbd2_Journal\<close>: forcing commits, flushing and destroying a journal.

  \<^item> \<open>Ext4_Es\<close>: the extent status tree of \<open>src/kernel/fs/ext4/extents_status.c\<close>, the cache in which ext4
    keeps the mapping of the blocks of its inodes. Its state is the record \<open>es_state\<close> of its own: the
    nodes as a store of \<open>extent_status\<close>, for every inode a tree of node pointers that has the shape of
    the links of the red-black tree, and the list of the shrinker. The library of red-black trees, which
    is outside of \<open>src/\<close>, memory allocation and the locks of other inodes are the parameter \<open>es_env\<close>.

  \<^item> \<open>Ext4_Journal\<close>: the interface of ext4 to the journal, \<open>ext4_jbd2.c\<close> and \<open>ext4_jbd2.h\<close>, and the handling of
    errors in \<open>super.c\<close>. The record \<open>ext4_state\<close> has the journal as its field \<open>jst\<close>, and the handle of the
    current task.
  \<^item> \<open>Ext4_Fsync\<close>: syncing files and file systems (\<open>fsync.c\<close>, \<open>super.c\<close>) and the inodes of virtual machines
    (\<open>sysfs.c\<close>).
  \<^item> \<open>Ext4_Groups\<close>, \<open>Ext4_Validity\<close>: the layout of the block groups (\<open>balloc.c\<close>, the record \<open>ext4_sb\<close>) and the system zones
    (\<open>block_validity.c\<close>), the tree of the blocks that hold metadata.
  \<^item> \<open>Ext4_Indirect\<close>: looking up blocks through indirect blocks (\<open>indirect.c\<close>).
  \<^item> \<open>Ext4_Hash\<close>, \<open>Ext4_Dir\<close>, \<open>Ext4_Htree\<close>: the hash of a name (\<open>hash.c\<close>), the entries of a directory block (\<open>namei.c\<close>, \<open>dir.c\<close>) and
    the index of a directory (\<open>namei.c\<close>). Words have the width of the source, and a block is a list of bytes.

  \<^bold>\<open>The theorems.\<close>

  \<^item> \<open>Jbd2_Log\<close>: blocks taken from the log are unused and distinct, moving the tail frees exactly the
    blocks before it and only after the superblock is written, a reset starts with an empty log, and a
    second commit request does not change the inode of the first.
  \<^item> \<open>Jbd2_Transaction\<close>: when credits are granted at once, which includes a log so full that
    \<open>jbd2_log_space_left\<close> wraps round.
  \<^item> \<open>Jbd2_Revoke\<close>: the hash tables implement a map from blocks to the latest revoking transaction
    (the locale \<open>revoke_store\<close>, interpreted on the tables); scanning, cancelling, initialising.
  \<^item> \<open>Jbd2_Lists\<close>: the invariants \<open>lists_wf\<close> of the buffer lists and \<open>refs_wf\<close> of the reference counts, which
    filing and refiling keep.
  \<^item> \<open>Jbd2_Blist\<close>: the circular lists linked through the journal heads refine the lists of the model.
  \<^item> \<open>Jbd2_Replay\<close>: recovery of a log with complete transactions writes exactly the blocks that are
    not revoked; recovery of a log full of revoke blocks does not return.
  \<^item> \<open>Jbd2_LogWrite\<close>: the revoke records a commit writes are read back as they are.
  \<^item> \<open>Jbd2_Separate\<close>: how a buffer of another inode moves to the running transaction, when that
    accesses freed memory, and that no commit gets past the allocation of that transaction.
  \<^item> \<open>Jbd2_CommitLog\<close>, \<open>Jbd2_CommitReplay\<close>: the loop over the metadata buffers terminates and writes
    descriptors and data that recovery reads back; the whole of what a commit logs is one
    transaction of \<open>Jbd2_Replay\<close>. This is about the phases that write, taken on their own, under the hypothesis
    \<open>commit_ready\<close> and with the last metadata buffer one of the inode of the commit; buffers of other inodes at the end of the list keep it from being
    submitted.
  \<^item> \<open>Jbd2_Durable\<close>: the disk as a list of complete transactions, to which a commit appends one. Recovery
    after the phases that write replays it, and recovery after a crash in the middle of them replays nothing
    of it, under the same hypotheses.

  \<^item> \<open>Ext4_EsList\<close>, \<open>Ext4_EsTree\<close>, \<open>Ext4_EsInsert\<close>, \<open>Ext4_EsShrink\<close>, \<open>Ext4_EsRemove\<close>, \<open>Ext4_EsMap\<close>: the invariant of the
    extent status trees and the map from blocks to their state that they stand for. Insertion,
    removal and lookup are the update, removal and lookup of that map, and memory pressure makes them
    forget blocks but no delayed ones. The hypothesis \<open>rb_ok\<close> has what the library of red-black trees
    is documented to do: it keeps the order of the nodes and steps through it.

  \<^item> \<open>Ext4_Fsync\<close>, \<open>Ext4_Handles\<close>: which metadata the commit that an \<open>fsync\<close> requests will log, for a file of a
    virtual machine and for another file; a buffer belongs to the inode that dirtied it first; freed metadata
    is revoked; an aborted file system starts no handle; syncing parents terminates.

  \<^item> \<open>Ext4_Groups\<close>, \<open>Ext4_Validity\<close>: which groups have copies of the superblock, blocks and groups are inverse to each other,
    the tree of zones is a set of blocks, and after its setup a range of blocks is valid exactly if it has none of the
    metadata that is tracked.
  \<^item> \<open>Ext4_Indirect\<close>: the path of a block is unique and in bounds; a lookup returns what the path leads to, with a run of
    blocks that are contiguous; the length of a hole below a missing pointer is counted from the start of the subtree, so that a hole can
    contain mapped blocks.
  \<^item> \<open>Ext4_Hash\<close>: hashes are even and no mark of the end; signed and unsigned versions agree on ASCII names.
  \<^item> \<open>Ext4_Dir\<close>: a block of valid entries is a map from names to inodes; searching, adding and deleting are the lookup, the update
    and the removal in that map; when the last entry is damaged the search can read outside of the block.
  \<^item> \<open>Ext4_Htree\<close>: the binary search of the index finds what its linear cross check finds. An index is a sequence of leaves
    that are ordered by their hashes, frames are positions in it, and searching for a name is the lookup in the
    map of all leaves, collisions of hashes included.

  \<^bold>\<open>Not modelled.\<close> Tracing, statistics, the callbacks of the file system, the creation of slab caches
  and proc files. Of ext4 (\<open>src/kernel/fs/ext4\<close>) the allocators, extents, extended attributes, mounting, and the files that
  consist of calls of the page cache and the VFS.
\<close>

end
